(* ===== verification/Rust_Prelude.thy ===== *)
theory Rust_Prelude
  imports Main "HOL-Library.Word"
begin

text \<open>
  What every component shares: the result of a Rust computation that may panic, checked
  reads and writes of vectors and arrays, the machine integers by name, and the collections
  of facts the component proofs use.

  A function of the program that can panic (\<open>assert!\<close>, \<open>expect\<close>, \<open>unreachable!\<close>, an index
  out of bounds) is modelled by a function into \<open>'a outcome\<close>; a function that returns
  \<open>Result\<close> keeps its error as \<open>Inl\<close> of a sum; \<open>Option\<close> stays \<open>option\<close>.
\<close>

section \<open>Panics\<close>

datatype 'a outcome = Ret 'a | Panic string

fun bind_outcome :: "'a outcome \<Rightarrow> ('a \<Rightarrow> 'b outcome) \<Rightarrow> 'b outcome" where
  "bind_outcome (Ret x) f = f x"
| "bind_outcome (Panic m) f = Panic m"

fun map_outcome :: "('a \<Rightarrow> 'b) \<Rightarrow> 'a outcome \<Rightarrow> 'b outcome" where
  "map_outcome f (Ret x) = Ret (f x)"
| "map_outcome f (Panic m) = Panic m"

definition assert_that :: "bool \<Rightarrow> string \<Rightarrow> unit outcome" where
  "assert_that b m = (if b then Ret () else Panic m)"

fun expect :: "'a option \<Rightarrow> string \<Rightarrow> 'a outcome" where
  "expect (Some x) m = Ret x"
| "expect None m = Panic m"

definition no_panic :: "'a outcome \<Rightarrow> bool" where
  "no_panic r \<longleftrightarrow> (\<exists>x. r = Ret x)"

named_theorems outcome_simps \<open>rewriting of panicking computations\<close>
named_theorems model_defs \<open>definitions of the model that proofs unfold\<close>

lemma bind_outcome_Ret [outcome_simps]:
  "bind_outcome m f = Ret y \<longleftrightarrow> (\<exists>x. m = Ret x \<and> f x = Ret y)"
  by (cases m) auto

lemma bind_outcome_Panic [outcome_simps]:
  "bind_outcome m f = Panic e \<longleftrightarrow> m = Panic e \<or> (\<exists>x. m = Ret x \<and> f x = Panic e)"
  by (cases m) auto

lemma bind_outcome_right [simp]: "bind_outcome m Ret = m"
  by (cases m) auto

lemma bind_outcome_assoc:
  "bind_outcome (bind_outcome m f) g = bind_outcome m (\<lambda>x. bind_outcome (f x) g)"
  by (cases m) auto

lemma map_outcome_Ret [outcome_simps]:
  "map_outcome f m = Ret y \<longleftrightarrow> (\<exists>x. m = Ret x \<and> y = f x)"
  by (cases m) auto

lemma assert_that_Ret [outcome_simps]: "assert_that b m = Ret u \<longleftrightarrow> b"
  by (auto simp: assert_that_def)

lemma assert_that_True [simp]: "assert_that True m = Ret ()"
  by (simp add: assert_that_def)

lemma assert_that_False [simp]: "assert_that False m = Panic m"
  by (simp add: assert_that_def)

lemma expect_Ret [outcome_simps]: "expect x m = Ret y \<longleftrightarrow> x = Some y"
  by (cases x) auto

lemma no_panic_Ret [simp]: "no_panic (Ret x)"
  by (simp add: no_panic_def)

lemma no_panic_Panic [simp]: "\<not> no_panic (Panic m)"
  by (simp add: no_panic_def)

lemma no_panic_bind [intro]:
  "no_panic m \<Longrightarrow> (\<And>x. m = Ret x \<Longrightarrow> no_panic (f x)) \<Longrightarrow> no_panic (bind_outcome m f)"
  by (cases m) auto

lemma no_panic_map [simp]: "no_panic (map_outcome f m) = no_panic m"
  by (cases m) auto

lemma no_panicE: "no_panic m \<Longrightarrow> (\<And>x. m = Ret x \<Longrightarrow> thesis) \<Longrightarrow> thesis"
  by (auto simp: no_panic_def)

section \<open>Vectors and arrays\<close>

text \<open>Indexing a \<open>Vec\<close>, a slice or an array panics outside its bounds.\<close>

definition index :: "'a list \<Rightarrow> nat \<Rightarrow> 'a outcome" where
  "index xs i = (if i < length xs then Ret (xs ! i) else Panic ''index out of bounds'')"

definition index_update :: "'a list \<Rightarrow> nat \<Rightarrow> 'a \<Rightarrow> 'a list outcome" where
  "index_update xs i x =
     (if i < length xs then Ret (xs[i := x]) else Panic ''index out of bounds'')"

text \<open>\<open>slice.get(i)\<close> answers \<open>None\<close> instead.\<close>

definition get_at :: "'a list \<Rightarrow> nat \<Rightarrow> 'a option" where
  "get_at xs i = (if i < length xs then Some (xs ! i) else None)"

lemma index_Ret [outcome_simps]: "index xs i = Ret x \<longleftrightarrow> i < length xs \<and> x = xs ! i"
  by (auto simp: index_def)

lemma index_in [simp]: "i < length xs \<Longrightarrow> index xs i = Ret (xs ! i)"
  by (simp add: index_def)

lemma index_update_Ret [outcome_simps]:
  "index_update xs i x = Ret ys \<longleftrightarrow> i < length xs \<and> ys = xs[i := x]"
  by (auto simp: index_update_def)

lemma index_update_in [simp]: "i < length xs \<Longrightarrow> index_update xs i x = Ret (xs[i := x])"
  by (simp add: index_update_def)

lemma get_at_Some: "get_at xs i = Some x \<longleftrightarrow> i < length xs \<and> x = xs ! i"
  by (auto simp: get_at_def)

section \<open>Machine integers\<close>

type_synonym u8 = "8 word"
type_synonym u32 = "32 word"
type_synonym u64 = "64 word"

lemma unat_of_nat_u8: "n < 256 \<Longrightarrow> unat (word_of_nat n :: u8) = n"
  by (simp add: unat_of_nat take_bit_nat_eq_self_iff)

lemma unat_of_nat_u32: "n < 4294967296 \<Longrightarrow> unat (word_of_nat n :: u32) = n"
  by (simp add: unat_of_nat take_bit_nat_eq_self_iff)

lemma unat_of_nat_u64: "n < 18446744073709551616 \<Longrightarrow> unat (word_of_nat n :: u64) = n"
  by (simp add: unat_of_nat take_bit_nat_eq_self_iff)

section \<open>Options and results\<close>

fun ok_or :: "'e \<Rightarrow> 'a option \<Rightarrow> 'e + 'a" where
  "ok_or e None = Inl e"
| "ok_or e (Some x) = Inr x"

fun bind_result :: "'e + 'a \<Rightarrow> ('a \<Rightarrow> 'e + 'b) \<Rightarrow> 'e + 'b" where
  "bind_result (Inl e) f = Inl e"
| "bind_result (Inr x) f = f x"

lemma bind_result_Inr [outcome_simps]:
  "bind_result m f = Inr y \<longleftrightarrow> (\<exists>x. m = Inr x \<and> f x = Inr y)"
  by (cases m) auto

lemma bind_result_Inl [outcome_simps]:
  "bind_result m f = Inl e \<longleftrightarrow> m = Inl e \<or> (\<exists>x. m = Inr x \<and> f x = Inl e)"
  by (cases m) auto

lemma ok_or_Inr [outcome_simps]: "ok_or e x = Inr y \<longleftrightarrow> x = Some y"
  by (cases x) auto

end
