(* ===== verification/Rust_Str.thy ===== *)
theory Rust_Str
  imports Rust_Prelude "HOL-Library.Sublist"
begin

text \<open>
  The part of Rust's text library the program uses. A \<open>&str\<close>, a \<open>String\<close> and a byte slice
  are all a \<open>string\<close> of bytes (a HOL \<open>char\<close> is one byte), so lengths and positions count bytes
  as they do in Rust; \<open>utf8_valid\<close> is what makes such a sequence a \<open>str\<close>.
\<close>

abbreviation byte :: "char \<Rightarrow> nat" where
  "byte c \<equiv> of_char c"

section \<open>ASCII letters and digits\<close>

definition ascii_lower :: "char \<Rightarrow> char" where
  "ascii_lower c = (if 65 \<le> byte c \<and> byte c \<le> 90 then char_of (byte c + 32) else c)"

definition ascii_upper :: "char \<Rightarrow> char" where
  "ascii_upper c = (if 97 \<le> byte c \<and> byte c \<le> 122 then char_of (byte c - 32) else c)"

definition to_ascii_lowercase :: "string \<Rightarrow> string" where
  "to_ascii_lowercase s = map ascii_lower s"

definition to_ascii_uppercase :: "string \<Rightarrow> string" where
  "to_ascii_uppercase s = map ascii_upper s"

definition eq_ignore_ascii_case :: "string \<Rightarrow> string \<Rightarrow> bool" where
  "eq_ignore_ascii_case a b \<longleftrightarrow> to_ascii_lowercase a = to_ascii_lowercase b"

definition is_ascii_digit :: "char \<Rightarrow> bool" where
  "is_ascii_digit c \<longleftrightarrow> 48 \<le> byte c \<and> byte c \<le> 57"

definition is_ascii_alphabetic :: "char \<Rightarrow> bool" where
  "is_ascii_alphabetic c \<longleftrightarrow>
     65 \<le> byte c \<and> byte c \<le> 90 \<or> 97 \<le> byte c \<and> byte c \<le> 122"

definition is_ascii_alphanumeric :: "char \<Rightarrow> bool" where
  "is_ascii_alphanumeric c \<longleftrightarrow> is_ascii_alphabetic c \<or> is_ascii_digit c"

lemma byte_less [simp]: "byte c < 256"
  by (metis of_char_of nat_of_char_less_256)

lemma char_of_byte [simp]: "char_of (byte c) = c"
  by simp

section \<open>Searching and splitting\<close>

definition starts_with :: "string \<Rightarrow> string \<Rightarrow> bool" where
  "starts_with s p \<longleftrightarrow> take (length p) s = p"

definition ends_with :: "string \<Rightarrow> string \<Rightarrow> bool" where
  "ends_with s p \<longleftrightarrow> length p \<le> length s \<and> drop (length s - length p) s = p"

definition contains_char :: "string \<Rightarrow> char \<Rightarrow> bool" where
  "contains_char s c \<longleftrightarrow> c \<in> set s"

definition strip_prefix :: "string \<Rightarrow> string \<Rightarrow> string option" where
  "strip_prefix s p = (if starts_with s p then Some (drop (length p) s) else None)"

definition strip_suffix :: "string \<Rightarrow> string \<Rightarrow> string option" where
  "strip_suffix s p = (if ends_with s p then Some (take (length s - length p) s) else None)"

text \<open>\<open>s.split(c)\<close>: the pieces between the separators, at least one.\<close>

fun str_split :: "char \<Rightarrow> string \<Rightarrow> string list" where
  "str_split c [] = [[]]"
| "str_split c (x # xs) =
     (if x = c then [] # str_split c xs
      else (case str_split c xs of p # ps \<Rightarrow> (x # p) # ps | [] \<Rightarrow> [[x]]))"

fun split_once :: "char \<Rightarrow> string \<Rightarrow> (string \<times> string) option" where
  "split_once c [] = None"
| "split_once c (x # xs) =
     (if x = c then Some ([], xs)
      else map_option (\<lambda>(a, b). (x # a, b)) (split_once c xs))"

fun str_join :: "string \<Rightarrow> string list \<Rightarrow> string" where
  "str_join sep [] = []"
| "str_join sep [x] = x"
| "str_join sep (x # y # ys) = x @ sep @ str_join sep (y # ys)"

definition replace_char :: "char \<Rightarrow> string \<Rightarrow> string \<Rightarrow> string" where
  "replace_char c r s = concat (map (\<lambda>x. if x = c then r else [x]) s)"

lemma str_split_nonempty [simp]: "str_split c s \<noteq> []"
  by (induction s) (auto split: list.splits)

lemma str_split_join: "str_join [c] (str_split c s) = s"
proof (induction s)
  case (Cons x xs)
  obtain p ps where p: "str_split c xs = p # ps"
    using str_split_nonempty by (meson neq_Nil_conv)
  then show ?case
    using Cons.IH by (cases ps) auto
qed simp

lemma str_split_pieces: "p \<in> set (str_split c s) \<Longrightarrow> c \<notin> set p"
proof (induction s arbitrary: p)
  case (Cons x xs)
  then show ?case
    by (auto split: if_splits list.splits)
qed simp

lemma split_once_Some:
  "split_once c s = Some (a, b) \<longleftrightarrow> s = a @ c # b \<and> c \<notin> set a"
proof (induction s arbitrary: a)
  case (Cons x xs)
  show ?case
    by (cases a) (auto simp: Cons.IH split: prod.splits)
qed simp

lemma split_once_None: "split_once c s = None \<longleftrightarrow> c \<notin> set s"
  by (induction s) auto

section \<open>Trimming\<close>

text \<open>
  \<open>str::trim\<close> removes characters with the Unicode property \<open>White_Space\<close>, listed here by
  their UTF-8 encodings.
\<close>

definition white_space :: "string list" where
  "white_space =
     map (map char_of)
       ([[9], [10], [11], [12], [13], [32], [194, 133], [194, 160], [225, 154, 128],
         [226, 128, 128], [226, 128, 129], [226, 128, 130], [226, 128, 131],
         [226, 128, 132], [226, 128, 133], [226, 128, 134], [226, 128, 135],
         [226, 128, 136], [226, 128, 137], [226, 128, 138], [226, 128, 168],
         [226, 128, 169], [226, 128, 175], [226, 129, 159], [227, 128, 128]] :: nat list list)"

lemma white_space_nonempty: "w \<in> set white_space \<Longrightarrow> w \<noteq> []"
  by (auto simp: white_space_def)

function trim_start :: "string \<Rightarrow> string" where
  "trim_start s =
     (case find (\<lambda>w. starts_with s w) white_space of
        None \<Rightarrow> s
      | Some w \<Rightarrow> trim_start (drop (length w) s))"
  by pat_completeness auto
termination
proof (relation "measure length")
  fix s w
  assume "find (\<lambda>w. starts_with s w) white_space = Some w"
  then have "w \<in> set white_space" "starts_with s w"
    by (auto simp: find_Some_iff)
  then have "0 < length w" "length w \<le> length s"
    using white_space_nonempty[of w] by (auto simp: starts_with_def dest: arg_cong[of _ _ length])
  then show "(drop (length w) s, s) \<in> measure length"
    by (simp del: length_greater_0_conv)
qed simp

function trim_end :: "string \<Rightarrow> string" where
  "trim_end s =
     (case find (\<lambda>w. ends_with s w) white_space of
        None \<Rightarrow> s
      | Some w \<Rightarrow> trim_end (take (length s - length w) s))"
  by pat_completeness auto
termination
proof (relation "measure length")
  fix s w
  assume "find (\<lambda>w. ends_with s w) white_space = Some w"
  then have "w \<in> set white_space" "ends_with s w"
    by (auto simp: find_Some_iff)
  then have "0 < length w" "length w \<le> length s"
    using white_space_nonempty by (auto simp: ends_with_def)
  then show "(take (length s - length w) s, s) \<in> measure length"
    by (simp del: length_greater_0_conv)
qed simp

declare trim_start.simps [simp del] trim_end.simps [simp del]

definition trim :: "string \<Rightarrow> string" where
  "trim s = trim_end (trim_start s)"

text \<open>\<open>s.trim_end_matches(c)\<close> and \<open>s.trim_matches(c)\<close> for one character.\<close>

definition trim_start_char :: "char \<Rightarrow> string \<Rightarrow> string" where
  "trim_start_char c s = dropWhile (\<lambda>x. x = c) s"

definition trim_end_char :: "char \<Rightarrow> string \<Rightarrow> string" where
  "trim_end_char c s = rev (dropWhile (\<lambda>x. x = c) (rev s))"

definition trim_char :: "char \<Rightarrow> string \<Rightarrow> string" where
  "trim_char c s = trim_end_char c (trim_start_char c s)"

lemma trim_end_char_append: "\<exists>t. s = trim_end_char c s @ t \<and> set t \<subseteq> {c}"
proof -
  let ?t = "takeWhile (\<lambda>x. x = c) (rev s)"
  have "rev s = ?t @ dropWhile (\<lambda>x. x = c) (rev s)"
    by simp
  then have "s = rev (dropWhile (\<lambda>x. x = c) (rev s)) @ rev ?t"
    by (metis rev_append rev_rev_ident)
  moreover have "set (rev ?t) \<subseteq> {c}"
    by (auto dest: set_takeWhileD)
  ultimately show ?thesis
    unfolding trim_end_char_def by blast
qed

lemma trim_end_char_last: "trim_end_char c s \<noteq> [] \<Longrightarrow> last (trim_end_char c s) \<noteq> c"
  using hd_dropWhile[of "\<lambda>x. x = c" "rev s"] by (simp add: trim_end_char_def last_rev)

lemma trim_end_char_id: "s = [] \<or> last s \<noteq> c \<Longrightarrow> trim_end_char c s = s"
  by (cases s rule: rev_cases) (auto simp: trim_end_char_def)

lemma trim_end_char_idem [simp]: "trim_end_char c (trim_end_char c s) = trim_end_char c s"
  using trim_end_char_id trim_end_char_last by blast

lemma trim_end_char_snoc [simp]: "trim_end_char c (s @ [c]) = trim_end_char c s"
  by (simp add: trim_end_char_def)

lemma trim_end_char_Nil [simp]: "trim_end_char c [] = []"
  by (simp add: trim_end_char_def)

text \<open>A text between two printable ASCII characters is left alone.\<close>

lemma trim_plain:
  assumes "s \<noteq> []" "32 < byte (hd s)" "byte (hd s) < 127" "32 < byte (last s)" "byte (last s) < 127"
  shows "trim s = s"
proof -
  have "\<not> starts_with s w" if "w \<in> set white_space" for w
    using that assms(1-3) by (cases s) (auto simp: white_space_def starts_with_def)
  then have "find (\<lambda>w. starts_with s w) white_space = None"
    by (auto simp: find_None_iff)
  then have "trim_start s = s"
    by (subst trim_start.simps) simp
  moreover have "\<not> ends_with s w" if "w \<in> set white_space" for w
    using that assms(1,4,5) by (cases s rule: rev_cases) (auto simp: white_space_def ends_with_def Suc_diff_le)
  then have "find (\<lambda>w. ends_with s w) white_space = None"
    by (auto simp: find_None_iff)
  then have "trim_end s = s"
    by (subst trim_end.simps) simp
  ultimately show ?thesis
    by (simp add: trim_def)
qed

section \<open>Numbers as text\<close>

definition digit :: "nat \<Rightarrow> char" where
  "digit d = char_of (48 + d)"

fun dec :: "nat \<Rightarrow> string" where
  "dec n = (if n < 10 then [digit n] else dec (n div 10) @ [digit (n mod 10)])"

declare dec.simps [simp del]

definition hex_digit :: "nat \<Rightarrow> char" where
  "hex_digit d = char_of (if d < 10 then 48 + d else 87 + d)"

text \<open>\<open>{:x}\<close>: lower case, no leading zeros.\<close>

fun lower_hex :: "nat \<Rightarrow> string" where
  "lower_hex n =
     (if n < 16 then [hex_digit n] else lower_hex (n div 16) @ [hex_digit (n mod 16)])"

declare lower_hex.simps [simp del]

text \<open>\<open>str::parse\<close> for an unsigned type with the given largest value.\<close>

fun parse_digits :: "nat \<Rightarrow> string \<Rightarrow> nat option" where
  "parse_digits acc [] = Some acc"
| "parse_digits acc (c # s) =
     (if is_ascii_digit c then parse_digits (10 * acc + (byte c - 48)) s else None)"

definition parse_unsigned :: "nat \<Rightarrow> string \<Rightarrow> nat option" where
  "parse_unsigned largest s =
     (let d = (case s of [] \<Rightarrow> [] | c # r \<Rightarrow> if c = CHR ''+'' then r else s)
      in if d = [] then None
         else (case parse_digits 0 d of
                 None \<Rightarrow> None
               | Some n \<Rightarrow> if n \<le> largest then Some n else None))"

definition usize_max :: nat where
  "usize_max = 18446744073709551615"

lemma parse_digits_append:
  "parse_digits a (s @ t) = (case parse_digits a s of None \<Rightarrow> None | Some b \<Rightarrow> parse_digits b t)"
  by (induction s arbitrary: a) auto

lemma digit_is_digit: "d < 10 \<Longrightarrow> is_ascii_digit (digit d)"
  by (simp add: is_ascii_digit_def digit_def)

lemma byte_digit: "d < 10 \<Longrightarrow> byte (digit d) = 48 + d"
  by (simp add: digit_def)

lemma parse_digits_dec: "parse_digits 0 (dec n) = Some n"
proof (induction n rule: dec.induct)
  case (1 n)
  show ?case
  proof (cases "n < 10")
    case True
    then show ?thesis
      by (subst dec.simps) (simp add: digit_is_digit byte_digit)
  next
    case False
    then have "parse_digits 0 (dec (n div 10)) = Some (n div 10)"
      by (rule "1.IH")
    then show ?thesis using False
      by (subst dec.simps) (simp add: parse_digits_append digit_is_digit byte_digit)
  qed
qed

lemma dec_digits: "c \<in> set (dec n) \<Longrightarrow> is_ascii_digit c"
proof (induction n rule: dec.induct)
  case (1 n)
  show ?case
  proof (cases "n < 10")
    case True
    then show ?thesis using "1.prems"
      by (subst (asm) dec.simps) (simp add: digit_is_digit)
  next
    case False
    with "1.prems" have "c \<in> set (dec (n div 10)) \<or> c = digit (n mod 10)"
      by (subst (asm) dec.simps) auto
    then show ?thesis
      using "1.IH" False digit_is_digit[of "n mod 10"] by auto
  qed
qed

lemma dec_nonempty [simp]: "dec n \<noteq> []"
  by (subst dec.simps) simp

text \<open>What \<open>to_string\<close> writes, \<open>parse\<close> reads back.\<close>

lemma parse_unsigned_dec: "n \<le> m \<Longrightarrow> parse_unsigned m (dec n) = Some n"
proof -
  assume "n \<le> m"
  obtain c r where cr: "dec n = c # r"
    using dec_nonempty by (meson neq_Nil_conv)
  then have "is_ascii_digit c"
    using dec_digits by (metis list.set_intros(1))
  then have "c \<noteq> CHR ''+''"
    by (auto simp: is_ascii_digit_def)
  with cr \<open>n \<le> m\<close> parse_digits_dec[of n] show ?thesis
    by (simp add: parse_unsigned_def)
qed

section \<open>UTF-8\<close>

definition is_cont :: "char \<Rightarrow> bool" where
  "is_cont c \<longleftrightarrow> 128 \<le> byte c \<and> byte c < 192"

text \<open>The second byte of a three- or four-byte sequence, by its first (no overlong forms, no
  surrogates, nothing above U+10FFFF).\<close>

definition second_ok :: "nat \<Rightarrow> char \<Rightarrow> bool" where
  "second_ok n c \<longleftrightarrow>
     (if n = 224 then 160 \<le> byte c \<and> byte c < 192
      else if n = 237 then 128 \<le> byte c \<and> byte c < 160
      else if n = 240 then 144 \<le> byte c \<and> byte c < 192
      else if n = 244 then 128 \<le> byte c \<and> byte c < 144
      else is_cont c)"

text \<open>The length of the encoded character a text starts with, if it starts with one.\<close>

definition utf8_width :: "nat \<Rightarrow> nat option" where
  "utf8_width a =
     (if a < 128 then Some 1
      else if a < 194 then None
      else if a < 224 then Some 2
      else if a < 240 then Some 3
      else if a < 245 then Some 4
      else None)"

definition utf8_head :: "string \<Rightarrow> nat option" where
  "utf8_head s =
     (if s = [] then None
      else (case utf8_width (byte (s ! 0)) of
              None \<Rightarrow> None
            | Some n \<Rightarrow>
                if n \<le> length s \<and> (n = 1 \<or> second_ok (byte (s ! 0)) (s ! 1)) \<and>
                   list_all is_cont (take (n - 2) (drop 2 s))
                then Some n else None))"

lemma second_ok_high: "second_ok n c \<Longrightarrow> 128 \<le> byte c"
  by (auto simp: second_ok_def is_cont_def split: if_splits)

lemma is_cont_high: "is_cont c \<Longrightarrow> 128 \<le> byte c"
  by (simp add: is_cont_def)

lemma utf8_width_pos: "utf8_width a = Some n \<Longrightarrow> 0 < n"
  by (auto simp: utf8_width_def split: if_splits)

lemma utf8_head_length: "utf8_head s = Some n \<Longrightarrow> 0 < n \<and> n \<le> length s"
  by (auto simp: utf8_head_def dest: utf8_width_pos split: if_splits option.splits)

lemma utf8_head_tail:
  assumes "utf8_head s = Some n" "0 < i" "i < n"
  shows "128 \<le> byte (s ! i)"
proof (cases "i = 1")
  case True
  with assms show ?thesis
    by (auto simp: utf8_head_def dest: second_ok_high split: if_splits option.splits)
next
  case False
  have "n \<le> length s" and all: "list_all is_cont (take (n - 2) (drop 2 s))"
    using assms(1) by (auto simp: utf8_head_def split: if_splits option.splits)
  then have "s ! i = take (n - 2) (drop 2 s) ! (i - 2)" "i - 2 < length (take (n - 2) (drop 2 s))"
    using assms(2,3) False by (simp_all add: Suc_diff_Suc numeral_2_eq_2)
  then show ?thesis
    using all is_cont_high unfolding list_all_length by metis
qed

lemma utf8_head_not_cont: "utf8_head (c # s) = Some n \<Longrightarrow> \<not> is_cont c"
  by (auto simp: utf8_head_def utf8_width_def is_cont_def split: if_splits option.splits)

lemma utf8_head_ascii [simp]: "byte c < 128 \<Longrightarrow> utf8_head (c # s) = Some 1"
  by (simp add: utf8_head_def utf8_width_def)

lemma utf8_head_cong:
  assumes "utf8_head s = Some n" "take n t = take n s"
  shows "utf8_head t = Some n"
proof -
  have n: "0 < n" "n \<le> length s"
    using utf8_head_length[OF assms(1)] by auto
  then have len: "n \<le> length t"
    using assms(2) by (metis length_take min.cobounded1 min_absorb2)
  have nth: "\<And>i. i < n \<Longrightarrow> t ! i = s ! i"
    using assms(2) by (metis nth_take)
  have "take (n - 2) (drop 2 t) = take (n - 2) (drop 2 s)"
    using assms(2) by (metis drop_take)
  moreover have "t ! 0 = s ! 0" "t \<noteq> []"
    using n len nth by auto
  moreover have "n = 1 \<or> t ! 1 = s ! 1"
    using n nth[of 1] by linarith
  ultimately show ?thesis
    using assms(1) len by (auto simp: utf8_head_def split: if_splits option.splits)
qed

lemma utf8_head_prefix:
  "utf8_head (xs @ ys) = Some n \<Longrightarrow> n \<le> length xs \<Longrightarrow> utf8_head xs = Some n"
  by (erule utf8_head_cong) simp

lemma utf8_head_append: "utf8_head xs = Some n \<Longrightarrow> utf8_head (xs @ ys) = Some n"
  using utf8_head_length[of xs n] by (auto elim!: utf8_head_cong)

function utf8_valid :: "string \<Rightarrow> bool" where
  "utf8_valid s =
     (s = [] \<or> (case utf8_head s of None \<Rightarrow> False | Some n \<Rightarrow> utf8_valid (drop n s)))"
  by pat_completeness auto
termination
  by (relation "measure length") (auto dest: utf8_head_length)

declare utf8_valid.simps [simp del]

lemma utf8_valid_Nil [simp]: "utf8_valid []"
  by (subst utf8_valid.simps) simp

lemma utf8_valid_head: "utf8_head s = Some n \<Longrightarrow> utf8_valid s = utf8_valid (drop n s)"
  by (subst utf8_valid.simps) (auto simp: utf8_head_def)

lemma utf8_valid_ascii [simp]: "byte a < 128 \<Longrightarrow> utf8_valid (a # s) = utf8_valid s"
  using utf8_valid_head[of "a # s" 1] by simp

lemma utf8_valid_step:
  "utf8_valid s \<Longrightarrow> s \<noteq> [] \<Longrightarrow> \<exists>n. utf8_head s = Some n \<and> utf8_valid (drop n s)"
  by (subst (asm) utf8_valid.simps) (auto split: option.splits)

lemma utf8_valid_hd: "utf8_valid (c # s) \<Longrightarrow> \<not> is_cont c"
  using utf8_valid_step[of "c # s"] utf8_head_not_cont by blast

text \<open>An ASCII byte never stands inside a longer sequence, so a valid text splits at it.\<close>

lemma utf8_valid_split_ascii:
  "utf8_valid (xs @ c # ys) \<Longrightarrow> byte c < 128 \<Longrightarrow> utf8_valid xs \<and> utf8_valid (c # ys)"
proof (induction "length xs" arbitrary: xs rule: less_induct)
  case less
  show ?case
  proof (cases "xs = []")
    case True
    with less show ?thesis by simp
  next
    case False
    obtain n where n: "utf8_head (xs @ c # ys) = Some n" "utf8_valid (drop n (xs @ c # ys))"
      using utf8_valid_step[OF less.prems(1)] by auto
    have "n \<le> length xs"
      using utf8_head_tail[OF n(1), of "length xs"] False less.prems(2)
      by (auto simp: not_less[symmetric])
    then have "utf8_head xs = Some n"
      using n(1) utf8_head_prefix by blast
    moreover have "utf8_valid (drop n xs) \<and> utf8_valid (c # ys)"
      using less.hyps[of "drop n xs"] less.prems(2) n utf8_head_length[OF n(1)] False
        \<open>n \<le> length xs\<close> by simp
    ultimately show ?thesis
      using utf8_valid_head by blast
  qed
qed

lemma utf8_valid_append: "utf8_valid xs \<Longrightarrow> utf8_valid (xs @ ys) = utf8_valid ys"
proof (induction "length xs" arbitrary: xs rule: less_induct)
  case less
  show ?case
  proof (cases "xs = []")
    case False
    then obtain n where n: "utf8_head xs = Some n" "utf8_valid (drop n xs)"
      using utf8_valid_step[OF less.prems] by auto
    then show ?thesis
      using less.hyps[of "drop n xs"] utf8_head_length[OF n(1)] False
        utf8_valid_head[OF utf8_head_append[OF n(1)]] by simp
  qed simp
qed

text \<open>\<open>str::is_char_boundary\<close>, and \<open>&s[a..b]\<close>, which panics off a boundary or out of range.\<close>

definition is_char_boundary :: "string \<Rightarrow> nat \<Rightarrow> bool" where
  "is_char_boundary s i \<longleftrightarrow>
     i = 0 \<or> i = length s \<or> (i < length s \<and> \<not> is_cont (s ! i))"

definition slice :: "string \<Rightarrow> nat \<Rightarrow> nat \<Rightarrow> string" where
  "slice s a b = take (b - a) (drop a s)"

definition str_slice :: "string \<Rightarrow> nat \<Rightarrow> nat \<Rightarrow> string outcome" where
  "str_slice s a b =
     (if a \<le> b \<and> b \<le> length s \<and> is_char_boundary s a \<and> is_char_boundary s b
      then Ret (slice s a b)
      else Panic ''byte index is out of range or not a char boundary'')"

lemma slice_append [simp]: "slice (xs @ ys @ zs) (length xs) (length xs + length ys) = ys"
  by (simp add: slice_def)

lemma length_slice: "a \<le> b \<Longrightarrow> b \<le> length s \<Longrightarrow> length (slice s a b) = b - a"
  by (simp add: slice_def)

section \<open>Lossy decoding\<close>

text \<open>\<open>String::from_utf8_lossy\<close>: the longest start of a character that is not completed, or the one byte
  that starts none, is replaced by U+FFFD.\<close>

definition utf8_bad_len :: "string \<Rightarrow> nat" where
  "utf8_bad_len s =
     (case utf8_width (byte (s ! 0)) of
        None \<Rightarrow> 1
      | Some n \<Rightarrow>
          if length s < 2 \<or> \<not> second_ok (byte (s ! 0)) (s ! 1) then 1
          else 2 + length (takeWhile is_cont (take (n - 2) (drop 2 s))))"

definition replacement_char :: string where
  "replacement_char = [CHR 0xEF, CHR 0xBF, CHR 0xBD]"

function from_utf8_lossy :: "string \<Rightarrow> string" where
  "from_utf8_lossy s =
     (if s = [] then []
      else (case utf8_head s of
              Some n \<Rightarrow> take n s @ from_utf8_lossy (drop n s)
            | None \<Rightarrow> replacement_char @ from_utf8_lossy (drop (utf8_bad_len s) s)))"
  by pat_completeness auto
termination
proof (relation "measure length")
  fix s :: string
  assume s: "s \<noteq> []"
  have "0 < utf8_bad_len s"
    by (simp add: utf8_bad_len_def split: option.split)
  then show "(drop (utf8_bad_len s) s, s) \<in> measure length"
    using s by simp
qed (auto dest: utf8_head_length)

declare from_utf8_lossy.simps [simp del]

lemma from_utf8_lossy_valid: "utf8_valid s \<Longrightarrow> from_utf8_lossy s = s"
proof (induction s rule: from_utf8_lossy.induct)
  case (1 s)
  show ?case
  proof (cases "s = []")
    case False
    then obtain n where "utf8_head s = Some n" "utf8_valid (drop n s)"
      using utf8_valid_step[OF "1.prems"] by blast
    then show ?thesis
      using "1.IH" False by (subst from_utf8_lossy.simps) simp
  qed (subst from_utf8_lossy.simps, simp)
qed

lemma utf8_valid_all_ascii: "\<forall>c \<in> set s. byte c < 128 \<Longrightarrow> utf8_valid s"
  by (induction s) auto

end
