(* ===== verification/Http_Types.thy ===== *)
theory Http_Types
  imports Complex_Main Rust_Str "HOL-Library.List_Lexorder" "HOL-Library.Char_ord"
begin

text \<open>
  The HTTP vocabulary every component shares: JSON values as \<open>serde_json\<close> holds them, header
  values and header maps, response bodies, \<open>ApiError\<close>/\<open>ErrorInfo\<close> (\<open>src/error_format.rs\<close>) and
  the response constructors of \<open>src/response.rs\<close>.

  The header map of the \<open>http\<close> crate is not part of the repository; the code relies only on its
  documented reading as a multimap, which is what \<open>headers\<close> is: \<open>get\<close> answers the first value,
  \<open>insert\<close> replaces all of them, \<open>append\<close> adds one at the end. Header names are kept in the
  lower case the crate normalises them to. Whether a value is readable as text
  (\<open>HeaderValue::to_str\<close>) is decided by that crate, so a value carries the answer.
  Rendering a JSON value (\<open>serde_json::to_vec\<close>) is the parameter \<open>to_vec\<close> of the definitions
  that need it.
\<close>

section \<open>JSON values\<close>

datatype json =
    JNull
  | JBool bool
  | JInt int
  | JFloat rat
  | JStr string
  | JArr "json list"
  | JObj "(string \<times> json) list"

text \<open>
  An object is \<open>serde_json::Map\<close>, a \<open>BTreeMap\<close>: its entries in increasing order of their keys,
  each key once. Inserting keeps it so, and an existing entry is replaced.
\<close>

fun obj_insert :: "string \<Rightarrow> 'a \<Rightarrow> (string \<times> 'a) list \<Rightarrow> (string \<times> 'a) list" where
  "obj_insert k v [] = [(k, v)]"
| "obj_insert k v ((k', v') # kvs) =
     (if k = k' then (k, v) # kvs
      else if k < k' then (k, v) # (k', v') # kvs
      else (k', v') # obj_insert k v kvs)"

definition obj_of :: "(string \<times> 'a) list \<Rightarrow> (string \<times> 'a) list" where
  "obj_of kvs = fold (\<lambda>(k, v) m. obj_insert k v m) kvs []"

text \<open>\<open>value["key"]\<close>: the entry, or \<open>Null\<close> when it is absent or the value is no object.\<close>

fun json_index :: "json \<Rightarrow> string \<Rightarrow> json" where
  "json_index (JObj m) k = (case map_of m k of None \<Rightarrow> JNull | Some v \<Rightarrow> v)"
| "json_index _ k = JNull"

fun as_array :: "json \<Rightarrow> json list option" where
  "as_array (JArr xs) = Some xs"
| "as_array _ = None"

fun as_str :: "json \<Rightarrow> string option" where
  "as_str (JStr s) = Some s"
| "as_str _ = None"

fun as_object :: "json \<Rightarrow> (string \<times> json) list option" where
  "as_object (JObj m) = Some m"
| "as_object _ = None"

lemma map_of_obj_insert [simp]: "map_of (obj_insert k v m) = (map_of m)(k \<mapsto> v)"
  by (induction m) (auto simp: fun_eq_iff)

lemma obj_insert_keys: "fst ` set (obj_insert k v m) = insert k (fst ` set m)"
  by (simp add: dom_map_of_conv_image_fst[symmetric])

lemma obj_insert_sorted:
  "sorted_wrt (<) (map fst m) \<Longrightarrow> sorted_wrt (<) (map fst (obj_insert k v m))"
proof (induction m)
  case (Cons kv m)
  obtain k' v' where kv: "kv = (k', v')" by (cases kv)
  consider "k = k'" | "k < k'" | "k' < k"
    by (rule linorder_cases[of k k'])
  then show ?case
  proof cases
    case 2
    then show ?thesis using Cons.prems by (auto simp: kv)
  next
    case 3
    then have "\<forall>x \<in> fst ` set (obj_insert k v m). k' < x"
      unfolding obj_insert_keys using Cons.prems by (auto simp: kv)
    then show ?thesis using 3 Cons by (auto simp: kv)
  qed (use Cons.prems in \<open>simp add: kv\<close>)
qed simp

lemma obj_of_sorted: "sorted_wrt (<) (map fst (obj_of kvs))"
proof -
  have "sorted_wrt (<) (map fst m) \<Longrightarrow>
      sorted_wrt (<) (map fst (fold (\<lambda>(k, v) m. obj_insert k v m) kvs m))" for m
    by (induction kvs arbitrary: m) (auto simp: obj_insert_sorted)
  then show ?thesis by (simp add: obj_of_def)
qed

lemma json_index_obj_insert:
  "json_index (JObj (obj_insert k v m)) k' = (if k' = k then v else json_index (JObj m) k')"
  by simp

lemma json_size_entry [termination_simp]:
  "map_of m k = Some v \<Longrightarrow> size v < size (JObj m)"
  by (drule map_of_SomeD) (induction m, auto)

lemma json_size_elem [termination_simp]: "x \<in> set xs \<Longrightarrow> size x < size (JArr xs)"
  by (induction xs) auto

section \<open>Headers\<close>

record header_value =
  hv_bytes :: string
  hv_text :: "string option"

text \<open>A value built from text (\<open>from_static\<close>, an accepted \<open>from_str\<close>) is readable as that text.\<close>

definition text_value :: "string \<Rightarrow> header_value" where
  "text_value s = \<lparr>hv_bytes = s, hv_text = Some s\<rparr>"

lemma text_value_sel [simp]: "hv_bytes (text_value s) = s" "hv_text (text_value s) = Some s"
  by (simp_all add: text_value_def)

lemma text_value_inject [simp]: "text_value a = text_value b \<longleftrightarrow> a = b"
  by (simp add: text_value_def)

type_synonym headers = "string \<Rightarrow> header_value list"

definition no_headers :: headers where
  "no_headers = (\<lambda>_. [])"

definition hm_get :: "headers \<Rightarrow> string \<Rightarrow> header_value option" where
  "hm_get h k = (case h k of [] \<Rightarrow> None | v # _ \<Rightarrow> Some v)"

definition hm_get_all :: "headers \<Rightarrow> string \<Rightarrow> header_value list" where
  "hm_get_all h k = h k"

definition hm_contains :: "headers \<Rightarrow> string \<Rightarrow> bool" where
  "hm_contains h k \<longleftrightarrow> h k \<noteq> []"

definition hm_insert :: "string \<Rightarrow> header_value \<Rightarrow> headers \<Rightarrow> headers" where
  "hm_insert k v h = h(k := [v])"

definition hm_append :: "string \<Rightarrow> header_value \<Rightarrow> headers \<Rightarrow> headers" where
  "hm_append k v h = h(k := h k @ [v])"

definition hm_remove :: "string \<Rightarrow> headers \<Rightarrow> headers" where
  "hm_remove k h = h(k := [])"

text \<open>\<open>headers.get(name).and_then(|value| value.to_str().ok())\<close>\<close>

definition header_text :: "headers \<Rightarrow> string \<Rightarrow> string option" where
  "header_text h k = Option.bind (hm_get h k) hv_text"

lemma hm_get_insert [simp]: "hm_get (hm_insert k v h) k' = (if k' = k then Some v else hm_get h k')"
  by (simp add: hm_get_def hm_insert_def)

lemma hm_get_append [simp]:
  "hm_get (hm_append k v h) k' = (if k' = k \<and> h k = [] then Some v else hm_get h k')"
  by (auto simp: hm_get_def hm_append_def split: list.splits)

lemma hm_get_remove [simp]: "hm_get (hm_remove k h) k' = (if k' = k then None else hm_get h k')"
  by (simp add: hm_get_def hm_remove_def)

lemma hm_contains_get: "hm_contains h k \<longleftrightarrow> hm_get h k \<noteq> None"
  by (auto simp: hm_contains_def hm_get_def split: list.splits)

lemma hm_get_no_headers [simp]: "hm_get no_headers k = None"
  by (simp add: hm_get_def no_headers_def)

lemma header_text_insert [simp]:
  "header_text (hm_insert k v h) k' = (if k' = k then hv_text v else header_text h k')"
  by (simp add: header_text_def)

lemma header_text_remove [simp]:
  "header_text (hm_remove k h) k' = (if k' = k then None else header_text h k')"
  by (simp add: header_text_def)

lemma header_text_no_headers [simp]: "header_text no_headers k = None"
  by (simp add: header_text_def)

section \<open>Methods and status codes\<close>

text \<open>An \<open>http::Method\<close> is its token and a \<open>StatusCode\<close> its number.\<close>

type_synonym http_method = string

abbreviation GET :: http_method where "GET \<equiv> ''GET''"
abbreviation HEAD :: http_method where "HEAD \<equiv> ''HEAD''"
abbreviation OPTIONS :: http_method where "OPTIONS \<equiv> ''OPTIONS''"
abbreviation POST :: http_method where "POST \<equiv> ''POST''"

section \<open>Responses\<close>

record error_info =
  ei_status :: nat
  ei_title :: string
  ei_detail :: string

text \<open>
  A body is complete, taken (\<open>Full(None)\<close>) or a stream of chunks, given here by the chunks it
  yields until it ends.
\<close>

datatype response_body = Full "string option" | Stream "string list"

record response =
  resp_status :: nat
  resp_headers :: headers
  resp_body :: response_body
  resp_error :: "error_info option"

text \<open>\<open>Body::poll_frame\<close>, \<open>is_end_stream\<close> and \<open>size_hint().exact()\<close> of a response body.\<close>

fun poll_frame :: "response_body \<Rightarrow> string option \<times> response_body" where
  "poll_frame (Full body) = (body, Full None)"
| "poll_frame (Stream []) = (None, Stream [])"
| "poll_frame (Stream (c # cs)) = (Some c, Stream cs)"

fun is_end_stream :: "response_body \<Rightarrow> bool" where
  "is_end_stream (Full body) = (body = None)"
| "is_end_stream (Stream _) = False"

fun size_exact :: "response_body \<Rightarrow> nat option" where
  "size_exact (Full body) = Some (case body of None \<Rightarrow> 0 | Some b \<Rightarrow> length b)"
| "size_exact (Stream _) = None"

text \<open>What a client reads when it polls the body to its end.\<close>

fun body_bytes :: "response_body \<Rightarrow> string" where
  "body_bytes (Full body) = (case body of None \<Rightarrow> [] | Some b \<Rightarrow> b)"
| "body_bytes (Stream cs) = concat cs"

lemma size_exact_bytes: "size_exact b = Some n \<Longrightarrow> n = length (body_bytes b)"
  by (cases b) (auto split: option.splits)

lemma poll_frame_bytes:
  "body_bytes b = (case fst (poll_frame b) of None \<Rightarrow> [] | Some c \<Rightarrow> c) @ body_bytes (snd (poll_frame b))"
  by (cases b rule: poll_frame.cases) (auto split: option.splits)

lemma is_end_stream_sound: "is_end_stream b \<Longrightarrow> fst (poll_frame b) = None"
  by (cases b rule: poll_frame.cases) auto

definition new_response :: "nat \<Rightarrow> response_body \<Rightarrow> response" where
  "new_response status body =
     \<lparr>resp_status = status, resp_headers = no_headers, resp_body = body, resp_error = None\<rparr>"

definition insert_header :: "string \<Rightarrow> string \<Rightarrow> response \<Rightarrow> response" where
  "insert_header k s r = r\<lparr>resp_headers := hm_insert k (text_value s) (resp_headers r)\<rparr>"

lemma insert_header_sel [simp]:
  "resp_status (insert_header k s r) = resp_status r"
  "resp_body (insert_header k s r) = resp_body r"
  "resp_error (insert_header k s r) = resp_error r"
  "resp_headers (insert_header k s r) = hm_insert k (text_value s) (resp_headers r)"
  by (simp_all add: insert_header_def)

lemma new_response_sel [simp]:
  "resp_status (new_response st b) = st" "resp_body (new_response st b) = b"
  "resp_error (new_response st b) = None" "resp_headers (new_response st b) = no_headers"
  by (simp_all add: new_response_def)

definition attach :: "error_info \<Rightarrow> response \<Rightarrow> response" where
  "attach info r = r\<lparr>resp_error := Some info\<rparr>"

lemma attach_sel [simp]:
  "resp_status (attach i r) = resp_status r" "resp_body (attach i r) = resp_body r"
  "resp_error (attach i r) = Some i" "resp_headers (attach i r) = resp_headers r"
  by (simp_all add: attach_def)

definition error_info_new :: "nat \<Rightarrow> string \<Rightarrow> string \<Rightarrow> error_info" where
  "error_info_new status title detail =
     \<lparr>ei_status = status, ei_title = title, ei_detail = detail\<rparr>"

definition response_text :: "nat \<Rightarrow> string \<Rightarrow> response" where
  "response_text status body =
     (let r = insert_header ''content-type'' ''text/plain; charset=utf-8''
                (new_response status (Full (Some body)))
      in if length body = 2 then insert_header ''content-length'' ''2'' r
         else insert_header ''content-length'' (dec (length body)) r)"

definition response_json_bytes :: "nat \<Rightarrow> string \<Rightarrow> response" where
  "response_json_bytes status body =
     insert_header ''content-type'' ''application/json'' (new_response status (Full (Some body)))"

text \<open>\<open>serde_json::to_vec\<close> may fail; then the body is empty (\<open>unwrap_or_default\<close>).\<close>

definition response_json :: "(json \<Rightarrow> string option) \<Rightarrow> nat \<Rightarrow> json \<Rightarrow> response" where
  "response_json to_vec status value =
     response_json_bytes status (case to_vec value of None \<Rightarrow> [] | Some b \<Rightarrow> b)"

definition error_respond :: "(json \<Rightarrow> string option) \<Rightarrow> error_info \<Rightarrow> json \<Rightarrow> response" where
  "error_respond to_vec info body = response_json to_vec (ei_status info) body"

subsection \<open>\<open>ApiError\<close>\<close>

record api_error =
  ae_status :: nat
  ae_title :: string
  ae_detail :: string
  ae_missing :: bool

definition api_error_new :: "nat \<Rightarrow> string \<Rightarrow> string \<Rightarrow> api_error" where
  "api_error_new status title detail =
     \<lparr>ae_status = status, ae_title = title, ae_detail = detail, ae_missing = False\<rparr>"

definition bad_request :: "string \<Rightarrow> api_error" where
  "bad_request detail = api_error_new 400 ''Bad Request'' detail"

definition missing :: "string \<Rightarrow> api_error" where
  "missing detail = (bad_request detail)\<lparr>ae_missing := True\<rparr>"

definition is_missing :: "api_error \<Rightarrow> bool" where
  "is_missing e = ae_missing e"

definition into_missing :: "api_error \<Rightarrow> api_error" where
  "into_missing e = e\<lparr>ae_missing := True\<rparr>"

definition problem_json :: "nat \<Rightarrow> string \<Rightarrow> string \<Rightarrow> json" where
  "problem_json status title detail =
     JObj (obj_of [(''type'', JStr ''about:blank''), (''title'', JStr title),
       (''status'', JInt (int status)), (''detail'', JStr detail)])"

definition api_error_response :: "(json \<Rightarrow> string option) \<Rightarrow> api_error \<Rightarrow> response" where
  "api_error_response to_vec e =
     attach (error_info_new (ae_status e) (ae_title e) (ae_detail e))
       (response_json to_vec (ae_status e) (problem_json (ae_status e) (ae_title e) (ae_detail e)))"

definition result_response ::
  "(json \<Rightarrow> string option) \<Rightarrow> ('a \<Rightarrow> response) \<Rightarrow> api_error + 'a \<Rightarrow> response" where
  "result_response to_vec into r =
     (case r of Inr v \<Rightarrow> into v | Inl e \<Rightarrow> api_error_response to_vec e)"

subsection \<open>Responses of handler values\<close>

definition unit_response :: response where
  "unit_response =
     insert_header ''content-length'' ''0'' (new_response 204 (Full (Some [])))"

text \<open>\<open>Json<T>\<close> and \<open>Created<T>\<close>: the value is serialized, or the error of doing so is sent.\<close>

definition serialized_response ::
  "(json \<Rightarrow> string option) \<Rightarrow> nat \<Rightarrow> string + string \<Rightarrow> response" where
  "serialized_response to_vec status serialized =
     (case serialized of
        Inr bytes \<Rightarrow> response_json_bytes status bytes
      | Inl error \<Rightarrow> api_error_response to_vec (api_error_new 500 ''Serialization Error'' error))"

definition json_response :: "(json \<Rightarrow> string option) \<Rightarrow> string + string \<Rightarrow> response" where
  "json_response to_vec serialized = serialized_response to_vec 200 serialized"

definition created_response :: "(json \<Rightarrow> string option) \<Rightarrow> string + string \<Rightarrow> response" where
  "created_response to_vec serialized = serialized_response to_vec 201 serialized"

definition stream_response :: "string list \<Rightarrow> response" where
  "stream_response chunks = new_response 200 (Stream chunks)"

definition not_modified_response :: response where
  "not_modified_response =
     insert_header ''content-length'' ''0'' (new_response 304 (Full (Some [])))"

subsection \<open>Responses of the framework\<close>

definition payload_too_large_response :: "(json \<Rightarrow> string option) \<Rightarrow> response" where
  "payload_too_large_response to_vec =
     (let detail = ''request body exceeds the configured limit''
      in attach (error_info_new 413 ''Payload Too Large'' detail)
           (response_json to_vec 413 (problem_json 413 ''Payload Too Large'' detail)))"

definition request_timeout_response :: "(json \<Rightarrow> string option) \<Rightarrow> response" where
  "request_timeout_response to_vec =
     insert_header ''connection'' ''close''
       (api_error_response to_vec
          (api_error_new 408 ''Request Timeout'' ''the request body was not received in time''))"

definition not_found :: response where
  "not_found =
     attach (error_info_new 404 ''Not Found'' ''the requested resource was not found'')
       (response_text 404 ''Not Found'')"

definition options_response :: "string \<Rightarrow> response" where
  "options_response allow =
     insert_header ''content-length'' ''0''
       (insert_header ''allow'' allow (new_response 204 (Full (Some []))))"

definition method_not_allowed_response :: "string \<Rightarrow> response" where
  "method_not_allowed_response allow =
     attach (error_info_new 405 ''Method Not Allowed'' ''the method is not allowed for this resource'')
       (insert_header ''content-length'' ''0''
          (insert_header ''allow'' allow (new_response 405 (Full (Some [])))))"

definition maybe_head_flag :: "bool \<Rightarrow> response \<Rightarrow> response" where
  "maybe_head_flag is_head r =
     (if \<not> is_head then r
      else (let r' = (if \<not> hm_contains (resp_headers r) ''content-length''
                      then (case size_exact (resp_body r) of
                              Some n \<Rightarrow> insert_header ''content-length'' (dec n) r
                            | None \<Rightarrow> r)
                      else r)
            in r'\<lparr>resp_body := Full (Some [])\<rparr>))"

section \<open>Framing\<close>

text \<open>
  A response is \<^emph>\<open>well framed\<close> when a \<open>Content-Length\<close> it states is the length of the body
  that follows; it is what the constructors promise and what answering \<open>HEAD\<close> relies on.
\<close>

definition states_length :: "response \<Rightarrow> nat \<Rightarrow> bool" where
  "states_length r n \<longleftrightarrow> header_text (resp_headers r) ''content-length'' = Some (dec n)"

definition well_framed :: "response \<Rightarrow> bool" where
  "well_framed r \<longleftrightarrow>
     (hm_contains (resp_headers r) ''content-length'' \<longrightarrow>
        states_length r (length (body_bytes (resp_body r))))"

lemma dec_0 [simp]: "dec 0 = ''0''"
  by (subst dec.simps) (simp add: digit_def char_of_def bit_iff_odd)

lemma dec_2 [simp]: "dec 2 = ''2''"
  by (subst dec.simps) (simp add: digit_def char_of_def bit_iff_odd)

lemma well_framed_response_text [simp]: "well_framed (response_text st b)"
  by (auto simp: well_framed_def states_length_def response_text_def Let_def)

lemma well_framed_response_json_bytes [simp]: "well_framed (response_json_bytes st b)"
  by (simp add: well_framed_def response_json_bytes_def hm_contains_get)

lemma well_framed_attach [simp]: "well_framed (attach i r) = well_framed r"
  by (simp add: well_framed_def states_length_def)

lemma well_framed_other_header:
  "k \<noteq> ''content-length'' \<Longrightarrow> well_framed (insert_header k s r) = well_framed r"
  by (simp add: well_framed_def states_length_def hm_contains_get)

lemma well_framed_empty:
  "resp_body r = Full (Some []) \<Longrightarrow> well_framed (insert_header ''content-length'' ''0'' r)"
  by (simp add: well_framed_def states_length_def)

lemma well_framed_api_error [simp]: "well_framed (api_error_response tv e)"
  by (simp add: api_error_response_def response_json_def)

lemma well_framed_framework [simp]:
  "well_framed not_found" "well_framed (options_response a)"
  "well_framed (method_not_allowed_response a)" "well_framed (payload_too_large_response tv)"
  "well_framed (request_timeout_response tv)" "well_framed unit_response"
  "well_framed not_modified_response"
  by (simp_all add: not_found_def options_response_def method_not_allowed_response_def
      payload_too_large_response_def request_timeout_response_def unit_response_def
      not_modified_response_def Let_def response_json_def well_framed_other_header
      well_framed_empty)

end
