(* ===== verification/Route_Set.thy ===== *)
theory Route_Set
  imports Http_Types
begin

unbundle bit_operations_syntax

text \<open>
  Model of \<open>RouteId\<close>, \<open>RouteSet\<close> and \<open>resolve_route_set\<close> of \<open>src/router/mod.rs\<close>: the seven
  method slots of a route pattern with the bit mask that lists them, at their machine widths.
  A set is well formed when the mask has exactly the bits of its occupied slots.
\<close>

section \<open>Route ids\<close>

type_synonym route_id = u32

definition route_none :: route_id where
  "route_none = 0xFFFFFFFF"

definition route_id_new :: "nat \<Rightarrow> route_id outcome" where
  "route_id_new i =
     bind_outcome (assert_that (i \<le> 4294967295) ''route count exceeds u32::MAX'')
       (\<lambda>_. Ret (word_of_nat i))"

definition route_id_index :: "route_id \<Rightarrow> nat" where
  "route_id_index r = unat r"

section \<open>Route sets\<close>

record route_set =
  rs_routes :: "route_id list"
  rs_mask :: u8

definition empty_route_set :: route_set where
  "empty_route_set = \<lparr>rs_routes = replicate 7 route_none, rs_mask = 0\<rparr>"

definition method_names :: "string list" where
  "method_names =
     [''DELETE'', ''GET'', ''HEAD'', ''OPTIONS'', ''PATCH'', ''POST'', ''PUT'']"

definition method_slot :: "http_method \<Rightarrow> nat option" where
  "method_slot m =
     (if m = ''DELETE'' then Some 0
      else if m = ''GET'' then Some 1
      else if m = ''HEAD'' then Some 2
      else if m = ''OPTIONS'' then Some 3
      else if m = ''PATCH'' then Some 4
      else if m = ''POST'' then Some 5
      else if m = ''PUT'' then Some 6
      else None)"

definition route_set_insert :: "http_method \<Rightarrow> nat \<Rightarrow> route_set \<Rightarrow> route_set outcome" where
  "route_set_insert m route rs =
     bind_outcome (expect (method_slot m) ''unsupported route method'') (\<lambda>slot.
     bind_outcome (route_id_new route) (\<lambda>route.
     bind_outcome (index (rs_routes rs) slot) (\<lambda>present.
     bind_outcome (assert_that (present = route_none) ''duplicate route pattern and method'') (\<lambda>_.
     bind_outcome (index_update (rs_routes rs) slot route) (\<lambda>routes.
     Ret \<lparr>rs_routes = routes, rs_mask = rs_mask rs OR push_bit slot 1\<rparr>)))))"

definition route_set_route :: "route_set \<Rightarrow> http_method \<Rightarrow> route_id option outcome" where
  "route_set_route rs m =
     (case method_slot m of
        None \<Rightarrow> Ret None
      | Some slot \<Rightarrow>
          map_outcome (\<lambda>r. if r \<noteq> route_none then Some r else None) (index (rs_routes rs) slot))"

fun allowed_loop :: "u8 \<Rightarrow> nat \<Rightarrow> string list \<Rightarrow> string \<Rightarrow> string" where
  "allowed_loop method_mask i [] allowed = allowed"
| "allowed_loop method_mask i (name # names) allowed =
     (if method_mask AND push_bit i 1 = 0 then allowed_loop method_mask (i + 1) names allowed
      else allowed_loop method_mask (i + 1) names
             ((if allowed \<noteq> [] then allowed @ '', '' else allowed) @ name))"

definition allowed_methods :: "route_set \<Rightarrow> string" where
  "allowed_methods rs = allowed_loop (rs_mask rs) 0 method_names []"

definition route_set_is_empty :: "route_set \<Rightarrow> bool" where
  "route_set_is_empty rs \<longleftrightarrow> rs_mask rs = 0"

definition route_set_remove :: "http_method \<Rightarrow> route_set \<Rightarrow> route_set outcome" where
  "route_set_remove m rs =
     (case method_slot m of
        None \<Rightarrow> Ret rs
      | Some slot \<Rightarrow>
          map_outcome (\<lambda>routes. \<lparr>rs_routes = routes, rs_mask = rs_mask rs AND NOT (push_bit slot 1)\<rparr>)
            (index_update (rs_routes rs) slot route_none))"

datatype route_failure = Failure_Options string | Method_Not_Allowed string

definition route_index :: "route_set \<Rightarrow> http_method \<Rightarrow> route_id option outcome" where
  "route_index rs m =
     bind_outcome (route_set_route rs m) (\<lambda>found.
       case found of
         Some r \<Rightarrow> Ret (Some r)
       | None \<Rightarrow> if m = HEAD then route_set_route rs GET else Ret None)"

definition resolve_route_set ::
  "http_method \<Rightarrow> route_set \<Rightarrow> (route_failure + route_id) outcome" where
  "resolve_route_set m rs =
     bind_outcome (route_index rs m) (\<lambda>found.
       if found = None \<and> m = OPTIONS then Ret (Inl (Failure_Options (allowed_methods rs)))
       else (case found of
               None \<Rightarrow> Ret (Inl (Method_Not_Allowed (allowed_methods rs)))
             | Some r \<Rightarrow> Ret (Inr r)))"

section \<open>The abstract table of a set\<close>

definition wf_route_set :: "route_set \<Rightarrow> bool" where
  "wf_route_set rs \<longleftrightarrow>
     length (rs_routes rs) = 7 \<and>
     (\<forall>i < 8. bit (rs_mask rs) i \<longleftrightarrow> i < 7 \<and> rs_routes rs ! i \<noteq> route_none)"

text \<open>The method table a set stands for: at most one route per method.\<close>

definition route_table :: "route_set \<Rightarrow> http_method \<Rightarrow> route_id option" where
  "route_table rs m =
     (case method_slot m of
        None \<Rightarrow> None
      | Some slot \<Rightarrow> if rs_routes rs ! slot = route_none then None else Some (rs_routes rs ! slot))"

lemma method_slot_less: "method_slot m = Some s \<Longrightarrow> s < 7"
  by (auto simp: method_slot_def split: if_splits)

lemma method_slot_nth: "method_slot m = Some s \<longleftrightarrow> s < 7 \<and> method_names ! s = m"
proof
  assume "method_slot m = Some s"
  then show "s < 7 \<and> method_names ! s = m"
    by (auto simp: method_slot_def method_names_def split: if_splits)
next
  assume *: "s < 7 \<and> method_names ! s = m"
  then consider "s = 0" | "s = 1" | "s = 2" | "s = 3" | "s = 4" | "s = 5" | "s = 6"
    by linarith
  then show "method_slot m = Some s"
    using * by cases (auto simp: method_slot_def method_names_def)
qed

lemma method_slot_inject: "method_slot m = Some s \<Longrightarrow> method_slot m' = Some s \<Longrightarrow> m = m'"
  by (auto simp: method_slot_nth)

lemma wf_empty_route_set [simp]: "wf_route_set empty_route_set"
  by (auto simp: wf_route_set_def empty_route_set_def nth_replicate)

lemma route_table_empty [simp]: "route_table empty_route_set m = None"
  by (auto simp: route_table_def empty_route_set_def split: option.splits dest: method_slot_less)

lemma route_set_route_table:
  "wf_route_set rs \<Longrightarrow> route_set_route rs m = Ret (route_table rs m)"
  by (auto simp: wf_route_set_def route_set_route_def route_table_def dest!: method_slot_less
      split: option.splits)

lemma mask_zero_iff:
  "wf_route_set rs \<Longrightarrow> rs_mask rs = 0 \<longleftrightarrow> (\<forall>m. route_table rs m = None)"
proof -
  assume wf: "wf_route_set rs"
  have "rs_mask rs = 0 \<longleftrightarrow> (\<forall>i < 8. \<not> bit (rs_mask rs) i)"
    by (auto simp: bit_eq_iff dest: bit_imp_le_length)
  also have "\<dots> \<longleftrightarrow> (\<forall>i < 7. rs_routes rs ! i = route_none)"
    using wf by (auto simp: wf_route_set_def)
  also have "\<dots> \<longleftrightarrow> (\<forall>m. route_table rs m = None)"
  proof safe
    fix i m assume "\<forall>i < 7. rs_routes rs ! i = route_none"
    then show "route_table rs m = None"
      by (auto simp: route_table_def dest: method_slot_less split: option.splits)
  next
    fix i :: nat assume *: "\<forall>m. route_table rs m = None" "i < 7"
    then have "method_slot (method_names ! i) = Some i"
      by (simp add: method_slot_nth)
    with * show "rs_routes rs ! i = route_none"
      by (auto simp: route_table_def dest!: spec[of _ "method_names ! i"] split: if_splits)
  qed
  finally show ?thesis .
qed

text \<open>Index \<open>u32::MAX\<close> would be taken for an empty slot; below it, \<open>insert\<close> is a table update.\<close>

lemma route_id_new_Ret:
  "i < 4294967295 \<Longrightarrow> route_id_new i = Ret (word_of_nat i) \<and> (word_of_nat i :: route_id) \<noteq> route_none"
proof -
  assume i: "i < 4294967295"
  then have "unat (word_of_nat i :: route_id) = i"
    by (simp add: unat_of_nat_u32)
  moreover have "unat route_none = 4294967295"
    by (simp add: route_none_def)
  ultimately have "(word_of_nat i :: route_id) \<noteq> route_none"
    using i by auto
  with i show ?thesis
    by (simp add: route_id_new_def)
qed

lemma route_set_insert_table:
  assumes wf: "wf_route_set rs" and i: "i < 4294967295"
    and slot: "method_slot m = Some s" and free: "route_table rs m = None"
  shows "\<exists>rs'. route_set_insert m i rs = Ret rs' \<and> wf_route_set rs' \<and>
    route_table rs' = (route_table rs)(m \<mapsto> word_of_nat i)"
proof -
  have s: "s < 7" "s < length (rs_routes rs)"
    using method_slot_less[OF slot] wf by (auto simp: wf_route_set_def)
  have none: "rs_routes rs ! s = route_none"
    using free slot by (auto simp: route_table_def split: if_splits)
  define rs' where "rs' = \<lparr>rs_routes = (rs_routes rs)[s := word_of_nat i],
    rs_mask = rs_mask rs OR push_bit s 1\<rparr>"
  have ins: "route_set_insert m i rs = Ret rs'"
    using s none route_id_new_Ret[OF i] slot by (simp add: route_set_insert_def rs'_def)
  have "wf_route_set rs'"
    using wf s route_id_new_Ret[OF i]
    by (auto simp: wf_route_set_def rs'_def bit_or_iff bit_exp_iff nth_list_update)
  moreover have "route_table rs' m' = ((route_table rs)(m \<mapsto> word_of_nat i)) m'" for m'
  proof (cases "m' = m")
    case True
    then show ?thesis
      using s slot route_id_new_Ret[OF i] by (simp add: route_table_def rs'_def)
  next
    case False
    then have "method_slot m' \<noteq> Some s"
      using slot method_slot_inject by blast
    with False show ?thesis
      by (auto simp: route_table_def rs'_def nth_list_update split: option.splits)
  qed
  ultimately show ?thesis
    using ins by (auto simp: fun_eq_iff)
qed

lemma route_set_insert_duplicate:
  "wf_route_set rs \<Longrightarrow> route_table rs m = Some r \<Longrightarrow> i \<le> 4294967295 \<Longrightarrow>
     route_set_insert m i rs = Panic ''duplicate route pattern and method''"
  by (auto simp: route_table_def route_set_insert_def route_id_new_def wf_route_set_def
      dest!: method_slot_less split: option.splits if_splits)

lemma route_set_insert_unsupported:
  "method_slot m = None \<Longrightarrow> route_set_insert m i rs = Panic ''unsupported route method''"
  by (simp add: route_set_insert_def)

lemma route_set_insert_inverse:
  assumes "wf_route_set rs" "i < 4294967295" "route_set_insert m i rs = Ret rs'"
  shows "method_slot m \<noteq> None \<and> route_table rs m = None"
  using assms route_set_insert_duplicate[OF assms(1), of m _ i] route_set_insert_unsupported[of m i rs]
  by (cases "route_table rs m"; cases "method_slot m") auto

lemma route_set_remove_table:
  assumes wf: "wf_route_set rs"
  shows "\<exists>rs'. route_set_remove m rs = Ret rs' \<and> wf_route_set rs' \<and>
    route_table rs' = (route_table rs)(m := None)"
proof (cases "method_slot m")
  case None
  then have "route_table rs m = None"
    by (simp add: route_table_def)
  then show ?thesis
    using None wf by (simp add: route_set_remove_def fun_upd_idem)
next
  case (Some s)
  have s: "s < 7" "s < length (rs_routes rs)"
    using method_slot_less[OF Some] wf by (auto simp: wf_route_set_def)
  define rs' where "rs' = \<lparr>rs_routes = (rs_routes rs)[s := route_none],
    rs_mask = rs_mask rs AND NOT (push_bit s 1)\<rparr>"
  have rm: "route_set_remove m rs = Ret rs'"
    using s Some by (simp add: route_set_remove_def rs'_def)
  have "wf_route_set rs'"
    using wf s
    by (auto simp: wf_route_set_def rs'_def bit_and_iff bit_not_iff bit_exp_iff nth_list_update)
  moreover have "route_table rs' m' = ((route_table rs)(m := None)) m'" for m'
  proof (cases "m' = m")
    case True
    then show ?thesis using s Some by (simp add: route_table_def rs'_def)
  next
    case False
    then have "method_slot m' \<noteq> Some s"
      using Some method_slot_inject by blast
    with False show ?thesis
      by (auto simp: route_table_def rs'_def nth_list_update split: option.splits)
  qed
  ultimately show ?thesis
    using rm by (auto simp: fun_eq_iff)
qed

section \<open>The \<open>Allow\<close> list and the answer to a method\<close>

definition set_methods :: "route_set \<Rightarrow> string list" where
  "set_methods rs = filter (\<lambda>m. route_table rs m \<noteq> None) method_names"

lemma str_join_snoc: "xs \<noteq> [] \<Longrightarrow> str_join sep (xs @ [x]) = str_join sep xs @ sep @ x"
  by (induction sep xs rule: str_join.induct) auto

lemma str_join_eq_Nil: "[] \<notin> set xs \<Longrightarrow> str_join sep xs = [] \<longleftrightarrow> xs = []"
  by (induction sep xs rule: str_join.induct) auto

lemma bit_mask_test: "(method_mask AND push_bit i 1 = (0 :: u8)) \<longleftrightarrow> \<not> bit method_mask i"
  using bit_iff_and_push_bit_not_eq_0[of method_mask i] by simp

lemma allowed_loop_filter:
  "i + length names \<le> 8 \<Longrightarrow> [] \<notin> set done' \<Longrightarrow> [] \<notin> set names \<Longrightarrow>
     allowed_loop method_mask i names (str_join '', '' done')
       = str_join '', '' (done' @ map snd (filter (\<lambda>(j, _). bit method_mask j) (enumerate i names)))"
proof (induction names arbitrary: i done')
  case (Cons name names)
  have test: "(method_mask AND push_bit i 1 = 0) \<longleftrightarrow> \<not> bit method_mask i"
    by (rule bit_mask_test)
  show ?case
  proof (cases "bit method_mask i")
    case True
    have "(if str_join '', '' done' \<noteq> [] then str_join '', '' done' @ '', '' else str_join '', '' done')
        @ name = str_join '', '' (done' @ [name])"
      using Cons.prems by (cases "done' = []") (auto simp: str_join_snoc str_join_eq_Nil)
    then show ?thesis
      using Cons.IH[of "i + 1" "done' @ [name]"] Cons.prems True test by simp
  next
    case False
    then show ?thesis
      using Cons.IH[of "i + 1" done'] Cons.prems test by simp
  qed
qed simp

lemma filter_enumerate:
  "(\<And>j. j < length xs \<Longrightarrow> P (n + j) \<longleftrightarrow> Q (xs ! j)) \<Longrightarrow>
     map snd (filter (\<lambda>(j, _). P j) (enumerate n xs)) = filter Q xs"
proof (induction xs arbitrary: n)
  case (Cons x xs)
  have "P n \<longleftrightarrow> Q x"
    using Cons.prems[of 0] by simp
  moreover have "map snd (filter (\<lambda>(j, _). P j) (enumerate (Suc n) xs)) = filter Q xs"
    using Cons.prems[of "Suc _"] by (intro Cons.IH) simp
  ultimately show ?case by simp
qed simp

lemma allowed_methods_join:
  assumes "wf_route_set rs"
  shows "allowed_methods rs = str_join '', '' (set_methods rs)"
proof -
  have "map snd (filter (\<lambda>(j, _). bit (rs_mask rs) j) (enumerate 0 method_names)) = set_methods rs"
    unfolding set_methods_def
  proof (rule filter_enumerate)
    fix j assume "j < length method_names"
    then have j: "j < 7" by (simp add: method_names_def)
    then have "method_slot (method_names ! j) = Some j"
      by (simp add: method_slot_nth)
    then show "bit (rs_mask rs) (0 + j) \<longleftrightarrow> route_table rs (method_names ! j) \<noteq> None"
      using assms j by (simp add: wf_route_set_def route_table_def)
  qed
  then show ?thesis
    using allowed_loop_filter[of 0 method_names "[]" "rs_mask rs"]
    by (simp add: allowed_methods_def method_names_def)
qed

lemma resolve_route_set_table:
  assumes "wf_route_set rs"
  shows "resolve_route_set m rs = Ret
    (case route_table rs m of
       Some r \<Rightarrow> Inr r
     | None \<Rightarrow>
         if m = HEAD \<and> route_table rs GET \<noteq> None then Inr (the (route_table rs GET))
         else if m = OPTIONS then Inl (Failure_Options (str_join '', '' (set_methods rs)))
         else Inl (Method_Not_Allowed (str_join '', '' (set_methods rs))))"
  using assms
  by (auto simp: resolve_route_set_def route_index_def route_set_route_table allowed_methods_join
      split: option.splits)

section \<open>Properties\<close>

text \<open>How a request method is answered by a well-formed route set: its own route; \<open>HEAD\<close> falls
  back to the \<open>GET\<close> route; \<open>OPTIONS\<close> without a route gets the list of allowed methods; any other
  method is refused with that list.\<close>

theorem resolve_answers:
  assumes "wf_route_set rs"
  shows "resolve_route_set m rs = Ret
    (case route_table rs m of
       Some r \<Rightarrow> Inr r
     | None \<Rightarrow>
         (case (if m = HEAD then route_table rs GET else None) of
            Some r \<Rightarrow> Inr r
          | None \<Rightarrow>
              (if m = OPTIONS then Inl (Failure_Options (str_join '', '' (set_methods rs)))
               else Inl (Method_Not_Allowed (str_join '', '' (set_methods rs))))))"
  unfolding resolve_route_set_table[OF assms] by (auto split: option.splits)

lemma resolve_answers_witness:
  "\<exists>rs. route_set_insert GET 5 empty_route_set = Ret rs \<and>
     resolve_route_set HEAD rs = Ret (Inr 5) \<and>
     resolve_route_set POST rs = Ret (Inl (Method_Not_Allowed ''GET''))"
proof -
  obtain rs where rs: "route_set_insert GET 5 empty_route_set = Ret rs" "wf_route_set rs"
      "route_table rs = (route_table empty_route_set)(GET \<mapsto> word_of_nat 5)"
    using route_set_insert_table[OF wf_empty_route_set, of 5 GET 1] by (auto simp: method_slot_def)
  have "set_methods rs = [GET]"
    by (simp add: set_methods_def rs(3) method_names_def)
  then show ?thesis
    using rs(1) resolve_answers[OF rs(2), of HEAD] resolve_answers[OF rs(2), of POST]
    by (simp add: rs(3))
qed

text \<open>A route set refuses a second route for a method it has, refuses a method that is none of
  the seven, and otherwise adds exactly that method to its table and to the \<open>Allow\<close> list its mask
  spells.\<close>

theorem route_set_insert_cases:
  assumes "wf_route_set rs" "i < 4294967295"
  shows "(case route_set_insert m i rs of
      Panic _ \<Rightarrow> method_slot m = None \<or> route_table rs m \<noteq> None
    | Ret rs' \<Rightarrow>
        method_slot m \<noteq> None \<and> route_table rs m = None \<and> wf_route_set rs' \<and>
        route_table rs' = (route_table rs)(m \<mapsto> word_of_nat i) \<and>
        allowed_methods rs'
          = str_join '', '' (filter (\<lambda>n. n = m \<or> route_table rs n \<noteq> None) method_names))"
proof (cases "method_slot m")
  case None
  then show ?thesis by (simp add: route_set_insert_unsupported)
next
  case (Some s)
  show ?thesis
  proof (cases "route_table rs m")
    case None
    obtain rs' where rs': "route_set_insert m i rs = Ret rs'" "wf_route_set rs'"
        "route_table rs' = (route_table rs)(m \<mapsto> word_of_nat i)"
      using route_set_insert_table[OF assms Some None] by blast
    moreover have "set_methods rs' = filter (\<lambda>n. n = m \<or> route_table rs n \<noteq> None) method_names"
      unfolding set_methods_def rs'(3) by (rule filter_cong) auto
    ultimately show ?thesis
      using Some None allowed_methods_join[OF rs'(2)] by simp
  next
    case (Some r)
    then show ?thesis
      using route_set_insert_duplicate[OF assms(1) Some] assms(2) by simp
  qed
qed

lemma route_set_insert_cases_witness:
  "\<exists>rs. route_set_insert POST 3 empty_route_set = Ret rs \<and> allowed_methods rs = ''POST''"
  using route_set_insert_cases[OF wf_empty_route_set, of 3 POST]
    route_set_insert_table[OF wf_empty_route_set, of 3 POST 5]
  by (auto simp: method_names_def method_slot_def split: outcome.splits)

end
