(* ===== verification/Codec.thy ===== *)
theory Codec
  imports Http_Types
begin

text \<open>
  Model of \<open>src/codec.rs\<close>: percent decoding and the query-string parser. The decoder copies runs
  of literal bytes and decodes escapes between them; the reference \<open>decode_bytes\<close> reads one
  byte at a time. The typed query parser converts a value where the declared parameter says so;
  \<open>serde\<close> (\<open>from_value\<close>, \<open>serde_urlencoded\<close>) is a parameter, and so is the
  decimal-to-binary conversion of \<open>f64\<close>.
\<close>

abbreviation percent :: char where
  "percent \<equiv> CHR ''%''"

section \<open>Percent decoding\<close>

definition hex :: "char \<Rightarrow> nat option" where
  "hex c =
     (let v = byte c
      in if 48 \<le> v \<and> v \<le> 57 then Some (v - 48)
         else if 97 \<le> v \<and> v \<le> 102 then Some (v - 97 + 10)
         else if 65 \<le> v \<and> v \<le> 70 then Some (v - 65 + 10)
         else None)"

text \<open>\<open>iter().position(..)\<close>\<close>

fun position :: "('a \<Rightarrow> bool) \<Rightarrow> 'a list \<Rightarrow> nat option" where
  "position P [] = None"
| "position P (x # xs) = (if P x then Some 0 else map_option Suc (position P xs))"

definition bad_percent :: api_error where
  "bad_percent = bad_request ''invalid percent encoding''"

definition bad_utf8 :: api_error where
  "bad_utf8 = bad_request ''invalid UTF-8 in percent encoding''"

text \<open>The loop of \<open>percent_decode\<close>: \<open>index\<close> and \<open>output\<close> are its variables.\<close>

function percent_loop :: "string \<Rightarrow> nat \<Rightarrow> string \<Rightarrow> api_error + string" where
  "percent_loop bytes idx out =
     (if idx < length bytes then
        (let run = (case position (\<lambda>b. b = percent) (drop idx bytes) of
                      Some n \<Rightarrow> n | None \<Rightarrow> length bytes - idx);
             out = out @ slice bytes idx (idx + run);
             stop = idx + run
         in if stop = length bytes then Inr out
            else if length bytes \<le> stop + 2 then Inl bad_percent
            else (case hex (bytes ! (stop + 1)) of
                    None \<Rightarrow> Inl bad_percent
                  | Some high \<Rightarrow>
                      (case hex (bytes ! (stop + 2)) of
                         None \<Rightarrow> Inl bad_percent
                       | Some low \<Rightarrow>
                           percent_loop bytes (stop + 3) (out @ [char_of (high * 16 + low)]))))
      else Inr out)"
  by pat_completeness auto
termination
  by (relation "measure (\<lambda>(bytes, idx, out). length bytes - idx)") auto

declare percent_loop.simps [simp del]

definition percent_decode :: "string \<Rightarrow> api_error + string" where
  "percent_decode value =
     (case percent_loop value 0 [] of
        Inl e \<Rightarrow> Inl e
      | Inr out \<Rightarrow> if utf8_valid out then Inr out else Inl bad_utf8)"

definition decode_query_component :: "string \<Rightarrow> api_error + string" where
  "decode_query_component value =
     (if contains_char value percent then percent_decode value else Inr value)"

function valid_loop :: "string \<Rightarrow> nat \<Rightarrow> bool" where
  "valid_loop bytes idx =
     (if idx < length bytes then
        (if bytes ! idx = percent then
           (if length bytes \<le> idx + 2 \<or> hex (bytes ! (idx + 1)) = None
               \<or> hex (bytes ! (idx + 2)) = None
            then False
            else valid_loop bytes (idx + 3))
         else valid_loop bytes (idx + 1))
      else True)"
  by pat_completeness auto
termination
  by (relation "measure (\<lambda>(bytes, idx). length bytes - idx)") auto

declare valid_loop.simps [simp del]

definition valid_percent_encoding :: "string \<Rightarrow> bool" where
  "valid_percent_encoding value = valid_loop value 0"

subsection \<open>The reference decoder\<close>

fun decode_bytes :: "string \<Rightarrow> string option" where
  "decode_bytes [] = Some []"
| "decode_bytes (c # s) =
     (if c \<noteq> percent then map_option ((#) c) (decode_bytes s)
      else (case s of
              a # b # r \<Rightarrow>
                (case (hex a, hex b) of
                   (Some h, Some l) \<Rightarrow> map_option ((#) (char_of (h * 16 + l))) (decode_bytes r)
                 | _ \<Rightarrow> None)
            | _ \<Rightarrow> None))"

lemma hex_less: "hex c = Some n \<Longrightarrow> n < 16"
  by (auto simp: hex_def Let_def split: if_splits)

text \<open>The byte \<open>high * 16 + low\<close> never leaves \<open>u8\<close>.\<close>

lemma hex_pair_u8: "hex a = Some h \<Longrightarrow> hex b = Some l \<Longrightarrow> h * 16 + l < 256"
  using hex_less[of a h] hex_less[of b l] by linarith

lemma position_Some:
  "position P xs = Some n \<Longrightarrow> n < length xs \<and> P (xs ! n) \<and> (\<forall>x \<in> set (take n xs). \<not> P x)"
  by (induction xs arbitrary: n) (auto split: if_splits)

lemma position_None: "position P xs = None \<Longrightarrow> \<forall>x \<in> set xs. \<not> P x"
  by (induction xs) (auto split: if_splits)

lemma decode_bytes_literal:
  "percent \<notin> set s \<Longrightarrow> decode_bytes (s @ t) = map_option ((@) s) (decode_bytes t)"
  by (induction s; cases "decode_bytes t") auto

lemma drop_three:
  assumes "i + 2 < length xs"
  shows "drop i xs = xs ! i # xs ! (i + 1) # xs ! (i + 2) # drop (i + 3) xs"
proof -
  have "drop i xs = xs ! i # drop (i + 1) xs"
    using assms by (simp add: Cons_nth_drop_Suc)
  also have "drop (i + 1) xs = xs ! (i + 1) # drop (i + 2) xs"
    using assms by (simp add: Cons_nth_drop_Suc)
  also have "drop (i + 2) xs = xs ! (i + 2) # drop (i + 3) xs"
    using assms Cons_nth_drop_Suc[of "i + 2" xs] by (simp add: numeral_3_eq_3)
  finally show ?thesis .
qed

lemma decode_bytes_short:
  "length s \<le> 2 \<Longrightarrow> s \<noteq> [] \<Longrightarrow> hd s = percent \<Longrightarrow> decode_bytes s = None"
  by (cases s rule: decode_bytes.cases) (auto split: list.splits)

lemma decode_bytes_escape:
  assumes "i < length xs" "xs ! i = percent"
  shows "decode_bytes (drop i xs) =
     (if length xs \<le> i + 2 then None
      else (case (hex (xs ! (i + 1)), hex (xs ! (i + 2))) of
              (Some h, Some l) \<Rightarrow>
                map_option ((#) (char_of (h * 16 + l))) (decode_bytes (drop (i + 3) xs))
            | _ \<Rightarrow> None))"
proof (cases "length xs \<le> i + 2")
  case True
  then show ?thesis
    using assms decode_bytes_short[of "drop i xs"] by (simp add: hd_drop_conv_nth)
next
  case False
  then show ?thesis
    using assms drop_three[of i xs] by (simp split: option.splits)
qed

lemma percent_loop_decode:
  "idx \<le> length bytes \<Longrightarrow>
     percent_loop bytes idx out =
       (case decode_bytes (drop idx bytes) of
          None \<Rightarrow> Inl bad_percent
        | Some rest \<Rightarrow> Inr (out @ rest))"
proof (induction bytes idx out rule: percent_loop.induct)
  case (1 bytes idx out)
  show ?case
  proof (cases "idx < length bytes")
    case False
    with "1.prems" show ?thesis
      by (subst percent_loop.simps) simp
  next
    case inside: True
    show ?thesis
    proof (cases "position (\<lambda>b. b = percent) (drop idx bytes)")
      case None
      then have "percent \<notin> set (drop idx bytes)"
        using position_None by blast
      then have "decode_bytes (drop idx bytes) = Some (drop idx bytes)"
        using decode_bytes_literal[of "drop idx bytes" "[]"] by simp
      with None inside show ?thesis
        by (simp add: percent_loop.simps[of bytes idx] slice_def)
    next
      case (Some n)
      note at = position_Some[OF Some]
      let ?i = "idx + n"
      have "n < length (drop idx bytes)" "drop idx bytes ! n = percent"
        using at by blast+
      then have i: "?i < length bytes" "bytes ! ?i = percent"
        using inside nth_drop[of idx bytes n] by (simp_all del: nth_drop)
      have run: "drop idx bytes = slice bytes idx ?i @ drop ?i bytes"
        by (metis add.commute add_diff_cancel_left' append_take_drop_id drop_drop slice_def)
      have lit: "percent \<notin> set (slice bytes idx ?i)"
        using at by (auto simp: slice_def)
      have decode: "decode_bytes (drop idx bytes)
          = map_option ((@) (slice bytes idx ?i)) (decode_bytes (drop ?i bytes))"
        using decode_bytes_literal[OF lit, of "drop ?i bytes"] run by simp
      show ?thesis
      proof (cases "length bytes \<le> ?i + 2 \<or> hex (bytes ! (?i + 1)) = None \<or> hex (bytes ! (?i + 2)) = None")
        case True
        then have "decode_bytes (drop ?i bytes) = None"
          using decode_bytes_escape[OF i] by (auto split: option.splits)
        moreover have "percent_loop bytes idx out = Inl bad_percent"
          using True Some inside i
          by (auto simp: percent_loop.simps[of bytes idx] Let_def split: option.splits)
        ultimately show ?thesis
          using decode by simp
      next
        case False
        then obtain h l where hl: "hex (bytes ! (?i + 1)) = Some h" "hex (bytes ! (?i + 2)) = Some l"
          by auto
        have "percent_loop bytes idx out =
            percent_loop bytes (?i + 3) ((out @ slice bytes idx ?i) @ [char_of (h * 16 + l)])"
          using False Some inside hl i
          by (simp add: percent_loop.simps[of bytes idx] Let_def)
        also have "\<dots> = (case decode_bytes (drop (?i + 3) bytes) of None \<Rightarrow> Inl bad_percent
            | Some rest \<Rightarrow> Inr (((out @ slice bytes idx ?i) @ [char_of (h * 16 + l)]) @ rest))"
          using "1.IH"[OF inside, of n "out @ slice bytes idx ?i" ?i h l] False Some hl i
          by simp
        finally show ?thesis
          using decode decode_bytes_escape[OF i] False hl by (auto split: option.splits)
      qed
    qed
  qed
qed

lemma percent_decode_reference:
  "percent_decode s =
     (case decode_bytes s of
        None \<Rightarrow> Inl bad_percent
      | Some rest \<Rightarrow> if utf8_valid rest then Inr rest else Inl bad_utf8)"
  by (simp add: percent_decode_def percent_loop_decode split: option.splits)

lemma valid_loop_decode:
  "idx \<le> length bytes \<Longrightarrow> valid_loop bytes idx \<longleftrightarrow> decode_bytes (drop idx bytes) \<noteq> None"
proof (induction bytes idx rule: valid_loop.induct)
  case (1 bytes idx)
  show ?case
  proof (cases "idx < length bytes")
    case False
    with "1.prems" show ?thesis by (subst valid_loop.simps) simp
  next
    case inside: True
    show ?thesis
    proof (cases "bytes ! idx = percent")
      case True
      then show ?thesis
        using 1 inside decode_bytes_escape[OF inside True]
        by (auto simp: valid_loop.simps[of bytes idx] split: option.splits)
    next
      case False
      have "drop idx bytes = bytes ! idx # drop (idx + 1) bytes"
        using inside by (simp add: Cons_nth_drop_Suc)
      then show ?thesis
        using 1 inside False by (simp add: valid_loop.simps[of bytes idx])
    qed
  qed
qed

lemma valid_percent_encoding_decode: "valid_percent_encoding s \<longleftrightarrow> decode_bytes s \<noteq> None"
  by (simp add: valid_percent_encoding_def valid_loop_decode)

subsection \<open>Encoding, for the round trip\<close>

text \<open>
  What a client does to a text before it puts it in a URL: every byte outside a chosen set of
  plain ones is escaped, in either case of hexadecimal digit.
\<close>

definition upper_hex_digit :: "nat \<Rightarrow> char" where
  "upper_hex_digit d = char_of (if d < 10 then 48 + d else 55 + d)"

definition percent_encode :: "(char \<Rightarrow> bool) \<Rightarrow> string \<Rightarrow> string" where
  "percent_encode plain s =
     concat (map (\<lambda>c. if plain c \<and> c \<noteq> percent then [c]
                      else [percent, upper_hex_digit (byte c div 16), hex_digit (byte c mod 16)]) s)"

lemma hex_hex_digit [simp]: "d < 16 \<Longrightarrow> hex (hex_digit d) = Some d"
  by (auto simp: hex_def hex_digit_def)

lemma hex_upper_hex_digit [simp]: "d < 16 \<Longrightarrow> hex (upper_hex_digit d) = Some d"
  by (auto simp: hex_def upper_hex_digit_def)

lemma decode_percent_encode: "decode_bytes (percent_encode plain s) = Some s"
proof (induction s)
  case (Cons c s)
  have "byte c div 16 < 16" "byte c mod 16 < 16"
    using byte_less[of c] by linarith+
  moreover have "char_of (byte c div 16 * 16 + byte c mod 16) = c"
    using char_of_byte[of c] by (simp add: mult.commute)
  ultimately show ?case
    using Cons.IH by (simp add: percent_encode_def)
qed (simp add: percent_encode_def)

lemma percent_encode_roundtrip:
  "utf8_valid s \<Longrightarrow> percent_decode (percent_encode plain s) = Inr s"
  by (simp add: percent_decode_reference decode_percent_encode)

lemma percent_decode_literal:
  "utf8_valid s \<Longrightarrow> percent \<notin> set s \<Longrightarrow> percent_decode s = Inr s"
  using decode_bytes_literal[of s "[]"] by (simp add: percent_decode_reference)

lemma decode_query_component_eq:
  "utf8_valid s \<Longrightarrow> decode_query_component s = percent_decode s"
  by (auto simp: decode_query_component_def contains_char_def percent_decode_literal)

section \<open>Query strings\<close>

datatype f64 = Finite rat | Not_Finite

text \<open>\<open>str::parse::<i64>\<close>: an optional sign, digits, in range.\<close>

definition parse_i64 :: "string \<Rightarrow> int option" where
  "parse_i64 s =
     (case s of
        [] \<Rightarrow> None
      | c # r \<Rightarrow>
          (let negative = (c = CHR ''-'');
               d = (if c = CHR ''+'' \<or> c = CHR ''-'' then r else s)
           in if d = [] then None
              else (case parse_digits 0 d of
                      None \<Rightarrow> None
                    | Some n \<Rightarrow>
                        (let v = (if negative then - int n else int n)
                         in if - (2 ^ 63) \<le> v \<and> v < 2 ^ 63 then Some v else None))))"

definition parse_u64 :: "string \<Rightarrow> int option" where
  "parse_u64 s = map_option int (parse_unsigned (2 ^ 64 - 1) s)"

text \<open>\<open>parse::<i64>().or_else(|_| parse::<u64>())\<close>\<close>

definition parse_integer :: "string \<Rightarrow> int option" where
  "parse_integer s = (case parse_i64 s of Some n \<Rightarrow> Some n | None \<Rightarrow> parse_u64 s)"

definition query_pairs :: "string \<Rightarrow> (string \<times> string) list" where
  "query_pairs query =
     map (\<lambda>pair. case split_once (CHR ''='') pair of Some kv \<Rightarrow> kv | None \<Rightarrow> (pair, []))
       (filter (\<lambda>pair. pair \<noteq> []) (str_split (CHR ''&'') query))"

text \<open>The loop that rejects a query with malformed escapes before anything is parsed.\<close>

fun check_pairs :: "(string \<times> string) list \<Rightarrow> api_error + unit" where
  "check_pairs [] = Inr ()"
| "check_pairs ((key, value) # rest) =
     bind_result (percent_decode key)
       (\<lambda>_. bind_result (percent_decode value) (\<lambda>_. check_pairs rest))"

definition alternatives :: "json \<Rightarrow> json list" where
  "alternatives schema =
     concat (List.map_filter (\<lambda>key. as_array (json_index schema key)) [''oneOf'', ''anyOf''])"

fun first_some :: "('a \<Rightarrow> 'b option) \<Rightarrow> 'a list \<Rightarrow> 'b option" where
  "first_some f [] = None"
| "first_some f (x # xs) = (case f x of Some y \<Rightarrow> Some y | None \<Rightarrow> first_some f xs)"

lemma first_some_cong [fundef_cong]:
  "xs = ys \<Longrightarrow> (\<And>x. x \<in> set ys \<Longrightarrow> f x = g x) \<Longrightarrow> first_some f xs = first_some g ys"
  by (induction ys arbitrary: xs) (auto split: option.splits)

lemma map_filter_cong' [fundef_cong]:
  "xs = ys \<Longrightarrow> (\<And>x. x \<in> set ys \<Longrightarrow> f x = g x) \<Longrightarrow> List.map_filter f xs = List.map_filter g ys"
  by (induction ys arbitrary: xs) (auto simp: List.map_filter_simps split: option.splits)

lemma alternatives_smaller [termination_simp]: "x \<in> set (alternatives schema) \<Longrightarrow> size x < size schema"
proof -
  assume "x \<in> set (alternatives schema)"
  then obtain key xs where k: "json_index schema key = JArr xs" "x \<in> set xs"
    by (auto simp: alternatives_def List.map_filter_simps elim!: as_array.elims
        split: option.splits)
  then have "size x < size (JArr xs)"
    using json_size_elem by blast
  moreover have "size (JArr xs) < size schema"
    using k(1) json_size_entry[of _ key "JArr xs"] by (cases schema) (auto split: option.splits)
  ultimately show ?thesis by linarith
qed

function array_items :: "json \<Rightarrow> json option" where
  "array_items schema =
     (if as_str (json_index schema ''type'') = Some ''array''
      then Some (json_index schema ''items'')
      else first_some array_items (alternatives schema))"
  by pat_completeness auto
termination
  by (relation "measure size") (auto simp: alternatives_smaller)

function declared_type :: "json \<Rightarrow> string option" where
  "declared_type schema =
     (case as_str (json_index schema ''type'') of
        Some kind \<Rightarrow> Some kind
      | None \<Rightarrow>
          find (\<lambda>kind. kind \<noteq> ''null'') (List.map_filter declared_type (alternatives schema)))"
  by pat_completeness auto
termination
  by (relation "measure size") (auto simp: alternatives_smaller)

declare array_items.simps [simp del] declared_type.simps [simp del]

text \<open>An element of a declared array.\<close>

definition scalar :: "(string \<Rightarrow> f64 option) \<Rightarrow> string option \<Rightarrow> string \<Rightarrow> json" where
  "scalar parse_f64 kind value =
     (if kind = Some ''boolean'' \<and> value = ''true'' then JBool True
      else if kind = Some ''boolean'' \<and> value = ''false'' then JBool False
      else if kind = Some ''integer'' then
        (case parse_integer value of Some n \<Rightarrow> JInt n | None \<Rightarrow> JStr value)
      else if kind = Some ''number'' then
        (case parse_f64 value of Some (Finite q) \<Rightarrow> JFloat q | _ \<Rightarrow> JStr value)
      else JStr value)"

text \<open>A value of any other parameter.\<close>

definition typed_value :: "(string \<Rightarrow> f64 option) \<Rightarrow> string option \<Rightarrow> string \<Rightarrow> json" where
  "typed_value parse_f64 kind value =
     (if kind \<in> {Some ''boolean'', Some ''any''} \<and> value = ''true'' then JBool True
      else if kind \<in> {Some ''boolean'', Some ''any''} \<and> value = ''false'' then JBool False
      else if kind \<in> {Some ''integer'', Some ''any''} \<and> parse_integer value \<noteq> None then
        (case parse_integer value of Some n \<Rightarrow> JInt n | None \<Rightarrow> JNull)
      else if kind \<in> {Some ''number'', Some ''any''} then
        (case parse_f64 value of
           Some (Finite q) \<Rightarrow> (case parse_integer value of Some n \<Rightarrow> JInt n | None \<Rightarrow> JFloat q)
         | _ \<Rightarrow> JStr value)
      else JStr value)"

definition find_parameter :: "json list \<Rightarrow> string \<Rightarrow> json option" where
  "find_parameter parameters name =
     find (\<lambda>parameter. as_str (json_index parameter ''name'') = Some name) parameters"

definition declared_of :: "json list \<Rightarrow> string \<Rightarrow> string option" where
  "declared_of parameters name =
     Option.bind (find_parameter parameters name)
       (\<lambda>parameter. declared_type (json_index parameter ''schema''))"

definition array_items_of :: "json list \<Rightarrow> string \<Rightarrow> json option" where
  "array_items_of parameters name =
     Option.bind (find_parameter parameters name)
       (\<lambda>parameter. array_items (json_index parameter ''schema''))"

definition push_item :: "json option \<Rightarrow> json \<Rightarrow> json" where
  "push_item present item =
     (case present of Some (JArr values) \<Rightarrow> JArr (values @ [item]) | _ \<Rightarrow> JArr [item])"

fun typed_loop ::
  "(string \<Rightarrow> f64 option) \<Rightarrow> json list \<Rightarrow> (string \<times> string) list \<Rightarrow> (string \<times> json) list
     \<Rightarrow> api_error + (string \<times> json) list" where
  "typed_loop parse_f64 parameters [] object = Inr object"
| "typed_loop parse_f64 parameters ((k, v) # rest) object =
     (case percent_decode k of
        Inl e \<Rightarrow> Inl e
      | Inr key \<Rightarrow>
          (case percent_decode v of
             Inl e \<Rightarrow> Inl e
           | Inr value \<Rightarrow>
               (case array_items_of parameters key of
                  Some items \<Rightarrow>
                    typed_loop parse_f64 parameters rest
                      (obj_insert key
                         (push_item (map_of object key)
                            (scalar parse_f64 (declared_type items) value)) object)
                | None \<Rightarrow>
                    (let kind = (if parameters = [] then Some ''any''
                                 else declared_of parameters key)
                     in typed_loop parse_f64 parameters rest
                          (obj_insert key (typed_value parse_f64 kind value) object)))))"

definition parse_query_typed ::
  "(string \<Rightarrow> f64 option) \<Rightarrow> (json \<Rightarrow> string + 'a) \<Rightarrow> string \<Rightarrow> json list \<Rightarrow> api_error + 'a" where
  "parse_query_typed parse_f64 from_value query parameters =
     (case typed_loop parse_f64 parameters (query_pairs query) [] of
        Inl e \<Rightarrow> Inl e
      | Inr object \<Rightarrow>
          (case from_value (JObj object) of
             Inr x \<Rightarrow> Inr x | Inl error \<Rightarrow> Inl (bad_request error)))"

definition parse_query_guided ::
  "(string \<Rightarrow> f64 option) \<Rightarrow> (json \<Rightarrow> string + 'a) \<Rightarrow> string \<Rightarrow> json list \<Rightarrow> api_error + 'a" where
  "parse_query_guided parse_f64 from_value query parameters =
     bind_result (check_pairs (query_pairs query))
       (\<lambda>_. parse_query_typed parse_f64 from_value query parameters)"

definition parse_query ::
  "(string \<Rightarrow> f64 option) \<Rightarrow> (json \<Rightarrow> string + 'a) \<Rightarrow> (string \<Rightarrow> string + 'a) \<Rightarrow> string \<Rightarrow> json list
     \<Rightarrow> api_error + 'a" where
  "parse_query parse_f64 from_value from_urlencoded query parameters =
     bind_result (check_pairs (query_pairs query))
       (\<lambda>_. case from_urlencoded (replace_char (CHR ''+'') ''%2B'' query) of
              Inr x \<Rightarrow> Inr x
            | Inl error \<Rightarrow>
                (case parse_query_typed parse_f64 from_value query parameters of
                   Inr x \<Rightarrow> Inr x
                 | Inl _ \<Rightarrow> Inl (bad_request error)))"

subsection \<open>What the typed parser builds\<close>

text \<open>The decoded pairs, when every escape in them is well formed.\<close>

fun decode_pairs :: "(string \<times> string) list \<Rightarrow> (string \<times> string) list option" where
  "decode_pairs [] = Some []"
| "decode_pairs ((k, v) # rest) =
     (case (percent_decode k, percent_decode v, decode_pairs rest) of
        (Inr key, Inr value, Some kvs) \<Rightarrow> Some ((key, value) # kvs)
      | _ \<Rightarrow> None)"

lemma check_pairs_decode: "check_pairs ps = Inr u \<longleftrightarrow> decode_pairs ps \<noteq> None"
  by (induction ps rule: check_pairs.induct) (auto split: sum.splits option.splits)

text \<open>
  The entry a key gets: all its values in order when it is declared as an array, else the
  conversion of its last value.
\<close>

definition values_of :: "(string \<times> string) list \<Rightarrow> string \<Rightarrow> string list" where
  "values_of kvs key = map snd (filter (\<lambda>(k, _). k = key) kvs)"

definition query_kind :: "json list \<Rightarrow> string \<Rightarrow> string option" where
  "query_kind parameters key =
     (if parameters = [] then Some ''any'' else declared_of parameters key)"

definition query_entry ::
  "(string \<Rightarrow> f64 option) \<Rightarrow> json list \<Rightarrow> string \<Rightarrow> json option \<Rightarrow> string list \<Rightarrow> json option" where
  "query_entry parse_f64 parameters key present vs =
     (if vs = [] then present
      else (case array_items_of parameters key of
              Some items \<Rightarrow>
                Some (JArr ((case present of Some (JArr xs) \<Rightarrow> xs | _ \<Rightarrow> [])
                             @ map (scalar parse_f64 (declared_type items)) vs))
            | None \<Rightarrow> Some (typed_value parse_f64 (query_kind parameters key) (last vs))))"

lemma values_of_Cons:
  "values_of ((k, v) # kvs) key = (if k = key then v # values_of kvs key else values_of kvs key)"
  by (simp add: values_of_def)

lemma typed_loop_decode:
  "decode_pairs ps = Some kvs \<Longrightarrow>
     \<exists>obj. typed_loop parse_f64 parameters ps object = Inr obj \<and>
       (\<forall>key. map_of obj key
          = query_entry parse_f64 parameters key (map_of object key) (values_of kvs key))"
proof (induction ps arbitrary: kvs object)
  case Nil
  then show ?case by (simp add: query_entry_def values_of_def)
next
  case (Cons p ps)
  obtain k v where p: "p = (k, v)" by (cases p)
  obtain key val kvs' where d: "percent_decode k = Inr key" "percent_decode v = Inr val"
      "decode_pairs ps = Some kvs'" "kvs = (key, val) # kvs'"
    using Cons.prems p by (auto split: sum.splits option.splits)
  define object' where "object' = obj_insert key
      (case array_items_of parameters key of
         Some items \<Rightarrow> push_item (map_of object key) (scalar parse_f64 (declared_type items) val)
       | None \<Rightarrow> typed_value parse_f64 (query_kind parameters key) val) object"
  have step: "typed_loop parse_f64 parameters (p # ps) object = typed_loop parse_f64 parameters ps object'"
    using d by (simp add: p object'_def query_kind_def Let_def split: option.splits)
  obtain obj where obj: "typed_loop parse_f64 parameters ps object' = Inr obj"
      "\<And>key'. map_of obj key'
         = query_entry parse_f64 parameters key' (map_of object' key') (values_of kvs' key')"
    using Cons.IH[OF d(3), of object'] by blast
  have "query_entry parse_f64 parameters key' (map_of object' key') (values_of kvs' key')
      = query_entry parse_f64 parameters key' (map_of object key') (values_of kvs key')" for key'
    by (auto simp: query_entry_def object'_def push_item_def d(4) values_of_Cons
        split: option.splits json.splits)
  then show ?case
    using obj step by auto
qed

lemma typed_loop_error:
  "decode_pairs ps = None \<Longrightarrow> \<exists>e. typed_loop parse_f64 parameters ps object = Inl e"
  by (induction ps arbitrary: object rule: decode_pairs.induct)
    (auto simp: Let_def split: sum.splits option.splits)

lemma typed_loop_sorted:
  "typed_loop parse_f64 parameters ps object = Inr obj \<Longrightarrow>
     sorted_wrt (<) (map fst object) \<Longrightarrow> sorted_wrt (<) (map fst obj)"
  by (induction ps arbitrary: object)
    (auto simp: Let_def obj_insert_sorted split: sum.splits option.splits)

section \<open>Properties\<close>

text \<open>The run-copying decoder is the bytewise one: malformed escapes are refused with the first
  error, bytes that are no UTF-8 with the second, and everything else is the decoded text. The
  router's check \<open>valid_percent_encoding\<close> accepts exactly the texts whose escapes decode, so a
  captured segment can fail to decode only as UTF-8.\<close>

theorem percent_decode_is_bytewise:
  "percent_decode s =
     (case decode_bytes s of
        None \<Rightarrow> Inl (bad_request ''invalid percent encoding'')
      | Some out \<Rightarrow>
          (if utf8_valid out then Inr out
           else Inl (bad_request ''invalid UTF-8 in percent encoding'')))
   \<and> (valid_percent_encoding s \<longleftrightarrow> decode_bytes s \<noteq> None)"
  unfolding percent_decode_reference valid_percent_encoding_decode bad_percent_def bad_utf8_def
  by simp

text \<open>Percent encoding any text, with any choice of the bytes left plain, and decoding it gives
  the text back.\<close>

theorem percent_roundtrip:
  assumes "utf8_valid s"
  shows "percent_decode (percent_encode plain s) = Inr s"
  using percent_encode_roundtrip[OF assms] .

lemma percent_roundtrip_witness:
  "percent_decode (percent_encode is_ascii_alphanumeric ''a b%'') = Inr ''a b%''"
  by (rule percent_roundtrip) simp

text \<open>The typed query parser never fails on a query whose escapes decode, and the object it
  hands to serde has, for every key, all the values of that key in order when the key is declared
  as an array, and otherwise the conversion of its last value by its declared type.\<close>

theorem typed_query_object:
  assumes "decode_pairs (query_pairs query) = Some kvs"
  shows "\<exists>obj. typed_loop parse_f64 parameters (query_pairs query) [] = Inr obj \<and>
    (\<forall>key. map_of obj key =
      (let vs = values_of kvs key
       in if vs = [] then None
          else (case array_items_of parameters key of
                  Some items \<Rightarrow> Some (JArr (map (scalar parse_f64 (declared_type items)) vs))
                | None \<Rightarrow> Some (typed_value parse_f64 (query_kind parameters key) (last vs)))))"
proof -
  obtain obj where "typed_loop parse_f64 parameters (query_pairs query) [] = Inr obj"
      "\<And>key. map_of obj key = query_entry parse_f64 parameters key None (values_of kvs key)"
    using typed_loop_decode[OF assms, of parse_f64 parameters "[]"] by auto
  then show ?thesis
    by (intro exI[of _ obj]) (simp add: query_entry_def Let_def split: option.splits)
qed

lemma typed_query_object_witness:
  "\<exists>obj. typed_loop (\<lambda>_. None) [] (query_pairs ''a=1&b=x&a=2'') [] = Inr obj \<and>
     map_of obj ''a'' = Some (JInt 2) \<and> map_of obj ''b'' = Some (JStr ''x'')"
proof -
  have lit: "percent_decode ''a'' = Inr ''a''" "percent_decode ''b'' = Inr ''b''"
    "percent_decode ''1'' = Inr ''1''" "percent_decode ''2'' = Inr ''2''" "percent_decode ''x'' = Inr ''x''"
    by (simp_all add: percent_decode_literal)
  have pairs: "query_pairs ''a=1&b=x&a=2'' = [(''a'', ''1''), (''b'', ''x''), (''a'', ''2'')]"
    by (simp add: query_pairs_def)
  have "decode_pairs (query_pairs ''a=1&b=x&a=2'') = Some [(''a'', ''1''), (''b'', ''x''), (''a'', ''2'')]"
    by (simp add: pairs lit)
  then obtain obj where obj: "typed_loop (\<lambda>_. None) [] (query_pairs ''a=1&b=x&a=2'') [] = Inr obj"
      "\<And>key. map_of obj key =
        (let vs = values_of [(''a'', ''1''), (''b'', ''x''), (''a'', ''2'')] key
         in if vs = [] then None
            else (case array_items_of [] key of
                    Some items \<Rightarrow> Some (JArr (map (scalar (\<lambda>_. None) (declared_type items)) vs))
                  | None \<Rightarrow> Some (typed_value (\<lambda>_. None) (query_kind [] key) (last vs))))"
    using typed_query_object by blast
  have "typed_value (\<lambda>_. None) (Some ''any'') ''2'' = JInt 2"
    "typed_value (\<lambda>_. None) (Some ''any'') ''x'' = JStr ''x''"
    by (simp_all add: typed_value_def parse_integer_def parse_i64_def parse_u64_def
        parse_unsigned_def is_ascii_digit_def)
  then show ?thesis
    using obj by (intro exI[of _ obj])
      (simp add: values_of_def array_items_of_def find_parameter_def query_kind_def)
qed

end
