(* ===== verification/Path_Parts.thy ===== *)
theory Path_Parts
  imports Rust_Str
begin

text \<open>
  Model of \<open>src/path.rs\<close>: the segment iterator over a path (\<open>PathParts\<close>), \<open>split_path\<close>, the
  route-template parser and the two path normalisers. The iterator is the one splitter of the
  program: the route trie, the middleware scopes, the static-file layer and the template parser
  all go through it, so what it yields is characterised here once, against the plain
  description ``the non-empty pieces between the slashes''.
\<close>

abbreviation slash :: char where
  "slash \<equiv> CHR ''/''"

section \<open>The segment iterator\<close>

record path_part =
  part_value :: string
  part_start :: nat
  part_end :: nat

record path_parts =
  pp_path :: string
  pp_next :: nat

definition path_parts_new :: "string \<Rightarrow> path_parts" where
  "path_parts_new path = \<lparr>pp_path = path, pp_next = 0\<rparr>"

text \<open>The two \<open>while\<close> loops of \<open>Iterator::next\<close>.\<close>

function skip_slashes :: "string \<Rightarrow> nat \<Rightarrow> nat" where
  "skip_slashes p i =
     (if i < length p \<and> p ! i = slash then skip_slashes p (Suc i) else i)"
  by pat_completeness auto
termination
  by (relation "measure (\<lambda>(p, i). length p - i)") auto

function skip_segment :: "string \<Rightarrow> nat \<Rightarrow> nat" where
  "skip_segment p i =
     (if i < length p \<and> p ! i \<noteq> slash then skip_segment p (Suc i) else i)"
  by pat_completeness auto
termination
  by (relation "measure (\<lambda>(p, i). length p - i)") auto

declare skip_slashes.simps [simp del] skip_segment.simps [simp del]

definition parts_next :: "path_parts \<Rightarrow> path_part option \<times> path_parts" where
  "parts_next pp =
     (let p = pp_path pp; start = skip_slashes p (pp_next pp)
      in if length p \<le> start then (None, pp\<lparr>pp_next := start\<rparr>)
         else (let stop = skip_segment p start
               in (Some \<lparr>part_value = slice p start stop, part_start = start, part_end = stop\<rparr>,
                   pp\<lparr>pp_next := stop\<rparr>)))"

lemma skip_slashes_eq:
  "i \<le> length p \<Longrightarrow> skip_slashes p i = i + length (takeWhile (\<lambda>c. c = slash) (drop i p))"
proof (induction p i rule: skip_slashes.induct)
  case (1 p i)
  show ?case
  proof (cases "i < length p \<and> p ! i = slash")
    case True
    then show ?thesis using 1
      by (simp add: skip_slashes.simps[of p i] Cons_nth_drop_Suc[symmetric])
  next
    case False
    then have "skip_slashes p i = i"
      by (subst skip_slashes.simps) auto
    then show ?thesis using False "1.prems"
      by (cases "i = length p") (auto simp: Cons_nth_drop_Suc[symmetric])
  qed
qed

lemma skip_segment_eq:
  "i \<le> length p \<Longrightarrow> skip_segment p i = i + length (takeWhile (\<lambda>c. c \<noteq> slash) (drop i p))"
proof (induction p i rule: skip_segment.induct)
  case (1 p i)
  show ?case
  proof (cases "i < length p \<and> p ! i \<noteq> slash")
    case True
    then show ?thesis using 1
      by (simp add: skip_segment.simps[of p i] Cons_nth_drop_Suc[symmetric])
  next
    case False
    then have "skip_segment p i = i"
      by (subst skip_segment.simps) auto
    then show ?thesis using False "1.prems"
      by (cases "i = length p") (auto simp: Cons_nth_drop_Suc[symmetric])
  qed
qed

lemma skip_slashes_stop: "skip_slashes p i < length p \<Longrightarrow> p ! skip_slashes p i \<noteq> slash"
  by (induction p i rule: skip_slashes.induct) (metis skip_slashes.simps)

lemma skip_slashes_ge: "i \<le> skip_slashes p i"
  by (induction p i rule: skip_slashes.induct) (metis Suc_leD order_refl skip_slashes.simps)

lemma skip_segment_ge: "i \<le> skip_segment p i"
  by (induction p i rule: skip_segment.induct) (metis Suc_leD order_refl skip_segment.simps)

lemma skip_segment_le: "i \<le> length p \<Longrightarrow> skip_segment p i \<le> length p"
  by (induction p i rule: skip_segment.induct) (metis Suc_leI skip_segment.simps)

lemma skip_segment_gt:
  "i < length p \<Longrightarrow> p ! i \<noteq> slash \<Longrightarrow> i < skip_segment p i"
  by (subst skip_segment.simps) (use skip_segment_ge[of "Suc i" p] in auto)

lemma parts_next_path [simp]: "pp_path (snd (parts_next pp)) = pp_path pp"
  by (simp add: parts_next_def Let_def)

lemma parts_next_advances:
  "fst (parts_next pp) = Some part \<Longrightarrow>
     pp_next pp < pp_next (snd (parts_next pp)) \<and> pp_next (snd (parts_next pp)) \<le> length (pp_path pp)"
  using skip_segment_gt[of "skip_slashes (pp_path pp) (pp_next pp)" "pp_path pp"]
    skip_slashes_stop[of "pp_path pp" "pp_next pp"] skip_slashes_ge[of "pp_next pp" "pp_path pp"]
    skip_segment_le[of "skip_slashes (pp_path pp) (pp_next pp)" "pp_path pp"]
  by (auto simp: parts_next_def Let_def split: if_splits)

lemma parts_next_measure:
  "parts_next pp = (Some part, pp') \<Longrightarrow>
     length (pp_path pp') - pp_next pp' < length (pp_path pp) - pp_next pp"
  using parts_next_advances[of pp part] parts_next_path[of pp] by (auto intro: diff_less_mono2)

text \<open>Collecting the iterator: what \<open>.map(..)\<close>, \<open>.collect()\<close> and \<open>for\<close> consume.\<close>

function parts_list :: "path_parts \<Rightarrow> path_part list" where
  "parts_list pp =
     (case parts_next pp of
        (None, _) \<Rightarrow> []
      | (Some part, pp') \<Rightarrow> part # parts_list pp')"
  by pat_completeness auto
termination
  by (relation "measure (\<lambda>pp. length (pp_path pp) - pp_next pp)")
    (auto intro: parts_next_measure simp: eq_commute)

declare parts_list.simps [simp del]

definition split_path :: "string \<Rightarrow> string list" where
  "split_path path = map part_value (parts_list (path_parts_new path))"

section \<open>The reference: the non-empty pieces between slashes\<close>

definition pieces :: "string \<Rightarrow> string list" where
  "pieces s = filter (\<lambda>p. p \<noteq> []) (str_split slash s)"

lemma str_split_no_sep: "c \<notin> set s \<Longrightarrow> str_split c s = [s]"
  by (induction s) auto

lemma str_split_append_sep:
  "c \<notin> set s \<Longrightarrow> str_split c (s @ c # t) = s # str_split c t"
  by (induction s) auto

lemma str_split_snoc_sep: "str_split c (s @ [c]) = str_split c s @ [[]]"
  by (induction s) (auto split: list.splits)

lemma pieces_Nil [simp]: "pieces [] = []"
  by (simp add: pieces_def)

lemma pieces_slash [simp]: "pieces (slash # s) = pieces s"
  by (simp add: pieces_def)

lemma pieces_slashes: "set t \<subseteq> {slash} \<Longrightarrow> pieces (t @ s) = pieces s"
  by (induction t) auto

lemma pieces_snoc_slash [simp]: "pieces (s @ [slash]) = pieces s"
  by (simp add: pieces_def str_split_snoc_sep)

lemma pieces_trailing: "set t \<subseteq> {slash} \<Longrightarrow> pieces (s @ t) = pieces s"
proof (induction t rule: rev_induct)
  case (snoc c t)
  then have "pieces (s @ t @ [slash]) = pieces (s @ t)"
    by (simp only: append_assoc[symmetric] pieces_snoc_slash)
  with snoc show ?case by auto
qed simp

lemma pieces_trim_end: "pieces (trim_end_char slash s) = pieces s"
  using trim_end_char_append[of s slash] pieces_trailing by metis

lemma pieces_segment:
  assumes "s \<noteq> []" "slash \<notin> set s" "t = [] \<or> hd t = slash"
  shows "pieces (s @ t) = s # pieces t"
  using assms by (cases t) (auto simp: pieces_def str_split_no_sep str_split_append_sep)

lemma pieces_no_slash: "p \<in> set (pieces s) \<Longrightarrow> slash \<notin> set p \<and> p \<noteq> []"
  by (auto simp: pieces_def str_split_pieces)

section \<open>What the iterator yields\<close>

lemma takeWhile_full: "length xs \<le> length (takeWhile P xs) \<Longrightarrow> \<forall>x \<in> set xs. P x"
  by (induction xs) (auto split: if_splits)

lemma drop_past_takeWhile:
  "drop (i + length (takeWhile P (drop i p))) p = dropWhile P (drop i p)"
  by (simp add: dropWhile_eq_drop add.commute)

lemma parts_next_None_pieces:
  assumes "pp_next pp \<le> length (pp_path pp)" "fst (parts_next pp) = None"
  shows "pieces (drop (pp_next pp) (pp_path pp)) = []"
proof -
  let ?d = "drop (pp_next pp) (pp_path pp)"
  have "length ?d \<le> length (takeWhile (\<lambda>c. c = slash) ?d)"
    using assms by (auto simp: parts_next_def Let_def skip_slashes_eq split: if_splits)
  then have "set ?d \<subseteq> {slash}"
    using takeWhile_full[of ?d "\<lambda>c. c = slash"] by blast
  then show ?thesis
    using pieces_slashes[of ?d "[]"] by simp
qed

lemma parts_next_Some_pieces:
  assumes "pp_next pp \<le> length (pp_path pp)" "parts_next pp = (Some part, pp')"
  shows "pieces (drop (pp_next pp) (pp_path pp))
           = part_value part # pieces (drop (pp_next pp') (pp_path pp'))"
    and "part_value part = slice (pp_path pp) (part_start part) (part_end part)"
    and "pp_next pp \<le> part_start part" "part_start part < part_end part"
    and "part_end part = pp_next pp'" "pp_next pp' \<le> length (pp_path pp)"
    and "slash \<notin> set (part_value part)"
proof -
  define p where "p = pp_path pp"
  define i where "i = pp_next pp"
  define start where "start = skip_slashes p i"
  define stop where "stop = skip_segment p start"
  have lt: "start < length p" and part: "part = \<lparr>part_value = slice p start stop,
      part_start = start, part_end = stop\<rparr>" and pp': "pp' = pp\<lparr>pp_next := stop\<rparr>"
    using assms(2) by (auto simp: parts_next_def Let_def p_def i_def start_def stop_def split: if_splits)
  have i_le: "i \<le> length p"
    using assms(1) by (simp add: p_def i_def)
  have start: "start = i + length (takeWhile (\<lambda>c. c = slash) (drop i p))"
    using skip_slashes_eq[OF i_le] by (simp add: start_def)
  have stop: "stop = start + length (takeWhile (\<lambda>c. c \<noteq> slash) (drop start p))"
    using skip_segment_eq[of start p] lt by (simp add: stop_def)
  have ns: "p ! start \<noteq> slash"
    using skip_slashes_stop lt unfolding start_def by blast
  have gt: "start < stop"
    using skip_segment_gt[OF lt ns] by (simp add: stop_def)
  have le: "stop \<le> length p"
    using skip_segment_le[of start p] lt by (simp add: stop_def)
  let ?seg = "takeWhile (\<lambda>c. c \<noteq> slash) (drop start p)"
  have seg: "slice p start stop = ?seg"
    using stop by (simp add: slice_def takeWhile_eq_take[symmetric])
  have split1: "drop i p = takeWhile (\<lambda>c. c = slash) (drop i p) @ drop start p"
    unfolding start drop_past_takeWhile by simp
  have split2: "drop start p = ?seg @ drop stop p"
    unfolding stop drop_past_takeWhile by simp
  have seg_ne: "?seg \<noteq> []"
    using gt stop by auto
  have seg_ns: "slash \<notin> set ?seg"
    by (auto dest: set_takeWhileD)
  have "drop stop p = [] \<or> hd (drop stop p) = slash"
    using hd_dropWhile[of "\<lambda>c. c \<noteq> slash" "drop start p"]
    unfolding stop drop_past_takeWhile by blast
  then have "pieces (drop start p) = ?seg # pieces (drop stop p)"
    using pieces_segment[OF seg_ne seg_ns] split2 by metis
  moreover have "pieces (drop i p) = pieces (drop start p)"
    using pieces_slashes[of "takeWhile (\<lambda>c. c = slash) (drop i p)" "drop start p"] split1
    by (auto dest: set_takeWhileD)
  ultimately show "pieces (drop (pp_next pp) (pp_path pp))
      = part_value part # pieces (drop (pp_next pp') (pp_path pp'))"
    by (simp add: part pp' seg[unfolded p_def] p_def i_def)
  show "part_value part = slice (pp_path pp) (part_start part) (part_end part)"
    "part_start part < part_end part" "part_end part = pp_next pp'" "pp_next pp' \<le> length (pp_path pp)"
    using gt le by (simp_all add: part pp' p_def)
  show "pp_next pp \<le> part_start part"
    using skip_slashes_ge[of i p] by (simp add: part start_def i_def)
  show "slash \<notin> set (part_value part)"
    using seg_ns by (simp add: part seg)
qed

lemma parts_list_pieces:
  "pp_next pp \<le> length (pp_path pp) \<Longrightarrow>
     map part_value (parts_list pp) = pieces (drop (pp_next pp) (pp_path pp))"
proof (induction pp rule: parts_list.induct)
  case (1 pp)
  show ?case
  proof (cases "parts_next pp")
    case (Pair r pp')
    show ?thesis
    proof (cases r)
      case None
      with Pair 1 parts_next_None_pieces[of pp] show ?thesis
        by (simp add: parts_list.simps[of pp])
    next
      case (Some part)
      with Pair have nx: "parts_next pp = (Some part, pp')" by simp
      have "pp_path pp' = pp_path pp"
        using parts_next_path[of pp] nx by simp
      then show ?thesis
        using "1.IH"[OF nx[symmetric] refl] parts_next_Some_pieces[OF "1.prems" nx] nx
        by (simp add: parts_list.simps[of pp])
    qed
  qed
qed

lemma split_path_pieces: "split_path p = pieces p"
  by (simp add: split_path_def path_parts_new_def parts_list_pieces)

text \<open>Every part is a stretch of the path between its own bounds, in increasing order.\<close>

lemma parts_list_ranges:
  assumes "pp_next pp \<le> length (pp_path pp)" "part \<in> set (parts_list pp)"
  shows "part_value part = slice (pp_path pp) (part_start part) (part_end part) \<and>
    part_start part < part_end part \<and> part_end part \<le> length (pp_path pp) \<and>
    slash \<notin> set (part_value part)"
  using assms
proof (induction pp rule: parts_list.induct)
  case (1 pp)
  obtain r pp' where rp: "parts_next pp = (r, pp')"
    by (cases "parts_next pp")
  show ?case
  proof (cases r)
    case None
    with rp "1.prems" show ?thesis
      by (subst (asm) parts_list.simps) simp
  next
    case (Some q)
    with rp have nx: "parts_next pp = (Some q, pp')" by simp
    note facts = parts_next_Some_pieces[OF "1.prems"(1) nx]
    have path: "pp_path pp' = pp_path pp"
      using parts_next_path[of pp] nx by simp
    have "part = q \<or> part \<in> set (parts_list pp')"
      using "1.prems"(2) nx by (subst (asm) parts_list.simps) auto
    then show ?thesis
      using facts path "1.IH"[OF nx[symmetric] refl] by auto
  qed
qed

text \<open>A part starts right after a slash (or at the start) and ends right before one (or at the end).\<close>

lemma skip_slashes_prev: "i < skip_slashes p i \<Longrightarrow> p ! (skip_slashes p i - 1) = slash"
proof (induction p i rule: skip_slashes.induct)
  case (1 p i)
  have at: "i < length p \<and> p ! i = slash"
    using "1.prems" by (subst (asm) skip_slashes.simps) (auto split: if_splits)
  then have eq: "skip_slashes p i = skip_slashes p (Suc i)"
    by (subst skip_slashes.simps) simp
  show ?case
  proof (cases "Suc i < skip_slashes p (Suc i)")
    case True
    then show ?thesis using "1.IH"[OF at] eq by simp
  next
    case False
    then have "skip_slashes p (Suc i) = Suc i"
      using skip_slashes_ge[of "Suc i" p] by simp
    then show ?thesis using at eq by simp
  qed
qed

lemma skip_segment_stop: "skip_segment p i < length p \<Longrightarrow> p ! skip_segment p i = slash"
  by (induction p i rule: skip_segment.induct) (metis skip_segment.simps)

definition at_seam :: "string \<Rightarrow> nat \<Rightarrow> bool" where
  "at_seam p i \<longleftrightarrow> i = 0 \<or> length p \<le> i \<or> p ! i = slash"

lemma parts_next_seams:
  assumes "at_seam (pp_path pp) (pp_next pp)" "parts_next pp = (Some part, pp')"
  shows "(part_start part = 0 \<or> pp_path pp ! (part_start part - 1) = slash) \<and>
    at_seam (pp_path pp) (part_end part) \<and> at_seam (pp_path pp') (pp_next pp')"
proof -
  define p where "p = pp_path pp"
  define start where "start = skip_slashes p (pp_next pp)"
  have lt: "start < length p" and part: "part_start part = start" "part_end part = skip_segment p start"
    and pp': "pp' = pp\<lparr>pp_next := skip_segment p start\<rparr>"
    using assms(2) by (auto simp: parts_next_def Let_def p_def start_def split: if_splits)
  have "p ! start \<noteq> slash"
    using skip_slashes_stop lt unfolding start_def by blast
  moreover have "pp_next pp \<le> start"
    using skip_slashes_ge by (simp add: start_def)
  ultimately have "start = 0 \<or> pp_next pp < start"
    using assms(1) lt by (cases "pp_next pp = start") (auto simp: at_seam_def p_def)
  then have "start = 0 \<or> p ! (start - 1) = slash"
    using skip_slashes_prev[of "pp_next pp" p] by (auto simp: start_def)
  moreover have "at_seam p (skip_segment p start)"
    using skip_segment_stop[of p start] by (fastforce simp: at_seam_def not_le)
  ultimately show ?thesis
    by (simp add: part pp' p_def)
qed

lemma parts_list_seams:
  assumes "at_seam (pp_path pp) (pp_next pp)" "part \<in> set (parts_list pp)"
  shows "(part_start part = 0 \<or> pp_path pp ! (part_start part - 1) = slash) \<and>
    at_seam (pp_path pp) (part_end part)"
  using assms
proof (induction pp rule: parts_list.induct)
  case (1 pp)
  obtain r pp' where rp: "parts_next pp = (r, pp')"
    by (cases "parts_next pp")
  show ?case
  proof (cases r)
    case None
    with rp "1.prems" show ?thesis
      by (subst (asm) parts_list.simps) simp
  next
    case (Some q)
    with rp have nx: "parts_next pp = (Some q, pp')" by simp
    have path: "pp_path pp' = pp_path pp"
      using parts_next_path[of pp] nx by simp
    have "part = q \<or> part \<in> set (parts_list pp')"
      using "1.prems"(2) nx by (subst (asm) parts_list.simps) auto
    then show ?thesis
      using parts_next_seams[OF "1.prems"(1) nx] path "1.IH"[OF nx[symmetric] refl] by auto
  qed
qed

lemma boundary_after_slash:
  assumes "utf8_valid p" "i = 0 \<or> p ! (i - 1) = slash" "i \<le> length p"
  shows "is_char_boundary p i"
proof (cases "i = 0 \<or> i = length p")
  case False
  then have "p = take (i - 1) p @ slash # drop i p"
    using assms(2,3) id_take_nth_drop[of "i - 1" p] by auto
  then have "utf8_valid (slash # drop i p)"
    using utf8_valid_split_ascii[of "take (i - 1) p" slash "drop i p"] assms(1) by simp
  then have "utf8_valid (p ! i # drop (Suc i) p)"
    using False assms(3) by (simp add: Cons_nth_drop_Suc)
  then show ?thesis
    using False assms(3) utf8_valid_hd by (auto simp: is_char_boundary_def)
qed (auto simp: is_char_boundary_def)

lemma boundary_at_seam: "at_seam p i \<Longrightarrow> i \<le> length p \<Longrightarrow> is_char_boundary p i"
  by (auto simp: at_seam_def is_char_boundary_def is_cont_def)

section \<open>Route templates and normalisation\<close>

datatype segment = Static string | Capture string

definition parse_segment :: "string \<Rightarrow> segment outcome" where
  "parse_segment part =
     (if starts_with part ''{'' \<and> ends_with part ''}''
      then bind_outcome (assert_that (2 < length part) ''invalid route template'')
             (\<lambda>_. Ret (Capture (slice part 1 (length part - 1))))
      else bind_outcome
             (assert_that (\<not> contains_char part (CHR ''{'') \<and> \<not> contains_char part (CHR ''}''))
                ''invalid route template'')
             (\<lambda>_. Ret (Static part)))"

fun parse_segments :: "string list \<Rightarrow> segment list outcome" where
  "parse_segments [] = Ret []"
| "parse_segments (p # ps) =
     bind_outcome (parse_segment p) (\<lambda>s. map_outcome ((#) s) (parse_segments ps))"

definition parse_template :: "string \<Rightarrow> segment list outcome" where
  "parse_template path = parse_segments (split_path path)"

definition normalize_path :: "string \<Rightarrow> string" where
  "normalize_path path =
     (if path = [] then ''/''
      else if 1 < length path then trim_end_char slash path
      else path)"

definition normalize_request_path :: "string \<Rightarrow> string" where
  "normalize_request_path path = (if 1 < length path then trim_end_char slash path else path)"

lemma normalize_request_path_split:
  "split_path (normalize_request_path p) = split_path p"
  by (simp add: normalize_request_path_def split_path_pieces pieces_trim_end)

lemma normalize_path_split: "split_path (normalize_path p) = split_path p"
  by (simp add: normalize_path_def split_path_pieces pieces_trim_end)

lemma normalize_path_eq_request: "p \<noteq> [] \<Longrightarrow> normalize_path p = normalize_request_path p"
  by (simp add: normalize_path_def normalize_request_path_def)

lemma trim_end_char_length: "length (trim_end_char c s) \<le> length s"
  using trim_end_char_append[of s c] by (metis length_append le_add1)

lemma normalize_request_path_idem:
  "normalize_request_path (normalize_request_path p) = normalize_request_path p"
  by (auto simp: normalize_request_path_def)

lemma normalize_request_prefix: "\<exists>t. p = normalize_request_path p @ t \<and> set t \<subseteq> {slash}"
  using trim_end_char_append[of p slash] by (auto simp: normalize_request_path_def)

lemma parse_segments_Static:
  "parse_segments ps = Ret ss \<Longrightarrow> length ss = length ps"
  by (induction ps arbitrary: ss) (auto simp: outcome_simps)

lemma parse_segments_nth:
  "parse_segments ps = Ret ss \<Longrightarrow> i < length ps \<Longrightarrow> parse_segment (ps ! i) = Ret (ss ! i)"
  by (induction ps arbitrary: ss i) (auto simp: outcome_simps nth_Cons' split: if_splits)

lemma parse_segment_Static: "parse_segment p = Ret (Static s) \<Longrightarrow> s = p"
  by (auto simp: parse_segment_def outcome_simps split: if_splits)

section \<open>Property\<close>

text \<open>The segment iterator yields exactly the non-empty pieces between the slashes of a path, in
  order, and every part it yields is the stretch of the path between its own bounds, with no slash
  in it. Neither normaliser changes them.\<close>

theorem path_parts_are_pieces:
  shows "map part_value (parts_list (path_parts_new p)) = filter (\<lambda>s. s \<noteq> []) (str_split slash p)
    \<and> list_all (\<lambda>part. part_value part = slice p (part_start part) (part_end part) \<and>
        part_start part < part_end part \<and> part_end part \<le> length p \<and>
        \<not> contains_char (part_value part) slash) (parts_list (path_parts_new p))
    \<and> split_path (normalize_request_path p) = split_path p
    \<and> split_path (normalize_path p) = split_path p"
proof -
  have "map part_value (parts_list (path_parts_new p)) = pieces p"
    using split_path_pieces by (simp add: split_path_def)
  moreover have "list_all (\<lambda>part. part_value part = slice p (part_start part) (part_end part) \<and>
        part_start part < part_end part \<and> part_end part \<le> length p \<and>
        \<not> contains_char (part_value part) slash) (parts_list (path_parts_new p))"
    unfolding list_all_iff contains_char_def
  proof
    fix part assume "part \<in> set (parts_list (path_parts_new p))"
    then show "part_value part = slice p (part_start part) (part_end part) \<and>
        part_start part < part_end part \<and> part_end part \<le> length p \<and> slash \<notin> set (part_value part)"
      using parts_list_ranges[of "path_parts_new p" part]
      unfolding path_parts_new_def path_parts.simps by (blast intro: le0)
  qed
  ultimately show ?thesis
    by (simp add: pieces_def normalize_request_path_split normalize_path_split)
qed

end
