(* ===== verification/Captures.thy ===== *)
theory Captures
  imports Codec Path_Parts
begin

unbundle bit_operations_syntax

text \<open>
  Model of the path captures: \<open>CaptureSet\<close> of \<open>src/router/mod.rs\<close>, which packs the byte range
  of each captured segment into one \<open>u64\<close>, and \<open>Params\<close> of \<open>src/params.rs\<close>, built from it when a
  handler runs. The ranges are positions in the normalised request path.
\<close>

definition max_capture_params :: nat where
  "max_capture_params = 8"

definition u32_max :: nat where
  "u32_max = 4294967295"

record capture_range =
  cr_start :: nat
  cr_end :: nat

record capture_set =
  cs_packed :: "u64 list"
  cs_count :: u8

definition empty_captures :: capture_set where
  "empty_captures = \<lparr>cs_packed = replicate max_capture_params 0, cs_count = 0\<rparr>"

definition pack_range :: "nat \<Rightarrow> nat \<Rightarrow> u64" where
  "pack_range a b =
     push_bit 32 (ucast (word_of_nat a :: u32)) OR ucast (word_of_nat b :: u32)"

definition unpack_range :: "u64 \<Rightarrow> capture_range" where
  "unpack_range w = \<lparr>cr_start = unat (drop_bit 32 w), cr_end = unat (ucast w :: u32)\<rparr>"

definition captures_range :: "capture_set \<Rightarrow> nat \<Rightarrow> capture_range option outcome" where
  "captures_range cs i =
     (if i < unat (cs_count cs) then map_outcome (\<lambda>w. Some (unpack_range w)) (index (cs_packed cs) i)
      else Ret None)"

definition with_capture :: "capture_set \<Rightarrow> nat \<Rightarrow> capture_range \<Rightarrow> capture_set outcome" where
  "with_capture cs i r =
     bind_outcome (assert_that (cr_start r \<le> u32_max) ''assertion failed: range.start'') (\<lambda>_.
     bind_outcome (assert_that (cr_end r \<le> u32_max) ''assertion failed: range.end'') (\<lambda>_.
     bind_outcome (index_update (cs_packed cs) i (pack_range (cr_start r) (cr_end r))) (\<lambda>packed.
     Ret \<lparr>cs_packed = packed, cs_count = word_of_nat (i + 1)\<rparr>)))"

section \<open>Packing loses nothing\<close>

lemma unpack_pack:
  assumes "a \<le> u32_max" "b \<le> u32_max"
  shows "unpack_range (pack_range a b) = \<lparr>cr_start = a, cr_end = b\<rparr>"
proof -
  let ?a = "word_of_nat a :: u32" and ?b = "word_of_nat b :: u32"
  have un: "unat ?a = a" "unat ?b = b"
    using assms by (auto simp: u32_max_def unat_of_nat_u32)
  have high: "drop_bit 32 (pack_range a b) = (ucast ?a :: u64)"
    by (rule bit_word_eqI)
      (auto simp: pack_range_def bit_drop_bit_eq bit_or_iff bit_push_bit_iff bit_ucast_iff
        dest: bit_imp_le_length)
  have low: "(ucast (pack_range a b) :: u32) = ?b"
    by (rule bit_word_eqI)
      (auto simp: pack_range_def bit_or_iff bit_push_bit_iff bit_ucast_iff)
  have "unat (ucast ?a :: u64) = unat ?a"
    using assms un by (simp add: unsigned_ucast_eq take_bit_nat_eq_self_iff u32_max_def)
  with un high low show ?thesis
    by (simp add: unpack_range_def)
qed

text \<open>The ranges a capture set stands for, and how \<open>with_capture\<close> extends them.\<close>

definition capture_ranges :: "capture_set \<Rightarrow> capture_range list" where
  "capture_ranges cs = map unpack_range (take (unat (cs_count cs)) (cs_packed cs))"

definition wf_captures :: "capture_set \<Rightarrow> bool" where
  "wf_captures cs \<longleftrightarrow>
     length (cs_packed cs) = max_capture_params \<and> unat (cs_count cs) \<le> max_capture_params"

lemma wf_empty_captures [simp]: "wf_captures empty_captures" "capture_ranges empty_captures = []"
  by (simp_all add: wf_captures_def empty_captures_def capture_ranges_def)

lemma length_capture_ranges:
  "wf_captures cs \<Longrightarrow> length (capture_ranges cs) = unat (cs_count cs)"
  by (simp add: wf_captures_def capture_ranges_def)

lemma captures_range_nth:
  "wf_captures cs \<Longrightarrow> captures_range cs i
     = Ret (if i < length (capture_ranges cs) then Some (capture_ranges cs ! i) else None)"
  by (auto simp: wf_captures_def captures_range_def capture_ranges_def)

lemma unat_count: "i < max_capture_params \<Longrightarrow> unat (word_of_nat (i + 1) :: u8) = i + 1"
  using unat_of_nat_u8[of "i + 1"] by (simp add: max_capture_params_def)

lemma with_capture_ranges:
  assumes "wf_captures cs" "unat (cs_count cs) < max_capture_params"
    "cr_start r \<le> u32_max" "cr_end r \<le> u32_max"
  shows "\<exists>cs'. with_capture cs (unat (cs_count cs)) r = Ret cs' \<and> wf_captures cs' \<and>
    capture_ranges cs' = capture_ranges cs @ [r]"
proof -
  let ?n = "unat (cs_count cs)"
  have len: "?n < length (cs_packed cs)"
    using assms(1,2) by (simp add: wf_captures_def)
  have "unpack_range (pack_range (cr_start r) (cr_end r)) = r"
    using unpack_pack assms(3,4) by simp
  moreover have "take (?n + 1) ((cs_packed cs)[?n := w]) = take ?n (cs_packed cs) @ [w]" for w
    using len by (simp add: take_Suc_conv_app_nth)
  ultimately show ?thesis
    using assms len unat_count[OF assms(2)]
    by (auto simp: with_capture_def wf_captures_def capture_ranges_def)
qed

section \<open>Parameters of a handler\<close>

record params =
  p_packed :: "u64 list"
  p_count :: u8
  p_owned :: "(string list \<times> string list) option"

definition empty_params :: params where
  "empty_params = \<lparr>p_packed = replicate max_capture_params 0, p_count = 0, p_owned = None\<rparr>"

definition params_get :: "params \<Rightarrow> string \<Rightarrow> string option" where
  "params_get ps name =
     (case p_owned ps of
        None \<Rightarrow> None
      | Some (names, values) \<Rightarrow> map_option snd (find (\<lambda>(key, _). key = name) (zip names values)))"

definition params_range :: "params \<Rightarrow> nat \<Rightarrow> capture_range option outcome" where
  "params_range ps i =
     (if i < unat (p_count ps) then map_outcome (\<lambda>w. Some (unpack_range w)) (index (p_packed ps) i)
      else Ret None)"

definition first_raw :: "params \<Rightarrow> string \<Rightarrow> string option outcome" where
  "first_raw ps path =
     bind_outcome (params_range ps 0) (\<lambda>r.
       case r of
         None \<Rightarrow> Ret None
       | Some rg \<Rightarrow> map_outcome Some (str_slice path (cr_start rg) (cr_end rg)))"

text \<open>The loop of \<open>materialized_names\<close> over the captures, from \<open>index\<close> on.\<close>

fun materialize :: "capture_set \<Rightarrow> string \<Rightarrow> nat list \<Rightarrow> (api_error + string list) outcome" where
  "materialize cs path [] = Ret (Inr [])"
| "materialize cs path (i # is) =
     bind_outcome (captures_range cs i) (\<lambda>r.
     bind_outcome (expect r ''capture range exists'') (\<lambda>rg.
     bind_outcome (str_slice path (cr_start rg) (cr_end rg)) (\<lambda>raw.
       case percent_decode raw of
         Inl e \<Rightarrow> Ret (Inl e)
       | Inr v \<Rightarrow> map_outcome (map_sum id ((#) v)) (materialize cs path is))))"

definition materialized_names ::
  "string list \<Rightarrow> capture_set \<Rightarrow> string \<Rightarrow> (api_error + string list \<times> string list) outcome" where
  "materialized_names names cs path =
     map_outcome (map_sum id (\<lambda>values. (names, values)))
       (materialize cs path [0..<unat (cs_count cs)])"

definition params_from_match ::
  "string list \<Rightarrow> capture_set \<Rightarrow> string \<Rightarrow> bool \<Rightarrow> params outcome" where
  "params_from_match names cs path do_materialize =
     (if do_materialize then
        bind_outcome (materialized_names names cs path) (\<lambda>r.
          case r of
            Inl _ \<Rightarrow> Panic ''materialized capture values are valid''
          | Inr owned \<Rightarrow>
              Ret \<lparr>p_packed = cs_packed cs, p_count = cs_count cs, p_owned = Some owned\<rparr>)
      else Ret \<lparr>p_packed = cs_packed cs, p_count = cs_count cs, p_owned = None\<rparr>)"

definition params_from_materialized_names ::
  "string list \<Rightarrow> capture_set \<Rightarrow> string \<Rightarrow> (api_error + params) outcome" where
  "params_from_materialized_names names cs path =
     map_outcome (map_sum id (\<lambda>owned.
         \<lparr>p_packed = cs_packed cs, p_count = cs_count cs, p_owned = Some owned\<rparr>))
       (materialized_names names cs path)"

text \<open>
  The captured texts of a set over a path. On ranges that are stretches of the path between
  slashes, materialising never panics and decodes exactly them.
\<close>

definition captured_texts :: "capture_set \<Rightarrow> string \<Rightarrow> string list" where
  "captured_texts cs path = map (\<lambda>r. slice path (cr_start r) (cr_end r)) (capture_ranges cs)"

definition good_range :: "string \<Rightarrow> capture_range \<Rightarrow> bool" where
  "good_range path r \<longleftrightarrow>
     cr_start r \<le> cr_end r \<and> cr_end r \<le> length path \<and>
     is_char_boundary path (cr_start r) \<and> is_char_boundary path (cr_end r)"

fun decode_all :: "string list \<Rightarrow> api_error + string list" where
  "decode_all [] = Inr []"
| "decode_all (s # ss) =
     (case percent_decode s of Inl e \<Rightarrow> Inl e | Inr v \<Rightarrow> map_sum id ((#) v) (decode_all ss))"

lemma str_slice_good: "good_range path r \<Longrightarrow>
    str_slice path (cr_start r) (cr_end r) = Ret (slice path (cr_start r) (cr_end r))"
  by (simp add: good_range_def str_slice_def)

lemma materialize_decode_all:
  assumes "wf_captures cs" "\<forall>r \<in> set (capture_ranges cs). good_range path r"
    "\<forall>i \<in> set is. i < unat (cs_count cs)"
  shows "materialize cs path is
    = Ret (decode_all (map (\<lambda>i. slice path (cr_start (capture_ranges cs ! i))
                                  (cr_end (capture_ranges cs ! i))) is))"
  using assms(3)
proof (induction "is")
  case (Cons i "is")
  then have "i < length (capture_ranges cs)"
    using length_capture_ranges[OF assms(1)] by simp
  then have "good_range path (capture_ranges cs ! i)" "captures_range cs i = Ret (Some (capture_ranges cs ! i))"
    using assms(2) captures_range_nth[OF assms(1)] by simp_all
  with Cons show ?case
    by (auto simp: str_slice_good split: sum.splits)
qed simp

lemma materialized_names_decode:
  assumes "wf_captures cs" "\<forall>r \<in> set (capture_ranges cs). good_range path r"
  shows "materialized_names names cs path
    = Ret (map_sum id (\<lambda>values. (names, values)) (decode_all (captured_texts cs path)))"
proof -
  have "map (\<lambda>i. slice path (cr_start (capture_ranges cs ! i)) (cr_end (capture_ranges cs ! i)))
      [0..<unat (cs_count cs)] = captured_texts cs path"
    using length_capture_ranges[OF assms(1)]
    by (auto simp: captured_texts_def intro!: nth_equalityI)
  then show ?thesis
    using materialize_decode_all[OF assms, of "[0..<unat (cs_count cs)]"]
    by (simp add: materialized_names_def)
qed

section \<open>Property\<close>

text \<open>Recording a capture loses nothing: on a set with a free slot, a range that fits in 32 bits
  is read back from the new last slot unchanged, and the earlier captures stay what they were.\<close>

theorem capture_recorded:
  assumes "wf_captures cs" "unat (cs_count cs) < max_capture_params"
    "cr_start r \<le> u32_max" "cr_end r \<le> u32_max"
  shows "\<exists>cs'. with_capture cs (unat (cs_count cs)) r = Ret cs' \<and> wf_captures cs' \<and>
    unat (cs_count cs') = Suc (unat (cs_count cs)) \<and>
    captures_range cs' (unat (cs_count cs)) = Ret (Some r) \<and>
    (\<forall>i < unat (cs_count cs). captures_range cs' i = captures_range cs i)"
proof -
  obtain cs' where cs': "with_capture cs (unat (cs_count cs)) r = Ret cs'" "wf_captures cs'"
      "capture_ranges cs' = capture_ranges cs @ [r]"
    using with_capture_ranges[OF assms] by blast
  have "length (capture_ranges cs) = unat (cs_count cs)"
    using length_capture_ranges[OF assms(1)] .
  then show ?thesis
    using cs' length_capture_ranges[OF cs'(2)] captures_range_nth[OF cs'(2)] captures_range_nth[OF assms(1)]
    by (intro exI[of _ cs']) (auto simp: nth_append)
qed

lemma capture_recorded_witness:
  "\<exists>cs'. with_capture empty_captures 0 \<lparr>cr_start = 7, cr_end = 13\<rparr> = Ret cs' \<and>
     captures_range cs' 0 = Ret (Some \<lparr>cr_start = 7, cr_end = 13\<rparr>)"
  using capture_recorded[OF wf_empty_captures(1), of "\<lparr>cr_start = 7, cr_end = 13\<rparr>"]
  by (auto simp: empty_captures_def max_capture_params_def u32_max_def)

end
