(* ===== verification/Route_Trie.thy ===== *)
theory Route_Trie
  imports Route_Set Captures
begin

text \<open>
  Model of \<open>DynamicRouteTrie\<close> of \<open>src/router/mod.rs\<close>: the vector of nodes that refer to each
  other by index, registration along the segments of a template, and the backtracking search of
  a request path that prefers static children, limits the captures to
  \<open>MAX_CAPTURE_PARAMS\<close> and only captures segments whose percent encoding is well formed.

  The abstract view of a trie is \<open>route_at\<close>, the route of a pattern (a list with \<open>Some\<close> literal
  or \<open>None\<close> capture per segment) and a method. Registration is an update of it, and the search
  answers the preferred one of the registered patterns that match.
\<close>

section \<open>The data structure\<close>

type_synonym node_id = u32

definition node_id_new :: "nat \<Rightarrow> node_id outcome" where
  "node_id_new i =
     bind_outcome (assert_that (i \<le> 4294967295) ''dynamic trie exceeds u32::MAX nodes'')
       (\<lambda>_. Ret (word_of_nat i))"

definition node_id_index :: "node_id \<Rightarrow> nat" where
  "node_id_index i = unat i"

record trie_node =
  tn_static :: "string \<rightharpoonup> node_id"
  tn_capture :: "node_id option"
  tn_routes :: route_set

definition empty_node :: trie_node where
  "empty_node = \<lparr>tn_static = Map.empty, tn_capture = None, tn_routes = empty_route_set\<rparr>"

type_synonym trie = "trie_node list"

definition empty_trie :: trie where
  "empty_trie = [empty_node]"

text \<open>One round of the loop of \<open>insert\<close>: the child for a segment, created if it is missing.\<close>

definition trie_descend :: "trie \<Rightarrow> nat \<Rightarrow> segment \<Rightarrow> (trie \<times> nat) outcome" where
  "trie_descend nodes n seg =
     (case seg of
        Static v \<Rightarrow>
          bind_outcome (index nodes n) (\<lambda>node.
            case tn_static node v of
              Some i \<Rightarrow> Ret (nodes, node_id_index i)
            | None \<Rightarrow>
                bind_outcome (node_id_new (length nodes)) (\<lambda>i.
                  let nodes = nodes @ [empty_node]
                  in bind_outcome (index nodes n) (\<lambda>node.
                     bind_outcome (index_update nodes n (node\<lparr>tn_static := (tn_static node)(v \<mapsto> i)\<rparr>))
                       (\<lambda>nodes. Ret (nodes, node_id_index i)))))
      | Capture _ \<Rightarrow>
          bind_outcome (index nodes n) (\<lambda>node.
            case tn_capture node of
              Some i \<Rightarrow> Ret (nodes, node_id_index i)
            | None \<Rightarrow>
                bind_outcome (node_id_new (length nodes)) (\<lambda>i.
                  let nodes = nodes @ [empty_node]
                  in bind_outcome (index nodes n) (\<lambda>node.
                     bind_outcome (index_update nodes n (node\<lparr>tn_capture := Some i\<rparr>))
                       (\<lambda>nodes. Ret (nodes, node_id_index i))))))"

fun trie_walk :: "trie \<Rightarrow> nat \<Rightarrow> segment list \<Rightarrow> (trie \<times> nat) outcome" where
  "trie_walk nodes n [] = Ret (nodes, n)"
| "trie_walk nodes n (seg # segs) =
     bind_outcome (trie_descend nodes n seg) (\<lambda>(nodes, n). trie_walk nodes n segs)"

definition trie_insert :: "trie \<Rightarrow> segment list \<Rightarrow> http_method \<Rightarrow> nat \<Rightarrow> trie outcome" where
  "trie_insert nodes segs m route =
     bind_outcome (trie_walk nodes 0 segs) (\<lambda>(nodes, n).
     bind_outcome (index nodes n) (\<lambda>node.
     bind_outcome (route_set_insert m route (tn_routes node)) (\<lambda>rs.
       index_update nodes n (node\<lparr>tn_routes := rs\<rparr>))))"

text \<open>
  The search. \<open>parts\<close> is copied into both branches, so the capture branch goes on from where
  the static one started.
\<close>

function find_node ::
  "trie \<Rightarrow> nat \<Rightarrow> path_parts \<Rightarrow> capture_set \<Rightarrow> (nat \<times> capture_set) option outcome" where
  "find_node nodes n parts caps =
     (case index nodes n of
        Panic e \<Rightarrow> Panic e
      | Ret node \<Rightarrow>
          (case parts_next parts of
             (None, _) \<Rightarrow>
               Ret (if \<not> route_set_is_empty (tn_routes node) then Some (n, caps) else None)
           | (Some part, rest) \<Rightarrow>
               (case (case tn_static node (part_value part) of
                        None \<Rightarrow> Ret None
                      | Some child \<Rightarrow> find_node nodes (node_id_index child) rest caps) of
                  Panic e \<Rightarrow> Panic e
                | Ret (Some found) \<Rightarrow> Ret (Some found)
                | Ret None \<Rightarrow>
                    if unat (cs_count caps) < max_capture_params
                       \<and> valid_percent_encoding (part_value part)
                    then (case tn_capture node of
                            None \<Rightarrow> Ret None
                          | Some child \<Rightarrow>
                              (case with_capture caps (unat (cs_count caps))
                                      \<lparr>cr_start = part_start part, cr_end = part_end part\<rparr> of
                                 Panic e \<Rightarrow> Panic e
                               | Ret captured \<Rightarrow>
                                   find_node nodes (node_id_index child) rest captured))
                    else Ret None)))"
  by pat_completeness auto
termination
  by (relation "measure (\<lambda>(nodes, n, parts, caps). length (pp_path parts) - pp_next parts)")
    (auto intro: parts_next_measure simp: eq_commute)

declare find_node.simps [simp del]

definition trie_find :: "trie \<Rightarrow> string \<Rightarrow> (route_set \<times> capture_set) option outcome" where
  "trie_find nodes path =
     bind_outcome (find_node nodes 0 (path_parts_new path) empty_captures) (\<lambda>found.
       case found of
         None \<Rightarrow> Ret None
       | Some (n, caps) \<Rightarrow>
           bind_outcome (index nodes n) (\<lambda>node. Ret (Some (tn_routes node, caps))))"

section \<open>Patterns and the abstract table\<close>

type_synonym pattern = "string option list"

fun segment_key :: "segment \<Rightarrow> string option" where
  "segment_key (Static v) = Some v"
| "segment_key (Capture _) = None"

definition pattern_of :: "segment list \<Rightarrow> pattern" where
  "pattern_of segs = map segment_key segs"

definition child :: "trie_node \<Rightarrow> string option \<Rightarrow> node_id option" where
  "child node k = (case k of Some v \<Rightarrow> tn_static node v | None \<Rightarrow> tn_capture node)"

fun trie_at :: "trie \<Rightarrow> nat \<Rightarrow> pattern \<Rightarrow> nat option" where
  "trie_at t n [] = Some n"
| "trie_at t n (k # ks) =
     (case child (t ! n) k of None \<Rightarrow> None | Some i \<Rightarrow> trie_at t (node_id_index i) ks)"

definition route_at :: "trie \<Rightarrow> pattern \<Rightarrow> http_method \<Rightarrow> route_id option" where
  "route_at t ks m =
     (case trie_at t 0 ks of None \<Rightarrow> None | Some n \<Rightarrow> route_table (tn_routes (t ! n)) m)"

definition wf_trie :: "trie \<Rightarrow> bool" where
  "wf_trie t \<longleftrightarrow>
     t \<noteq> [] \<and>
     (\<forall>n < length t. wf_route_set (tn_routes (t ! n))) \<and>
     (\<forall>n < length t. \<forall>k i. child (t ! n) k = Some i \<longrightarrow>
        n < node_id_index i \<and> node_id_index i < length t) \<and>
     (\<forall>n < length t. \<forall>n' < length t. \<forall>k k' i.
        child (t ! n) k = Some i \<longrightarrow> child (t ! n') k' = Some i \<longrightarrow> n = n' \<and> k = k')"

lemma wf_trieD:
  assumes "wf_trie t"
  shows "t \<noteq> []" "n < length t \<Longrightarrow> wf_route_set (tn_routes (t ! n))"
    "n < length t \<Longrightarrow> child (t ! n) k = Some i \<Longrightarrow> n < node_id_index i \<and> node_id_index i < length t"
    "n < length t \<Longrightarrow> n' < length t \<Longrightarrow> child (t ! n) k = Some i \<Longrightarrow> child (t ! n') k' = Some i
       \<Longrightarrow> n = n' \<and> k = k'"
  using assms unfolding wf_trie_def by blast+

lemma child_empty_node [simp]: "child empty_node k = None"
  by (simp add: child_def empty_node_def split: option.splits)

lemma wf_empty_trie [simp]: "wf_trie empty_trie"
  by (simp add: wf_trie_def empty_trie_def) (simp add: empty_node_def)

lemma trie_at_append:
  "trie_at t n (ks @ ks') = (case trie_at t n ks of None \<Rightarrow> None | Some m \<Rightarrow> trie_at t m ks')"
  by (induction ks arbitrary: n) (auto split: option.splits)

lemma trie_at_in: "wf_trie t \<Longrightarrow> n < length t \<Longrightarrow> trie_at t n ks = Some m \<Longrightarrow> m < length t \<and> n \<le> m"
proof (induction ks arbitrary: n)
  case (Cons k ks)
  then obtain i where i: "child (t ! n) k = Some i" "trie_at t (node_id_index i) ks = Some m"
    by (auto split: option.splits)
  then show ?case
    using wf_trieD(3)[OF Cons.prems(1,2) i(1)] Cons.IH[OF Cons.prems(1) _ i(2)] by simp
qed simp

lemma trie_at_snoc:
  "trie_at t n (ks @ [k]) = Some m \<longleftrightarrow>
     (\<exists>j i. trie_at t n ks = Some j \<and> child (t ! j) k = Some i \<and> node_id_index i = m)"
  by (auto simp: trie_at_append split: option.splits)

text \<open>A node has one pattern: the nodes form a tree.\<close>

lemma trie_at_inject:
  "wf_trie t \<Longrightarrow> trie_at t 0 ks = Some m \<Longrightarrow> trie_at t 0 ks' = Some m \<Longrightarrow> ks = ks'"
proof (induction ks arbitrary: ks' m rule: rev_induct)
  case Nil
  show ?case
  proof (cases ks' rule: rev_cases)
    case (snoc l k)
    with Nil obtain j i where "trie_at t 0 l = Some j" "child (t ! j) k = Some i" "node_id_index i = 0"
      by (auto simp: trie_at_snoc)
    then show ?thesis
      using wf_trieD(3)[OF Nil(1), of j k i] trie_at_in[OF Nil(1), of 0 l j] wf_trieD(1)[OF Nil(1)] by simp
  qed simp
next
  case (snoc k ks)
  from snoc.prems obtain j i where j: "trie_at t 0 ks = Some j" "child (t ! j) k = Some i"
      "node_id_index i = m"
    by (auto simp: trie_at_snoc)
  have len: "0 < length t"
    using wf_trieD(1)[OF snoc.prems(1)] by simp
  have jl: "j < length t"
    using trie_at_in[OF snoc.prems(1) len j(1)] by simp
  have pos: "0 < m"
    using wf_trieD(3)[OF snoc.prems(1) jl j(2)] j(3) by simp
  obtain l k' where l: "ks' = l @ [k']"
    using snoc.prems(3) pos by (cases ks' rule: rev_cases) auto
  obtain j' i' where j': "trie_at t 0 l = Some j'" "child (t ! j') k' = Some i'" "node_id_index i' = m"
    using snoc.prems(3) l by (auto simp: trie_at_snoc)
  have jl': "j' < length t"
    using trie_at_in[OF snoc.prems(1) len j'(1)] by simp
  have "i' = i"
    using j(3) j'(3) by (simp add: node_id_index_def word_unat_eq_iff)
  then have "j = j' \<and> k = k'"
    using wf_trieD(4)[OF snoc.prems(1) jl jl' j(2)] j'(2) by blast
  then show ?case
    using snoc.IH[OF snoc.prems(1) j(1)] j'(1) l by simp
qed

end
