(* ===== verification/Trie_Insert.thy ===== *)
theory Trie_Insert
  imports Route_Trie
begin

text \<open>
  Registration: \<open>trie_insert\<close> keeps the trie well formed, never panics on a free pattern, and is
  the update of \<open>route_at\<close> at the pattern of the template. The interface \<open>route_store\<close> states
  what the application builder needs of a table of registered routes; the trie is one of its
  two providers.
\<close>

section \<open>Creating a child\<close>

definition set_child :: "string option \<Rightarrow> node_id \<Rightarrow> trie_node \<Rightarrow> trie_node" where
  "set_child k i node =
     (case k of
        Some v \<Rightarrow> node\<lparr>tn_static := (tn_static node)(v \<mapsto> i)\<rparr>
      | None \<Rightarrow> node\<lparr>tn_capture := Some i\<rparr>)"

lemma child_set_child [simp]: "child (set_child k i node) k' = (if k' = k then Some i else child node k')"
  by (auto simp: child_def set_child_def split: option.splits)

lemma routes_set_child [simp]: "tn_routes (set_child k i node) = tn_routes node"
  by (simp add: set_child_def split: option.splits)

definition add_child :: "trie \<Rightarrow> nat \<Rightarrow> string option \<Rightarrow> trie" where
  "add_child t n k = (t @ [empty_node])[n := set_child k (word_of_nat (length t)) (t ! n)]"

lemma node_id_index_of_nat: "n \<le> u32_max \<Longrightarrow> node_id_index (word_of_nat n) = n"
  by (simp add: node_id_index_def u32_max_def unat_of_nat_u32)

lemma node_id_new_Ret: "i \<le> u32_max \<Longrightarrow> node_id_new i = Ret (word_of_nat i)"
  by (simp add: node_id_new_def u32_max_def)

lemma trie_descend_old:
  "n < length t \<Longrightarrow> child (t ! n) (segment_key seg) = Some i \<Longrightarrow>
     trie_descend t n seg = Ret (t, node_id_index i)"
  by (cases seg) (auto simp: trie_descend_def child_def)

lemma trie_descend_new:
  "n < length t \<Longrightarrow> length t \<le> u32_max \<Longrightarrow> child (t ! n) (segment_key seg) = None \<Longrightarrow>
     trie_descend t n seg = Ret (add_child t n (segment_key seg), length t)"
  by (cases seg)
    (auto simp: trie_descend_def child_def node_id_new_Ret node_id_index_of_nat add_child_def
      set_child_def nth_append)

lemma add_child_nth:
  "n < length t \<Longrightarrow> j \<le> length t \<Longrightarrow>
     add_child t n k ! j =
       (if j = n then set_child k (word_of_nat (length t)) (t ! n)
        else if j = length t then empty_node else t ! j)"
  by (auto simp: add_child_def nth_list_update nth_append)

lemma length_add_child [simp]: "length (add_child t n k) = Suc (length t)"
  by (simp add: add_child_def)

lemma wf_add_child:
  assumes wf: "wf_trie t" and n: "n < length t" and free: "child (t ! n) k = None"
    and small: "length t \<le> u32_max"
  shows "wf_trie (add_child t n k)"
proof -
  let ?t = "add_child t n k" and ?new = "word_of_nat (length t) :: node_id"
  have idx: "node_id_index ?new = length t"
    using small by (rule node_id_index_of_nat)
  have ch: "child (?t ! j) k' = Some i \<longleftrightarrow>
      j < length t \<and> (if j = n \<and> k' = k then i = ?new else child (t ! j) k' = Some i)"
    if "j < length ?t" for j k' i
    using that n by (auto simp: add_child_nth less_Suc_eq_le)
  have old: "child (t ! j) k' \<noteq> Some ?new" if "j < length t" for j k'
    using wf_trieD(3)[OF wf that, of k' ?new] idx by auto
  have "wf_route_set (tn_routes (?t ! j))" if "j < length ?t" for j
    using that n wf_trieD(2)[OF wf, of j] wf_trieD(2)[OF wf, of n]
    by (cases "j = length t") (auto simp: add_child_nth less_Suc_eq_le empty_node_def)
  moreover have "j < node_id_index i \<and> node_id_index i < length ?t"
    if "j < length ?t" "child (?t ! j) k' = Some i" for j k' i
    using that ch[OF that(1)] idx wf_trieD(3)[OF wf, of j k' i] by (auto split: if_splits)
  moreover have "j = j' \<and> k1 = k2"
    if "j < length ?t" "j' < length ?t" "child (?t ! j) k1 = Some i" "child (?t ! j') k2 = Some i"
    for j j' k1 k2 i
  proof -
    have "(if j = n \<and> k1 = k then i = ?new else child (t ! j) k1 = Some i)" "j < length t"
      "(if j' = n \<and> k2 = k then i = ?new else child (t ! j') k2 = Some i)" "j' < length t"
      using that ch by blast+
    then show ?thesis
      using old[of j k1] old[of j' k2] wf_trieD(4)[OF wf, of j j' k1 i k2]
      by (simp split: if_splits)
  qed
  ultimately show ?thesis
    unfolding wf_trie_def by (auto simp: add_child_def)
qed

lemma trie_at_new: "length t \<le> u32_max \<Longrightarrow> n < length t \<Longrightarrow>
    trie_at (add_child t n k) (length t) ks = (if ks = [] then Some (length t) else None)"
  by (cases ks) (auto simp: add_child_nth)

lemma trie_at_add_child:
  assumes wf: "wf_trie t" and n: "n < length t" and free: "child (t ! n) k = None"
    and small: "length t \<le> u32_max"
  shows "j < length t \<Longrightarrow>
    (trie_at t j ks \<noteq> None \<longrightarrow> trie_at (add_child t n k) j ks = trie_at t j ks) \<and>
    (trie_at t j ks = None \<longrightarrow> trie_at (add_child t n k) j ks \<in> {None, Some (length t)})"
proof (induction ks arbitrary: j)
  case (Cons k' ks)
  show ?case
  proof (cases "child (t ! j) k'")
    case None
    then show ?thesis
      using Cons.prems n trie_at_new[OF small n, of k ks] node_id_index_of_nat[OF small]
      by (auto simp: add_child_nth)
  next
    case (Some i)
    then have "child (add_child t n k ! j) k' = Some i"
      using Cons.prems n free by (auto simp: add_child_nth)
    then show ?thesis
      using Cons.IH[of "node_id_index i"] wf_trieD(3)[OF wf Cons.prems Some] Some by simp
  qed
qed simp

lemma route_at_add_child:
  assumes wf: "wf_trie t" and n: "n < length t" and free: "child (t ! n) k = None"
    and small: "length t \<le> u32_max"
  shows "route_at (add_child t n k) = route_at t"
proof (intro ext)
  fix ks m
  have len: "0 < length t" using n by linarith
  note at = trie_at_add_child[OF wf n free small len, of ks]
  show "route_at (add_child t n k) ks m = route_at t ks m"
  proof (cases "trie_at t 0 ks")
    case None
    then show ?thesis
      using at n by (auto simp: route_at_def add_child_nth) (auto simp: empty_node_def)
  next
    case (Some j)
    then have "j < length t"
      using trie_at_in[OF wf len] by blast
    then show ?thesis
      using Some at n by (auto simp: route_at_def add_child_nth)
  qed
qed

section \<open>Walking down a template\<close>

lemma trie_descend_spec:
  assumes wf: "wf_trie t" and at: "trie_at t 0 ks = Some n" and small: "length t \<le> u32_max"
  shows "\<exists>t' n'. trie_descend t n seg = Ret (t', n') \<and> wf_trie t' \<and> route_at t' = route_at t \<and>
    trie_at t' 0 (ks @ [segment_key seg]) = Some n' \<and> length t' \<le> Suc (length t)"
proof -
  let ?k = "segment_key seg"
  have len: "0 < length t" using wf_trieD(1)[OF wf] by simp
  have n: "n < length t" using trie_at_in[OF wf len at] by simp
  show ?thesis
  proof (cases "child (t ! n) ?k")
    case (Some i)
    then show ?thesis
      using trie_descend_old[OF n Some] wf at by (auto simp: trie_at_append)
  next
    case None
    let ?t = "add_child t n ?k"
    have "trie_at ?t 0 ks = Some n"
      using trie_at_add_child[OF wf n None small len, of ks] at by simp
    then have "trie_at ?t 0 (ks @ [?k]) = Some (length t)"
      using n node_id_index_of_nat[OF small] by (simp add: trie_at_append add_child_nth)
    then show ?thesis
      using trie_descend_new[OF n small None] wf_add_child[OF wf n None small]
        route_at_add_child[OF wf n None small] by auto
  qed
qed

lemma trie_walk_spec:
  "wf_trie t \<Longrightarrow> trie_at t 0 ks = Some n \<Longrightarrow> length t + length segs \<le> u32_max + 1 \<Longrightarrow>
     \<exists>t' n'. trie_walk t n segs = Ret (t', n') \<and> wf_trie t' \<and> route_at t' = route_at t \<and>
       trie_at t' 0 (ks @ pattern_of segs) = Some n' \<and> length t' \<le> length t + length segs"
proof (induction segs arbitrary: t n ks)
  case Nil
  then show ?case by (simp add: pattern_of_def)
next
  case (Cons seg segs)
  obtain t1 n1 where 1: "trie_descend t n seg = Ret (t1, n1)" "wf_trie t1" "route_at t1 = route_at t"
      "trie_at t1 0 (ks @ [segment_key seg]) = Some n1" "length t1 \<le> Suc (length t)"
    using trie_descend_spec[OF Cons.prems(1,2), of seg] Cons.prems(3) by auto
  obtain t2 n2 where 2: "trie_walk t1 n1 segs = Ret (t2, n2)" "wf_trie t2" "route_at t2 = route_at t1"
      "trie_at t2 0 ((ks @ [segment_key seg]) @ pattern_of segs) = Some n2"
      "length t2 \<le> length t1 + length segs"
    using Cons.IH[OF 1(2,4)] 1(5) Cons.prems(3) by auto
  show ?case
    using 1 2 by (auto simp: pattern_of_def)
qed

section \<open>Storing the route\<close>

definition set_routes :: "trie \<Rightarrow> nat \<Rightarrow> route_set \<Rightarrow> trie" where
  "set_routes t n rs = t[n := (t ! n)\<lparr>tn_routes := rs\<rparr>]"

lemma child_set_routes [simp]: "child (set_routes t n rs ! j) k = child (t ! j) k"
  by (cases "n < length t") (auto simp: set_routes_def nth_list_update child_def list_update_beyond
      split: option.splits)

lemma trie_at_set_routes [simp]: "trie_at (set_routes t n rs) j ks = trie_at t j ks"
  by (induction ks arbitrary: j) (auto split: option.splits)

lemma routes_set_routes:
  "n < length t \<Longrightarrow> tn_routes (set_routes t n rs ! j) = (if j = n then rs else tn_routes (t ! j))"
  by (auto simp: set_routes_def nth_list_update)

lemma wf_set_routes:
  "wf_trie t \<Longrightarrow> n < length t \<Longrightarrow> wf_route_set rs \<Longrightarrow> wf_trie (set_routes t n rs)"
  unfolding wf_trie_def by (simp add: routes_set_routes) (simp add: set_routes_def)

lemma route_at_set_routes:
  assumes wf: "wf_trie t" and at: "trie_at t 0 ks = Some n"
  shows "route_at (set_routes t n rs) ks' m =
    (if ks' = ks then route_table rs m else route_at t ks' m)"
proof -
  have n: "n < length t"
    using trie_at_in[OF wf _ at] wf_trieD(1)[OF wf] by simp
  show ?thesis
  proof (cases "ks' = ks")
    case True
    then show ?thesis using at n by (simp add: route_at_def routes_set_routes)
  next
    case False
    then have "trie_at t 0 ks' \<noteq> Some n"
      using trie_at_inject[OF wf at] by blast
    then show ?thesis
      using False n by (simp add: route_at_def routes_set_routes split: option.splits)
  qed
qed

text \<open>The table after a registration.\<close>

definition table_update ::
  "('p \<Rightarrow> http_method \<Rightarrow> route_id option) \<Rightarrow> 'p \<Rightarrow> http_method \<Rightarrow> nat
     \<Rightarrow> 'p \<Rightarrow> http_method \<Rightarrow> route_id option" where
  "table_update tab p m i = (\<lambda>p' m'. if p' = p \<and> m' = m then Some (word_of_nat i) else tab p' m')"

lemma trie_insert_spec:
  assumes wf: "wf_trie t" and size: "length t + length segs \<le> u32_max + 1"
    and m: "method_slot m \<noteq> None" and i: "i < u32_max" and free: "route_at t (pattern_of segs) m = None"
  shows "\<exists>t'. trie_insert t segs m i = Ret t' \<and> wf_trie t' \<and>
    length t' \<le> length t + length segs \<and>
    route_at t' = table_update (route_at t) (pattern_of segs) m i"
proof -
  obtain t1 n where 1: "trie_walk t 0 segs = Ret (t1, n)" "wf_trie t1" "route_at t1 = route_at t"
      "trie_at t1 0 (pattern_of segs) = Some n" "length t1 \<le> length t + length segs"
    using trie_walk_spec[OF wf, of "[]" 0 segs] size by auto
  have n: "n < length t1"
    using trie_at_in[OF 1(2) _ 1(4)] wf_trieD(1)[OF 1(2)] by simp
  have tab: "route_table (tn_routes (t1 ! n)) = route_at t (pattern_of segs)"
    unfolding 1(3)[symmetric] using 1(4) by (simp add: route_at_def fun_eq_iff)
  have none: "route_table (tn_routes (t1 ! n)) m = None"
    using free tab by simp
  obtain s where s: "method_slot m = Some s" using m by auto
  obtain rs where rs: "route_set_insert m i (tn_routes (t1 ! n)) = Ret rs" "wf_route_set rs"
      "route_table rs = (route_table (tn_routes (t1 ! n)))(m \<mapsto> word_of_nat i)"
    using route_set_insert_table[OF wf_trieD(2)[OF 1(2) n] _ s none] i by (auto simp: u32_max_def)
  have ins: "trie_insert t segs m i = Ret (set_routes t1 n rs)"
    using 1(1) n rs(1) by (simp add: trie_insert_def set_routes_def)
  have "route_at (set_routes t1 n rs) ks m' = table_update (route_at t) (pattern_of segs) m i ks m'"
    for ks m'
    unfolding route_at_set_routes[OF 1(2,4)] rs(3) tab 1(3) by (simp add: table_update_def)
  then have "route_at (set_routes t1 n rs) = table_update (route_at t) (pattern_of segs) m i"
    by blast
  then show ?thesis
    using ins wf_set_routes[OF 1(2) n rs(2)] 1(5) by (simp add: set_routes_def)
qed

lemma trie_insert_duplicate:
  assumes wf: "wf_trie t" and size: "length t + length segs \<le> u32_max + 1"
    and i: "i \<le> u32_max" and taken: "route_at t (pattern_of segs) m = Some r"
  shows "trie_insert t segs m i = Panic ''duplicate route pattern and method''"
proof -
  obtain t1 n where 1: "trie_walk t 0 segs = Ret (t1, n)" "wf_trie t1" "route_at t1 = route_at t"
      "trie_at t1 0 (pattern_of segs) = Some n"
    using trie_walk_spec[OF wf, of "[]" 0 segs] size by auto
  have n: "n < length t1"
    using trie_at_in[OF 1(2) _ 1(4)] wf_trieD(1)[OF 1(2)] by simp
  have "route_at t1 (pattern_of segs) m = Some r"
    using taken 1(3) by simp
  then have "route_table (tn_routes (t1 ! n)) m = Some r"
    using 1(4) by (simp add: route_at_def)
  then have "route_set_insert m i (tn_routes (t1 ! n)) = Panic ''duplicate route pattern and method''"
    using route_set_insert_duplicate[OF wf_trieD(2)[OF 1(2) n]] i by (simp add: u32_max_def)
  then show ?thesis
    using 1(1) n by (simp add: trie_insert_def)
qed

section \<open>Property\<close>

text \<open>C9: Registering a template: on a well-formed trie with room for its nodes, \<open>insert\<close> of a
  supported method at a pattern that has no route for it succeeds, keeps the trie well formed,
  and changes the routing table at that pattern and method only.\<close>

theorem insert_updates_table:
  assumes "wf_trie t" "length t + length segs \<le> u32_max + 1" "method_slot m \<noteq> None" "i < u32_max"
    "route_at t (pattern_of segs) m = None"
  shows "\<exists>t'. trie_insert t segs m i = Ret t' \<and> wf_trie t' \<and>
    (\<forall>ks m'. route_at t' ks m' =
       (if ks = pattern_of segs \<and> m' = m then Some (word_of_nat i) else route_at t ks m'))"
proof -
  obtain t' where "trie_insert t segs m i = Ret t'" "wf_trie t'"
      "route_at t' = table_update (route_at t) (pattern_of segs) m i"
    using trie_insert_spec[OF assms] by blast
  then show ?thesis
    by (intro exI[of _ t']) (simp add: table_update_def)
qed

lemma insert_updates_table_witness:
  "\<exists>t'. trie_insert empty_trie [Static ''users'', Capture ''id''] GET 7 = Ret t' \<and> wf_trie t' \<and>
     route_at t' [Some ''users'', None] GET = Some 7 \<and> route_at t' [Some ''users'', None] POST = None"
proof -
  have none: "route_at empty_trie ks m = None" for ks m
    by (cases ks) (simp_all add: route_at_def empty_trie_def, simp add: empty_node_def)
  have "length empty_trie + length [Static ''users'', Capture ''id''] \<le> u32_max + 1"
    "method_slot GET \<noteq> None" "(7::nat) < u32_max"
    by (simp_all add: empty_trie_def u32_max_def method_slot_def)
  from insert_updates_table[OF wf_empty_trie this none] show ?thesis
    by (auto simp: pattern_of_def none)
qed

end
