(* ===== verification/Trie_Search.thy ===== *)
theory Trie_Search
  imports Trie_Insert
begin

text \<open>
  The search of the route trie against its abstract view: \<open>trie_find\<close> answers exactly the
  preferred one of the registered patterns that match the segments of the path within the
  capture limit, with the ranges of the captured segments, and it never panics on a well-formed
  trie.
\<close>

section \<open>Which pattern a path belongs to\<close>

fun pat_matches :: "pattern \<Rightarrow> string list \<Rightarrow> bool" where
  "pat_matches [] [] = True"
| "pat_matches (Some v # ks) (p # ps) \<longleftrightarrow> v = p \<and> pat_matches ks ps"
| "pat_matches (None # ks) (p # ps) \<longleftrightarrow> valid_percent_encoding p \<and> pat_matches ks ps"
| "pat_matches _ _ = False"

fun capture_count :: "pattern \<Rightarrow> nat" where
  "capture_count [] = 0"
| "capture_count (k # ks) = (if k = None then Suc (capture_count ks) else capture_count ks)"

text \<open>The elements of a list that stand at the captures of a pattern.\<close>

fun captured :: "pattern \<Rightarrow> 'a list \<Rightarrow> 'a list" where
  "captured (None # ks) (p # ps) = p # captured ks ps"
| "captured (Some _ # ks) (p # ps) = captured ks ps"
| "captured _ _ = []"

text \<open>Of two patterns, the one with a literal where they first differ comes first.\<close>

fun preferred :: "pattern \<Rightarrow> pattern \<Rightarrow> bool" where
  "preferred (k # ks) (k' # ks') \<longleftrightarrow> k \<noteq> None \<and> k' = None \<or> k = k' \<and> preferred ks ks'"
| "preferred _ _ = False"

definition live :: "trie \<Rightarrow> pattern \<Rightarrow> bool" where
  "live t ks \<longleftrightarrow> (\<exists>m. route_at t ks m \<noteq> None)"

definition candidate :: "trie \<Rightarrow> string list \<Rightarrow> pattern \<Rightarrow> bool" where
  "candidate t ps ks \<longleftrightarrow>
     live t ks \<and> pat_matches ks ps \<and> capture_count ks \<le> max_capture_params"

definition best_pattern :: "trie \<Rightarrow> string list \<Rightarrow> pattern \<Rightarrow> bool" where
  "best_pattern t ps ks \<longleftrightarrow>
     candidate t ps ks \<and> (\<forall>ks'. candidate t ps ks' \<longrightarrow> ks' = ks \<or> preferred ks ks')"

lemma preferred_irrefl: "\<not> preferred ks ks"
  by (induction ks) auto

lemma preferred_asym: "preferred ks ks' \<Longrightarrow> \<not> preferred ks' ks"
  by (induction ks ks' rule: preferred.induct) auto

lemma best_pattern_unique: "best_pattern t ps ks \<Longrightarrow> best_pattern t ps ks' \<Longrightarrow> ks = ks'"
  unfolding best_pattern_def using preferred_asym by blast

lemma length_captured:
  "pat_matches ks ps \<Longrightarrow> length xs = length ps \<Longrightarrow> length (captured ks xs) = capture_count ks"
  by (induction ks ps arbitrary: xs rule: pat_matches.induct) (auto simp: length_Suc_conv)

lemma captured_map: "captured ks (map f xs) = map f (captured ks xs)"
  by (induction ks xs rule: captured.induct) auto

section \<open>The search over a list of parts\<close>

fun search :: "trie \<Rightarrow> nat \<Rightarrow> path_part list \<Rightarrow> nat \<Rightarrow> (nat \<times> path_part list) option" where
  "search t n [] k = (if route_set_is_empty (tn_routes (t ! n)) then None else Some (n, []))"
| "search t n (p # ps) k =
     (case (case tn_static (t ! n) (part_value p) of
              None \<Rightarrow> None | Some c \<Rightarrow> search t (node_id_index c) ps k) of
        Some r \<Rightarrow> Some r
      | None \<Rightarrow>
          if k < max_capture_params \<and> valid_percent_encoding (part_value p)
          then (case tn_capture (t ! n) of
                  None \<Rightarrow> None
                | Some c \<Rightarrow> map_option (\<lambda>(m, cs). (m, p # cs)) (search t (node_id_index c) ps (Suc k)))
          else None)"

text \<open>What the search answers, relative to a node and the captures already used.\<close>

definition node_live :: "trie \<Rightarrow> nat \<Rightarrow> bool" where
  "node_live t n \<longleftrightarrow> \<not> route_set_is_empty (tn_routes (t ! n))"

definition reach :: "trie \<Rightarrow> nat \<Rightarrow> string list \<Rightarrow> nat \<Rightarrow> pattern \<Rightarrow> nat \<Rightarrow> bool" where
  "reach t n ps k ks m \<longleftrightarrow>
     trie_at t n ks = Some m \<and> node_live t m \<and> pat_matches ks ps \<and>
     k + capture_count ks \<le> max_capture_params"

lemma reach_Nil: "reach t n [] k ks m \<longleftrightarrow> ks = [] \<and> m = n \<and> node_live t n \<and> k \<le> max_capture_params"
  by (cases ks rule: list.exhaust) (auto simp: reach_def)

lemma reach_Cons:
  "reach t n (p # ps) k ks m \<longleftrightarrow>
     (\<exists>c ks'. ks = Some p # ks' \<and> tn_static (t ! n) p = Some c \<and> reach t (node_id_index c) ps k ks' m) \<or>
     (\<exists>c ks'. ks = None # ks' \<and> tn_capture (t ! n) = Some c \<and> valid_percent_encoding p \<and>
        reach t (node_id_index c) ps (Suc k) ks' m)"
proof (cases ks)
  case (Cons x ks')
  then show ?thesis
    by (cases x) (auto simp: reach_def child_def split: option.splits)
qed (auto simp: reach_def)

lemma reach_captures: "reach t n ps k ks m \<Longrightarrow> k \<le> max_capture_params"
  by (simp add: reach_def)

definition search_result ::
  "trie \<Rightarrow> nat \<Rightarrow> path_part list \<Rightarrow> nat \<Rightarrow> (nat \<times> path_part list) option \<Rightarrow> bool" where
  "search_result t n ps k r \<longleftrightarrow>
     (case r of
        None \<Rightarrow> \<forall>ks m. \<not> reach t n (map part_value ps) k ks m
      | Some (m, cs) \<Rightarrow>
          \<exists>ks. reach t n (map part_value ps) k ks m \<and> cs = captured ks ps \<and>
            (\<forall>ks' m'. reach t n (map part_value ps) k ks' m' \<longrightarrow> ks' = ks \<or> preferred ks ks'))"

lemma search_spec: "k \<le> max_capture_params \<Longrightarrow> search_result t n ps k (search t n ps k)"
proof (induction ps arbitrary: n k)
  case Nil
  then show ?case
    by (auto simp: search_result_def reach_Nil node_live_def)
next
  case (Cons p ps)
  let ?v = "part_value p" and ?qs = "map part_value ps"
  define st where "st = (case tn_static (t ! n) ?v of
      None \<Rightarrow> None | Some c \<Rightarrow> search t (node_id_index c) ps k)"
  show ?case
  proof (cases st)
    case (Some r)
    then obtain c where c: "tn_static (t ! n) ?v = Some c" "search t (node_id_index c) ps k = Some r"
      by (auto simp: st_def split: option.splits)
    obtain m cs where r: "r = (m, cs)" by (cases r)
    obtain ks where ks: "reach t (node_id_index c) ?qs k ks m" "cs = captured ks ps"
        "\<And>ks' m'. reach t (node_id_index c) ?qs k ks' m' \<Longrightarrow> ks' = ks \<or> preferred ks ks'"
      using Cons.IH[OF Cons.prems, of "node_id_index c"] c(2) r
      by (auto simp: search_result_def)
    have "search t n (p # ps) k = Some (m, cs)"
      using c r by simp
    moreover have "reach t n (map part_value (p # ps)) k (Some ?v # ks) m"
      using ks(1) c(1) by (simp add: reach_Cons)
    moreover have "ks' = Some ?v # ks \<or> preferred (Some ?v # ks) ks'"
      if "reach t n (map part_value (p # ps)) k ks' m'" for ks' m'
      using that c(1) by (auto simp: reach_Cons dest!: ks(3))
    moreover have "cs = captured (Some ?v # ks) (p # ps)"
      using ks(2) by simp
    ultimately show ?thesis
      unfolding search_result_def by (simp only: option.case prod.case) blast
  next
    case None
    have stat: "\<not> reach t (node_id_index c) ?qs k ks m" if "tn_static (t ! n) ?v = Some c" for c ks m
      using that None Cons.IH[OF Cons.prems, of "node_id_index c"]
      by (simp add: st_def search_result_def)
    show ?thesis
    proof (cases "k < max_capture_params \<and> valid_percent_encoding ?v \<and> tn_capture (t ! n) \<noteq> None")
      case True
      then obtain c where c: "tn_capture (t ! n) = Some c" by auto
      have eq: "search t n (p # ps) k
          = map_option (\<lambda>(m, cs). (m, p # cs)) (search t (node_id_index c) ps (Suc k))"
        using None True c by (simp add: st_def)
      have IH: "search_result t (node_id_index c) ps (Suc k) (search t (node_id_index c) ps (Suc k))"
        using Cons.IH True by simp
      show ?thesis
      proof (cases "search t (node_id_index c) ps (Suc k)")
        case None
        then show ?thesis
          using IH eq stat c by (auto simp: search_result_def reach_Cons)
      next
        case (Some r)
        obtain m cs where r: "r = (m, cs)" by (cases r)
        obtain ks where ks: "reach t (node_id_index c) ?qs (Suc k) ks m" "cs = captured ks ps"
            "\<And>ks' m'. reach t (node_id_index c) ?qs (Suc k) ks' m' \<Longrightarrow> ks' = ks \<or> preferred ks ks'"
          using IH Some r by (auto simp: search_result_def)
        have "reach t n (map part_value (p # ps)) k (None # ks) m"
          using ks(1) c True by (simp add: reach_Cons)
        moreover have "ks' = None # ks \<or> preferred (None # ks) ks'"
          if "reach t n (map part_value (p # ps)) k ks' m'" for ks' m'
          using that c stat by (auto simp: reach_Cons dest!: ks(3))
        moreover have "p # cs = captured (None # ks) (p # ps)"
          using ks(2) by simp
        ultimately show ?thesis
          unfolding search_result_def eq Some r by (simp only: option.map option.case prod.case) blast
      qed
    next
      case False
      then have "search t n (p # ps) k = None"
        using None by (auto simp: st_def split: option.splits)
      moreover have "\<not> reach t n (map part_value (p # ps)) k ks m" for ks m
        using False stat by (auto simp: reach_Cons dest: reach_captures)
      ultimately show ?thesis
        by (simp add: search_result_def)
    qed
  qed
qed

section \<open>The code's search\<close>

definition part_range :: "path_part \<Rightarrow> capture_range" where
  "part_range p = \<lparr>cr_start = part_start p, cr_end = part_end p\<rparr>"

definition find_agrees ::
  "capture_set \<Rightarrow> (nat \<times> path_part list) option \<Rightarrow> (nat \<times> capture_set) option outcome \<Rightarrow> bool" where
  "find_agrees caps s r \<longleftrightarrow>
     (case s of
        None \<Rightarrow> r = Ret None
      | Some (m, cs) \<Rightarrow>
          \<exists>caps'. r = Ret (Some (m, caps')) \<and> wf_captures caps' \<and>
            capture_ranges caps' = capture_ranges caps @ map part_range cs)"

lemma capture_taken:
  assumes "wf_captures caps" "unat (cs_count caps) < max_capture_params"
    "part_start part \<le> u32_max" "part_end part \<le> u32_max"
  obtains caps1 where
    "with_capture caps (unat (cs_count caps)) \<lparr>cr_start = part_start part, cr_end = part_end part\<rparr> = Ret caps1"
    "wf_captures caps1" "capture_ranges caps1 = capture_ranges caps @ [part_range part]"
    "unat (cs_count caps1) = Suc (unat (cs_count caps))"
proof -
  obtain caps1 where caps1: "with_capture caps (unat (cs_count caps)) (part_range part) = Ret caps1"
      "wf_captures caps1" "capture_ranges caps1 = capture_ranges caps @ [part_range part]"
    using with_capture_ranges[OF assms(1), of "part_range part"] assms(2-) by (auto simp: part_range_def)
  moreover have "unat (cs_count caps1) = Suc (unat (cs_count caps))"
    using length_capture_ranges[OF caps1(2)] length_capture_ranges[OF assms(1)] caps1(3) by simp
  ultimately show thesis
    using that by (simp add: part_range_def)
qed

lemma find_node_search:
  assumes "wf_trie t" "n < length t" "pp_next parts \<le> length (pp_path parts)"
    "length (pp_path parts) \<le> u32_max" "wf_captures caps"
  shows "find_agrees caps (search t n (parts_list parts) (unat (cs_count caps)))
    (find_node t n parts caps)"
  using assms
proof (induction t n parts caps rule: find_node.induct)
  case (1 t n parts caps)
  note wf = "1.prems"(1) and n = "1.prems"(2)
  obtain r rest where nx: "parts_next parts = (r, rest)" by (cases "parts_next parts")
  show ?case
  proof (cases r)
    case None
    then show ?thesis
      using nx n "1.prems"(5)
      by (simp add: find_node.simps[of t n] parts_list.simps[of parts] find_agrees_def)
  next
    case (Some part)
    with nx have nx': "parts_next parts = (Some part, rest)" by simp
    note facts = parts_next_Some_pieces[OF "1.prems"(3) nx']
    have path: "pp_path rest = pp_path parts"
      using parts_next_path[of parts] nx by simp
    have rest: "pp_next rest \<le> length (pp_path rest)" "length (pp_path rest) \<le> u32_max"
      using facts "1.prems"(4) path by simp_all
    have small: "part_start part \<le> u32_max" "part_end part \<le> u32_max"
      using facts "1.prems"(4) by simp_all
    have pl: "parts_list parts = part # parts_list rest"
      using nx' by (simp add: parts_list.simps[of parts])
    define st where "st = (case tn_static (t ! n) (part_value part) of
        None \<Rightarrow> None | Some c \<Rightarrow> search t (node_id_index c) (parts_list rest) (unat (cs_count caps)))"
    define st' where "st' = (case tn_static (t ! n) (part_value part) of
        None \<Rightarrow> Ret None | Some c \<Rightarrow> find_node t (node_id_index c) rest caps)"
    have ag: "find_agrees caps st st'"
    proof (cases "tn_static (t ! n) (part_value part)")
      case None
      then show ?thesis by (simp add: st_def st'_def find_agrees_def)
    next
      case (Some c)
      then have "node_id_index c < length t"
        using wf_trieD(3)[OF wf n, of "Some (part_value part)" c] by (simp add: child_def)
      then show ?thesis
        using "1.IH"(1)[OF index_in[OF n] nx'[symmetric] refl Some wf _ rest "1.prems"(5)] Some
        by (simp add: st_def st'_def)
    qed
    show ?thesis
    proof (cases st)
      case (Some r)
      then show ?thesis
        using ag nx' n pl
        by (auto simp: find_node.simps[of t n] find_agrees_def st_def[symmetric] st'_def[symmetric])
    next
      case None
      then have st': "st' = Ret None"
        using ag by (simp add: find_agrees_def)
      show ?thesis
      proof (cases "unat (cs_count caps) < max_capture_params
          \<and> valid_percent_encoding (part_value part) \<and> tn_capture (t ! n) \<noteq> None")
        case False
        then show ?thesis
          using None st' nx' n pl
          by (auto simp: find_node.simps[of t n] find_agrees_def st_def[symmetric] st'_def[symmetric]
              split: option.splits)
      next
        case True
        then obtain c where c: "tn_capture (t ! n) = Some c" by auto
        then have cl: "node_id_index c < length t"
          using wf_trieD(3)[OF wf n, of None c] by (simp add: child_def)
        obtain caps1 where caps1: "with_capture caps (unat (cs_count caps))
              \<lparr>cr_start = part_start part, cr_end = part_end part\<rparr> = Ret caps1"
            "wf_captures caps1" "capture_ranges caps1 = capture_ranges caps @ [part_range part]"
            "unat (cs_count caps1) = Suc (unat (cs_count caps))"
          using capture_taken[OF "1.prems"(5) _ small] True by blast
        have IH: "find_agrees caps1 (search t (node_id_index c) (parts_list rest) (Suc (unat (cs_count caps))))
            (find_node t (node_id_index c) rest caps1)"
          using "1.IH"(2)[OF index_in[OF n] nx'[symmetric] refl st'[unfolded st'_def] refl _ c caps1(1)
              wf cl rest caps1(2)] True caps1(4) by simp
        have eq: "find_node t n parts caps = find_node t (node_id_index c) rest caps1"
          using st' nx' n True c caps1(1) by (simp add: find_node.simps[of t n] st'_def[symmetric])
        have eq': "search t n (parts_list parts) (unat (cs_count caps))
            = map_option (\<lambda>(m, cs). (m, part # cs))
                (search t (node_id_index c) (parts_list rest) (Suc (unat (cs_count caps))))"
          using None True c pl by (simp add: st_def)
        show ?thesis
          unfolding eq eq' using IH caps1(3)
          by (cases "search t (node_id_index c) (parts_list rest) (Suc (unat (cs_count caps)))")
            (auto simp: find_agrees_def)
      qed
    qed
  qed
qed

section \<open>The theorem about \<open>find\<close>\<close>

lemma live_node:
  assumes wf: "wf_trie t"
  shows "live t ks \<longleftrightarrow> (\<exists>n. trie_at t 0 ks = Some n \<and> node_live t n)"
proof -
  have "node_live t n \<longleftrightarrow> (\<exists>m. route_table (tn_routes (t ! n)) m \<noteq> None)"
    if "trie_at t 0 ks = Some n" for n
  proof -
    have "n < length t"
      using trie_at_in[OF wf _ that] wf_trieD(1)[OF wf] by simp
    then show ?thesis
      using mask_zero_iff[OF wf_trieD(2)[OF wf]] by (auto simp: node_live_def route_set_is_empty_def)
  qed
  then show ?thesis
    by (auto simp: live_def route_at_def split: option.splits)
qed

lemma candidate_reach:
  "wf_trie t \<Longrightarrow> candidate t ps ks \<longleftrightarrow> (\<exists>m. reach t 0 ps 0 ks m)"
  by (auto simp: candidate_def reach_def live_node)

text \<open>The ranges of the segments a pattern captures in a path.\<close>

definition captured_ranges :: "pattern \<Rightarrow> string \<Rightarrow> capture_range list" where
  "captured_ranges ks path = map part_range (captured ks (parts_list (path_parts_new path)))"

lemma trie_find_spec:
  assumes wf: "wf_trie t" and small: "length path \<le> u32_max"
  shows "(trie_find t path = Ret None \<and> (\<forall>ks. \<not> candidate t (split_path path) ks)) \<or>
    (\<exists>rs caps ks. trie_find t path = Ret (Some (rs, caps)) \<and> wf_route_set rs \<and> wf_captures caps \<and>
       best_pattern t (split_path path) ks \<and> route_table rs = route_at t ks \<and>
       capture_ranges caps = captured_ranges ks path)"
proof -
  let ?parts = "path_parts_new path"
  have len: "0 < length t" using wf_trieD(1)[OF wf] by simp
  have ag: "find_agrees empty_captures (search t 0 (parts_list ?parts) 0)
      (find_node t 0 ?parts empty_captures)"
    using find_node_search[OF wf len, of ?parts empty_captures] small
    by (simp add: path_parts_new_def) (simp add: empty_captures_def)
  have spec: "search_result t 0 (parts_list ?parts) 0 (search t 0 (parts_list ?parts) 0)"
    by (rule search_spec) simp
  have vals: "map part_value (parts_list ?parts) = split_path path"
    by (simp add: split_path_def)
  show ?thesis
  proof (cases "search t 0 (parts_list ?parts) 0")
    case None
    then show ?thesis
      using ag spec vals candidate_reach[OF wf]
      by (simp add: find_agrees_def search_result_def trie_find_def)
  next
    case (Some r)
    obtain m cs where r: "r = (m, cs)" by (cases r)
    obtain caps where caps: "find_node t 0 ?parts empty_captures = Ret (Some (m, caps))"
        "wf_captures caps" "capture_ranges caps = map part_range cs"
      using ag Some r by (auto simp: find_agrees_def)
    obtain ks where ks: "reach t 0 (split_path path) 0 ks m" "cs = captured ks (parts_list ?parts)"
        "\<And>ks' m'. reach t 0 (split_path path) 0 ks' m' \<Longrightarrow> ks' = ks \<or> preferred ks ks'"
      using spec Some r vals by (auto simp: search_result_def)
    have at: "trie_at t 0 ks = Some m"
      using ks(1) by (simp add: reach_def)
    have m: "m < length t"
      using trie_at_in[OF wf len at] by simp
    have "best_pattern t (split_path path) ks"
      using ks candidate_reach[OF wf] by (auto simp: best_pattern_def)
    moreover have "route_table (tn_routes (t ! m)) = route_at t ks"
      using at by (simp add: route_at_def fun_eq_iff)
    moreover have "trie_find t path = Ret (Some (tn_routes (t ! m), caps))"
      using caps(1) m by (simp add: trie_find_def)
    ultimately show ?thesis
      using caps ks(2) wf_trieD(2)[OF wf m] by (auto simp: captured_ranges_def)
  qed
qed

section \<open>What a handler can read from a match\<close>

text \<open>
  The captures of a match are whole segments of the path: slicing them out never panics, they
  are the texts of the segments at the captures of the pattern, and their escapes are well formed.
\<close>

lemma in_captured: "x \<in> set (captured ks xs) \<Longrightarrow> x \<in> set xs"
  by (induction ks xs rule: captured.induct) auto

lemma captured_ranges_good:
  assumes "utf8_valid path" "r \<in> set (captured_ranges ks path)"
  shows "good_range path r"
proof -
  obtain part where part: "part \<in> set (parts_list (path_parts_new path))" "r = part_range part"
    using assms(2) by (auto simp: captured_ranges_def dest: in_captured)
  have seams: "part_start part = 0 \<or> path ! (part_start part - 1) = slash" "at_seam path (part_end part)"
    using parts_list_seams[OF _ part(1)] by (simp_all add: path_parts_new_def at_seam_def)
  have "part_start part < part_end part" "part_end part \<le> length path"
    using parts_list_ranges[OF _ part(1)] by (simp_all add: path_parts_new_def)
  then show ?thesis
    using boundary_after_slash[OF assms(1) seams(1)] boundary_at_seam[OF seams(2)]
    by (simp add: good_range_def part(2) part_range_def)
qed

lemma captured_texts_segments:
  assumes "capture_ranges caps = captured_ranges ks path"
  shows "captured_texts caps path = captured ks (split_path path)"
proof -
  have "slice path (cr_start (part_range part)) (cr_end (part_range part)) = part_value part"
    if "part \<in> set (captured ks (parts_list (path_parts_new path)))" for part
    using parts_list_ranges[OF _ in_captured[OF that]] by (simp add: path_parts_new_def part_range_def)
  then show ?thesis
    unfolding captured_texts_def assms captured_ranges_def split_path_def captured_map
    by simp
qed

lemma captured_valid:
  "pat_matches ks ps \<Longrightarrow> v \<in> set (captured ks ps) \<Longrightarrow> valid_percent_encoding v"
  by (induction ks ps rule: pat_matches.induct) auto

lemma match_materialized:
  assumes "utf8_valid path" "wf_captures caps" "capture_ranges caps = captured_ranges ks path"
  shows "materialized_names names caps path
    = Ret (map_sum id (\<lambda>values. (names, values)) (decode_all (captured ks (split_path path))))"
  using materialized_names_decode[OF assms(2)] captured_ranges_good[OF assms(1)]
    captured_texts_segments[OF assms(3)] assms(3) by simp

section \<open>Properties\<close>

text \<open>C8: On a well-formed route trie the search for a path never panics. It answers nothing
  exactly when no registered pattern matches the segments of the path within the capture limit,
  and otherwise the route set of the preferred matching pattern (a literal before a capture at
  the first difference), with the byte ranges of exactly the captured segments.\<close>

theorem find_answers_best:
  assumes "wf_trie t" "length path \<le> u32_max"
  shows "no_panic (trie_find t path) \<and>
    (trie_find t path = Ret None \<longleftrightarrow> (\<forall>ks. \<not> candidate t (split_path path) ks)) \<and>
    (\<forall>rs caps. trie_find t path = Ret (Some (rs, caps)) \<longrightarrow>
       (\<exists>ks. best_pattern t (split_path path) ks \<and> route_table rs = route_at t ks \<and>
          capture_ranges caps = captured_ranges ks path))"
  using trie_find_spec[OF assms] by (auto simp: best_pattern_def)

definition demo_trie :: "trie outcome" where
  "demo_trie =
     bind_outcome (trie_insert empty_trie [Static ''f'', Static ''s'', Static ''o''] GET 0)
       (\<lambda>t. trie_insert t [Static ''f'', Capture ''id'', Static ''t''] GET 1)"

lemma pattern_of_simps [simp]:
  "pattern_of [] = []" "pattern_of (s # ss) = segment_key s # pattern_of ss"
  by (simp_all add: pattern_of_def)

lemma route_at_empty [simp]: "route_at empty_trie ks m = None"
proof (cases ks)
  case Nil
  then show ?thesis by (simp add: route_at_def empty_trie_def empty_node_def)
next
  case (Cons k ks')
  then show ?thesis by (simp add: route_at_def empty_trie_def)
qed

lemma length_empty_trie [simp]: "length empty_trie = 1"
  by (simp add: empty_trie_def)

lemma demo_trie_spec:
  "\<exists>t. demo_trie = Ret t \<and> wf_trie t \<and>
     route_at t = table_update (table_update (\<lambda>_ _. None) [Some ''f'', Some ''s'', Some ''o''] GET 0)
        [Some ''f'', None, Some ''t''] GET 1"
proof -
  have slot: "method_slot GET \<noteq> None" by (simp add: method_slot_def)
  obtain t1 where t1: "trie_insert empty_trie [Static ''f'', Static ''s'', Static ''o''] GET 0 = Ret t1"
      "wf_trie t1" "length t1 \<le> length empty_trie + 3"
      "route_at t1 = table_update (route_at empty_trie) [Some ''f'', Some ''s'', Some ''o''] GET 0"
    using trie_insert_spec[OF wf_empty_trie _ slot, of "[Static ''f'', Static ''s'', Static ''o'']" 0]
    by (auto simp: u32_max_def)
  have "route_at t1 [Some ''f'', None, Some ''t''] GET = None"
    by (simp add: t1(4) table_update_def)
  then obtain t2 where "trie_insert t1 [Static ''f'', Capture ''id'', Static ''t''] GET 1 = Ret t2"
      "wf_trie t2" "route_at t2 = table_update (route_at t1) [Some ''f'', None, Some ''t''] GET 1"
    using trie_insert_spec[OF t1(2) _ slot, of "[Static ''f'', Capture ''id'', Static ''t'']" 1] t1(3)
    by (auto simp: u32_max_def length_empty_trie)
  then show ?thesis
    using t1(1,4) by (simp add: demo_trie_def fun_eq_iff table_update_def)
qed

text \<open>The backtracking of the source's own test: the static branch fails deeper down.\<close>

lemma find_answers_best_witness:
  "\<exists>t rs caps. demo_trie = Ret t \<and> trie_find t ''/f/s/t'' = Ret (Some (rs, caps)) \<and>
     route_table rs GET = Some 1"
proof -
  obtain t where t: "demo_trie = Ret t" "wf_trie t"
      "route_at t = table_update (table_update (\<lambda>_ _. None) [Some ''f'', Some ''s'', Some ''o''] GET 0)
        [Some ''f'', None, Some ''t''] GET 1"
    using demo_trie_spec by blast
  have split: "split_path ''/f/s/t'' = [''f'', ''s'', ''t'']"
    by (simp add: split_path_pieces pieces_def)
  have pv: "valid_percent_encoding ''s''"
    using decode_bytes_literal[of "''s''" "[]"] by (simp add: valid_percent_encoding_decode)
  have live: "live t ks \<longleftrightarrow> ks \<in> {[Some ''f'', Some ''s'', Some ''o''], [Some ''f'', None, Some ''t'']}"
    for ks
    by (auto simp: live_def t(3) table_update_def)
  have cand: "candidate t (split_path ''/f/s/t'') ks \<longleftrightarrow> ks = [Some ''f'', None, Some ''t'']" for ks
    by (auto simp: candidate_def live split pv max_capture_params_def)
  have "length ''/f/s/t'' \<le> u32_max" by (simp add: u32_max_def)
  note best = find_answers_best[OF t(2) this]
  have "trie_find t ''/f/s/t'' \<noteq> Ret None"
    using best cand by blast
  then obtain rs caps where found: "trie_find t ''/f/s/t'' = Ret (Some (rs, caps))"
    using best by (auto simp: no_panic_def)
  then obtain ks where ks: "best_pattern t (split_path ''/f/s/t'') ks" "route_table rs = route_at t ks"
    using best by blast
  then have "ks = [Some ''f'', None, Some ''t'']"
    using cand by (simp add: best_pattern_def)
  then have "route_table rs GET = Some 1"
    by (simp add: ks(2) t(3) table_update_def)
  with t found show ?thesis by blast
qed

text \<open>C10: What a handler reads from a match: materialising the captures of a match of a valid path
  never panics, and yields exactly the percent-decoded texts of the segments that stand at the
  captures of the matched pattern, or the error of the first one that does not decode.\<close>

theorem match_params:
  assumes "wf_trie t" "utf8_valid path" "length path \<le> u32_max"
    "trie_find t path = Ret (Some (rs, caps))"
  shows "\<exists>ks. best_pattern t (split_path path) ks \<and>
    materialized_names names caps path
      = Ret (map_sum id (\<lambda>values. (names, values)) (decode_all (captured ks (split_path path))))"
  using trie_find_spec[OF assms(1,3)] assms(4) match_materialized[OF assms(2)] by auto

lemma match_params_witness:
  "\<exists>t rs caps. demo_trie = Ret t \<and> trie_find t ''/f/s/t'' = Ret (Some (rs, caps)) \<and>
     materialized_names [''id''] caps ''/f/s/t'' = Ret (Inr ([''id''], [''s'']))"
proof -
  obtain t where t: "demo_trie = Ret t" "wf_trie t"
      "route_at t = table_update (table_update (\<lambda>_ _. None) [Some ''f'', Some ''s'', Some ''o''] GET 0)
        [Some ''f'', None, Some ''t''] GET 1"
    using demo_trie_spec by blast
  have split: "split_path ''/f/s/t'' = [''f'', ''s'', ''t'']"
    by (simp add: split_path_pieces pieces_def)
  have pv: "decode_bytes ''s'' = Some ''s''" "utf8_valid ''s''" "utf8_valid ''/f/s/t''"
    using decode_bytes_literal[of "''s''" "[]"] by simp_all
  have cand: "candidate t [''f'', ''s'', ''t''] ks \<longleftrightarrow> ks = [Some ''f'', None, Some ''t'']" for ks
    using pv(1) by (auto simp: candidate_def live_def t(3) table_update_def max_capture_params_def
        valid_percent_encoding_decode)
  have small: "length ''/f/s/t'' \<le> u32_max" by (simp add: u32_max_def)
  obtain rs caps where found: "trie_find t ''/f/s/t'' = Ret (Some (rs, caps))"
    using trie_find_spec[OF t(2) small] cand split by auto
  obtain ks where "best_pattern t [''f'', ''s'', ''t''] ks"
      "materialized_names [''id''] caps ''/f/s/t''
        = Ret (map_sum id (\<lambda>values. ([''id''], values)) (decode_all (captured ks [''f'', ''s'', ''t''])))"
    using match_params[OF t(2) pv(3) small found, of "[''id'']"] split by auto
  moreover from this have "ks = [Some ''f'', None, Some ''t'']"
    using cand by (simp add: best_pattern_def)
  ultimately show ?thesis
    using t(1) found pv by (auto simp: percent_decode_reference)
qed

end
