(* ===== verification/Requests.thy ===== *)
theory Requests
  imports Http_Types
begin

text \<open>
  Requests and the effects of handlers. A request is a record of the parts the program reads
  (\<open>http::Request\<close>), generic in its body: \<open>Bytes\<close> once collected, hyper's \<open>Incoming\<close> (a type
  parameter, since that code is not in the repository) or the \<open>RequestBody\<close> of
  \<open>src/middleware.rs\<close> that middleware passes on. An asynchronous function is a function of the
  outside world \<open>'w\<close> that ends with a response or a panic and the changed world; it runs to its
  end here, suspension points are not visible.
\<close>

datatype ip_addr = V4 nat | V6 nat

record socket_addr =
  sa_ip :: ip_addr
  sa_port :: nat

record 'b request =
  rq_method :: http_method
  rq_path :: string
  rq_query :: "string option"
  rq_version :: nat
  rq_headers :: headers
  rq_peer :: "socket_addr option"
  rq_body :: 'b

type_synonym bytes_request = "string request"
type_synonym 'i incoming_request = "'i request"

datatype 'i request_body = Incoming 'i | FullBody "string option"

type_synonym 'w service = "'w \<Rightarrow> response outcome \<times> 'w"

text \<open>\<open>RequestBody::full\<close>, and polling a buffered request body: its bytes once, none when empty.\<close>

definition full_body :: "string \<Rightarrow> 'i request_body" where
  "full_body b = FullBody (Some b)"

fun poll_full :: "string option \<Rightarrow> string option \<times> string option" where
  "poll_full (Some b) = ((if b \<noteq> [] then Some b else None), None)"
| "poll_full None = (None, None)"

definition full_is_end_stream :: "string option \<Rightarrow> bool" where
  "full_is_end_stream bytes = (case bytes of None \<Rightarrow> True | Some b \<Rightarrow> b = [])"

definition full_size_hint :: "string option \<Rightarrow> nat" where
  "full_size_hint bytes = (case bytes of None \<Rightarrow> 0 | Some b \<Rightarrow> length b)"

lemma poll_full_end: "full_is_end_stream b \<longleftrightarrow> fst (poll_full b) = None"
  by (cases b) (auto simp: full_is_end_stream_def)

text \<open>\<open>Request::from_parts(parts, body)\<close>: the same request with another body.\<close>

definition with_body :: "'b request \<Rightarrow> 'c \<Rightarrow> 'c request" where
  "with_body r b =
     \<lparr>rq_method = rq_method r, rq_path = rq_path r, rq_query = rq_query r,
      rq_version = rq_version r, rq_headers = rq_headers r, rq_peer = rq_peer r, rq_body = b\<rparr>"

lemma with_body_sel [simp]:
  "rq_method (with_body r b) = rq_method r" "rq_path (with_body r b) = rq_path r"
  "rq_query (with_body r b) = rq_query r" "rq_headers (with_body r b) = rq_headers r"
  "rq_peer (with_body r b) = rq_peer r" "rq_body (with_body r b) = b"
  "rq_version (with_body r b) = rq_version r"
  by (simp_all add: with_body_def)

lemma with_body_with_body [simp]: "with_body (with_body r b) c = with_body r c"
  by (simp add: with_body_def)

lemma with_body_same [simp]: "with_body r (rq_body r) = r"
  by (simp add: with_body_def)

text \<open>Sequencing: the response goes on, a panic unwinds past the rest.\<close>

definition after :: "'w service \<Rightarrow> (response \<Rightarrow> 'w service) \<Rightarrow> 'w service" where
  "after s f = (\<lambda>w. case s w of (Ret r, w') \<Rightarrow> f r w' | (Panic e, w') \<Rightarrow> (Panic e, w'))"

definition respond :: "response \<Rightarrow> 'w service" where
  "respond r = (\<lambda>w. (Ret r, w))"

definition map_response :: "(response \<Rightarrow> response) \<Rightarrow> 'w service \<Rightarrow> 'w service" where
  "map_response f s = (\<lambda>w. case s w of (r, w') \<Rightarrow> (map_outcome f r, w'))"

definition total_service :: "'w service \<Rightarrow> bool" where
  "total_service s \<longleftrightarrow> (\<forall>w. no_panic (fst (s w)))"

lemma after_respond [simp]: "after (respond r) f = f r"
  by (simp add: after_def respond_def)

lemma map_response_respond [simp]: "map_response f (respond r) = respond (f r)"
  by (simp add: map_response_def respond_def)

lemma map_response_comp: "map_response f (map_response g s) = map_response (f \<circ> g) s"
proof
  fix w
  show "map_response f (map_response g s) w = map_response (f \<circ> g) s w"
    by (cases "s w"; cases "fst (s w)") (auto simp: map_response_def)
qed

lemma total_respond [simp]: "total_service (respond r)"
  by (simp add: total_service_def respond_def)

lemma total_map_response [simp]: "total_service (map_response f s) = total_service s"
proof -
  have "no_panic (map_outcome f m) = no_panic m" for m
    by (cases m) auto
  then show ?thesis
    by (simp add: total_service_def map_response_def case_prod_beta)
qed

lemma map_response_id [simp]: "map_response (\<lambda>r. r) s = s"
proof
  fix w
  show "map_response (\<lambda>r. r) s w = s w"
    by (cases "s w"; cases "fst (s w)") (auto simp: map_response_def)
qed

end
