(* ===== verification/Schema.thy ===== *)
theory Schema
  imports Http_Types
begin

text \<open>
  Model of \<open>src/schema.rs\<close>: the request metadata of handlers (\<open>OpenApiRequest\<close>), the registry of
  named schemas, the query parameters a schema declares and the rules of flattening. A Rust type
  is named by its \<open>type_name\<close>; the closure that builds its schema is a function on the registry.
\<close>

section \<open>Request metadata\<close>

record openapi_request =
  or_path_schemas :: "json list"
  or_parameters :: "json list"
  or_body :: "json option"

definition empty_openapi_request :: openapi_request where
  "empty_openapi_request = \<lparr>or_path_schemas = [], or_parameters = [], or_body = None\<rparr>"

definition merge_request :: "openapi_request \<Rightarrow> openapi_request \<Rightarrow> openapi_request" where
  "merge_request a b =
     \<lparr>or_path_schemas = or_path_schemas a @ or_path_schemas b,
      or_parameters = or_parameters a @ or_parameters b,
      or_body = (if or_body a = None then or_body b else or_body a)\<rparr>"

lemma merge_request_assoc: "merge_request (merge_request a b) c = merge_request a (merge_request b c)"
  by (cases "or_body a") (auto simp: merge_request_def)

lemma merge_request_empty [simp]:
  "merge_request empty_openapi_request r = r" "merge_request r empty_openapi_request = r"
  by (simp_all add: merge_request_def empty_openapi_request_def)

section \<open>The registry of named schemas\<close>

datatype input_state = Building | Done json

record registry =
  sr_inline :: bool
  sr_definitions :: "(string \<times> json) list"
  sr_owners :: "string \<rightharpoonup> string"
  sr_conflicts :: "string list"
  sr_stack :: "string list"
  sr_inputs :: "string \<rightharpoonup> input_state"
  sr_input_differs :: "string set"
  sr_assumed_same :: "string set"
  sr_completed :: "(string \<times> string option) list"

definition registry_document :: registry where
  "registry_document =
     \<lparr>sr_inline = False, sr_definitions = [], sr_owners = Map.empty, sr_conflicts = [],
      sr_stack = [], sr_inputs = Map.empty, sr_input_differs = {}, sr_assumed_same = {},
      sr_completed = []\<rparr>"

definition registry_inline :: registry where
  "registry_inline = registry_document\<lparr>sr_inline := True\<rparr>"

definition schema_ref :: "string \<Rightarrow> json" where
  "schema_ref name = JObj [(''$ref'', JStr (''#/components/schemas/'' @ name))]"

type_synonym builder = "registry \<Rightarrow> json \<times> registry"

definition define_inline :: "string \<Rightarrow> builder \<Rightarrow> builder" where
  "define_inline owner build r =
     (if owner \<in> set (sr_stack r) then (JObj [(''type'', JStr ''object'')], r)
      else (let (schema, r) = build (r\<lparr>sr_stack := sr_stack r @ [owner]\<rparr>)
            in (schema, r\<lparr>sr_stack := butlast (sr_stack r)\<rparr>)))"

definition add_conflict :: "string \<Rightarrow> registry \<Rightarrow> registry" where
  "add_conflict name r =
     (if name \<in> set (sr_conflicts r) then r else r\<lparr>sr_conflicts := sr_conflicts r @ [name]\<rparr>)"

definition put_definition :: "string \<Rightarrow> json \<Rightarrow> registry \<Rightarrow> registry" where
  "put_definition name schema r =
     r\<lparr>sr_definitions := obj_insert name schema (sr_definitions r)\<rparr>"

definition schema_define :: "string \<Rightarrow> string \<Rightarrow> builder \<Rightarrow> builder" where
  "schema_define owner name build r =
     (if sr_inline r then define_inline owner build r
      else (schema_ref name,
        (case sr_owners r name of
           Some existing \<Rightarrow> if existing \<noteq> owner then add_conflict name r else r
         | None \<Rightarrow>
             (let r = put_definition name JNull (r\<lparr>sr_owners := (sr_owners r)(name \<mapsto> owner)\<rparr>);
                  (schema, r) = build r
              in put_definition name schema r))))"

text \<open>Forgetting what was completed after a position, when an assumption about it was wrong.\<close>

fun forget :: "(string \<times> string option) list \<Rightarrow> registry \<Rightarrow> registry" where
  "forget [] r = r"
| "forget ((owner, component) # rest) r =
     (let r = r\<lparr>sr_inputs := (sr_inputs r)(owner := None)\<rparr>
      in forget rest
           (case component of
              None \<Rightarrow> r
            | Some c \<Rightarrow>
                r\<lparr>sr_definitions := filter (\<lambda>(k, _). k \<noteq> c) (sr_definitions r),
                  sr_owners := (sr_owners r)(c := None)\<rparr>))"

definition schema_define_input :: "string \<Rightarrow> string \<Rightarrow> builder \<Rightarrow> builder \<Rightarrow> builder" where
  "schema_define_input owner name out_build in_build r =
     (if sr_inline r then schema_define owner name in_build r
      else (case sr_inputs r owner of
        Some (Done schema) \<Rightarrow> (schema, r)
      | Some Building \<Rightarrow>
          (if owner \<in> sr_input_differs r then (schema_ref (name @ ''Input''), r)
           else (schema_ref name, r\<lparr>sr_assumed_same := insert owner (sr_assumed_same r)\<rparr>))
      | None \<Rightarrow>
          (let started_at = length (sr_completed r);
               r = r\<lparr>sr_inputs := (sr_inputs r)(owner \<mapsto> Building)\<rparr>;
               (output_ref, r) = schema_define owner name out_build r;
               (built, r) = in_build r;
               input_name = name @ ''Input'';
               (result, defined, r) =
                 (if map_of (sr_definitions r) name = Some built then (output_ref, None, r)
                  else (let r = r\<lparr>sr_input_differs := insert owner (sr_input_differs r)\<rparr>;
                            (built, r) =
                              (if owner \<in> sr_assumed_same r
                               then (let r = r\<lparr>sr_assumed_same := sr_assumed_same r - {owner}\<rparr>;
                                         r = forget (drop started_at (sr_completed r))
                                               (r\<lparr>sr_completed := take started_at (sr_completed r)\<rparr>)
                                     in in_build r)
                               else (built, r));
                            r = (case sr_owners r input_name of
                                   Some existing \<Rightarrow>
                                     if existing \<noteq> owner then add_conflict input_name r
                                     else put_definition input_name built
                                            (r\<lparr>sr_owners := (sr_owners r)(input_name \<mapsto> owner)\<rparr>)
                                 | None \<Rightarrow>
                                     put_definition input_name built
                                       (r\<lparr>sr_owners := (sr_owners r)(input_name \<mapsto> owner)\<rparr>))
                        in (schema_ref input_name, Some input_name, r)))
           in (result,
               r\<lparr>sr_inputs := (sr_inputs r)(owner \<mapsto> Done result),
                 sr_completed := sr_completed r @ [(owner, defined)]\<rparr>))))"

section \<open>Query parameters of a schema\<close>

definition required_names :: "json \<Rightarrow> string list" where
  "required_names schema =
     (case as_array (json_index schema ''required'') of
        None \<Rightarrow> [] | Some names \<Rightarrow> List.map_filter as_str names)"

definition query_parameter :: "string \<Rightarrow> bool \<Rightarrow> json \<Rightarrow> json" where
  "query_parameter name required schema =
     JObj (obj_of [(''in'', JStr ''query''), (''name'', JStr name), (''required'', JBool required),
       (''schema'', schema)])"

lemma json_index_smaller:
  "json_index schema key = JArr xs \<Longrightarrow> x \<in> set xs \<Longrightarrow> size x < size schema"
proof -
  assume k: "json_index schema key = JArr xs" "x \<in> set xs"
  have "size x < size (JArr xs)"
    using k(2) json_size_elem by blast
  moreover have "size (JArr xs) < size schema"
    using k(1) json_size_entry[of _ key "JArr xs"] by (cases schema) (auto split: option.splits)
  ultimately show ?thesis by linarith
qed

definition elements :: "json \<Rightarrow> string \<Rightarrow> json list" where
  "elements schema key =
     (case as_array (json_index schema key) of None \<Rightarrow> [] | Some xs \<Rightarrow> xs)"

lemma elements_smaller [termination_simp]: "x \<in> set (elements schema key) \<Longrightarrow> size x < size schema"
  by (cases "json_index schema key") (auto simp: elements_def intro: json_index_smaller)

function query_parameters_from_schema :: "json \<Rightarrow> bool \<Rightarrow> json list" where
  "query_parameters_from_schema schema opt =
     (case as_object (json_index schema ''properties'') of
        None \<Rightarrow> []
      | Some properties \<Rightarrow>
          map (\<lambda>(name, property).
              query_parameter name (\<not> opt \<and> name \<in> set (required_names schema)) property) properties)
     @ concat (map (\<lambda>part. query_parameters_from_schema part opt) (elements schema ''allOf''))
     @ concat (map (\<lambda>alt. query_parameters_from_schema alt True) (elements schema ''anyOf''))"
  by pat_completeness auto
termination
  by (relation "measure (\<lambda>(schema, opt). size schema)") (auto simp: elements_smaller)

declare query_parameters_from_schema.simps [simp del]

fun dedup_loop :: "string set \<Rightarrow> json list \<Rightarrow> json list" where
  "dedup_loop seen [] = []"
| "dedup_loop seen (p # ps) =
     (case as_str (json_index p ''name'') of
        None \<Rightarrow> p # dedup_loop seen ps
      | Some name \<Rightarrow>
          if name \<in> seen then dedup_loop seen ps else p # dedup_loop (insert name seen) ps)"

definition dedup_parameters :: "json list \<Rightarrow> json list" where
  "dedup_parameters ps = dedup_loop {} ps"

section \<open>Flattening\<close>

definition obj_has :: "(string \<times> json) list \<Rightarrow> string \<Rightarrow> bool" where
  "obj_has m k \<longleftrightarrow> map_of m k \<noteq> None"

definition pure_map :: "json \<Rightarrow> bool" where
  "pure_map flattened =
     (case as_object flattened of
        None \<Rightarrow> False
      | Some m \<Rightarrow>
          obj_has m ''additionalProperties'' \<and>
          list_all (\<lambda>k. \<not> obj_has m k) [''properties'', ''$ref'', ''allOf'', ''oneOf'', ''anyOf''])"

definition flatten_schema ::
  "(string \<times> json) list \<Rightarrow> json list \<Rightarrow> json \<Rightarrow> bool \<Rightarrow> (string \<times> json) list \<times> json list" where
  "flatten_schema schema all_of flattened opt =
     (if pure_map flattened then
        (case as_object flattened of
           None \<Rightarrow> (schema, all_of)
         | Some m \<Rightarrow>
             (case map_of m ''additionalProperties'' of
                None \<Rightarrow> (schema, all_of)
              | Some extra \<Rightarrow> (obj_insert ''additionalProperties'' extra schema, all_of)))
      else (let flattened =
                  (case flattened of
                     JObj m \<Rightarrow>
                       if map_of m ''additionalProperties'' = Some (JBool False)
                       then JObj (filter (\<lambda>(k, _). k \<noteq> ''additionalProperties'') m)
                       else flattened
                   | _ \<Rightarrow> flattened)
            in (schema,
                all_of @ [if opt
                          then JObj [(''anyOf'', JArr [flattened, JObj [(''type'', JStr ''object'')]])]
                          else flattened])))"

section \<open>Lemmas\<close>

lemma add_conflict_conflicts: "set (sr_conflicts (add_conflict n r)) = insert n (set (sr_conflicts r))"
  by (auto simp: add_conflict_def)

text \<open>A name taken by another type is reported, and the first definition stays.\<close>

lemma schema_define_conflict:
  "\<not> sr_inline r \<Longrightarrow> sr_owners r name = Some other \<Longrightarrow> other \<noteq> owner \<Longrightarrow>
     name \<in> set (sr_conflicts (snd (schema_define owner name build r))) \<and>
     sr_definitions (snd (schema_define owner name build r)) = sr_definitions r"
  by (auto simp: schema_define_def add_conflict_def)

lemma dedup_loop_names:
  "distinct (List.map_filter (\<lambda>p. as_str (json_index p ''name'')) (dedup_loop seen ps)) \<and>
   (\<forall>p \<in> set (dedup_loop seen ps). \<forall>n. as_str (json_index p ''name'') = Some n \<longrightarrow> n \<notin> seen)"
proof (induction ps arbitrary: seen)
  case (Cons p ps)
  show ?case
  proof (cases "as_str (json_index p ''name'')")
    case None
    then show ?thesis using Cons[of seen] by (simp add: List.map_filter_simps)
  next
    case (Some n)
    show ?thesis
    proof (cases "n \<in> seen")
      case False
      have "n \<notin> set (List.map_filter (\<lambda>p. as_str (json_index p ''name'')) (dedup_loop (insert n seen) ps))"
        using Cons[of "insert n seen"] by (auto simp: List.map_filter_def)
      then show ?thesis
        using Cons[of "insert n seen"] Some False by (auto simp: List.map_filter_simps)
    qed (use Cons[of seen] Some in simp)
  qed
qed (simp add: List.map_filter_simps)

text \<open>The query parameters: each property is one, and below an optional flatten none is required.\<close>

lemma query_parameters_optional:
  "p \<in> set (query_parameters_from_schema schema True) \<Longrightarrow> json_index p ''required'' = JBool False"
proof (induction schema "True" rule: query_parameters_from_schema.induct)
  case (1 schema)
  then show ?case
    by (subst (asm) query_parameters_from_schema.simps)
      (auto simp: query_parameter_def obj_of_def split: option.splits)
qed

end
