(* ===== verification/Handlers.thy ===== *)
theory Handlers
  imports Requests Captures Schema
begin

text \<open>
  Model of \<open>src/extract/mod.rs\<close>, \<open>src/handler.rs\<close> and the handler side of \<open>src/router/mod.rs\<close>:
  extractors, handlers built from them, the plan a route is compiled to, static responses, and how
  a match's captures are handed to a handler (\<open>CaptureProvider::invoke\<close>).

  The values a handler extracts have Rust types of their own; here they share a type \<open>'v\<close>. Parsing
  one (\<open>FromStr\<close>, \<open>serde_json\<close>) is a function argument that answers the value or the text of the
  error. \<open>debug\<close> says whether the program was built with debug assertions.
\<close>

section \<open>Extractors\<close>

type_synonym ('s, 'v) from_request =
  "bytes_request \<Rightarrow> params \<Rightarrow> 's \<Rightarrow> (api_error + 'v) outcome"

record ('s, 'v) extractor =
  ex_needs_params :: bool
  ex_needs_capture :: bool
  ex_needs_body :: bool
  ex_openapi :: "registry \<Rightarrow> openapi_request \<times> registry"
  ex_from :: "('s, 'v) from_request"

definition plain_extractor :: "('s, 'v) from_request \<Rightarrow> ('s, 'v) extractor" where
  "plain_extractor from =
     \<lparr>ex_needs_params = False, ex_needs_capture = False, ex_needs_body = False,
      ex_openapi = (\<lambda>r. (empty_openapi_request, r)), ex_from = from\<rparr>"

definition state_extractor :: "('s, 's) extractor" where
  "state_extractor = plain_extractor (\<lambda>request params s. Ret (Inr s))"

definition params_extractor :: "('s, params) extractor" where
  "params_extractor =
     (plain_extractor (\<lambda>request params s. Ret (Inr params)))
       \<lparr>ex_needs_params := True, ex_needs_capture := True\<rparr>"

definition parse_text :: "(string \<Rightarrow> string + 'v) \<Rightarrow> string \<Rightarrow> api_error + 'v" where
  "parse_text parse v = (case parse v of Inr x \<Rightarrow> Inr x | Inl error \<Rightarrow> Inl (bad_request error))"

definition path_from_request :: "(string \<Rightarrow> string + 'v) \<Rightarrow> ('s, 'v) from_request" where
  "path_from_request parse request params s =
     bind_outcome (first_raw params (rq_path request)) (\<lambda>raw.
       Ret (bind_result (ok_or (bad_request ''missing path parameter'') raw) (\<lambda>v.
         bind_result (if contains_char v percent then percent_decode v else Inr v)
           (parse_text parse))))"

definition path_extractor :: "json \<Rightarrow> (string \<Rightarrow> string + 'v) \<Rightarrow> ('s, 'v) extractor" where
  "path_extractor schema parse =
     (plain_extractor (path_from_request parse))
       \<lparr>ex_needs_capture := True,
        ex_openapi := (\<lambda>r. (empty_openapi_request\<lparr>or_path_schemas := [schema]\<rparr>, r))\<rparr>"

definition query_from_request :: "(string \<Rightarrow> api_error + 'v) \<Rightarrow> ('s, 'v) from_request" where
  "query_from_request parse request params s =
     (let query = rq_query request
      in Ret (case parse (case query of None \<Rightarrow> [] | Some q \<Rightarrow> q) of
                Inr v \<Rightarrow> Inr v
              | Inl error \<Rightarrow>
                  Inl (if (case query of None \<Rightarrow> True | Some q \<Rightarrow> q = [])
                       then into_missing error else error)))"

definition query_extractor :: "json list \<Rightarrow> (string \<Rightarrow> api_error + 'v) \<Rightarrow> ('s, 'v) extractor" where
  "query_extractor parameters parse =
     (plain_extractor (query_from_request parse))
       \<lparr>ex_openapi := (\<lambda>r. (empty_openapi_request\<lparr>or_parameters := parameters\<rparr>, r))\<rparr>"

definition is_json_media_type :: "string \<Rightarrow> bool" where
  "is_json_media_type media_type =
     (if eq_ignore_ascii_case media_type ''application/json'' then True
      else (case split_once (CHR ''/'') media_type of
              None \<Rightarrow> False
            | Some (mt, subtype) \<Rightarrow>
                eq_ignore_ascii_case mt ''application'' \<and> 5 < length subtype \<and>
                eq_ignore_ascii_case (drop (length subtype - 5) subtype) ''+json''))"

definition json_from_request :: "(string \<Rightarrow> string + 'v) \<Rightarrow> ('s, 'v) from_request" where
  "json_from_request from_slice request params s =
     (let body = rq_body request;
          content_type = (case header_text (rq_headers request) ''content-type'' of
                            None \<Rightarrow> [] | Some t \<Rightarrow> t)
      in Ret (if body = [] \<and> content_type = [] then Inl (missing ''missing JSON body'')
              else if \<not> is_json_media_type (trim (hd (str_split (CHR '';'') content_type)))
              then Inl (api_error_new 415 ''Unsupported Media Type''
                          ''expected application/json or application/*+json'')
              else parse_text from_slice body))"

definition json_body :: "json \<Rightarrow> json" where
  "json_body schema =
     JObj (obj_of [(''required'', JBool True),
       (''content'', JObj [(''application/json'', JObj [(''schema'', schema)])])])"

definition json_extractor :: "builder \<Rightarrow> (string \<Rightarrow> string + 'v) \<Rightarrow> ('s, 'v) extractor" where
  "json_extractor request_schema from_slice =
     (plain_extractor (json_from_request from_slice))
       \<lparr>ex_needs_body := True,
        ex_openapi := (\<lambda>r. let (schema, r) = request_schema r
                           in (empty_openapi_request\<lparr>or_body := Some (json_body schema)\<rparr>, r))\<rparr>"

definition header_from_request ::
  "string \<Rightarrow> (string \<Rightarrow> api_error + 'v) \<Rightarrow> ('s, 'v) from_request" where
  "header_from_request name parse request params s =
     Ret (bind_result (ok_or (missing (''missing header '' @ name)) (hm_get (rq_headers request) name))
       (\<lambda>v. bind_result (ok_or (bad_request (''invalid header '' @ name)) (hv_text v)) parse))"

definition header_extractor :: "string \<Rightarrow> (string \<Rightarrow> api_error + 'v) \<Rightarrow> ('s, 'v) extractor" where
  "header_extractor name parse =
     (plain_extractor (header_from_request name parse))
       \<lparr>ex_openapi := (\<lambda>r. (empty_openapi_request\<lparr>or_parameters :=
            [JObj (obj_of [(''in'', JStr ''header''), (''name'', JStr name),
               (''required'', JBool True), (''schema'', JObj [(''type'', JStr ''string'')])])]\<rparr>, r))\<rparr>"

text \<open>\<open>Option<T>\<close>: an error marked missing becomes \<open>None\<close>; the documentation says it is not required.\<close>

definition not_required :: "json \<Rightarrow> json" where
  "not_required j = (case j of JObj m \<Rightarrow> JObj (obj_insert ''required'' (JBool False) m) | _ \<Rightarrow> j)"

definition option_from_request :: "('s, 'v) from_request \<Rightarrow> ('s, 'v option) from_request" where
  "option_from_request from request params s =
     map_outcome (\<lambda>r. case r of
         Inr v \<Rightarrow> Inr (Some v)
       | Inl error \<Rightarrow> if is_missing error then Inr None else Inl error) (from request params s)"

definition option_extractor :: "('s, 'v) extractor \<Rightarrow> ('s, 'v option) extractor" where
  "option_extractor e =
     \<lparr>ex_needs_params = ex_needs_params e, ex_needs_capture = ex_needs_capture e,
      ex_needs_body = ex_needs_body e,
      ex_openapi = (\<lambda>r. let (m, r) = ex_openapi e r
                        in (m\<lparr>or_parameters := map not_required (or_parameters m),
                              or_body := map_option not_required (or_body m)\<rparr>, r)),
      ex_from = option_from_request (ex_from e)\<rparr>"

definition connect_info_from_request :: "('s, socket_addr) from_request" where
  "connect_info_from_request request params s =
     Ret (ok_or (api_error_new 500 ''Internal Server Error''
                   ''ConnectInfo needs AppRuntime::connect_info(true) and a TCP listener'')
            (rq_peer request))"

definition headers_from_request :: "('s, headers) from_request" where
  "headers_from_request request params s = Ret (Inr (rq_headers request))"

section \<open>Handlers\<close>

type_synonym ('s, 'w) handler_fn = "bytes_request \<Rightarrow> params \<Rightarrow> 's \<Rightarrow> 'w service"

record ('s, 'w) handler =
  h_needs_params :: bool
  h_needs_capture :: bool
  h_needs_body :: bool
  h_zero :: "'w service option"
  h_call :: "('s, 'w) handler_fn"
  h_status :: nat
  h_schema :: "registry \<Rightarrow> json option \<times> registry"
  h_request :: "registry \<Rightarrow> openapi_request \<times> registry"

fun run_extractors ::
  "('s, 'v) extractor list \<Rightarrow> bytes_request \<Rightarrow> params \<Rightarrow> 's \<Rightarrow> (api_error + 'v list) outcome" where
  "run_extractors [] request params s = Ret (Inr [])"
| "run_extractors (e # es) request params s =
     bind_outcome (ex_from e request params s) (\<lambda>r.
       case r of
         Inl error \<Rightarrow> Ret (Inl error)
       | Inr v \<Rightarrow> map_outcome (map_sum id ((#) v)) (run_extractors es request params s))"

fun merge_openapi ::
  "('s, 'v) extractor list \<Rightarrow> registry \<Rightarrow> openapi_request \<times> registry" where
  "merge_openapi [] r = (empty_openapi_request, r)"
| "merge_openapi (e # es) r =
     (let (m, r) = ex_openapi e r; (m', r) = merge_openapi es r in (merge_request m m', r))"

definition run_or_panic :: "'a outcome \<Rightarrow> ('a \<Rightarrow> 'w service) \<Rightarrow> 'w service" where
  "run_or_panic m f = (case m of Ret x \<Rightarrow> f x | Panic e \<Rightarrow> (\<lambda>w. (Panic e, w)))"

definition call_extractors ::
  "(json \<Rightarrow> string option) \<Rightarrow> ('s, 'v) extractor list \<Rightarrow> ('v list \<Rightarrow> 'w service)
     \<Rightarrow> ('s, 'w) handler_fn" where
  "call_extractors to_vec es f request params s =
     run_or_panic (run_extractors es request params s) (\<lambda>r.
       case r of
         Inl error \<Rightarrow> respond (api_error_response to_vec error)
       | Inr vs \<Rightarrow> f vs)"

definition extractor_handler ::
  "(json \<Rightarrow> string option) \<Rightarrow> ('s, 'v) extractor list \<Rightarrow> ('v list \<Rightarrow> 'w service) \<Rightarrow> nat
     \<Rightarrow> (registry \<Rightarrow> json option \<times> registry) \<Rightarrow> ('s, 'w) handler" where
  "extractor_handler to_vec es f status schema =
     \<lparr>h_needs_params = list_ex ex_needs_params es, h_needs_capture = list_ex ex_needs_capture es,
      h_needs_body = list_ex ex_needs_body es, h_zero = None,
      h_call = call_extractors to_vec es f, h_status = status, h_schema = schema,
      h_request = merge_openapi es\<rparr>"

definition zero_handler ::
  "'w service \<Rightarrow> nat \<Rightarrow> (registry \<Rightarrow> json option \<times> registry) \<Rightarrow> ('s, 'w) handler" where
  "zero_handler f status schema =
     \<lparr>h_needs_params = False, h_needs_capture = False, h_needs_body = False, h_zero = Some f,
      h_call = (\<lambda>request params s. f), h_status = status, h_schema = schema,
      h_request = (\<lambda>r. (empty_openapi_request, r))\<rparr>"

record ('i, 'w) raw_handler =
  rh_call :: "'i incoming_request \<Rightarrow> 'w service"
  rh_status :: nat
  rh_schema :: "registry \<Rightarrow> json option \<times> registry"

section \<open>Route plans\<close>

datatype static_response = Static_Text string header_value | Static_Json string

definition static_text :: "string \<Rightarrow> static_response" where
  "static_text body = Static_Text body (text_value (dec (length body)))"

definition static_json :: "string \<Rightarrow> static_response" where
  "static_json body = Static_Json body"

definition static_content_type :: "static_response \<Rightarrow> string" where
  "static_content_type r =
     (case r of Static_Text _ _ \<Rightarrow> ''text/plain; charset=utf-8'' | Static_Json _ \<Rightarrow> ''application/json'')"

definition static_to_response :: "static_response \<Rightarrow> response" where
  "static_to_response r =
     (let body = (case r of Static_Text b _ \<Rightarrow> b | Static_Json b \<Rightarrow> b);
          resp = insert_header ''content-type'' (static_content_type r)
                   (new_response 200 (Full (Some body)))
      in (case r of
            Static_Text _ content_length \<Rightarrow>
              resp\<lparr>resp_headers := hm_insert ''content-length'' content_length (resp_headers resp)\<rparr>
          | Static_Json _ \<Rightarrow> resp))"

datatype ('s, 'i, 'w) handler_kind =
    Zero "'w service"
  | Typed_No_Params "bytes_request \<Rightarrow> 's \<Rightarrow> 'w service"
  | Typed "('s, 'w) handler_fn"
  | Raw "'i incoming_request \<Rightarrow> 'w service"
  | Static_Kind static_response

datatype capture_mode = Capture_None | Borrowed | Materialized
datatype body_mode = Body_None | Buffered | Body_Incoming

record ('s, 'i, 'w) route_plan =
  rp_handler :: "('s, 'i, 'w) handler_kind"
  rp_body_limit :: u32
  rp_capture_mode :: capture_mode
  rp_body_mode :: body_mode

datatype capture_provider = Static_Captures | Dynamic_Captures capture_set

definition capture_invoke ::
  "bool \<Rightarrow> (json \<Rightarrow> string option) \<Rightarrow> capture_provider \<Rightarrow> capture_mode \<Rightarrow> bytes_request
     \<Rightarrow> string list option \<Rightarrow> ('s, 'w) handler_fn \<Rightarrow> 's \<Rightarrow> 'w service" where
  "capture_invoke debug to_vec provider mode request capture_names handler s =
     (case provider of
        Static_Captures \<Rightarrow>
          run_or_panic (assert_that (\<not> debug \<or> mode = Capture_None) ''assertion failed: CaptureMode::None'')
            (\<lambda>_. handler request empty_params s)
      | Dynamic_Captures captures \<Rightarrow>
          (let path = normalize_request_path (rq_path request)
           in case mode of
                Capture_None \<Rightarrow> handler request empty_params s
              | Borrowed \<Rightarrow>
                  run_or_panic (params_from_match [] captures path False)
                    (\<lambda>params. handler request params s)
              | Materialized \<Rightarrow>
                  run_or_panic (expect capture_names ''materialized captures have names'') (\<lambda>names.
                  run_or_panic (params_from_materialized_names names captures path) (\<lambda>r.
                    case r of
                      Inr params \<Rightarrow> handler request params s
                    | Inl error \<Rightarrow> respond (api_error_response to_vec error)))))"

section \<open>Lemmas\<close>

lemma run_or_panic_Ret [simp]: "run_or_panic (Ret x) f = f x"
  by (simp add: run_or_panic_def)

lemma static_well_framed: "well_framed (static_to_response (static_text b))"
  by (simp add: static_to_response_def static_text_def well_framed_def states_length_def)

text \<open>The media types \<open>Json<T>\<close> accepts, in lower case.\<close>

lemma eq_ignore_case_map: "eq_ignore_ascii_case a b \<longleftrightarrow> map ascii_lower a = map ascii_lower b"
  by (simp add: eq_ignore_ascii_case_def to_ascii_lowercase_def)

lemma params_from_match_borrowed [simp]:
  "params_from_match [] cs path False
     = Ret \<lparr>p_packed = cs_packed cs, p_count = cs_count cs, p_owned = None\<rparr>"
  by (simp add: params_from_match_def)

text \<open>\<open>Path<T>\<close> reads the first captured segment: its range was taken in the normalised path, a
  prefix of the path it is cut out of.\<close>

lemma first_raw_captures:
  assumes "wf_captures cs"
  shows "first_raw \<lparr>p_packed = cs_packed cs, p_count = cs_count cs, p_owned = owned\<rparr> path
    = (case capture_ranges cs of
         [] \<Rightarrow> Ret None
       | r # _ \<Rightarrow> map_outcome Some (str_slice path (cr_start r) (cr_end r)))"
proof -
  have "params_range \<lparr>p_packed = cs_packed cs, p_count = cs_count cs, p_owned = owned\<rparr> 0
      = captures_range cs 0"
    by (simp add: params_range_def captures_range_def)
  also have "\<dots> = Ret (if capture_ranges cs = [] then None else Some (hd (capture_ranges cs)))"
    using captures_range_nth[OF assms, of 0] by (cases "capture_ranges cs") auto
  finally show ?thesis
    by (simp add: first_raw_def split: list.splits)
qed

lemma prefix_boundary:
  "is_char_boundary p i \<Longrightarrow> i < length p \<Longrightarrow> is_char_boundary (p @ t) i"
  by (auto simp: is_char_boundary_def nth_append)

lemma good_range_prefix:
  assumes "good_range p r" "set t \<subseteq> {slash}"
  shows "good_range (p @ t) r \<and> slice (p @ t) (cr_start r) (cr_end r) = slice p (cr_start r) (cr_end r)"
proof -
  have bound: "is_char_boundary (p @ t) i" if "is_char_boundary p i" "i \<le> length p" for i
  proof (cases "i < length p")
    case True
    then show ?thesis using prefix_boundary that by blast
  next
    case False
    then have "i = length p" using that by simp
    moreover have "t = [] \<or> t ! 0 = slash"
      using assms(2) by (cases t) auto
    ultimately show ?thesis
      by (auto simp: is_char_boundary_def nth_append is_cont_def)
  qed
  show ?thesis
    using assms(1) bound by (auto simp: good_range_def slice_def)
qed

section \<open>Extractors that cannot panic\<close>

text \<open>Parameters whose ranges are good stretches of the path they are read in. Every extractor here
  answers a value or an error on them; so does a handler over such extractors.\<close>

definition good_params :: "params \<Rightarrow> string \<Rightarrow> bool" where
  "good_params params path \<longleftrightarrow>
     (\<exists>cs. wf_captures cs \<and> p_packed params = cs_packed cs \<and> p_count params = cs_count cs \<and>
        (\<forall>r \<in> set (capture_ranges cs). good_range path r))"

definition safe_extractor :: "('s, 'v) extractor \<Rightarrow> bool" where
  "safe_extractor e \<longleftrightarrow>
     (\<forall>request params s. good_params params (rq_path request) \<longrightarrow> no_panic (ex_from e request params s))"

definition safe_handler :: "('s, 'w) handler_fn \<Rightarrow> bool" where
  "safe_handler h \<longleftrightarrow>
     (\<forall>request params s. good_params params (rq_path request) \<longrightarrow> total_service (h request params s))"

lemma good_empty_params [simp]: "good_params empty_params path"
  by (auto simp: good_params_def empty_params_def intro!: exI[of _ empty_captures]) (simp_all add: empty_captures_def)

lemma good_first_raw:
  assumes "good_params params path"
  shows "no_panic (first_raw params path)"
proof -
  obtain cs where cs: "wf_captures cs" "p_packed params = cs_packed cs" "p_count params = cs_count cs"
      "\<forall>r \<in> set (capture_ranges cs). good_range path r"
    using assms by (auto simp: good_params_def)
  then have "params = \<lparr>p_packed = cs_packed cs, p_count = cs_count cs, p_owned = p_owned params\<rparr>"
    by simp
  with cs(4) show ?thesis
    using first_raw_captures[OF cs(1), of "p_owned params" path]
    by (cases "capture_ranges cs") (auto simp: good_range_def str_slice_def)
qed

lemma safe_extractors:
  "safe_extractor state_extractor" "safe_extractor params_extractor"
  "safe_extractor (path_extractor schema parse)" "safe_extractor (query_extractor parameters parse')"
  "safe_extractor (json_extractor builder parse'')" "safe_extractor (header_extractor name parse')"
  "safe_extractor e \<Longrightarrow> safe_extractor (option_extractor e)"
  by (auto simp: safe_extractor_def state_extractor_def params_extractor_def path_extractor_def
      query_extractor_def json_extractor_def header_extractor_def option_extractor_def plain_extractor_def
      path_from_request_def query_from_request_def json_from_request_def header_from_request_def
      option_from_request_def Let_def outcome_simps dest!: good_first_raw)

lemma run_extractors_total:
  "list_all safe_extractor es \<Longrightarrow> good_params params (rq_path request) \<Longrightarrow>
     no_panic (run_extractors es (request :: bytes_request) params s)"
proof (induction es)
  case (Cons e es)
  then have "no_panic (ex_from e request params s)" "no_panic (run_extractors es request params s)"
    by (simp_all add: safe_extractor_def)
  then obtain r r' where "ex_from e request params s = Ret r" "run_extractors es request params s = Ret r'"
    by (elim no_panicE)
  then show ?case by (simp split: sum.splits)
qed simp

lemma safe_call_extractors:
  assumes "list_all safe_extractor es" "\<And>vs. total_service (f vs)"
  shows "safe_handler (call_extractors to_vec es f)"
  unfolding safe_handler_def
proof (intro allI impI)
  fix request :: bytes_request and params s assume "good_params params (rq_path request)"
  then obtain r where "run_extractors es request params s = Ret r"
    using run_extractors_total[OF assms(1)] no_panicE by blast
  then show "total_service (call_extractors to_vec es f request params s)"
    using assms(2) by (simp add: call_extractors_def split: sum.splits)
qed

lemma safe_static_captures:
  "safe_handler h \<Longrightarrow> \<not> debug \<or> mode = Capture_None \<Longrightarrow>
   total_service (capture_invoke debug tv Static_Captures mode request names h s)"
  by (simp add: capture_invoke_def assert_that_def safe_handler_def)

lemma safe_dynamic_captures:
  assumes safe: "safe_handler h" and wf: "wf_captures cs"
    and good: "\<And>r. r \<in> set (capture_ranges cs) \<Longrightarrow> good_range (normalize_request_path (rq_path request)) r"
    and names: "mode = Materialized \<Longrightarrow> names \<noteq> None"
  shows "total_service (capture_invoke debug tv (Dynamic_Captures cs) mode request names h s)"
proof -
  obtain t where "rq_path request = normalize_request_path (rq_path request) @ t" "set t \<subseteq> {slash}"
    using normalize_request_prefix by blast
  then have "good_range (rq_path request) r" if "r \<in> set (capture_ranges cs)" for r
    using good_range_prefix[OF good[OF that]] by metis
  then have "good_params \<lparr>p_packed = cs_packed cs, p_count = cs_count cs, p_owned = owned\<rparr> (rq_path request)"
    for owned
    using wf by (auto simp: good_params_def)
  then have total: "total_service (h request empty_params s)"
    "total_service (h request \<lparr>p_packed = cs_packed cs, p_count = cs_count cs, p_owned = owned\<rparr> s)" for owned
    using safe by (simp_all add: safe_handler_def)
  show ?thesis
  proof (cases mode)
    case Materialized
    then obtain ns where ns: "names = Some ns" using names by auto
    show ?thesis
      using total(2) materialized_names_decode[OF wf, of "normalize_request_path (rq_path request)" ns] good
      by (cases "decode_all (captured_texts cs (normalize_request_path (rq_path request)))")
        (simp_all add: capture_invoke_def Materialized ns params_from_materialized_names_def)
  qed (use total in \<open>simp_all add: capture_invoke_def\<close>)
qed

end
