(* ===== verification/Middleware.thy ===== *)
theory Middleware
  imports Requests Codec Path_Parts
begin

text \<open>
  Model of \<open>src/middleware.rs\<close>: which requests a registered layer sees (\<open>Scope\<close>), and the chain
  \<open>Next::run\<close> that calls the matching layers in registration order and then the router. A layer
  is a function of the request and of the rest of the chain; it may call it, change what it
  passes on or answers, or not call it at all.
\<close>

section \<open>Scopes\<close>

datatype scope_segment = Seg_Literal string | Seg_Any

datatype scope =
    Scope_All
  | Scope_Prefix "scope_segment list"
  | Scope_Route http_method "scope_segment list"

definition parse_scope_segment :: "string \<Rightarrow> scope_segment outcome" where
  "parse_scope_segment part =
     (if starts_with part ''{'' \<and> ends_with part ''}''
      then bind_outcome (assert_that (2 < length part) ''invalid scope pattern'') (\<lambda>_. Ret Seg_Any)
      else bind_outcome
             (assert_that (\<not> contains_char part (CHR ''{'') \<and> \<not> contains_char part (CHR ''}''))
                ''invalid scope pattern'')
             (\<lambda>_. Ret (Seg_Literal part)))"

fun parse_scope_segments :: "string list \<Rightarrow> scope_segment list outcome" where
  "parse_scope_segments [] = Ret []"
| "parse_scope_segments (p # ps) =
     bind_outcome (parse_scope_segment p) (\<lambda>s. map_outcome ((#) s) (parse_scope_segments ps))"

definition scope_parse :: "string \<Rightarrow> scope_segment list outcome" where
  "scope_parse pattern = parse_scope_segments (split_path pattern)"

definition decoded_equals :: "string \<Rightarrow> string \<Rightarrow> bool" where
  "decoded_equals seg literal \<longleftrightarrow>
     contains_char seg percent \<and> percent_decode seg = Inr literal"

text \<open>The loop of \<open>segments_match\<close>: the iterator after the pattern, or \<open>None\<close> for \<open>return false\<close>.\<close>

fun match_loop :: "scope_segment list \<Rightarrow> path_parts \<Rightarrow> path_parts option" where
  "match_loop [] parts = Some parts"
| "match_loop (seg # segs) parts =
     (case parts_next parts of
        (None, _) \<Rightarrow> None
      | (Some part, rest) \<Rightarrow>
          if (case seg of
                Seg_Literal literal \<Rightarrow>
                  part_value part \<noteq> literal \<and> \<not> decoded_equals (part_value part) literal
              | Seg_Any \<Rightarrow> False)
          then None else match_loop segs rest)"

definition segments_match :: "scope_segment list \<Rightarrow> string \<Rightarrow> bool \<Rightarrow> bool" where
  "segments_match pattern path exact =
     (case match_loop pattern (path_parts_new path) of
        None \<Rightarrow> False
      | Some parts \<Rightarrow> \<not> exact \<or> fst (parts_next parts) = None)"

definition scope_matches :: "scope \<Rightarrow> http_method \<Rightarrow> string \<Rightarrow> bool" where
  "scope_matches scope m path =
     (case scope of
        Scope_All \<Rightarrow> True
      | Scope_Prefix segs \<Rightarrow> segments_match segs path False
      | Scope_Route route_method segs \<Rightarrow>
          (route_method = m \<or> route_method = GET \<and> m = HEAD) \<and> segments_match segs path True)"

section \<open>The chain\<close>

type_synonym ('i, 'w) layer =
  "'i request_body request \<Rightarrow> ('i request_body request \<Rightarrow> 'w service) \<Rightarrow> 'w service"

record ('i, 'w) scoped_layer =
  sl_scope :: scope
  sl_layer :: "('i, 'w) layer"

function next_run ::
  "('i, 'w) scoped_layer list \<Rightarrow> ('i request_body request \<Rightarrow> 'w service) \<Rightarrow> nat
     \<Rightarrow> 'i request_body request \<Rightarrow> 'w service" where
  "next_run layers dispatch i request =
     (if i < length layers then
        (if scope_matches (sl_scope (layers ! i)) (rq_method request) (rq_path request)
         then sl_layer (layers ! i) request (\<lambda>request. next_run layers dispatch (Suc i) request)
         else next_run layers dispatch (Suc i) request)
      else dispatch request)"
  by pat_completeness auto
termination
  by (relation "measure (\<lambda>(layers, dispatch, i, request). length layers - i)") auto

declare next_run.simps [simp del]

definition has_matching_layer :: "('i, 'w) scoped_layer list \<Rightarrow> http_method \<Rightarrow> string \<Rightarrow> bool" where
  "has_matching_layer layers m path =
     list_ex (\<lambda>entry. scope_matches (sl_scope entry) m path) layers"

section \<open>Scopes against segments\<close>

text \<open>A scope pattern against the segments of a path.\<close>

definition segment_ok :: "scope_segment \<Rightarrow> string \<Rightarrow> bool" where
  "segment_ok seg v =
     (case seg of Seg_Any \<Rightarrow> True | Seg_Literal l \<Rightarrow> v = l \<or> decoded_equals v l)"

fun scope_covers :: "scope_segment list \<Rightarrow> string list \<Rightarrow> bool \<Rightarrow> bool" where
  "scope_covers [] vs exact \<longleftrightarrow> \<not> exact \<or> vs = []"
| "scope_covers (s # ss) [] exact = False"
| "scope_covers (s # ss) (v # vs) exact \<longleftrightarrow> segment_ok s v \<and> scope_covers ss vs exact"

lemma match_loop_covers:
  assumes "pp_next parts \<le> length (pp_path parts)"
  shows "(case match_loop pattern parts of
            None \<Rightarrow> False
          | Some parts' \<Rightarrow> \<not> exact \<or> fst (parts_next parts') = None)
    \<longleftrightarrow> scope_covers pattern (map part_value (parts_list parts)) exact"
  using assms
proof (induction pattern parts rule: match_loop.induct)
  case (1 parts)
  obtain r rest where "parts_next parts = (r, rest)" by (cases "parts_next parts")
  then show ?case
    by (cases r) (simp_all add: parts_list.simps[of parts])
next
  case (2 seg segs parts)
  obtain r rest where nx: "parts_next parts = (r, rest)" by (cases "parts_next parts")
  show ?case
  proof (cases r)
    case None
    then show ?thesis using nx by (simp add: parts_list.simps[of parts])
  next
    case (Some part)
    with nx have nx': "parts_next parts = (Some part, rest)" by simp
    have "pp_next rest \<le> length (pp_path rest)"
      using parts_next_Some_pieces(6)[OF "2.prems" nx'] parts_next_path[of parts] nx' by simp
    then show ?thesis
      using "2.IH"[OF nx'[symmetric] refl] nx'
      by (auto simp: parts_list.simps[of parts] segment_ok_def split: scope_segment.splits if_splits)
  qed
qed

lemma segments_match_covers: "segments_match pattern path exact \<longleftrightarrow> scope_covers pattern (split_path path) exact"
  using match_loop_covers[of "path_parts_new path" exact pattern]
  by (simp add: segments_match_def split_path_def) (simp add: path_parts_new_def)

lemma scope_covers_exact_prefix: "scope_covers ss vs True \<Longrightarrow> scope_covers ss vs False"
  by (induction ss vs "True" rule: scope_covers.induct) auto

lemma scope_covers_append: "scope_covers ss vs False \<Longrightarrow> scope_covers ss (vs @ ws) False"
  by (induction ss vs False rule: scope_covers.induct) auto

lemma segments_match_normalized:
  "segments_match pattern (normalize_request_path path) exact = segments_match pattern path exact"
  by (simp add: segments_match_covers normalize_request_path_split)

text \<open>A template and the scope parsed from it have the same shape.\<close>

definition scope_of_segment :: "segment \<Rightarrow> scope_segment" where
  "scope_of_segment seg = (case seg of Static v \<Rightarrow> Seg_Literal v | Capture _ \<Rightarrow> Seg_Any)"

lemma parse_scope_segment_template:
  "parse_segment p = Ret s \<Longrightarrow> parse_scope_segment p = Ret (scope_of_segment s)"
  by (auto simp: parse_segment_def parse_scope_segment_def scope_of_segment_def outcome_simps
      split: if_splits)

lemma parse_scope_segments_template:
  "parse_segments ps = Ret segs \<Longrightarrow> parse_scope_segments ps = Ret (map scope_of_segment segs)"
  by (induction ps arbitrary: segs) (auto simp: outcome_simps parse_scope_segment_template)

lemma scope_parse_template:
  "parse_template path = Ret segs \<Longrightarrow> scope_parse path = Ret (map scope_of_segment segs)"
  by (simp add: parse_template_def scope_parse_def parse_scope_segments_template)

section \<open>The chain as a fold\<close>

definition apply_layer ::
  "('i, 'w) scoped_layer \<Rightarrow> ('i request_body request \<Rightarrow> 'w service)
     \<Rightarrow> 'i request_body request \<Rightarrow> 'w service" where
  "apply_layer entry k request =
     (if scope_matches (sl_scope entry) (rq_method request) (rq_path request)
      then sl_layer entry request k else k request)"

lemma next_run_fold: "next_run layers dispatch i = foldr apply_layer (drop i layers) dispatch"
proof (induction "length layers - i" arbitrary: i)
  case 0
  then show ?case by (auto simp: next_run.simps[of layers dispatch i])
next
  case (Suc n)
  then have i: "i < length layers" by simp
  have "next_run layers dispatch (Suc i) = foldr apply_layer (drop (Suc i) layers) dispatch"
    using Suc by simp
  then have "next_run layers dispatch i = apply_layer (layers ! i) (foldr apply_layer (drop (Suc i) layers) dispatch)"
    using i by (intro ext) (simp add: next_run.simps[of layers dispatch i] apply_layer_def)
  then show ?case
    using i by (simp add: Cons_nth_drop_Suc[symmetric])
qed

lemma next_run_no_layer:
  assumes "\<not> has_matching_layer layers (rq_method r) (rq_path r)"
  shows "next_run layers dispatch 0 r = dispatch r"
proof -
  have "foldr apply_layer ls dispatch r = dispatch r"
    if "\<forall>entry \<in> set ls. \<not> scope_matches (sl_scope entry) (rq_method r) (rq_path r)" for ls
    using that by (induction ls) (auto simp: apply_layer_def)
  then show ?thesis
    using assms by (simp add: next_run_fold has_matching_layer_def list_ex_iff)
qed

section \<open>Properties\<close>

text \<open>\<open>Next::run\<close> from the first layer is the nesting of the layers in registration order around
  the router, each consulted only for requests its scope covers; when no scope covers a request,
  the test the connection makes to skip the chain altogether, the chain is the router itself.\<close>

theorem chain_is_nesting:
  "next_run layers dispatch 0 = foldr apply_layer layers dispatch \<and>
   (has_matching_layer layers (rq_method r) (rq_path r) \<or> next_run layers dispatch 0 r = dispatch r)"
  using next_run_fold[of layers dispatch 0] next_run_no_layer[of layers r dispatch] by auto

end
