(* ===== verification/OpenApi_Config.thy ===== *)
theory OpenApi_Config
  imports Http_Types
begin

text \<open>
  Model of \<open>src/openapi/\<close>: security schemes and requirements as JSON, the settings of the
  generated document, the errors of \<open>App::build\<close> and the Swagger page. How Rust prints a string
  with \<open>{:?}\<close> is the parameter \<open>debug_str\<close>.
\<close>

section \<open>Security\<close>

datatype api_key_location = Key_Header | Key_Query | Key_Cookie

definition location_str :: "api_key_location \<Rightarrow> string" where
  "location_str l =
     (case l of Key_Header \<Rightarrow> ''header'' | Key_Query \<Rightarrow> ''query'' | Key_Cookie \<Rightarrow> ''cookie'')"

datatype security_scheme =
    Http_Scheme string "string option"
  | Api_Key_Scheme api_key_location string

definition scheme_bearer :: security_scheme where
  "scheme_bearer = Http_Scheme ''bearer'' None"

definition scheme_bearer_with_format :: "string \<Rightarrow> security_scheme" where
  "scheme_bearer_with_format fmt = Http_Scheme ''bearer'' (Some fmt)"

definition scheme_basic :: security_scheme where
  "scheme_basic = Http_Scheme ''basic'' None"

definition scheme_api_key :: "api_key_location \<Rightarrow> string \<Rightarrow> security_scheme" where
  "scheme_api_key location name = Api_Key_Scheme location name"

definition scheme_json :: "security_scheme \<Rightarrow> json" where
  "scheme_json s =
     (case s of
        Http_Scheme scheme bearer_format \<Rightarrow>
          (let base = obj_of [(''type'', JStr ''http''), (''scheme'', JStr scheme)]
           in case bearer_format of
                Some fmt \<Rightarrow> JObj (obj_insert ''bearerFormat'' (JStr fmt) base)
              | None \<Rightarrow> JObj base)
      | Api_Key_Scheme location name \<Rightarrow>
          JObj (obj_of [(''type'', JStr ''apiKey''), (''in'', JStr (location_str location)),
            (''name'', JStr name)]))"

definition requirement_json :: "string list \<Rightarrow> json" where
  "requirement_json schemes = JObj (obj_of (map (\<lambda>s. (s, JArr [])) schemes))"

section \<open>Settings and errors\<close>

record openapi_config =
  oc_path :: string
  oc_title :: string
  oc_version :: string
  oc_description :: "string option"
  oc_schemes :: "(string \<times> security_scheme) list"
  oc_default_security :: "string list list"
  oc_document_errors :: bool

definition pkg_name :: string where "pkg_name = ''oas-rs''"
definition pkg_version :: string where "pkg_version = ''0.10.0''"

definition default_openapi_config :: openapi_config where
  "default_openapi_config =
     \<lparr>oc_path = ''/openapi.json'', oc_title = pkg_name, oc_version = pkg_version,
      oc_description = None, oc_schemes = [], oc_default_security = [], oc_document_errors = True\<rparr>"

datatype build_error =
    Route_Conflict string http_method
  | Invalid_Generated_Path string
  | Too_Many_Captures string nat nat
  | Unknown_Security_Scheme string
  | Schema_Name_Conflict string

fun build_error_text :: "(string \<Rightarrow> string) \<Rightarrow> build_error \<Rightarrow> string" where
  "build_error_text debug_str (Route_Conflict path m) =
     ''generated route conflicts with '' @ m @ '' '' @ path"
| "build_error_text debug_str (Invalid_Generated_Path path) =
     ''generated route must be static: '' @ path"
| "build_error_text debug_str (Too_Many_Captures path captures largest) =
     ''route '' @ path @ '' has '' @ dec captures @ '' path captures; the maximum is '' @ dec largest"
| "build_error_text debug_str (Schema_Name_Conflict name) =
     ''two different types are named `'' @ name @ ''` in the OpenAPI schemas; '' @
     ''rename one with #[api_schema(name = \"...\")]''"
| "build_error_text debug_str (Unknown_Security_Scheme name) =
     ''security scheme '' @ debug_str name @ '' is not declared''"

fun put_scheme ::
  "string \<Rightarrow> security_scheme \<Rightarrow> (string \<times> security_scheme) list \<Rightarrow> (string \<times> security_scheme) list" where
  "put_scheme name scheme [] = [(name, scheme)]"
| "put_scheme name scheme ((n, s) # rest) =
     (if n = name then (n, scheme) # rest else (n, s) # put_scheme name scheme rest)"

lemma map_of_put_scheme [simp]: "map_of (put_scheme n s xs) = (map_of xs)(n \<mapsto> s)"
  by (induction xs) auto

lemma put_scheme_keys: "fst ` set (put_scheme n s xs) = insert n (fst ` set xs)"
  by (simp add: dom_map_of_conv_image_fst[symmetric])

lemma distinct_put_scheme: "distinct (map fst xs) \<Longrightarrow> distinct (map fst (put_scheme n s xs))"
  by (induction xs) (auto simp: put_scheme_keys)

section \<open>The Swagger page\<close>

definition swagger_head :: string where
  "swagger_head =
     ''<!doctype html><html><head><title>Swagger UI</title><link rel=\"stylesheet\" hre''
      @ ''f=\"https://unpkg.com/swagger-ui-dist@5.17.14/swagger-ui.css\" integrity=\"sha384''
      @ ''-wxLW6kwyHktdDGr6Pv1zgm/VGJh99lfUbzSn6HNHBENZlCN7W602k9VkGdxuFvPn\" crossorigin''
      @ ''=\"anonymous\"></head><body><div id=\"swagger-ui\">Loading Swagger UI''
      @ [char_of (226::nat), char_of (128::nat), char_of (166::nat)]
      @ ''</div><script src=\"https://unpkg.com/swagger-ui-dist@5.17.14/swagger-ui-bundle''
      @ ''.js\" integrity=\"sha384-wmyclcVGX/WhUkdkATwhaK1X1JtiNrr2EoYJ+diV3vj4v6OC5yCeSu+''
      @ ''yW13SYJep\" crossorigin=\"anonymous\"></script><script>window.onload=()=>window.u''
      @ ''i=SwaggerUIBundle({url:''"

definition swagger_tail :: string where
  "swagger_tail =
     '',dom_id:'#swagger-ui'});</script></body></html>''"

text \<open>\<open>serde_json::to_string\<close> of the path is the parameter \<open>quote\<close>.\<close>

definition swagger_html :: "(string \<Rightarrow> string) \<Rightarrow> string option \<Rightarrow> string" where
  "swagger_html quote openapi_path =
     (let path = (case openapi_path of None \<Rightarrow> ''/openapi.json'' | Some p \<Rightarrow> p)
      in swagger_head @ quote path @ swagger_tail)"

end
