(* ===== verification/App_Builder.thy ===== *)
theory App_Builder
  imports Trie_Search Handlers Middleware OpenApi_Config
begin

text \<open>
  Model of the registration side of \<open>src/app.rs\<close>: the \<open>App\<close> record, route registration
  (\<open>add_route\<close>, \<open>add_raw_route\<close>, \<open>add_static_route\<close>, the generated routes), body limits, layers
  and the per-route documentation settings. Every method that can panic (\<open>assert!\<close>) answers an
  \<open>outcome\<close>. The methods that only forward to \<open>add_route\<close> with a method name are one definition
  each here as in the code.
\<close>

section \<open>State\<close>

record operation =
  op_tag :: "string option"
  op_summary :: "string option"
  op_id :: "string option"
  op_status :: nat
  op_schema :: "json option"
  op_request :: openapi_request
  op_security :: "string list list option"
  op_problems :: "nat list"

record route_metadata =
  rm_builtin :: bool
  rm_method :: http_method
  rm_template :: string
  rm_segments :: "segment list"
  rm_capture_names :: "string list option"
  rm_operation :: operation

record ('s, 'i, 'w) app =
  app_state :: 's
  app_max_body :: u32
  app_plans :: "('s, 'i, 'w) route_plan list"
  app_metadata :: "route_metadata list"
  app_static :: "string \<rightharpoonup> route_set"
  app_dynamic :: trie
  app_last :: "nat option"
  app_openapi :: "openapi_config option"
  app_openapi_bytes :: "string option"
  app_route_error :: "build_error option"
  app_middleware :: "('i, 'w) scoped_layer list"
  app_schemas :: registry
  app_swagger :: "string option"
  app_swagger_bytes :: "string option"

definition default_max_body_size :: nat where
  "default_max_body_size = 1024 * 1024"

definition encode_body_limit :: "nat \<Rightarrow> u32 outcome" where
  "encode_body_limit limit =
     bind_outcome (assert_that (0 < limit) ''max_body_size must be greater than zero'') (\<lambda>_.
     bind_outcome (assert_that (limit \<le> u32_max) ''max_body_size must fit in a u32'') (\<lambda>_.
     Ret (word_of_nat limit)))"

definition app_new :: "(unit, 'i, 'w) app outcome" where
  "app_new =
     map_outcome (\<lambda>max_body.
       \<lparr>app_state = (), app_max_body = max_body, app_plans = [], app_metadata = [],
        app_static = Map.empty, app_dynamic = empty_trie, app_last = None, app_openapi = None,
        app_openapi_bytes = None, app_route_error = None, app_middleware = [],
        app_schemas = registry_document, app_swagger = None, app_swagger_bytes = None\<rparr>)
       (encode_body_limit default_max_body_size)"

definition app_with_state :: "'t \<Rightarrow> (unit, 'i, 'w) app \<Rightarrow> ('t, 'i, 'w) app outcome" where
  "app_with_state st a =
     bind_outcome (assert_that (app_plans a = []) ''with_state must be configured before routes'') (\<lambda>_.
     Ret \<lparr>app_state = st, app_max_body = app_max_body a, app_plans = [], app_metadata = [],
          app_static = Map.empty, app_dynamic = empty_trie, app_last = None,
          app_openapi = app_openapi a, app_openapi_bytes = app_openapi_bytes a,
          app_route_error = app_route_error a, app_middleware = app_middleware a,
          app_schemas = registry_document, app_swagger = app_swagger a,
          app_swagger_bytes = app_swagger_bytes a\<rparr>)"

definition invalidate_openapi_cache :: "('s, 'i, 'w) app \<Rightarrow> ('s, 'i, 'w) app" where
  "invalidate_openapi_cache a = a\<lparr>app_openapi_bytes := None, app_swagger_bytes := None\<rparr>"

section \<open>Body limits\<close>

definition app_max_body_size :: "nat \<Rightarrow> ('s, 'i, 'w) app \<Rightarrow> ('s, 'i, 'w) app outcome" where
  "app_max_body_size limit a =
     map_outcome (\<lambda>limit.
       a\<lparr>app_max_body := limit,
         app_plans := map (\<lambda>plan. if rp_body_mode plan = Buffered
                                  then plan\<lparr>rp_body_limit := limit\<rparr> else plan) (app_plans a)\<rparr>)
       (encode_body_limit limit)"

definition app_body_limit :: "nat \<Rightarrow> ('s, 'i, 'w) app \<Rightarrow> ('s, 'i, 'w) app outcome" where
  "app_body_limit limit a =
     map_outcome (\<lambda>limit.
       case app_last a of
         None \<Rightarrow> a
       | Some i \<Rightarrow>
           (case get_at (app_plans a) i of
              None \<Rightarrow> a
            | Some plan \<Rightarrow>
                if rp_body_mode plan = Buffered
                then a\<lparr>app_plans := (app_plans a)[i := plan\<lparr>rp_body_limit := limit\<rparr>]\<rparr>
                else a))
       (encode_body_limit limit)"

section \<open>Registration\<close>

definition assert_route_path :: "string \<Rightarrow> unit outcome" where
  "assert_route_path path = assert_that (starts_with path ''/'') ''route path must start with /''"

fun is_static_segment :: "segment \<Rightarrow> bool" where
  "is_static_segment (Static _) = True"
| "is_static_segment (Capture _) = False"

fun segment_capture_name :: "segment \<Rightarrow> string option" where
  "segment_capture_name (Capture name) = Some name"
| "segment_capture_name (Static _) = None"

definition no_such_route :: "http_method \<Rightarrow> string \<Rightarrow> ('s, 'i, 'w) app \<Rightarrow> bool" where
  "no_such_route m template a \<longleftrightarrow>
     list_all (\<lambda>md. rm_method md \<noteq> m \<or> rm_template md \<noteq> template) (app_metadata a)"

definition record_capture_limit_error ::
  "string \<Rightarrow> segment list \<Rightarrow> ('s, 'i, 'w) app \<Rightarrow> bool \<times> ('s, 'i, 'w) app" where
  "record_capture_limit_error path segs a =
     (let captures = length (filter (\<lambda>seg. \<not> is_static_segment seg) segs)
      in if captures \<le> max_capture_params then (False, a)
         else (True,
           if app_route_error a = None
           then a\<lparr>app_route_error := Some (Too_Many_Captures path captures max_capture_params)\<rparr>
           else a))"

definition static_entry :: "string \<Rightarrow> ('s, 'i, 'w) app \<Rightarrow> route_set" where
  "static_entry template a =
     (case app_static a template of Some rs \<Rightarrow> rs | None \<Rightarrow> empty_route_set)"

text \<open>\<open>static_routes.entry(template).or_default().insert(method, index)\<close>\<close>

definition insert_static ::
  "string \<Rightarrow> http_method \<Rightarrow> nat \<Rightarrow> ('s, 'i, 'w) app \<Rightarrow> ('s, 'i, 'w) app outcome" where
  "insert_static template m i a =
     map_outcome (\<lambda>rs. a\<lparr>app_static := (app_static a)(template \<mapsto> rs)\<rparr>)
       (route_set_insert m i (static_entry template a))"

definition insert_route ::
  "string \<Rightarrow> segment list \<Rightarrow> http_method \<Rightarrow> nat \<Rightarrow> ('s, 'i, 'w) app \<Rightarrow> ('s, 'i, 'w) app outcome" where
  "insert_route template segs m i a =
     (if list_all is_static_segment segs then insert_static template m i a
      else map_outcome (\<lambda>t. a\<lparr>app_dynamic := t\<rparr>) (trie_insert (app_dynamic a) segs m i))"

definition blank_operation :: operation where
  "blank_operation =
     \<lparr>op_tag = None, op_summary = None, op_id = None, op_status = 200, op_schema = None,
      op_request = empty_openapi_request, op_security = None, op_problems = []\<rparr>"

definition single_path_extractor :: "openapi_request \<Rightarrow> openapi_request outcome" where
  "single_path_extractor request =
     bind_outcome (assert_that (length (or_path_schemas request) \<le> 1)
        ''a handler cannot take more than one Path<T> extractor'') (\<lambda>_. Ret request)"

definition push_route ::
  "('s, 'i, 'w) route_plan \<Rightarrow> route_metadata \<Rightarrow> ('s, 'i, 'w) app \<Rightarrow> ('s, 'i, 'w) app" where
  "push_route plan md a =
     a\<lparr>app_plans := app_plans a @ [plan], app_metadata := app_metadata a @ [md]\<rparr>"

definition finish_route :: "nat \<Rightarrow> ('s, 'i, 'w) app \<Rightarrow> ('s, 'i, 'w) app" where
  "finish_route i a = a\<lparr>app_openapi_bytes := None, app_last := Some i\<rparr>"

definition add_static_route ::
  "string \<Rightarrow> static_response \<Rightarrow> ('s, 'i, 'w) app \<Rightarrow> ('s, 'i, 'w) app outcome" where
  "add_static_route path response a =
     bind_outcome (assert_route_path path) (\<lambda>_.
     let template = normalize_path path
     in bind_outcome (parse_template template) (\<lambda>segs.
        bind_outcome (assert_that (list_all is_static_segment segs)
           ''static response routes cannot contain captures'') (\<lambda>_.
        bind_outcome (assert_that (no_such_route GET template a) ''duplicate route'') (\<lambda>_.
        let i = length (app_plans a)
        in bind_outcome (insert_static template GET i a) (\<lambda>a.
           Ret (finish_route i
             (push_route
               \<lparr>rp_handler = Static_Kind response, rp_body_limit = 0,
                rp_capture_mode = Capture_None, rp_body_mode = Body_None\<rparr>
               \<lparr>rm_builtin = False, rm_method = GET, rm_template = template, rm_segments = segs,
                rm_capture_names = None, rm_operation = blank_operation\<rparr> a)))))))"

definition handler_kind_of :: "('s, 'w) handler \<Rightarrow> ('s, 'i, 'w) handler_kind" where
  "handler_kind_of h =
     (case h_zero h of
        Some f \<Rightarrow> Zero f
      | None \<Rightarrow>
          if \<not> h_needs_capture h
          then Typed_No_Params (\<lambda>request s. h_call h request empty_params s)
          else Typed (h_call h))"

definition capture_names_of :: "bool \<Rightarrow> segment list \<Rightarrow> string list option" where
  "capture_names_of needs_params segs =
     (if needs_params then Some (List.map_filter segment_capture_name segs) else None)"

definition capture_mode_of :: "string list option \<Rightarrow> segment list \<Rightarrow> capture_mode" where
  "capture_mode_of capture_names segs =
     (if capture_names \<noteq> None then Materialized
      else if list_ex (\<lambda>seg. \<not> is_static_segment seg) segs then Borrowed
      else Capture_None)"

definition add_route ::
  "http_method \<Rightarrow> string \<Rightarrow> ('s, 'w) handler \<Rightarrow> ('s, 'i, 'w) app \<Rightarrow> ('s, 'i, 'w) app outcome" where
  "add_route m path h a =
     bind_outcome (assert_route_path path) (\<lambda>_.
     let template = normalize_path path
     in bind_outcome (assert_that (no_such_route m template a) ''duplicate route'') (\<lambda>_.
        bind_outcome (parse_template template) (\<lambda>segs.
        let (too_many, a) = record_capture_limit_error template segs a
        in if too_many then Ret a
           else
             let capture_names = capture_names_of (h_needs_params h) segs;
                 i = length (app_plans a)
             in bind_outcome (insert_route template segs m i a) (\<lambda>a.
                let (schema, schemas) = h_schema h (app_schemas a);
                    (request, schemas) = h_request h schemas
                in bind_outcome (single_path_extractor request) (\<lambda>request.
                   Ret (finish_route i
                     (push_route
                       \<lparr>rp_handler = handler_kind_of h,
                        rp_body_limit = (if h_needs_body h then app_max_body a else 0),
                        rp_capture_mode = capture_mode_of capture_names segs,
                        rp_body_mode = (if h_needs_body h then Buffered else Body_None)\<rparr>
                       \<lparr>rm_builtin = False, rm_method = m, rm_template = template,
                        rm_segments = segs, rm_capture_names = capture_names,
                        rm_operation = blank_operation\<lparr>op_status := h_status h,
                          op_schema := schema, op_request := request\<rparr>\<rparr>
                       (a\<lparr>app_schemas := schemas\<rparr>))))))))"

definition add_raw_route ::
  "http_method \<Rightarrow> string \<Rightarrow> ('i, 'w) raw_handler \<Rightarrow> ('s, 'i, 'w) app \<Rightarrow> ('s, 'i, 'w) app outcome" where
  "add_raw_route m path h a =
     bind_outcome (assert_route_path path) (\<lambda>_.
     let template = normalize_path path
     in bind_outcome (assert_that (no_such_route m template a) ''duplicate route'') (\<lambda>_.
        bind_outcome (parse_template template) (\<lambda>segs.
        let (too_many, a) = record_capture_limit_error template segs a
        in if too_many then Ret a
           else
             let i = length (app_plans a)
             in bind_outcome (insert_route template segs m i a) (\<lambda>a.
                let (schema, schemas) = rh_schema h (app_schemas a)
                in Ret (finish_route i
                     (push_route
                       \<lparr>rp_handler = Raw (rh_call h), rp_body_limit = 0,
                        rp_capture_mode = Capture_None, rp_body_mode = Body_Incoming\<rparr>
                       \<lparr>rm_builtin = False, rm_method = m, rm_template = template,
                        rm_segments = segs, rm_capture_names = None,
                        rm_operation = blank_operation\<lparr>op_status := rh_status h,
                          op_schema := schema\<rparr>\<rparr>
                       (a\<lparr>app_schemas := schemas\<rparr>)))))))"

definition add_generated_static_route ::
  "string \<Rightarrow> static_response \<Rightarrow> ('s, 'i, 'w) app \<Rightarrow> (build_error + ('s, 'i, 'w) app) outcome" where
  "add_generated_static_route path response a =
     bind_outcome (parse_template path) (\<lambda>segs.
       if \<not> list_all is_static_segment segs then Ret (Inl (Invalid_Generated_Path path))
       else bind_outcome
         (case app_static a path of None \<Rightarrow> Ret None | Some rs \<Rightarrow> route_set_route rs GET) (\<lambda>present.
         if present \<noteq> None then Ret (Inl (Route_Conflict path GET))
         else
           let i = length (app_plans a)
           in bind_outcome (insert_static path GET i a) (\<lambda>a.
              Ret (Inr
                (push_route
                  \<lparr>rp_handler = Static_Kind response, rp_body_limit = 0,
                   rp_capture_mode = Capture_None, rp_body_mode = Body_None\<rparr>
                  \<lparr>rm_builtin = True, rm_method = GET, rm_template = path, rm_segments = segs,
                   rm_capture_names = None, rm_operation = blank_operation\<rparr> a)))))"

definition app_get where "app_get path h a = add_route ''GET'' path h a"
definition app_head where "app_head path h a = add_route ''HEAD'' path h a"
definition app_post where "app_post path h a = add_route ''POST'' path h a"
definition app_put where "app_put path h a = add_route ''PUT'' path h a"
definition app_patch where "app_patch path h a = add_route ''PATCH'' path h a"
definition app_delete where "app_delete path h a = add_route ''DELETE'' path h a"
definition app_options where "app_options path h a = add_route ''OPTIONS'' path h a"
definition app_raw where "app_raw m path h a = add_raw_route m path h a"
definition app_raw_get where "app_raw_get path h a = app_raw GET path h a"

definition app_static_text :: "string \<Rightarrow> string \<Rightarrow> ('s, 'i, 'w) app \<Rightarrow> ('s, 'i, 'w) app outcome" where
  "app_static_text path body a = add_static_route path (static_text body) a"

definition app_static_json :: "string \<Rightarrow> string \<Rightarrow> ('s, 'i, 'w) app \<Rightarrow> ('s, 'i, 'w) app outcome" where
  "app_static_json path body a = add_static_route path (static_json body) a"

section \<open>Layers\<close>

definition app_layer :: "('i, 'w) layer \<Rightarrow> ('s, 'i, 'w) app \<Rightarrow> ('s, 'i, 'w) app" where
  "app_layer l a =
     a\<lparr>app_middleware := app_middleware a @ [\<lparr>sl_scope = Scope_All, sl_layer = l\<rparr>]\<rparr>"

definition app_route_layer :: "('i, 'w) layer \<Rightarrow> ('s, 'i, 'w) app \<Rightarrow> ('s, 'i, 'w) app outcome" where
  "app_route_layer l a =
     (case app_last a of
        None \<Rightarrow> Ret a
      | Some i \<Rightarrow>
          bind_outcome (index (app_metadata a) i) (\<lambda>md.
          bind_outcome (scope_parse (rm_template md)) (\<lambda>segs.
          Ret (a\<lparr>app_middleware := app_middleware a
                 @ [\<lparr>sl_scope = Scope_Route (rm_method md) segs, sl_layer = l\<rparr>]\<rparr>))))"

definition app_layer_for :: "string \<Rightarrow> ('i, 'w) layer \<Rightarrow> ('s, 'i, 'w) app \<Rightarrow> ('s, 'i, 'w) app outcome" where
  "app_layer_for pfx l a =
     map_outcome (\<lambda>segs.
       a\<lparr>app_middleware := app_middleware a @ [\<lparr>sl_scope = Scope_Prefix segs, sl_layer = l\<rparr>]\<rparr>)
       (scope_parse pfx)"

section \<open>Documentation of the last route\<close>

definition update_last ::
  "(operation \<Rightarrow> operation) \<Rightarrow> ('s, 'i, 'w) app \<Rightarrow> ('s, 'i, 'w) app outcome" where
  "update_last f a =
     (case app_last a of
        None \<Rightarrow> Ret a
      | Some i \<Rightarrow>
          bind_outcome (index (app_metadata a) i) (\<lambda>md.
          Ret (invalidate_openapi_cache
                (a\<lparr>app_metadata := (app_metadata a)[i := md\<lparr>rm_operation := f (rm_operation md)\<rparr>]\<rparr>))))"

definition app_tag where
  "app_tag tag a = update_last (\<lambda>op. op\<lparr>op_tag := Some tag\<rparr>) a"

definition app_summary where
  "app_summary summary a = update_last (\<lambda>op. op\<lparr>op_summary := Some summary\<rparr>) a"

definition app_security where
  "app_security schemes a =
     update_last (\<lambda>op. op\<lparr>op_security :=
        Some ((case op_security op of None \<Rightarrow> [] | Some gs \<Rightarrow> gs) @ [schemes])\<rparr>) a"

definition app_public where
  "app_public a = update_last (\<lambda>op. op\<lparr>op_security := Some []\<rparr>) a"

definition is_error_status :: "nat \<Rightarrow> bool" where
  "is_error_status status \<longleftrightarrow> 400 \<le> status \<and> status < 600"

definition app_problem_responses where
  "app_problem_responses statuses a =
     bind_outcome (assert_that (list_all is_error_status statuses)
        ''problem_responses takes an error status (4xx or 5xx)'') (\<lambda>_.
     update_last (\<lambda>op. op\<lparr>op_problems :=
        fold (\<lambda>status declared. if status \<in> set declared then declared else declared @ [status])
          statuses (op_problems op)\<rparr>) a)"

definition app_operation_id where
  "app_operation_id operation_id a =
     bind_outcome (assert_that
        (list_all (\<lambda>md. op_id (rm_operation md) \<noteq> Some operation_id) (app_metadata a))
        ''duplicate operation id'') (\<lambda>_.
     update_last (\<lambda>op. op\<lparr>op_id := Some operation_id\<rparr>) a)"

section \<open>Settings of the generated document\<close>

definition app_openapi_options :: "('s, 'i, 'w) app \<Rightarrow> ('s, 'i, 'w) app" where
  "app_openapi_options a =
     invalidate_openapi_cache
       (if app_openapi a = None then a\<lparr>app_openapi := Some default_openapi_config\<rparr> else a)"

definition app_swagger_options :: "('s, 'i, 'w) app \<Rightarrow> ('s, 'i, 'w) app" where
  "app_swagger_options a =
     (if app_swagger a = None then a\<lparr>app_swagger := Some ''/docs''\<rparr> else a)\<lparr>app_swagger_bytes := None\<rparr>"

definition update_config ::
  "(openapi_config \<Rightarrow> openapi_config) \<Rightarrow> ('s, 'i, 'w) app \<Rightarrow> ('s, 'i, 'w) app outcome" where
  "update_config f a =
     map_outcome (\<lambda>c. invalidate_openapi_cache (a\<lparr>app_openapi := Some (f c)\<rparr>))
       (expect (app_openapi a) ''OpenAPI options are initialized'')"

definition options_path where
  "options_path path a = update_config (\<lambda>c. c\<lparr>oc_path := normalize_path path\<rparr>) a"

definition options_title where
  "options_title title a = update_config (\<lambda>c. c\<lparr>oc_title := title\<rparr>) a"

definition options_version where
  "options_version v a = update_config (\<lambda>c. c\<lparr>oc_version := v\<rparr>) a"

definition options_document_errors where
  "options_document_errors enabled a = update_config (\<lambda>c. c\<lparr>oc_document_errors := enabled\<rparr>) a"

definition options_security_scheme where
  "options_security_scheme name scheme a =
     update_config (\<lambda>c. c\<lparr>oc_schemes := put_scheme name scheme (oc_schemes c)\<rparr>) a"

definition options_bearer_auth where
  "options_bearer_auth name a = options_security_scheme name scheme_bearer a"

definition options_api_key where
  "options_api_key name location key_name a =
     options_security_scheme name (scheme_api_key location key_name) a"

definition options_default_security where
  "options_default_security schemes a =
     update_config (\<lambda>c. c\<lparr>oc_default_security := oc_default_security c @ [schemes]\<rparr>) a"

definition options_description where
  "options_description description a =
     update_config (\<lambda>c. c\<lparr>oc_description := Some description\<rparr>) a"

definition swagger_path :: "string \<Rightarrow> ('s, 'i, 'w) app \<Rightarrow> ('s, 'i, 'w) app" where
  "swagger_path path a = a\<lparr>app_swagger := Some (normalize_path path), app_swagger_bytes := None\<rparr>"

end
