(* ===== verification/App_Build.thy ===== *)
theory App_Build
  imports App_Builder
begin

text \<open>
  Model of the second half of \<open>src/app.rs\<close>: the OpenAPI document of the registered routes, the
  checks of \<open>App::build\<close> and the runtime it makes (\<open>AppRuntime\<close> and \<open>RuntimeInner\<close> of
  \<open>src/runtime.rs\<close>, with its settings). Parameters: \<open>reason\<close> is
  \<open>StatusCode::canonical_reason\<close>, \<open>to_text\<close> prints a JSON value and \<open>quote\<close> a JSON string.
\<close>

section \<open>The document\<close>

definition framework_errors :: "route_metadata \<Rightarrow> body_mode \<Rightarrow> bool \<Rightarrow> nat list" where
  "framework_errors md body_mode default_secured =
     (let request = op_request (rm_operation md);
          parsed = (body_mode \<noteq> Body_Incoming);
          secured = (case op_security (rm_operation md) of
                       Some requirements \<Rightarrow> requirements \<noteq> [] | None \<Rightarrow> default_secured)
      in (if parsed \<and> (or_parameters request \<noteq> [] \<or> or_path_schemas request \<noteq> []
                       \<or> or_body request \<noteq> None) then [400] else [])
         @ (if parsed \<and> or_body request \<noteq> None
            then (if body_mode = Buffered then [408] else []) @ [413, 415] else [])
         @ (if secured then [401] else []))"

definition problem_ref :: string where
  "problem_ref = ''#/components/schemas/Problem''"

definition type_object :: "string \<Rightarrow> json" where
  "type_object t = JObj [(''type'', JStr t)]"

definition problem_schema :: json where
  "problem_schema =
     JObj (obj_of [(''type'', JStr ''object''),
       (''required'', JArr [JStr ''type'', JStr ''title'', JStr ''status'', JStr ''detail'']),
       (''properties'', JObj (obj_of
          [(''type'', JObj (obj_of [(''type'', JStr ''string''),
                                   (''examples'', JArr [JStr ''about:blank''])])),
           (''title'', type_object ''string''), (''status'', type_object ''integer''),
           (''detail'', type_object ''string'')]))])"

text \<open>Each capture takes the next declared schema, or a string.\<close>

fun path_parameters :: "segment list \<Rightarrow> json list \<Rightarrow> json list" where
  "path_parameters [] schemas = []"
| "path_parameters (Static _ # segs) schemas = path_parameters segs schemas"
| "path_parameters (Capture name # segs) schemas =
     JObj (obj_of [(''in'', JStr ''path''), (''name'', JStr name), (''required'', JBool True),
        (''schema'', case schemas of [] \<Rightarrow> type_object ''string'' | s # _ \<Rightarrow> s)])
     # path_parameters segs (tl schemas)"

definition response_description :: "nat \<Rightarrow> string" where
  "response_description status =
     (if status = 204 then ''No Content''
      else if status = 304 then ''Not Modified''
      else if status = 201 then ''Created''
      else if status = 101 then ''Switching Protocols''
      else ''Success'')"

definition insert_some :: "string \<Rightarrow> json option \<Rightarrow> (string \<times> json) list \<Rightarrow> (string \<times> json) list" where
  "insert_some k v m = (case v of None \<Rightarrow> m | Some j \<Rightarrow> obj_insert k j m)"

definition error_response_json :: "(nat \<Rightarrow> string option) \<Rightarrow> nat \<Rightarrow> json" where
  "error_response_json reason code =
     JObj (obj_of [(''description'', JStr (case reason code of None \<Rightarrow> ''Error'' | Some r \<Rightarrow> r)),
       (''content'', JObj [(''application/json'',
          JObj [(''schema'', JObj [(''$ref'', JStr problem_ref)])])])])"

definition operation_errors :: "bool \<Rightarrow> bool \<Rightarrow> route_metadata \<Rightarrow> body_mode \<Rightarrow> nat list" where
  "operation_errors document_errors default_secured md body_mode =
     (if document_errors then framework_errors md body_mode default_secured else [])
     @ op_problems (rm_operation md)"

definition operation_json ::
  "(nat \<Rightarrow> string option) \<Rightarrow> route_metadata \<Rightarrow> nat list \<Rightarrow> json" where
  "operation_json reason md errors =
     (let op = rm_operation md;
          parameters = or_parameters (op_request op)
            @ path_parameters (rm_segments md) (or_path_schemas (op_request op));
          response = insert_some ''content''
            (map_option (\<lambda>schema. JObj [(''application/json'', JObj [(''schema'', schema)])]) (op_schema op))
            [(''description'', JStr (response_description (op_status op)))];
          responses = fold (\<lambda>code m. obj_insert (dec code) (error_response_json reason code) m) errors
            [(dec (op_status op), JObj response)];
          m = insert_some ''tags'' (map_option (\<lambda>t. JArr [JStr t]) (op_tag op)) [];
          m = insert_some ''summary'' (map_option JStr (op_summary op)) m;
          m = insert_some ''operationId'' (map_option JStr (op_id op)) m;
          m = insert_some ''security''
                (map_option (\<lambda>groups. JArr (map requirement_json groups)) (op_security op)) m;
          m = (if parameters \<noteq> [] then obj_insert ''parameters'' (JArr parameters) m else m);
          m = insert_some ''requestBody'' (or_body (op_request op)) m
      in JObj (obj_insert ''responses'' (JObj responses) m))"

text \<open>Adding the operation to the entry of its template, made when it is missing.\<close>

definition add_operation ::
  "string \<Rightarrow> http_method \<Rightarrow> json \<Rightarrow> (string \<times> json) list \<Rightarrow> (string \<times> json) list" where
  "add_operation template m op_json paths =
     (let entry = (case map_of paths template of Some (JObj e) \<Rightarrow> e | _ \<Rightarrow> [])
      in obj_insert template (JObj (obj_insert (to_ascii_lowercase m) op_json entry)) paths)"

definition document_step ::
  "(nat \<Rightarrow> string option) \<Rightarrow> bool \<Rightarrow> bool \<Rightarrow> route_metadata \<times> body_mode
     \<Rightarrow> (string \<times> json) list \<times> bool \<Rightarrow> (string \<times> json) list \<times> bool" where
  "document_step reason document_errors default_secured = (\<lambda>(md, mode) (paths, uses_problem).
     if rm_builtin md then (paths, uses_problem)
     else (let errors = operation_errors document_errors default_secured md mode
           in (add_operation (rm_template md) (rm_method md) (operation_json reason md errors) paths,
               uses_problem \<or> errors \<noteq> [])))"

definition documents_errors :: "('s, 'i, 'w) app \<Rightarrow> bool" where
  "documents_errors a =
     (case app_openapi a of None \<Rightarrow> True | Some c \<Rightarrow> oc_document_errors c)"

definition is_default_secured :: "('s, 'i, 'w) app \<Rightarrow> bool" where
  "is_default_secured a =
     (case app_openapi a of None \<Rightarrow> False | Some c \<Rightarrow> oc_default_security c \<noteq> [])"

definition route_modes :: "('s, 'i, 'w) app \<Rightarrow> (route_metadata \<times> body_mode) list" where
  "route_modes a = zip (app_metadata a) (map rp_body_mode (app_plans a))"

definition openapi_document :: "(nat \<Rightarrow> string option) \<Rightarrow> ('s, 'i, 'w) app \<Rightarrow> json" where
  "openapi_document reason a =
     (let (paths, uses_problem) =
            fold (document_step reason (documents_errors a) (is_default_secured a)) (route_modes a) ([], False);
          config = app_openapi a;
          info = insert_some ''description'' (map_option JStr (Option.bind config oc_description))
            (obj_of [(''title'', JStr (case config of None \<Rightarrow> pkg_name | Some c \<Rightarrow> oc_title c)),
                     (''version'', JStr (case config of None \<Rightarrow> pkg_version | Some c \<Rightarrow> oc_version c))]);
          document = obj_of [(''openapi'', JStr ''3.1.0''), (''info'', JObj info), (''paths'', JObj paths)];
          definitions = sr_definitions (app_schemas a);
          schemas = (if uses_problem \<and> map_of definitions ''Problem'' = None
                     then obj_insert ''Problem'' problem_schema definitions else definitions);
          components = (if schemas \<noteq> [] then [(''schemas'', JObj schemas)] else []);
          components = (case config of
             None \<Rightarrow> components
           | Some c \<Rightarrow>
               if oc_schemes c \<noteq> []
               then obj_insert ''securitySchemes''
                      (JObj (obj_of (map (\<lambda>(n, s). (n, scheme_json s)) (oc_schemes c)))) components
               else components);
          document = (case config of
             None \<Rightarrow> document
           | Some c \<Rightarrow>
               if oc_default_security c \<noteq> []
               then obj_insert ''security'' (JArr (map requirement_json (oc_default_security c))) document
               else document)
      in JObj (if components \<noteq> [] then obj_insert ''components'' (JObj components) document
               else document))"

section \<open>The checks of \<open>build\<close>\<close>

definition validate_schemas :: "('s, 'i, 'w) app \<Rightarrow> build_error + unit" where
  "validate_schemas a =
     (case sr_conflicts (app_schemas a) of
        name # _ \<Rightarrow> Inl (Schema_Name_Conflict name)
      | [] \<Rightarrow>
          if map_of (sr_definitions (app_schemas a)) ''Problem'' \<noteq> None \<and>
             list_ex (\<lambda>(md, mode). \<not> rm_builtin md \<and>
                (op_problems (rm_operation md) \<noteq> [] \<or>
                 documents_errors a \<and> framework_errors md mode (is_default_secured a) \<noteq> []))
               (route_modes a)
          then Inl (Schema_Name_Conflict ''Problem'')
          else Inr ())"

definition validate_security :: "('s, 'i, 'w) app \<Rightarrow> build_error + unit" where
  "validate_security a =
     (case app_openapi a of
        None \<Rightarrow> Inr ()
      | Some c \<Rightarrow>
          (let declared = (\<lambda>name. list_ex (\<lambda>(n, _). n = name) (oc_schemes c));
               route_groups = concat (List.map_filter (\<lambda>md. op_security (rm_operation md))
                                (filter (\<lambda>md. \<not> rm_builtin md) (app_metadata a)))
           in case find (\<lambda>name. \<not> declared name) (concat (oc_default_security c @ route_groups)) of
                Some name \<Rightarrow> Inl (Unknown_Security_Scheme name)
              | None \<Rightarrow> Inr ()))"

definition prepare_openapi ::
  "(nat \<Rightarrow> string option) \<Rightarrow> (json \<Rightarrow> string) \<Rightarrow> ('s, 'i, 'w) app \<Rightarrow> ('s, 'i, 'w) app" where
  "prepare_openapi reason to_text a =
     (if app_openapi a \<noteq> None \<and> app_openapi_bytes a = None
      then a\<lparr>app_openapi_bytes := Some (to_text (openapi_document reason a))\<rparr> else a)"

definition prepare_swagger :: "(string \<Rightarrow> string) \<Rightarrow> ('s, 'i, 'w) app \<Rightarrow> ('s, 'i, 'w) app" where
  "prepare_swagger quote a =
     (if app_swagger a \<noteq> None \<and> app_swagger_bytes a = None
      then a\<lparr>app_swagger_bytes := Some (swagger_html quote (map_option oc_path (app_openapi a)))\<rparr>
      else a)"

definition install_generated_routes ::
  "('s, 'i, 'w) app \<Rightarrow> (build_error + ('s, 'i, 'w) app) outcome" where
  "install_generated_routes a =
     bind_outcome
       (case (app_openapi a, app_openapi_bytes a) of
          (Some c, Some body) \<Rightarrow> add_generated_static_route (oc_path c) (static_json body) a
        | _ \<Rightarrow> Ret (Inr a)) (\<lambda>r.
     case r of
       Inl e \<Rightarrow> Ret (Inl e)
     | Inr a \<Rightarrow>
         (case (app_swagger a, app_swagger_bytes a) of
            (Some path, Some body) \<Rightarrow> add_generated_static_route path (static_text body) a
          | _ \<Rightarrow> Ret (Inr a)))"

section \<open>The runtime\<close>

record ('s, 'i, 'w) runtime_inner =
  ri_body_read_timeout :: "nat option"
  ri_state :: 's
  ri_plans :: "('s, 'i, 'w) route_plan list"
  ri_capture_names :: "string list option list"
  ri_static :: "string \<rightharpoonup> route_set"
  ri_dynamic :: trie
  ri_middleware :: "('i, 'w) scoped_layer list"

text \<open>Durations are in milliseconds.\<close>

record ('s, 'i, 'w) app_runtime =
  rt_inner :: "('s, 'i, 'w) runtime_inner"
  rt_shutdown_timeout :: nat
  rt_tcp_nodelay :: bool
  rt_header_read_timeout :: "nat option"
  rt_send_timeout :: "nat option"
  rt_max_connections :: "nat option"
  rt_connect_info :: bool
  rt_has_error_observer :: bool
  rt_h2_max_streams :: "nat option"
  rt_h2c :: bool
  rt_handshake_timeout :: nat

definition inner_of_app :: "('s, 'i, 'w) app \<Rightarrow> ('s, 'i, 'w) runtime_inner" where
  "inner_of_app a =
     \<lparr>ri_body_read_timeout = Some 60000, ri_state = app_state a, ri_plans = app_plans a,
      ri_capture_names = map rm_capture_names (app_metadata a), ri_static = app_static a,
      ri_dynamic = app_dynamic a, ri_middleware = app_middleware a\<rparr>"

definition app_build ::
  "(nat \<Rightarrow> string option) \<Rightarrow> (json \<Rightarrow> string) \<Rightarrow> (string \<Rightarrow> string) \<Rightarrow> ('s, 'i, 'w) app
     \<Rightarrow> (build_error + ('s, 'i, 'w) app_runtime) outcome" where
  "app_build reason to_text quote a =
     (case app_route_error a of
        Some error \<Rightarrow> Ret (Inl error)
      | None \<Rightarrow>
          (case bind_result (validate_schemas a) (\<lambda>_. validate_security a) of
             Inl error \<Rightarrow> Ret (Inl error)
           | Inr _ \<Rightarrow>
               map_outcome (map_sum id (\<lambda>a.
                   \<lparr>rt_inner = inner_of_app a, rt_shutdown_timeout = 30000, rt_tcp_nodelay = True,
                    rt_header_read_timeout = Some 30000, rt_send_timeout = Some 60000,
                    rt_max_connections = None, rt_connect_info = False,
                    rt_has_error_observer = False, rt_h2_max_streams = None, rt_h2c = False,
                    rt_handshake_timeout = 10000\<rparr>))
                 (install_generated_routes (prepare_swagger quote (prepare_openapi reason to_text a)))))"

text \<open>The settings of a runtime.\<close>

definition set_shutdown_timeout where "set_shutdown_timeout t r = r\<lparr>rt_shutdown_timeout := t\<rparr>"
definition set_tcp_nodelay where "set_tcp_nodelay b r = r\<lparr>rt_tcp_nodelay := b\<rparr>"
definition set_header_read_timeout where
  "set_header_read_timeout t r = r\<lparr>rt_header_read_timeout := t\<rparr>"
definition set_send_timeout where "set_send_timeout t r = r\<lparr>rt_send_timeout := t\<rparr>"
definition set_connect_info where "set_connect_info b r = r\<lparr>rt_connect_info := b\<rparr>"
definition set_on_connection_error where
  "set_on_connection_error r = r\<lparr>rt_has_error_observer := True\<rparr>"
definition set_h2c where "set_h2c b r = r\<lparr>rt_h2c := b\<rparr>"

definition set_max_connections ::
  "nat option \<Rightarrow> ('s, 'i, 'w) app_runtime \<Rightarrow> ('s, 'i, 'w) app_runtime outcome" where
  "set_max_connections limit r =
     bind_outcome (assert_that (limit \<noteq> Some 0) ''max_connections must be at least 1'')
       (\<lambda>_. Ret (r\<lparr>rt_max_connections := limit\<rparr>))"

text \<open>\<open>Arc::get_mut\<close> succeeds only while the runtime is not shared (\<open>unshared\<close>).\<close>

definition set_body_read_timeout ::
  "bool \<Rightarrow> nat option \<Rightarrow> ('s, 'i, 'w) app_runtime \<Rightarrow> ('s, 'i, 'w) app_runtime outcome" where
  "set_body_read_timeout unshared timeout r =
     bind_outcome (assert_that unshared ''body_read_timeout must be set before the runtime is served'')
       (\<lambda>_. Ret (r\<lparr>rt_inner := (rt_inner r)\<lparr>ri_body_read_timeout := timeout\<rparr>\<rparr>))"

end
