(* ===== verification/Route_Store.thy ===== *)
theory Route_Store
  imports Trie_Search
begin

text \<open>
  What the application builder relies on in a table of registered routes, stated as an interface:
  a lookup per pattern and method, an insertion that updates it at one place or panics, and an
  invariant it keeps. The table shares its route numbers with another one (the application has a
  table of literal paths and a trie), so the client lemmas speak of the \<^emph>\<open>owners\<close>: for each
  route number, the pattern and method it was registered for in this table, if it was.
  The trie and the map of literal paths are the two providers.
\<close>

section \<open>Tables and owners\<close>

type_synonym 'p owners = "('p \<times> http_method) option list"

definition owned :: "('p \<Rightarrow> http_method \<Rightarrow> route_id option) \<Rightarrow> 'p owners \<Rightarrow> bool" where
  "owned tab owners \<longleftrightarrow>
     (\<forall>p m r. tab p m = Some r \<longrightarrow>
        route_id_index r < length owners \<and> owners ! route_id_index r = Some (p, m)) \<and>
     (\<forall>i < length owners. \<forall>p m. owners ! i = Some (p, m) \<longrightarrow> tab p m = Some (word_of_nat i))"

lemma owned_empty: "owned (\<lambda>p m. None) []"
  by (simp add: owned_def)

lemma owned_lookup:
  "owned tab owners \<Longrightarrow> tab p m = Some r \<Longrightarrow>
     route_id_index r < length owners \<and> owners ! route_id_index r = Some (p, m)"
  by (simp add: owned_def)

lemma owned_nth:
  "owned tab owners \<Longrightarrow> i < length owners \<Longrightarrow> owners ! i = Some (p, m) \<Longrightarrow>
     tab p m = Some (word_of_nat i)"
  by (simp add: owned_def)

lemma owned_None: "owned tab owners \<Longrightarrow> owned tab (owners @ [None])"
  unfolding owned_def by (auto simp: nth_append less_Suc_eq)

lemma route_id_index_of_nat: "i \<le> u32_max \<Longrightarrow> route_id_index (word_of_nat i) = i"
  by (simp add: route_id_index_def u32_max_def unat_of_nat_u32)

lemma owned_update:
  assumes own: "owned tab owners" and small: "length owners < u32_max" and free: "tab p m = None"
  shows "owned (table_update tab p m (length owners)) (owners @ [Some (p, m)])"
  unfolding owned_def
proof (intro conjI allI impI)
  fix q n r assume "table_update tab p m (length owners) q n = Some r"
  then have cases: "(q, n) = (p, m) \<and> r = word_of_nat (length owners) \<or> tab q n = Some r"
    by (auto simp: table_update_def split: if_splits)
  then show "route_id_index r < length (owners @ [Some (p, m)])"
    "(owners @ [Some (p, m)]) ! route_id_index r = Some (q, n)"
    using owned_lookup[OF own, of q n r] route_id_index_of_nat[of "length owners"] small
    by (auto simp: nth_append)
next
  fix i q n assume i: "i < length (owners @ [Some (p, m)])" "(owners @ [Some (p, m)]) ! i = Some (q, n)"
  show "table_update tab p m (length owners) q n = Some (word_of_nat i)"
  proof (cases "i < length owners")
    case True
    then have "tab q n = Some (word_of_nat i)"
      using owned_nth[OF own True] i by (simp add: nth_append)
    then show ?thesis using free by (auto simp: table_update_def)
  next
    case False
    then show ?thesis using i by (auto simp: table_update_def nth_append less_Suc_eq)
  qed
qed

section \<open>The interface\<close>

locale route_store =
  fixes find_route :: "'t \<Rightarrow> 'p \<Rightarrow> http_method \<Rightarrow> route_id option"
    and add_entry :: "'k \<Rightarrow> http_method \<Rightarrow> nat \<Rightarrow> 't \<Rightarrow> 't outcome"
    and pattern_key :: "'k \<Rightarrow> 'p"
    and store_inv :: "'t \<Rightarrow> bool"
    and has_space :: "'k \<Rightarrow> 't \<Rightarrow> bool"
  assumes add_free:
    "store_inv t \<Longrightarrow> has_space k t \<Longrightarrow> method_slot m \<noteq> None \<Longrightarrow> i < u32_max \<Longrightarrow>
       find_route t (pattern_key k) m = None \<Longrightarrow>
       \<exists>t'. add_entry k m i t = Ret t' \<and> store_inv t' \<and>
         find_route t' = table_update (find_route t) (pattern_key k) m i"
    and add_taken:
    "store_inv t \<Longrightarrow> has_space k t \<Longrightarrow> i < u32_max \<Longrightarrow> find_route t (pattern_key k) m = Some r \<Longrightarrow>
       \<not> no_panic (add_entry k m i t)"
    and add_unsupported:
    "store_inv t \<Longrightarrow> has_space k t \<Longrightarrow> method_slot m = None \<Longrightarrow> \<not> no_panic (add_entry k m i t)"
begin

lemma add_inverse:
  assumes "store_inv t" "has_space k t" "i < u32_max" "add_entry k m i t = Ret t'"
  shows "method_slot m \<noteq> None \<and> find_route t (pattern_key k) m = None \<and> store_inv t' \<and>
    find_route t' = table_update (find_route t) (pattern_key k) m i"
proof -
  have slot: "method_slot m \<noteq> None"
    using add_unsupported[OF assms(1,2), of m i] assms(4) by auto
  have free: "find_route t (pattern_key k) m = None"
    using add_taken[OF assms(1-3), of m] assms(4) by (cases "find_route t (pattern_key k) m") auto
  show ?thesis
    using add_free[OF assms(1,2) slot assms(3) free] assms(4) slot free by auto
qed

lemma add_owned:
  assumes "store_inv t" "has_space k t" "owned (find_route t) owners" "length owners < u32_max"
    "add_entry k m (length owners) t = Ret t'"
  shows "store_inv t' \<and> owned (find_route t') (owners @ [Some (pattern_key k, m)])"
  using add_inverse[OF assms(1,2,4,5)] owned_update[OF assms(3,4)] by simp

text \<open>A route is found under exactly one number, the one it was registered with.\<close>

lemma found_iff_registered:
  assumes "owned (find_route t) owners" "length owners \<le> u32_max"
  shows "find_route t p m = Some r \<longleftrightarrow>
    route_id_index r < length owners \<and> owners ! route_id_index r = Some (p, m)"
proof
  assume *: "route_id_index r < length owners \<and> owners ! route_id_index r = Some (p, m)"
  then have "find_route t p m = Some (word_of_nat (route_id_index r))"
    using owned_nth[OF assms(1)] by blast
  then show "find_route t p m = Some r"
    by (simp add: route_id_index_def)
qed (use owned_lookup[OF assms(1)] in blast)

end

section \<open>The trie as a provider\<close>

definition trie_has_space :: "segment list \<Rightarrow> trie \<Rightarrow> bool" where
  "trie_has_space segs t \<longleftrightarrow> length t + length segs \<le> u32_max + 1"

lemma trie_insert_unsupported:
  assumes "wf_trie t" "trie_has_space segs t" "method_slot m = None"
  shows "\<not> no_panic (trie_insert t segs m i)"
proof -
  obtain t1 n where 1: "trie_walk t 0 segs = Ret (t1, n)" "wf_trie t1"
      "trie_at t1 0 (pattern_of segs) = Some n"
    using trie_walk_spec[OF assms(1), of "[]" 0 segs] assms(2) by (auto simp: trie_has_space_def)
  have "n < length t1"
    using trie_at_in[OF 1(2) _ 1(3)] wf_trieD(1)[OF 1(2)] by simp
  then show ?thesis
    using 1(1) route_set_insert_unsupported[OF assms(3)] by (simp add: trie_insert_def)
qed

interpretation trie_store: route_store route_at "\<lambda>segs m i t. trie_insert t segs m i" pattern_of wf_trie
  trie_has_space
proof unfold_locales
  fix t segs m i
  assume "wf_trie t" "trie_has_space segs t" "method_slot m \<noteq> None" "i < u32_max"
    "route_at t (pattern_of segs) m = None"
  then show "\<exists>t'. trie_insert t segs m i = Ret t' \<and> wf_trie t' \<and>
      route_at t' = table_update (route_at t) (pattern_of segs) m i"
    using trie_insert_spec[of t segs m i] by (auto simp: trie_has_space_def)
next
  fix t segs m i r
  assume "wf_trie t" "trie_has_space segs t" "i < u32_max" "route_at t (pattern_of segs) m = Some r"
  then show "\<not> no_panic (trie_insert t segs m i)"
    using trie_insert_duplicate[of t segs i m r] by (simp add: trie_has_space_def)
qed (rule trie_insert_unsupported)

section \<open>The map of literal paths as a provider\<close>

type_synonym static_map = "string \<rightharpoonup> route_set"

definition static_at :: "static_map \<Rightarrow> string \<Rightarrow> http_method \<Rightarrow> route_id option" where
  "static_at st path m = (case st path of None \<Rightarrow> None | Some rs \<Rightarrow> route_table rs m)"

definition static_insert :: "string \<Rightarrow> http_method \<Rightarrow> nat \<Rightarrow> static_map \<Rightarrow> static_map outcome" where
  "static_insert template m i st =
     map_outcome (\<lambda>rs. st(template \<mapsto> rs))
       (route_set_insert m i (case st template of Some rs \<Rightarrow> rs | None \<Rightarrow> empty_route_set))"

definition wf_static :: "static_map \<Rightarrow> bool" where
  "wf_static st \<longleftrightarrow>
     (\<forall>path rs. st path = Some rs \<longrightarrow> wf_route_set rs \<and> (\<exists>m. route_table rs m \<noteq> None))"

lemma static_at_entry:
  "static_at st path = route_table (case st path of Some rs \<Rightarrow> rs | None \<Rightarrow> empty_route_set)"
  by (auto simp: static_at_def fun_eq_iff split: option.splits)

lemma static_at_update: "static_at (st(path \<mapsto> rs)) p = (if p = path then route_table rs else static_at st p)"
  by (auto simp: static_at_def fun_eq_iff)

lemma wf_static_entry:
  "wf_static st \<Longrightarrow> wf_route_set (case st path of Some rs \<Rightarrow> rs | None \<Rightarrow> empty_route_set)"
  by (auto simp: wf_static_def split: option.splits)

lemma static_insert_spec:
  assumes "wf_static st" "method_slot m \<noteq> None" "i < u32_max" "static_at st path m = None"
  shows "\<exists>st'. static_insert path m i st = Ret st' \<and> wf_static st' \<and>
    static_at st' = table_update (static_at st) path m i"
proof -
  let ?rs = "case st path of Some rs \<Rightarrow> rs | None \<Rightarrow> empty_route_set"
  obtain s where s: "method_slot m = Some s" using assms(2) by auto
  have "route_table ?rs m = None"
    using assms(4) unfolding static_at_entry .
  then obtain rs' where rs': "route_set_insert m i ?rs = Ret rs'" "wf_route_set rs'"
      "route_table rs' = (route_table ?rs)(m \<mapsto> word_of_nat i)"
    using route_set_insert_table[OF wf_static_entry[OF assms(1)] _ s] assms(3)
    by (auto simp: u32_max_def)
  have "static_at (st(path \<mapsto> rs')) p m' = table_update (static_at st) path m i p m'" for p m'
    unfolding static_at_update rs'(3) static_at_entry[symmetric] by (simp add: table_update_def)
  moreover have "wf_static (st(path \<mapsto> rs'))"
    using assms(1) rs'(2,3) by (auto simp: wf_static_def)
  ultimately show ?thesis
    using rs'(1) by (intro exI[of _ "st(path \<mapsto> rs')"]) (simp add: static_insert_def fun_eq_iff)
qed

interpretation static_store: route_store static_at static_insert "\<lambda>path. path" wf_static
  "\<lambda>path st. True"
proof unfold_locales
  fix st :: static_map and path m i
  assume "wf_static st" "method_slot m \<noteq> None" "i < u32_max" "static_at st path m = None"
  then show "\<exists>st'. static_insert path m i st = Ret st' \<and> wf_static st' \<and>
      static_at st' = table_update (static_at st) path m i"
    by (rule static_insert_spec)
next
  fix st :: static_map and path m i r
  assume "wf_static st" "i < u32_max" "static_at st path m = Some r"
  then show "\<not> no_panic (static_insert path m i st)"
    using route_set_insert_duplicate[OF wf_static_entry, of st path m r i]
    by (simp add: static_insert_def static_at_entry u32_max_def)
next
  fix st :: static_map and path m i
  assume "method_slot m = None"
  then show "\<not> no_panic (static_insert path m i st)"
    by (simp add: static_insert_def route_set_insert_unsupported)
qed

end
