(* ===== verification/App_Invariant.thy ===== *)
theory App_Invariant
  imports App_Build Route_Store
begin

text \<open>
  The invariant of the application builder and that every operation keeps it: the route numbers
  of both tables are those of the registered routes, with their own method and template; the plan
  of a route fits its handler and its captures; the route the per-route methods act on exists.
  The registrations are collected in a step relation whose reachable states are all well formed.
\<close>

section \<open>The invariant\<close>

definition md_static :: "route_metadata \<Rightarrow> bool" where
  "md_static md \<longleftrightarrow> list_all is_static_segment (rm_segments md)"

definition static_owner :: "route_metadata \<Rightarrow> (string \<times> http_method) option" where
  "static_owner md = (if md_static md then Some (rm_template md, rm_method md) else None)"

definition dynamic_owner :: "route_metadata \<Rightarrow> (pattern \<times> http_method) option" where
  "dynamic_owner md =
     (if md_static md then None else Some (pattern_of (rm_segments md), rm_method md))"

definition wf_plan :: "('s, 'i, 'w) route_plan \<Rightarrow> route_metadata \<Rightarrow> bool" where
  "wf_plan plan md \<longleftrightarrow>
     parse_template (rm_template md) = Ret (rm_segments md) \<and>
     capture_count (pattern_of (rm_segments md)) \<le> max_capture_params \<and>
     (rp_body_mode plan = Body_Incoming \<longleftrightarrow> (\<exists>f. rp_handler plan = Raw f)) \<and>
     ((\<exists>r. rp_handler plan = Static_Kind r) \<longrightarrow> rp_body_mode plan = Body_None) \<and>
     (rp_capture_mode plan = Materialized \<longleftrightarrow> rm_capture_names md \<noteq> None) \<and>
     (rp_capture_mode plan = Borrowed \<longrightarrow> \<not> md_static md) \<and>
     (if rp_body_mode plan = Buffered then 0 < rp_body_limit plan else rp_body_limit plan = 0)"

definition wf_app :: "('s, 'i, 'w) app \<Rightarrow> bool" where
  "wf_app a \<longleftrightarrow>
     list_all2 wf_plan (app_plans a) (app_metadata a) \<and>
     wf_static (app_static a) \<and> owned (static_at (app_static a)) (map static_owner (app_metadata a)) \<and>
     wf_trie (app_dynamic a) \<and> owned (route_at (app_dynamic a)) (map dynamic_owner (app_metadata a)) \<and>
     length (app_plans a) \<le> u32_max \<and>
     (\<forall>i. app_last a = Some i \<longrightarrow> i < length (app_plans a)) \<and>
     0 < app_max_body a"

lemma wf_app_lengths: "wf_app a \<Longrightarrow> length (app_metadata a) = length (app_plans a)"
  by (auto simp: wf_app_def dest: list_all2_lengthD)

section \<open>Pieces of a registration\<close>

lemma insert_static_map:
  "insert_static template m i a
     = map_outcome (\<lambda>st. a\<lparr>app_static := st\<rparr>) (static_insert template m i (app_static a))"
proof -
  have comp: "map_outcome f (map_outcome g x) = map_outcome (\<lambda>y. f (g y)) x" for f g x
    by (cases x) auto
  show ?thesis
    by (simp add: insert_static_def static_insert_def static_entry_def comp)
qed

lemma capture_count_segments:
  "capture_count (pattern_of segs) = length (filter (\<lambda>seg. \<not> is_static_segment seg) segs)"
proof (induction segs)
  case (Cons seg segs)
  then show ?case by (cases seg) (auto simp: pattern_of_def)
qed (simp add: pattern_of_def)

lemma length_parse_template: "parse_template path = Ret segs \<Longrightarrow> length segs = length (split_path path)"
  by (simp add: parse_template_def parse_segments_Static)

lemma encode_body_limit_pos: "encode_body_limit n = Ret w \<Longrightarrow> 0 < w \<and> unat w = n"
proof -
  assume "encode_body_limit n = Ret w"
  then have n: "0 < n" "n \<le> u32_max" "w = word_of_nat n"
    by (auto simp: encode_body_limit_def outcome_simps)
  then have "unat w = n"
    by (simp add: unat_of_nat_u32 u32_max_def)
  then show ?thesis
    using n(1) by (simp add: word_less_nat_alt)
qed

definition has_room :: "string \<Rightarrow> ('s, 'i, 'w) app \<Rightarrow> bool" where
  "has_room path a \<longleftrightarrow>
     length (app_plans a) < u32_max \<and>
     length (app_dynamic a) + length (split_path path) \<le> u32_max + 1"

lemma push_static_wf:
  assumes wf: "wf_app a" and small: "length (app_plans a) < u32_max"
    and ins: "insert_static (rm_template md) (rm_method md) (length (app_plans a)) a = Ret a'"
    and md: "md_static md" and plan: "wf_plan plan md"
  shows "wf_app (push_route plan md a')"
proof -
  obtain st where st: "static_insert (rm_template md) (rm_method md) (length (app_plans a)) (app_static a) = Ret st"
      "a' = a\<lparr>app_static := st\<rparr>"
    using ins by (auto simp: insert_static_map outcome_simps)
  have "length (map static_owner (app_metadata a)) = length (app_plans a)"
    using wf_app_lengths[OF wf] by simp
  then have "wf_static st \<and> owned (static_at st) (map static_owner (app_metadata a) @ [static_owner md])"
    using static_store.add_owned[where owners = "map static_owner (app_metadata a)"] wf st(1) small md
    by (auto simp: wf_app_def static_owner_def)
  moreover have "owned (route_at (app_dynamic a)) (map dynamic_owner (app_metadata a) @ [dynamic_owner md])"
    using wf md owned_None by (auto simp: wf_app_def dynamic_owner_def)
  ultimately show ?thesis
    using wf st(2) plan small
    by (auto simp: wf_app_def push_route_def intro: list_all2_appendI less_SucI)
qed

lemma push_dynamic_wf:
  assumes wf: "wf_app a" and small: "length (app_plans a) < u32_max"
    and room: "trie_has_space (rm_segments md) (app_dynamic a)"
    and ins: "trie_insert (app_dynamic a) (rm_segments md) (rm_method md) (length (app_plans a)) = Ret t"
    and md: "\<not> md_static md" and plan: "wf_plan plan md"
  shows "wf_app (push_route plan md (a\<lparr>app_dynamic := t\<rparr>))"
proof -
  have "length (map dynamic_owner (app_metadata a)) = length (app_plans a)"
    using wf_app_lengths[OF wf] by simp
  then have "wf_trie t \<and> owned (route_at t) (map dynamic_owner (app_metadata a) @ [dynamic_owner md])"
    using trie_store.add_owned[OF _ room, where owners = "map dynamic_owner (app_metadata a)"] wf ins small md
    by (auto simp: wf_app_def dynamic_owner_def)
  moreover have "owned (static_at (app_static a)) (map static_owner (app_metadata a) @ [static_owner md])"
    using wf md owned_None by (auto simp: wf_app_def static_owner_def)
  ultimately show ?thesis
    using wf plan small
    by (auto simp: wf_app_def push_route_def intro: list_all2_appendI less_SucI)
qed

lemma push_route_wf:
  assumes "wf_app a" "length (app_plans a) < u32_max" "trie_has_space (rm_segments md) (app_dynamic a)"
    "insert_route (rm_template md) (rm_segments md) (rm_method md) (length (app_plans a)) a = Ret a'"
    "wf_plan plan md"
  shows "wf_app (push_route plan md a')"
  using assms push_static_wf[OF assms(1,2) _ _ assms(5)] push_dynamic_wf[OF assms(1,2,3) _ _ assms(5)]
  by (auto simp: insert_route_def md_static_def outcome_simps split: if_splits)

lemma insert_route_other:
  "insert_route template segs m i a = Ret a' \<Longrightarrow>
     app_plans a' = app_plans a \<and> app_metadata a' = app_metadata a \<and> app_max_body a' = app_max_body a \<and>
     app_schemas a' = app_schemas a \<and> app_middleware a' = app_middleware a \<and> app_state a' = app_state a"
  by (auto simp: insert_route_def insert_static_def outcome_simps split: if_splits)

lemma wf_app_schemas [simp]: "wf_app (a\<lparr>app_schemas := s\<rparr>) = wf_app a"
  by (simp add: wf_app_def)

lemma insert_route_schemas:
  "insert_route template segs m i a = Ret a' \<Longrightarrow>
     insert_route template segs m i (a\<lparr>app_schemas := s\<rparr>) = Ret (a'\<lparr>app_schemas := s\<rparr>)"
  by (auto simp: insert_route_def insert_static_def static_entry_def outcome_simps split: if_splits)

lemma wf_finish_route: "wf_app a \<Longrightarrow> i < length (app_plans a) \<Longrightarrow> wf_app (finish_route i a)"
  by (simp add: wf_app_def finish_route_def)

lemma record_capture_limit_error_wf [simp]:
  "wf_app (snd (record_capture_limit_error path segs a)) = wf_app a"
  by (simp add: record_capture_limit_error_def wf_app_def Let_def)

section \<open>Every registration keeps the invariant\<close>

lemma room_for_template:
  "has_room path a \<Longrightarrow> parse_template (normalize_path path) = Ret segs \<Longrightarrow>
     trie_has_space segs (app_dynamic a)"
  using length_parse_template[of "normalize_path path" segs] normalize_path_split[of path]
  by (simp add: has_room_def trie_has_space_def)

lemma add_route_wf:
  assumes wf: "wf_app a" and room: "has_room path a" and add: "add_route m path h a = Ret a'"
  shows "wf_app a'"
proof -
  let ?template = "normalize_path path"
  obtain segs where segs: "parse_template ?template = Ret segs"
    using add by (auto simp: add_route_def Let_def outcome_simps)
  show ?thesis
  proof (cases "fst (record_capture_limit_error ?template segs a)")
    case True
    then have "a' = snd (record_capture_limit_error ?template segs a)"
      using add segs by (auto simp: add_route_def Let_def outcome_simps split: prod.splits)
    then show ?thesis using wf by simp
  next
    case False
    then have few: "capture_count (pattern_of segs) \<le> max_capture_params"
      and same: "record_capture_limit_error ?template segs a = (False, a)"
      by (auto simp: record_capture_limit_error_def Let_def capture_count_segments split: if_splits)
    let ?names = "capture_names_of (h_needs_params h) segs" and ?i = "length (app_plans a)"
    obtain a1 request schema schemas where a1: "insert_route ?template segs m ?i a = Ret a1"
      and a': "a' = finish_route ?i (push_route
           \<lparr>rp_handler = handler_kind_of h,
            rp_body_limit = (if h_needs_body h then app_max_body a1 else 0),
            rp_capture_mode = capture_mode_of ?names segs,
            rp_body_mode = (if h_needs_body h then Buffered else Body_None)\<rparr>
           \<lparr>rm_builtin = False, rm_method = m, rm_template = ?template, rm_segments = segs,
            rm_capture_names = ?names, rm_operation = blank_operation\<lparr>op_status := h_status h,
              op_schema := schema, op_request := request\<rparr>\<rparr> (a1\<lparr>app_schemas := schemas\<rparr>))"
      using add segs same
      by (auto simp: add_route_def Let_def outcome_simps single_path_extractor_def case_prod_beta)
    define md where "md = \<lparr>rm_builtin = False, rm_method = m, rm_template = ?template,
      rm_segments = segs, rm_capture_names = ?names, rm_operation = blank_operation\<lparr>op_status := h_status h,
              op_schema := schema, op_request := request\<rparr>\<rparr>"
    define plan :: "('a, 'b, 'c) route_plan" where "plan = \<lparr>rp_handler = handler_kind_of h,
            rp_body_limit = (if h_needs_body h then app_max_body a1 else 0),
            rp_capture_mode = capture_mode_of ?names segs,
            rp_body_mode = (if h_needs_body h then Buffered else Body_None)\<rparr>"
    have "app_max_body a1 = app_max_body a"
      using insert_route_other[OF a1] by simp
    then have "wf_plan plan md"
      using wf segs few
      by (auto simp: wf_plan_def plan_def md_def md_static_def handler_kind_of_def capture_mode_of_def
          capture_names_of_def wf_app_def list_ex_iff list_all_iff split: option.splits if_splits)
    moreover have "insert_route (rm_template md) (rm_segments md) (rm_method md)
        (length (app_plans (a\<lparr>app_schemas := schemas\<rparr>))) (a\<lparr>app_schemas := schemas\<rparr>)
        = Ret (a1\<lparr>app_schemas := schemas\<rparr>)"
      using insert_route_schemas[OF a1] by (simp add: md_def)
    ultimately have "wf_app (push_route plan md (a1\<lparr>app_schemas := schemas\<rparr>))"
      using push_route_wf[of "a\<lparr>app_schemas := schemas\<rparr>" md] wf room room_for_template[OF room segs]
      by (simp add: has_room_def md_def)
    then show ?thesis
      using insert_route_other[OF a1] unfolding a' plan_def md_def
      by (auto intro!: wf_finish_route simp: push_route_def)
  qed
qed

lemma add_raw_route_wf:
  assumes wf: "wf_app a" and room: "has_room path a" and add: "add_raw_route m path h a = Ret a'"
  shows "wf_app a'"
proof -
  let ?template = "normalize_path path"
  obtain segs where segs: "parse_template ?template = Ret segs"
    using add by (auto simp: add_raw_route_def Let_def outcome_simps)
  show ?thesis
  proof (cases "fst (record_capture_limit_error ?template segs a)")
    case True
    then have "a' = snd (record_capture_limit_error ?template segs a)"
      using add segs by (auto simp: add_raw_route_def Let_def outcome_simps split: prod.splits)
    then show ?thesis using wf by simp
  next
    case False
    then have few: "capture_count (pattern_of segs) \<le> max_capture_params"
      and same: "record_capture_limit_error ?template segs a = (False, a)"
      by (auto simp: record_capture_limit_error_def Let_def capture_count_segments split: if_splits)
    let ?i = "length (app_plans a)"
    define plan :: "('a, 'b, 'c) route_plan" where "plan = \<lparr>rp_handler = Raw (rh_call h),
      rp_body_limit = 0, rp_capture_mode = Capture_None, rp_body_mode = Body_Incoming\<rparr>"
    obtain a1 op schemas where a1: "insert_route ?template segs m ?i a = Ret a1"
      and a': "a' = finish_route ?i (push_route plan
           \<lparr>rm_builtin = False, rm_method = m, rm_template = ?template, rm_segments = segs,
            rm_capture_names = None, rm_operation = op\<rparr> (a1\<lparr>app_schemas := schemas\<rparr>))"
      using add segs same
      by (auto simp: add_raw_route_def Let_def outcome_simps plan_def case_prod_beta)
    define md where "md = \<lparr>rm_builtin = False, rm_method = m, rm_template = ?template,
      rm_segments = segs, rm_capture_names = None, rm_operation = op\<rparr>"
    have "wf_plan plan md"
      using segs few by (simp add: wf_plan_def plan_def md_def)
    moreover have "insert_route (rm_template md) (rm_segments md) (rm_method md)
        (length (app_plans (a\<lparr>app_schemas := schemas\<rparr>))) (a\<lparr>app_schemas := schemas\<rparr>)
        = Ret (a1\<lparr>app_schemas := schemas\<rparr>)"
      using insert_route_schemas[OF a1] by (simp add: md_def)
    ultimately have "wf_app (push_route plan md (a1\<lparr>app_schemas := schemas\<rparr>))"
      using push_route_wf[of "a\<lparr>app_schemas := schemas\<rparr>" md] wf room room_for_template[OF room segs]
      by (simp add: has_room_def md_def)
    then show ?thesis
      using insert_route_other[OF a1] unfolding a' md_def
      by (auto intro!: wf_finish_route simp: push_route_def)
  qed
qed

lemma static_plan_wf:
  "parse_template path = Ret segs \<Longrightarrow> list_all is_static_segment segs \<Longrightarrow>
     wf_plan \<lparr>rp_handler = Static_Kind response, rp_body_limit = 0,
              rp_capture_mode = Capture_None, rp_body_mode = Body_None\<rparr>
             \<lparr>rm_builtin = b, rm_method = m, rm_template = path, rm_segments = segs,
              rm_capture_names = None, rm_operation = op\<rparr>"
  by (simp add: wf_plan_def capture_count_segments list_all_iff filter_False)

lemma add_static_route_wf:
  assumes wf: "wf_app a" and room: "has_room path a" and add: "add_static_route path response a = Ret a'"
  shows "wf_app a'"
proof -
  let ?i = "length (app_plans a)"
  obtain segs a1 where 1: "parse_template (normalize_path path) = Ret segs" "list_all is_static_segment segs"
      "insert_static (normalize_path path) GET ?i a = Ret a1"
      "a' = finish_route ?i (push_route
               \<lparr>rp_handler = Static_Kind response, rp_body_limit = 0,
                rp_capture_mode = Capture_None, rp_body_mode = Body_None\<rparr>
               \<lparr>rm_builtin = False, rm_method = GET, rm_template = normalize_path path, rm_segments = segs,
                rm_capture_names = None, rm_operation = blank_operation\<rparr> a1)"
    using add by (auto simp: add_static_route_def Let_def outcome_simps)
  have plans: "app_plans a1 = app_plans a"
    using 1(3) by (auto simp: insert_static_def outcome_simps)
  have small: "length (app_plans a) < u32_max"
    using room by (simp add: has_room_def)
  have "wf_app (push_route
               \<lparr>rp_handler = Static_Kind response, rp_body_limit = 0,
                rp_capture_mode = Capture_None, rp_body_mode = Body_None\<rparr>
               \<lparr>rm_builtin = False, rm_method = GET, rm_template = normalize_path path, rm_segments = segs,
                rm_capture_names = None, rm_operation = blank_operation\<rparr> a1)"
    by (rule push_static_wf[OF wf small])
      (use 1 static_plan_wf[OF 1(1,2)] in \<open>auto simp: md_static_def\<close>)
  then show ?thesis
    using 1(4) plans by (auto intro!: wf_finish_route simp: push_route_def)
qed

lemma add_generated_static_route_wf:
  assumes wf: "wf_app a" and small: "length (app_plans a) < u32_max"
    and add: "add_generated_static_route path response a = Ret (Inr a')"
  shows "wf_app a' \<and> length (app_plans a') = Suc (length (app_plans a))"
proof -
  let ?i = "length (app_plans a)"
  obtain segs a1 where 1: "parse_template path = Ret segs" "list_all is_static_segment segs"
      "insert_static path GET ?i a = Ret a1"
      "a' = push_route
               \<lparr>rp_handler = Static_Kind response, rp_body_limit = 0,
                rp_capture_mode = Capture_None, rp_body_mode = Body_None\<rparr>
               \<lparr>rm_builtin = True, rm_method = GET, rm_template = path, rm_segments = segs,
                rm_capture_names = None, rm_operation = blank_operation\<rparr> a1"
    using add by (auto simp: add_generated_static_route_def Let_def outcome_simps split: if_splits)
  have plans: "app_plans a1 = app_plans a"
    using 1(3) by (auto simp: insert_static_def outcome_simps)
  show ?thesis
    unfolding 1(4) using plans
    by (auto intro!: push_static_wf[OF wf small] simp: md_static_def 1 static_plan_wf)
      (simp add: push_route_def)
qed

end
