(* ===== verification/App_Steps.thy ===== *)
theory App_Steps
  imports App_Invariant
begin

text \<open>
  The life of an \<open>App\<close> as a step relation: every method of the builder is a rule, and every
  application reachable by them from a new one is well formed. \<open>build\<close> then keeps all its routes
  and promises, with the checks it makes, a runtime over the same tables.
\<close>

section \<open>Operations that register nothing\<close>

lemma app_max_body_size_wf:
  assumes wf: "wf_app a" and set: "app_max_body_size limit a = Ret a'"
  shows "wf_app a'"
proof -
  obtain w where w: "encode_body_limit limit = Ret w"
      "a' = a\<lparr>app_max_body := w, app_plans := map (\<lambda>plan. if rp_body_mode plan = Buffered
                                  then plan\<lparr>rp_body_limit := w\<rparr> else plan) (app_plans a)\<rparr>"
    using set by (auto simp: app_max_body_size_def outcome_simps)
  have "0 < w"
    using encode_body_limit_pos[OF w(1)] by simp
  then have "wf_plan (if rp_body_mode plan = Buffered then plan\<lparr>rp_body_limit := w\<rparr> else plan) md"
    if "wf_plan plan md" for plan :: "('a, 'b, 'c) route_plan" and md
    using that by (auto simp: wf_plan_def split: if_splits)
  then show ?thesis
    using wf w(2) \<open>0 < w\<close> by (auto simp: wf_app_def list_all2_map1 elim: list_all2_mono)
qed

lemma app_body_limit_wf:
  assumes wf: "wf_app a" and set: "app_body_limit limit a = Ret a'"
  shows "wf_app a'"
proof -
  obtain w where w: "encode_body_limit limit = Ret w"
    using set by (auto simp: app_body_limit_def outcome_simps)
  have a': "a' = (case app_last a of
         None \<Rightarrow> a
       | Some i \<Rightarrow>
           (case get_at (app_plans a) i of
              None \<Rightarrow> a
            | Some plan \<Rightarrow>
                if rp_body_mode plan = Buffered
                then a\<lparr>app_plans := (app_plans a)[i := plan\<lparr>rp_body_limit := w\<rparr>]\<rparr>
                else a))"
    using set by (simp add: app_body_limit_def w)
  show ?thesis
  proof (cases "\<exists>i plan. app_last a = Some i \<and> get_at (app_plans a) i = Some plan \<and>
      rp_body_mode plan = Buffered")
    case False
    then have "a' = a"
      unfolding a' by (auto split: option.splits)
    then show ?thesis using wf by simp
  next
    case True
    then obtain i plan where "app_last a = Some i" "get_at (app_plans a) i = Some plan"
      "rp_body_mode plan = Buffered" by blast
    then have 2: "i < length (app_plans a)" "plan = app_plans a ! i" "rp_body_mode plan = Buffered"
      "a' = a\<lparr>app_plans := (app_plans a)[i := plan\<lparr>rp_body_limit := w\<rparr>]\<rparr>"
      unfolding a' by (auto simp: get_at_def split: if_splits)
    have all: "list_all2 wf_plan (app_plans a) (app_metadata a)"
      using wf by (simp add: wf_app_def)
    then have "wf_plan (plan\<lparr>rp_body_limit := w\<rparr>) (app_metadata a ! i)"
      using 2 list_all2_nthD[OF all, of i] encode_body_limit_pos[OF w] by (simp add: wf_plan_def)
    then have "list_all2 wf_plan ((app_plans a)[i := plan\<lparr>rp_body_limit := w\<rparr>])
        ((app_metadata a)[i := app_metadata a ! i])"
      using all by (intro list_all2_update_cong) auto
    then show ?thesis
      using wf 2(1,4) by (auto simp: wf_app_def)
  qed
qed

lemma map_update_same: "i < length xs \<Longrightarrow> f y = f (xs ! i) \<Longrightarrow> map f (xs[i := y]) = map f xs"
  by (simp add: map_update list_update_same_conv)

lemma update_last_wf:
  assumes wf: "wf_app a" and up: "update_last f a = Ret a'"
  shows "wf_app a'"
proof (cases "app_last a")
  case None
  then show ?thesis using wf up by (simp add: update_last_def)
next
  case (Some i)
  define md where "md = (app_metadata a ! i)\<lparr>rm_operation := f (rm_operation (app_metadata a ! i))\<rparr>"
  have i: "i < length (app_metadata a)"
    using wf Some wf_app_lengths[OF wf] by (simp add: wf_app_def)
  then have a': "a' = invalidate_openapi_cache (a\<lparr>app_metadata := (app_metadata a)[i := md]\<rparr>)"
    using up Some by (simp add: update_last_def md_def)
  have owners: "map static_owner ((app_metadata a)[i := md]) = map static_owner (app_metadata a)"
    "map dynamic_owner ((app_metadata a)[i := md]) = map dynamic_owner (app_metadata a)"
    using i by (simp_all add: map_update_same md_def static_owner_def dynamic_owner_def md_static_def)
  have all: "list_all2 wf_plan (app_plans a) (app_metadata a)"
    using wf by (simp add: wf_app_def)
  have "wf_plan (app_plans a ! i) md"
    using list_all2_nthD2[OF all i] by (simp add: wf_plan_def md_def md_static_def)
  then have "list_all2 wf_plan ((app_plans a)[i := app_plans a ! i]) ((app_metadata a)[i := md])"
    using all by (intro list_all2_update_cong)
  then show ?thesis
    using wf owners unfolding a' by (simp add: wf_app_def invalidate_openapi_cache_def)
qed

text \<open>The per-route methods find their route: on a well-formed application they never panic.\<close>

lemma update_last_total: "wf_app a \<Longrightarrow> no_panic (update_last f a)"
  using wf_app_lengths[of a]
  by (auto simp: update_last_def wf_app_def split: option.splits)

lemma app_route_layer_total:
  assumes wf: "wf_app a"
  shows "no_panic (app_route_layer l a)"
proof (cases "app_last a")
  case None
  then show ?thesis by (simp add: app_route_layer_def)
next
  case (Some i)
  then have i: "i < length (app_metadata a)" "i < length (app_plans a)"
    using wf wf_app_lengths[OF wf] by (auto simp: wf_app_def)
  have "wf_plan (app_plans a ! i) (app_metadata a ! i)"
    using wf i by (auto simp: wf_app_def dest: list_all2_nthD)
  then have "parse_template (rm_template (app_metadata a ! i)) = Ret (rm_segments (app_metadata a ! i))"
    by (simp add: wf_plan_def)
  then show ?thesis
    using scope_parse_template i Some by (simp add: app_route_layer_def)
qed

lemma app_layer_wf:
  "wf_app (app_layer l a) = wf_app a"
  "app_route_layer l a = Ret a' \<Longrightarrow> wf_app a' = wf_app a"
  "app_layer_for pfx l a = Ret a' \<Longrightarrow> wf_app a' = wf_app a"
  by (auto simp: wf_app_def app_layer_def app_route_layer_def app_layer_for_def outcome_simps
      split: option.splits)

lemma update_config_wf: "update_config f a = Ret a' \<Longrightarrow> wf_app a' = wf_app a"
  by (auto simp: update_config_def invalidate_openapi_cache_def outcome_simps wf_app_def)

lemma options_wf [simp]:
  "wf_app (app_openapi_options a) = wf_app a" "wf_app (app_swagger_options a) = wf_app a"
  "wf_app (swagger_path p a) = wf_app a" "wf_app (prepare_openapi reason to_text a) = wf_app a"
  "wf_app (prepare_swagger quote a) = wf_app a"
  by (auto simp: wf_app_def app_openapi_options_def app_swagger_options_def swagger_path_def
      invalidate_openapi_cache_def prepare_openapi_def prepare_swagger_def)

lemma app_new_wf:
  "\<exists>a. app_new = Ret a \<and> wf_app a \<and> app_route_error a = None \<and> app_metadata a = [] \<and> app_plans a = [] \<and>
     app_dynamic a = empty_trie"
proof -
  have n: "encode_body_limit default_max_body_size = Ret (word_of_nat default_max_body_size)"
    by (simp add: encode_body_limit_def default_max_body_size_def u32_max_def)
  have "static_at Map.empty = (\<lambda>p m. None)" "route_at empty_trie = (\<lambda>p m. None)"
    by (simp_all add: static_at_def fun_eq_iff)
  then show ?thesis
    using encode_body_limit_pos[OF n]
    by (simp add: app_new_def n wf_app_def wf_static_def owned_empty)
qed

lemma app_with_state_wf: "app_with_state s a = Ret a' \<Longrightarrow> wf_app a \<Longrightarrow> wf_app a'"
proof -
  assume "app_with_state s a = Ret a'" "wf_app a"
  moreover have "static_at Map.empty = (\<lambda>p m. None)" "route_at empty_trie = (\<lambda>p m. None)"
    by (simp_all add: static_at_def fun_eq_iff)
  ultimately show ?thesis
    by (auto simp: app_with_state_def outcome_simps wf_app_def wf_static_def owned_empty)
qed

section \<open>The step relation\<close>

inductive app_step :: "('s, 'i, 'w) app \<Rightarrow> ('s, 'i, 'w) app \<Rightarrow> bool" where
  step_route: "has_room path a \<Longrightarrow> add_route m path h a = Ret a' \<Longrightarrow> app_step a a'"
| step_raw: "has_room path a \<Longrightarrow> add_raw_route m path rh a = Ret a' \<Longrightarrow> app_step a a'"
| step_static: "has_room path a \<Longrightarrow> add_static_route path response a = Ret a' \<Longrightarrow> app_step a a'"
| step_max_body: "app_max_body_size n a = Ret a' \<Longrightarrow> app_step a a'"
| step_body_limit: "app_body_limit n a = Ret a' \<Longrightarrow> app_step a a'"
| step_layer: "app_step a (app_layer l a)"
| step_route_layer: "app_route_layer l a = Ret a' \<Longrightarrow> app_step a a'"
| step_layer_for: "app_layer_for pfx l a = Ret a' \<Longrightarrow> app_step a a'"
| step_operation: "update_last f a = Ret a' \<Longrightarrow> app_step a a'"
| step_openapi: "app_step a (app_openapi_options a)"
| step_config: "update_config g a = Ret a' \<Longrightarrow> app_step a a'"
| step_swagger: "app_step a (app_swagger_options a)"
| step_swagger_path: "app_step a (swagger_path p a)"

inductive_cases app_stepE: "app_step a a'"

inductive reachable_app :: "('s, 'i, 'w) app \<Rightarrow> bool" where
  fresh: "app_new = Ret a0 \<Longrightarrow> app_with_state s a0 = Ret a \<Longrightarrow> reachable_app a"
| step: "reachable_app a \<Longrightarrow> app_step a a' \<Longrightarrow> reachable_app a'"

lemma app_step_wf: "app_step a a' \<Longrightarrow> wf_app a \<Longrightarrow> wf_app a'"
proof (induction rule: app_step.induct)
  case (step_route_layer l a a')
  then show ?case by (simp add: app_layer_wf)
next
  case (step_layer_for pfx l a a')
  then show ?case by (simp add: app_layer_wf)
next
  case (step_config g a a')
  then show ?case using update_config_wf by blast
qed (auto simp: app_layer_wf intro: add_route_wf add_raw_route_wf add_static_route_wf app_max_body_size_wf
      app_body_limit_wf update_last_wf)

lemma reachable_wf: "reachable_app a \<Longrightarrow> wf_app a"
proof (induction rule: reachable_app.induct)
  case (fresh a0 s a)
  have "wf_app a0"
    using app_new_wf fresh(1) by (metis outcome.inject(1))
  then show ?case using app_with_state_wf[OF fresh(2)] by simp
next
  case (step a a')
  then show ?case using app_step_wf by blast
qed

section \<open>Building\<close>

definition wf_runtime :: "('s, 'i, 'w) runtime_inner \<Rightarrow> bool" where
  "wf_runtime r \<longleftrightarrow> (\<exists>a. wf_app a \<and> r = (inner_of_app a)\<lparr>ri_body_read_timeout := ri_body_read_timeout r\<rparr>)"

lemma install_generated_wf:
  assumes wf: "wf_app a" and small: "length (app_plans a) + 2 \<le> u32_max"
    and inst: "install_generated_routes a = Ret (Inr a')"
  shows "wf_app a'"
proof -
  obtain r where r: "(case (app_openapi a, app_openapi_bytes a) of
          (Some c, Some body) \<Rightarrow> add_generated_static_route (oc_path c) (static_json body) a
        | _ \<Rightarrow> Ret (Inr a)) = Ret r"
      "(case r of Inl e \<Rightarrow> Ret (Inl e) | Inr a1 \<Rightarrow>
         (case (app_swagger a1, app_swagger_bytes a1) of
            (Some path, Some body) \<Rightarrow> add_generated_static_route path (static_text body) a1
          | _ \<Rightarrow> Ret (Inr a1))) = Ret (Inr a')"
    using inst unfolding install_generated_routes_def bind_outcome_Ret by blast
  then obtain a1 where 1: "(case (app_openapi a, app_openapi_bytes a) of
          (Some c, Some body) \<Rightarrow> add_generated_static_route (oc_path c) (static_json body) a
        | _ \<Rightarrow> Ret (Inr a)) = Ret (Inr a1)"
      "(case (app_swagger a1, app_swagger_bytes a1) of
            (Some path, Some body) \<Rightarrow> add_generated_static_route path (static_text body) a1
          | _ \<Rightarrow> Ret (Inr a1)) = Ret (Inr a')"
    by (cases r) simp_all
  have "wf_app a1 \<and> length (app_plans a1) \<le> Suc (length (app_plans a))"
    using 1(1) wf add_generated_static_route_wf[OF wf] small by (auto split: option.splits)
  then show ?thesis
    using 1(2) add_generated_static_route_wf[of a1] small by (auto split: option.splits)
qed

lemma prepare_plans [simp]:
  "app_plans (prepare_swagger quote (prepare_openapi reason to_text a)) = app_plans a"
  by (simp add: prepare_swagger_def prepare_openapi_def)

lemma build_wf:
  assumes wf: "wf_app a" and small: "length (app_plans a) + 2 \<le> u32_max"
    and build: "app_build reason to_text quote a = Ret (Inr rt)"
  shows "wf_runtime (rt_inner rt)"
proof -
  obtain a' where "install_generated_routes (prepare_swagger quote (prepare_openapi reason to_text a)) = Ret (Inr a')"
      "rt_inner rt = inner_of_app a'"
    using build by (auto simp: app_build_def outcome_simps split: option.splits sum.splits)
      (auto simp: map_sum_def split: sum.splits)
  moreover from this have "wf_app a'"
    using install_generated_wf[of "prepare_swagger quote (prepare_openapi reason to_text a)" a'] wf small
    by simp
  ultimately show ?thesis
    unfolding wf_runtime_def by (intro exI[of _ a']) (simp add: inner_of_app_def)
qed

lemma find_None_all: "find P xs = None \<Longrightarrow> x \<in> set xs \<Longrightarrow> \<not> P x"
  by (auto simp: find_None_iff)

text \<open>What a successful build has checked.\<close>

lemma build_checked:
  assumes "app_build reason to_text quote a = Ret (Inr rt)"
  shows "app_route_error a = None \<and> sr_conflicts (app_schemas a) = [] \<and>
    (\<forall>c. app_openapi a = Some c \<longrightarrow>
       (\<forall>group \<in> set (oc_default_security c). \<forall>name \<in> set group. name \<in> fst ` set (oc_schemes c)) \<and>
       (\<forall>md \<in> set (app_metadata a). \<forall>groups. \<not> rm_builtin md \<longrightarrow>
          op_security (rm_operation md) = Some groups \<longrightarrow>
          (\<forall>group \<in> set groups. \<forall>name \<in> set group. name \<in> fst ` set (oc_schemes c))))"
proof -
  have none: "app_route_error a = None"
    using assms by (auto simp: app_build_def split: option.splits)
  then have checks: "validate_schemas a = Inr ()" "validate_security a = Inr ()"
    using assms by (auto simp: app_build_def outcome_simps split: sum.splits)
  have "sr_conflicts (app_schemas a) = []"
    using checks(1) by (auto simp: validate_schemas_def split: list.splits)
  moreover have "(\<forall>group \<in> set (oc_default_security c). \<forall>name \<in> set group. name \<in> fst ` set (oc_schemes c)) \<and>
       (\<forall>md \<in> set (app_metadata a). \<forall>groups. \<not> rm_builtin md \<longrightarrow>
          op_security (rm_operation md) = Some groups \<longrightarrow>
          (\<forall>group \<in> set groups. \<forall>name \<in> set group. name \<in> fst ` set (oc_schemes c)))"
    if c: "app_openapi a = Some c" for c
  proof -
    let ?route_groups = "concat (List.map_filter (\<lambda>md. op_security (rm_operation md))
      (filter (\<lambda>md. \<not> rm_builtin md) (app_metadata a)))"
    have all: "list_ex (\<lambda>(n, _). n = name) (oc_schemes c)"
      if "name \<in> set (concat (oc_default_security c @ ?route_groups))" for name
      using checks(2) c that
      by (auto simp: validate_security_def Let_def find_None_iff split: option.splits)
    have declared: "name \<in> fst ` set (oc_schemes c)"
      if "group \<in> set (oc_default_security c @ ?route_groups)" "name \<in> set group" for group name
    proof -
      have "name \<in> set (concat (oc_default_security c @ ?route_groups))"
        using that by (auto simp only: set_concat)
      from all[OF this] show ?thesis
        by (force simp: list_ex_iff)
    qed
    have "group \<in> set ?route_groups"
      if "md \<in> set (app_metadata a)" "\<not> rm_builtin md" "op_security (rm_operation md) = Some groups"
        "group \<in> set groups" for md groups group
      using that by (force simp: List.map_filter_def)
    then show ?thesis
      using declared by (metis Un_iff set_append)
  qed
  ultimately show ?thesis
    using none by blast
qed

end
