(* ===== verification/App_Registration.thy ===== *)
theory App_Registration
  imports App_Steps
begin

text \<open>
  When a registration is accepted and what it adds. The tables of a well-formed application hold
  exactly its registrations, so whether \<open>add_route\<close> and its siblings panic can be said of the
  list of registrations alone.
\<close>

section \<open>The tables and the registrations\<close>

lemma static_registered:
  assumes "wf_app a"
  shows "static_at (app_static a) p m = Some r \<longleftrightarrow>
    route_id_index r < length (app_metadata a) \<and> md_static (app_metadata a ! route_id_index r) \<and>
    rm_template (app_metadata a ! route_id_index r) = p \<and> rm_method (app_metadata a ! route_id_index r) = m"
proof -
  have "length (map static_owner (app_metadata a)) \<le> u32_max"
    using assms wf_app_lengths[OF assms] by (simp add: wf_app_def)
  from static_store.found_iff_registered[OF _ this] assms show ?thesis
    by (auto simp: wf_app_def static_owner_def split: if_splits)
qed

lemma dynamic_registered:
  assumes "wf_app a"
  shows "route_at (app_dynamic a) ks m = Some r \<longleftrightarrow>
    route_id_index r < length (app_metadata a) \<and> \<not> md_static (app_metadata a ! route_id_index r) \<and>
    pattern_of (rm_segments (app_metadata a ! route_id_index r)) = ks \<and>
    rm_method (app_metadata a ! route_id_index r) = m"
proof -
  have "length (map dynamic_owner (app_metadata a)) \<le> u32_max"
    using assms wf_app_lengths[OF assms] by (simp add: wf_app_def)
  from trie_store.found_iff_registered[OF _ this] assms show ?thesis
    by (auto simp: wf_app_def dynamic_owner_def split: if_splits)
qed

text \<open>Every registration is in its table under its own number.\<close>

lemma registered_id:
  assumes "wf_app a" "md \<in> set (app_metadata a)"
  obtains r where "route_id_index r < length (app_metadata a)" "app_metadata a ! route_id_index r = md"
proof -
  obtain i where i: "i < length (app_metadata a)" "app_metadata a ! i = md"
    using assms(2) by (auto simp: in_set_conv_nth)
  then have "i \<le> u32_max"
    using assms(1) wf_app_lengths[OF assms(1)] by (simp add: wf_app_def)
  then show thesis
    using that[of "word_of_nat i"] i by (simp add: route_id_index_of_nat)
qed

section \<open>Conflicts\<close>

definition conflicts :: "route_metadata list \<Rightarrow> http_method \<Rightarrow> string \<Rightarrow> segment list \<Rightarrow> bool" where
  "conflicts mds m template segs \<longleftrightarrow>
     list_ex (\<lambda>md. rm_method md = m \<and>
       (if list_all is_static_segment segs then md_static md \<and> rm_template md = template
        else \<not> md_static md \<and> pattern_of (rm_segments md) = pattern_of segs)) mds"

lemma insert_route_accepts:
  assumes wf: "wf_app a" and small: "length (app_plans a) < u32_max"
    and room: "trie_has_space segs (app_dynamic a)"
  shows "no_panic (insert_route template segs m (length (app_plans a)) a) \<longleftrightarrow>
    method_slot m \<noteq> None \<and> \<not> conflicts (app_metadata a) m template segs"
proof -
  have st: "wf_static (app_static a)" "wf_trie (app_dynamic a)"
    using wf by (simp_all add: wf_app_def)
  have conflict: "conflicts (app_metadata a) m template segs \<longleftrightarrow>
      (if list_all is_static_segment segs then static_at (app_static a) template m \<noteq> None
       else route_at (app_dynamic a) (pattern_of segs) m \<noteq> None)"
    (is "_ \<longleftrightarrow> ?taken")
  proof
    assume "conflicts (app_metadata a) m template segs"
    then obtain md where md: "md \<in> set (app_metadata a)" "rm_method md = m"
      "if list_all is_static_segment segs then md_static md \<and> rm_template md = template
        else \<not> md_static md \<and> pattern_of (rm_segments md) = pattern_of segs"
      by (auto simp: conflicts_def list_ex_iff)
    obtain r where "route_id_index r < length (app_metadata a)" "app_metadata a ! route_id_index r = md"
      using registered_id[OF wf md(1)] .
    then have "if list_all is_static_segment segs then static_at (app_static a) template m = Some r
        else route_at (app_dynamic a) (pattern_of segs) m = Some r"
      using md by (simp add: static_registered[OF wf] dynamic_registered[OF wf] split: if_splits)
    then show ?taken by (auto split: if_splits)
  next
    assume ?taken
    then obtain r where "if list_all is_static_segment segs then static_at (app_static a) template m = Some r
        else route_at (app_dynamic a) (pattern_of segs) m = Some r"
      by (auto split: if_splits)
    then show "conflicts (app_metadata a) m template segs"
      unfolding static_registered[OF wf] dynamic_registered[OF wf] conflicts_def list_ex_iff
      by (auto split: if_splits intro!: bexI[of _ "app_metadata a ! route_id_index r"])
  qed
  show ?thesis
  proof (cases "list_all is_static_segment segs")
    case True
    have "no_panic (static_insert template m (length (app_plans a)) (app_static a)) \<longleftrightarrow>
        method_slot m \<noteq> None \<and> static_at (app_static a) template m = None"
      using static_store.add_free[OF st(1) _ _ small, of m template]
        static_store.add_taken[OF st(1) _ small, of template m]
        static_store.add_unsupported[OF st(1), of m template "length (app_plans a)"]
      by (cases "static_at (app_static a) template m") auto
    then show ?thesis
      using True conflict by (simp add: insert_route_def insert_static_map)
  next
    case False
    have "no_panic (trie_insert (app_dynamic a) segs m (length (app_plans a))) \<longleftrightarrow>
        method_slot m \<noteq> None \<and> route_at (app_dynamic a) (pattern_of segs) m = None"
      using trie_store.add_free[OF st(2) room _ small, of m]
        trie_store.add_taken[OF st(2) room small, of m]
        trie_store.add_unsupported[OF st(2) room, of m "length (app_plans a)"]
      by (cases "route_at (app_dynamic a) (pattern_of segs) m") auto
    then show ?thesis
      using False conflict by (simp add: insert_route_def)
  qed
qed

lemma conflicts_same_template:
  assumes wf: "wf_app a" and parse: "parse_template template = Ret segs"
    and free: "\<not> conflicts (app_metadata a) m template segs"
  shows "no_such_route m template a"
proof -
  have "\<not> (rm_method md = m \<and> rm_template md = template)" if md: "md \<in> set (app_metadata a)" for md
  proof
    assume same: "rm_method md = m \<and> rm_template md = template"
    obtain i where i: "i < length (app_metadata a)" "md = app_metadata a ! i"
      using md by (auto simp: in_set_conv_nth)
    have "list_all2 wf_plan (app_plans a) (app_metadata a)"
      using wf by (simp add: wf_app_def)
    then have "wf_plan (app_plans a ! i) md"
      using i by (auto simp: list_all2_conv_all_nth)
    then have "rm_segments md = segs"
      using parse same by (simp add: wf_plan_def)
    then have "rm_method md = m \<and> (if list_all is_static_segment segs then md_static md \<and> rm_template md = template
        else \<not> md_static md \<and> pattern_of (rm_segments md) = pattern_of segs)"
      using same by (simp add: md_static_def)
    then show False
      using free md by (auto simp: conflicts_def list_ex_iff)
  qed
  then show ?thesis by (auto simp: no_such_route_def list_all_iff)
qed

text \<open>How many \<open>Path<T>\<close> extractors the documentation of a handler finds.\<close>

definition path_extractors :: "('s, 'w) handler \<Rightarrow> registry \<Rightarrow> nat" where
  "path_extractors h schemas = length (or_path_schemas (fst (h_request h (snd (h_schema h schemas)))))"

definition too_many_captures :: "segment list \<Rightarrow> bool" where
  "too_many_captures segs \<longleftrightarrow> max_capture_params < capture_count (pattern_of segs)"

lemma record_capture_limit_error_cases:
  "record_capture_limit_error path segs a =
     (too_many_captures segs,
      if too_many_captures segs \<and> app_route_error a = None
      then a\<lparr>app_route_error := Some (Too_Many_Captures path (capture_count (pattern_of segs)) max_capture_params)\<rparr>
      else a)"
  by (simp add: record_capture_limit_error_def too_many_captures_def capture_count_segments Let_def not_less)

lemma no_panic_bind_iff: "no_panic (bind_outcome m f) \<longleftrightarrow> (\<exists>x. m = Ret x \<and> no_panic (f x))"
  by (cases m) auto

lemma no_panic_assert [simp]: "no_panic (assert_that b msg) = b"
  by (cases b) auto

lemma insert_route_schemas_same:
  "insert_route template segs m i a = Ret a' \<Longrightarrow> app_schemas a' = app_schemas a"
  using insert_route_other by blast

definition accepted :: "http_method \<Rightarrow> string \<Rightarrow> nat \<Rightarrow> ('s, 'i, 'w) app \<Rightarrow> bool" where
  "accepted m path n a \<longleftrightarrow>
     starts_with path ''/'' \<and>
     (\<exists>segs. parse_template (normalize_path path) = Ret segs \<and>
        no_such_route m (normalize_path path) a \<and>
        (too_many_captures segs \<or>
         method_slot m \<noteq> None \<and> \<not> conflicts (app_metadata a) m (normalize_path path) segs \<and> n \<le> 1))"

lemma add_route_accepts:
  assumes wf: "wf_app a" and room: "has_room path a"
  shows "no_panic (add_route m path h a) \<longleftrightarrow> accepted m path (path_extractors h (app_schemas a)) a"
proof -
  let ?t = "normalize_path path" and ?i = "length (app_plans a)"
  have ins: "no_panic (insert_route ?t segs m ?i a) \<longleftrightarrow> method_slot m \<noteq> None \<and> \<not> conflicts (app_metadata a) m ?t segs"
    if "parse_template ?t = Ret segs" for segs
    using insert_route_accepts[OF wf _ room_for_template[OF room that]] room by (simp add: has_room_def)
  show ?thesis
  proof (cases "\<exists>segs. parse_template ?t = Ret segs")
    case False
    then show ?thesis
      by (auto simp: add_route_def Let_def accepted_def no_panic_bind_iff outcome_simps)
  next
    case True
    then obtain segs where segs: "parse_template ?t = Ret segs" by blast
    show ?thesis
    proof (cases "too_many_captures segs")
      case True
      then show ?thesis
        by (auto simp: add_route_def Let_def accepted_def no_panic_bind_iff outcome_simps segs
            record_capture_limit_error_cases assert_route_path_def)
    next
      case False
      then have "no_panic (add_route m path h a) \<longleftrightarrow> starts_with path ''/'' \<and> no_such_route m ?t a \<and>
          (\<exists>a'. insert_route ?t segs m ?i a = Ret a' \<and> path_extractors h (app_schemas a') \<le> 1)"
        by (auto simp: add_route_def Let_def no_panic_bind_iff outcome_simps segs single_path_extractor_def
            record_capture_limit_error_cases assert_route_path_def path_extractors_def case_prod_beta)
      also have "(\<exists>a'. insert_route ?t segs m ?i a = Ret a' \<and> path_extractors h (app_schemas a') \<le> 1) \<longleftrightarrow>
          no_panic (insert_route ?t segs m ?i a) \<and> path_extractors h (app_schemas a) \<le> 1"
        using insert_route_schemas_same by (fastforce simp: no_panic_def)
      finally show ?thesis
        using False by (auto simp: accepted_def segs ins[OF segs])
    qed
  qed
qed

lemma add_route_adds:
  assumes add: "add_route m path h a = Ret a'" and parse: "parse_template (normalize_path path) = Ret segs"
    and few: "\<not> too_many_captures segs"
  shows "\<exists>md plan. app_metadata a' = app_metadata a @ [md] \<and> app_plans a' = app_plans a @ [plan] \<and>
    app_last a' = Some (length (app_plans a)) \<and> app_openapi_bytes a' = None \<and>
    app_middleware a' = app_middleware a \<and>
    rm_method md = m \<and> rm_template md = normalize_path path \<and> rm_segments md = segs \<and> \<not> rm_builtin md \<and>
    rp_handler plan = handler_kind_of h \<and>
    rp_body_mode plan = (if h_needs_body h then Buffered else Body_None) \<and>
    (h_needs_body h \<longrightarrow> rp_body_limit plan = app_max_body a) \<and>
    rp_capture_mode plan = capture_mode_of (rm_capture_names md) segs \<and>
    rm_capture_names md = capture_names_of (h_needs_params h) segs"
proof -
  obtain a1 request schema schemas where a1:
      "insert_route (normalize_path path) segs m (length (app_plans a)) a = Ret a1"
    and a': "a' = finish_route (length (app_plans a)) (push_route
         \<lparr>rp_handler = handler_kind_of h,
          rp_body_limit = (if h_needs_body h then app_max_body a1 else 0),
          rp_capture_mode = capture_mode_of (capture_names_of (h_needs_params h) segs) segs,
          rp_body_mode = (if h_needs_body h then Buffered else Body_None)\<rparr>
         \<lparr>rm_builtin = False, rm_method = m, rm_template = normalize_path path, rm_segments = segs,
          rm_capture_names = capture_names_of (h_needs_params h) segs,
          rm_operation = blank_operation\<lparr>op_status := h_status h,
            op_schema := schema, op_request := request\<rparr>\<rparr> (a1\<lparr>app_schemas := schemas\<rparr>))"
    using add parse few
    by (auto simp: add_route_def Let_def outcome_simps single_path_extractor_def case_prod_beta
        record_capture_limit_error_cases)
  show ?thesis
    using insert_route_other[OF a1] unfolding a'
    by (auto simp: finish_route_def push_route_def)
qed

lemma add_static_route_accepts:
  assumes wf: "wf_app a" and room: "has_room path a" and parse: "parse_template (normalize_path path) = Ret segs"
    and ok: "starts_with path ''/''" "list_all is_static_segment segs"
      "\<not> conflicts (app_metadata a) GET (normalize_path path) segs"
  shows "\<exists>a' md plan. add_static_route path response a = Ret a' \<and>
    app_metadata a' = app_metadata a @ [md] \<and> app_plans a' = app_plans a @ [plan] \<and>
    app_last a' = Some (length (app_plans a)) \<and> app_dynamic a' = app_dynamic a \<and>
    rm_method md = GET \<and> rm_template md = normalize_path path \<and> rm_segments md = segs \<and>
    rp_handler plan = Static_Kind response \<and> rp_capture_mode plan = Capture_None"
proof -
  have "length (app_plans a) < u32_max" using room by (simp add: has_room_def)
  then have "no_panic (insert_route (normalize_path path) segs GET (length (app_plans a)) a)"
    using insert_route_accepts[OF wf _ room_for_template[OF room parse]] ok(3) by (simp add: method_slot_def)
  then obtain a1 where a1: "insert_static (normalize_path path) GET (length (app_plans a)) a = Ret a1"
    using ok(2) by (auto simp: insert_route_def elim: no_panicE)
  then have same: "app_metadata a1 = app_metadata a" "app_plans a1 = app_plans a" "app_dynamic a1 = app_dynamic a"
    by (auto simp: insert_static_def outcome_simps)
  have "add_static_route path response a = Ret (finish_route (length (app_plans a))
      (push_route
               \<lparr>rp_handler = Static_Kind response, rp_body_limit = 0,
                rp_capture_mode = Capture_None, rp_body_mode = Body_None\<rparr>
               \<lparr>rm_builtin = False, rm_method = GET, rm_template = normalize_path path, rm_segments = segs,
                rm_capture_names = None, rm_operation = blank_operation\<rparr> a1))"
    using a1 conflicts_same_template[OF wf parse ok(3)] ok(1,2)
    by (simp add: add_static_route_def assert_route_path_def Let_def parse)
  then show ?thesis
    by (simp add: finish_route_def push_route_def same)
qed

section \<open>A small application\<close>

text \<open>One static text, and one handler that answers its path parameter.\<close>

definition item_handler :: "(unit, unit) handler" where
  "item_handler = extractor_handler (\<lambda>_. None)
     [path_extractor (JStr ''string'') (\<lambda>s. Inr s)]
     (\<lambda>vs. respond (new_response 200 (Full (Some (concat vs))))) 200 (\<lambda>r. (None, r))"

definition demo_app :: "(unit, string, unit) app outcome" where
  "demo_app =
     bind_outcome app_new (\<lambda>a.
     bind_outcome (app_with_state () a) (\<lambda>a.
     bind_outcome (add_static_route ''/ping'' (static_text ''ok'') a) (\<lambda>a.
     add_route GET ''/items/{id}'' item_handler a)))"

lemma demo_templates:
  "normalize_path ''/ping'' = ''/ping''" "parse_template ''/ping'' = Ret [Static ''ping'']"
  "normalize_path ''/items/{id}'' = ''/items/{id}''"
  "parse_template ''/items/{id}'' = Ret [Static ''items'', Capture ''id'']"
  by (simp_all add: normalize_path_def parse_template_def split_path_pieces pieces_def parse_segment_def
      starts_with_def ends_with_def contains_char_def slice_def trim_end_char_def)

lemma item_handler_flags:
  "handler_kind_of item_handler = Typed (h_call item_handler)"
  "h_needs_body item_handler = False" "h_needs_params item_handler = False"
  by (simp_all add: item_handler_def handler_kind_of_def extractor_handler_def path_extractor_def
      plain_extractor_def)

lemma fresh_item_route:
  "\<exists>a :: (unit, string, unit) app. app_new = Ret a \<and> wf_app a \<and> has_room ''/items/{id}'' a \<and>
     accepted GET ''/items/{id}'' (path_extractors item_handler (app_schemas a)) a \<and>
     app_metadata a = []"
proof -
  obtain a :: "(unit, string, unit) app" where a: "app_new = Ret a" "wf_app a" "app_metadata a = []"
      "app_plans a = []" "app_dynamic a = empty_trie"
    using app_new_wf by blast
  have "has_room ''/items/{id}'' a"
    using a by (simp add: has_room_def u32_max_def split_path_pieces pieces_def)
  moreover have "path_extractors item_handler r \<le> 1" for r
    by (simp add: path_extractors_def item_handler_def extractor_handler_def path_extractor_def
        plain_extractor_def merge_request_def empty_openapi_request_def)
  ultimately show ?thesis
    using a by (intro exI[of _ a])
      (simp add: accepted_def demo_templates starts_with_def no_such_route_def conflicts_def method_slot_def)
qed

lemma demo_app_ok:
  "\<exists>a md0 md1 plan0 plan1. demo_app = Ret a \<and> reachable_app a \<and> wf_app a \<and>
     app_metadata a = [md0, md1] \<and> app_plans a = [plan0, plan1] \<and> app_last a = Some 1 \<and>
     rm_method md0 = GET \<and> rm_template md0 = ''/ping'' \<and> rm_segments md0 = [Static ''ping''] \<and>
     rm_method md1 = GET \<and> rm_template md1 = ''/items/{id}'' \<and>
     rm_segments md1 = [Static ''items'', Capture ''id''] \<and>
     rp_handler plan0 = Static_Kind (static_text ''ok'') \<and> rp_capture_mode plan0 = Capture_None \<and>
     rp_handler plan1 = Typed (h_call item_handler) \<and> rp_capture_mode plan1 = Borrowed \<and>
     rp_body_mode plan1 = Body_None"
proof -
  obtain a0 :: "(unit, string, unit) app" where a0: "app_new = Ret a0" "wf_app a0" "app_metadata a0 = []" "app_plans a0 = []"
      "app_dynamic a0 = empty_trie"
    using app_new_wf by blast
  obtain a1 where a1: "app_with_state () a0 = Ret a1" "app_metadata a1 = []" "app_plans a1 = []"
      "app_dynamic a1 = empty_trie"
    using a0 by (auto simp: app_with_state_def)
  have reach1: "reachable_app a1"
    using reachable_app.fresh[OF a0(1) a1(1)] .
  note wf1 = reachable_wf[OF reach1]
  have room1: "has_room ''/ping'' a1"
    using a1 by (simp add: has_room_def u32_max_def split_path_pieces pieces_def)
  obtain a2 md0 plan0 where a2: "add_static_route ''/ping'' (static_text ''ok'') a1 = Ret a2"
      "app_metadata a2 = [md0]" "app_plans a2 = [plan0]" "app_dynamic a2 = empty_trie"
      "rm_method md0 = GET" "rm_template md0 = ''/ping''" "rm_segments md0 = [Static ''ping'']"
      "rp_handler plan0 = Static_Kind (static_text ''ok'')" "rp_capture_mode plan0 = Capture_None"
    using add_static_route_accepts[OF wf1 room1, of "[Static ''ping'']" "static_text ''ok''"]
    by (auto simp: demo_templates a1 starts_with_def conflicts_def)
  have reach2: "reachable_app a2"
    using reachable_app.step[OF reach1 step_static[OF room1 a2(1)]] .
  note wf2 = reachable_wf[OF reach2]
  have room2: "has_room ''/items/{id}'' a2"
    using a2 by (simp add: has_room_def u32_max_def split_path_pieces pieces_def)
  have few: "\<not> too_many_captures [Static ''items'', Capture ''id'']"
    by (simp add: too_many_captures_def max_capture_params_def)
  have "path_extractors item_handler r \<le> 1" for r
    by (simp add: path_extractors_def item_handler_def extractor_handler_def path_extractor_def
        plain_extractor_def merge_request_def empty_openapi_request_def)
  then have "no_panic (add_route GET ''/items/{id}'' item_handler a2)"
    using add_route_accepts[OF wf2 room2, of GET item_handler] a2(2,5-7)
    by (simp add: accepted_def demo_templates starts_with_def no_such_route_def conflicts_def method_slot_def
        md_static_def)
  then obtain a3 where a3: "add_route GET ''/items/{id}'' item_handler a2 = Ret a3"
    by (rule no_panicE)
  have reach3: "reachable_app a3"
    using reachable_app.step[OF reach2 step_route[OF room2 a3]] .
  have "parse_template (normalize_path ''/items/{id}'') = Ret [Static ''items'', Capture ''id'']"
    by (simp add: demo_templates)
  from add_route_adds[OF a3 this few] obtain md1 plan1 where
      "app_metadata a3 = [md0, md1]" "app_plans a3 = [plan0, plan1]" "app_last a3 = Some 1"
      "rm_method md1 = GET" "rm_template md1 = ''/items/{id}''"
      "rm_segments md1 = [Static ''items'', Capture ''id'']"
      "rp_handler plan1 = Typed (h_call item_handler)" "rp_body_mode plan1 = Body_None"
      "rp_capture_mode plan1 = Borrowed"
    by (auto simp: a2 demo_templates item_handler_flags capture_mode_of_def capture_names_of_def)
  moreover have "demo_app = Ret a3"
    by (simp add: demo_app_def a0(1) a1(1) a2(1) a3)
  ultimately show ?thesis
    using reach3 reachable_wf[OF reach3] a2 by blast
qed

end
