(* ===== verification/Dispatch.thy ===== *)
theory Dispatch
  imports App_Registration
begin

text \<open>
  Model of request dispatch in \<open>src/runtime.rs\<close>: \<open>prepare\<close>, \<open>prepare_direct\<close> and
  \<open>prepare_matched\<close> for a request on a connection, \<open>handle\<close> and \<open>handle_matched\<close> for a request
  whose body is in memory, the host of the middleware chain, and the copies of the latter two in
  \<open>src/app.rs\<close>.

  What the program is linked with is the record \<open>env\<close>: whether debug assertions are on, JSON
  rendering, and reading a whole body within a limit and a time
  (\<open>tokio::time::timeout\<close> of \<open>Limited::collect\<close>), which answers one of four results.
\<close>

datatype collect_result = Collected string | Too_Long | Broken | Timed_Out

record 'i env =
  env_debug :: bool
  env_to_vec :: "json \<Rightarrow> string option"
  env_collect :: "nat option \<Rightarrow> nat \<Rightarrow> 'i \<Rightarrow> collect_result"

section \<open>A request in memory\<close>

text \<open>\<open>handle_matched\<close>, which both \<open>RuntimeRef\<close> and \<open>App\<close> have.\<close>

definition unreachable :: "string \<Rightarrow> 'w service" where
  "unreachable msg = (\<lambda>w. (Panic msg, w))"

definition handle_matched ::
  "'i env \<Rightarrow> ('s, 'i, 'w) runtime_inner \<Rightarrow> bytes_request \<Rightarrow> route_id \<Rightarrow> capture_provider \<Rightarrow> bool
     \<Rightarrow> 'w service" where
  "handle_matched env ri request i captures is_head =
     run_or_panic (index (ri_plans ri) (route_id_index i)) (\<lambda>plan.
       case rp_handler plan of
         Zero f \<Rightarrow> map_response (maybe_head_flag is_head) f
       | Static_Kind response \<Rightarrow> respond (maybe_head_flag is_head (static_to_response response))
       | _ \<Rightarrow>
           if rp_body_mode plan = Buffered \<and> unat (rp_body_limit plan) < length (rq_body request)
           then respond (payload_too_large_response (env_to_vec env))
           else map_response (maybe_head_flag is_head)
             (case rp_handler plan of
                Typed_No_Params h \<Rightarrow> h request (ri_state ri)
              | Typed h \<Rightarrow>
                  run_or_panic (index (ri_capture_names ri) (route_id_index i)) (\<lambda>names.
                    capture_invoke (env_debug env) (env_to_vec env) captures (rp_capture_mode plan)
                      request names h (ri_state ri))
              | Raw _ \<Rightarrow> unreachable ''raw routes require Incoming request bodies''
              | _ \<Rightarrow> unreachable ''fast handlers returned before typed dispatch''))"

definition ri_handle ::
  "'i env \<Rightarrow> ('s, 'i, 'w) runtime_inner \<Rightarrow> bytes_request \<Rightarrow> 'w service" where
  "ri_handle env ri request =
     (let is_head = (rq_method request = HEAD);
          path = normalize_request_path (rq_path request)
      in case ri_static ri path of
           Some routes \<Rightarrow>
             run_or_panic (resolve_route_set (rq_method request) routes) (\<lambda>r.
               case r of
                 Inr i \<Rightarrow> handle_matched env ri request i Static_Captures is_head
               | Inl (Failure_Options allow) \<Rightarrow> respond (options_response allow)
               | Inl (Method_Not_Allowed allow) \<Rightarrow> respond (method_not_allowed_response allow))
         | None \<Rightarrow>
             run_or_panic (trie_find (ri_dynamic ri) path) (\<lambda>found.
               case found of
                 None \<Rightarrow> respond not_found
               | Some (routes, caps) \<Rightarrow>
                   run_or_panic (resolve_route_set (rq_method request) routes) (\<lambda>r.
                     case r of
                       Inr i \<Rightarrow> handle_matched env ri request i (Dynamic_Captures caps) is_head
                     | Inl (Failure_Options allow) \<Rightarrow> respond (options_response allow)
                     | Inl (Method_Not_Allowed allow) \<Rightarrow> respond (method_not_allowed_response allow))))"

section \<open>A request on a connection\<close>

datatype 'w prepared = Ready response | Handler_Future bool "'w service" | Boxed "'w service"

fun poll_prepared :: "'w prepared \<Rightarrow> 'w service" where
  "poll_prepared (Ready response) = respond response"
| "poll_prepared (Handler_Future is_head future) = map_response (maybe_head_flag is_head) future"
| "poll_prepared (Boxed future) = future"

definition interrupted_response :: "(json \<Rightarrow> string option) \<Rightarrow> response" where
  "interrupted_response to_vec =
     attach (error_info_new 400 ''Bad Request'' ''request body was interrupted'')
       (response_json to_vec 400 (problem_json 400 ''Bad Request'' ''request body was interrupted''))"

definition announced_too_large :: "headers \<Rightarrow> nat \<Rightarrow> bool" where
  "announced_too_large hs limit \<longleftrightarrow>
     (case Option.bind (header_text hs ''content-length'') (parse_unsigned usize_max) of
        None \<Rightarrow> False | Some n \<Rightarrow> limit < n)"

definition collect_and_handle ::
  "'i env \<Rightarrow> ('s, 'i, 'w) runtime_inner \<Rightarrow> 'i incoming_request \<Rightarrow> nat \<Rightarrow> route_id \<Rightarrow> capture_provider
     \<Rightarrow> bool \<Rightarrow> 'w service" where
  "collect_and_handle env ri request limit i captures is_head =
     (case env_collect env (ri_body_read_timeout ri) limit (rq_body request) of
        Timed_Out \<Rightarrow> respond (request_timeout_response (env_to_vec env))
      | Collected body \<Rightarrow> handle_matched env ri (with_body request body) i captures is_head
      | Too_Long \<Rightarrow> respond (payload_too_large_response (env_to_vec env))
      | Broken \<Rightarrow> respond (interrupted_response (env_to_vec env)))"

definition prepare_matched ::
  "'i env \<Rightarrow> ('s, 'i, 'w) runtime_inner \<Rightarrow> 'i incoming_request \<Rightarrow> route_id \<Rightarrow> capture_provider \<Rightarrow> bool
     \<Rightarrow> 'w prepared outcome" where
  "prepare_matched env ri request i captures is_head =
     bind_outcome (index (ri_plans ri) (route_id_index i)) (\<lambda>plan.
       case rp_body_mode plan of
         Body_Incoming \<Rightarrow>
           (case rp_handler plan of
              Raw h \<Rightarrow> Ret (Handler_Future is_head (h request))
            | _ \<Rightarrow> Panic ''only raw handlers may receive Incoming'')
       | Body_None \<Rightarrow>
           (case rp_handler plan of
              Zero f \<Rightarrow> Ret (Handler_Future is_head f)
            | Static_Kind response \<Rightarrow> Ret (Ready (maybe_head_flag is_head (static_to_response response)))
            | Typed_No_Params h \<Rightarrow>
                Ret (Handler_Future is_head (h (with_body request []) (ri_state ri)))
            | Typed h \<Rightarrow>
                bind_outcome (index (ri_capture_names ri) (route_id_index i)) (\<lambda>names.
                  Ret (Handler_Future is_head
                    (capture_invoke (env_debug env) (env_to_vec env) captures (rp_capture_mode plan)
                      (with_body request []) names h (ri_state ri))))
            | Raw _ \<Rightarrow> Panic ''raw handler requires Incoming'')
       | Buffered \<Rightarrow>
           (let limit = unat (rp_body_limit plan)
            in if announced_too_large (rq_headers request) limit
               then Ret (Ready (payload_too_large_response (env_to_vec env)))
               else Ret (Boxed (collect_and_handle env ri request limit i captures is_head))))"

definition prepare_direct ::
  "'i env \<Rightarrow> ('s, 'i, 'w) runtime_inner \<Rightarrow> 'i incoming_request \<Rightarrow> 'w prepared outcome" where
  "prepare_direct env ri request =
     (let m = rq_method request;
          is_head = (m = HEAD);
          path_end = length (normalize_request_path (rq_path request))
      in bind_outcome (str_slice (rq_path request) 0 path_end) (\<lambda>path.
         case ri_static ri path of
           Some routes \<Rightarrow>
             bind_outcome (resolve_route_set m routes) (\<lambda>r.
               case r of
                 Inr i \<Rightarrow> prepare_matched env ri request i Static_Captures is_head
               | Inl (Failure_Options allow) \<Rightarrow> Ret (Ready (options_response allow))
               | Inl (Method_Not_Allowed allow) \<Rightarrow> Ret (Ready (method_not_allowed_response allow)))
         | None \<Rightarrow>
             bind_outcome (trie_find (ri_dynamic ri) path) (\<lambda>found.
               case found of
                 None \<Rightarrow> Ret (Ready not_found)
               | Some (routes, caps) \<Rightarrow>
                   bind_outcome (resolve_route_set m routes) (\<lambda>r.
                     case r of
                       Inr i \<Rightarrow> prepare_matched env ri request i (Dynamic_Captures caps) is_head
                     | Inl (Failure_Options allow) \<Rightarrow> Ret (Ready (options_response allow))
                     | Inl (Method_Not_Allowed allow) \<Rightarrow>
                         Ret (Ready (method_not_allowed_response allow))))))"

definition direct_service ::
  "'i env \<Rightarrow> ('s, 'i, 'w) runtime_inner \<Rightarrow> 'i incoming_request \<Rightarrow> 'w service" where
  "direct_service env ri request = run_or_panic (prepare_direct env ri request) poll_prepared"

text \<open>\<open>Host::dispatch\<close>: the end of the middleware chain.\<close>

definition host_dispatch ::
  "'i env \<Rightarrow> ('s, 'i, 'w) runtime_inner \<Rightarrow> 'i request_body request \<Rightarrow> 'w service" where
  "host_dispatch env ri request =
     (case rq_body request of
        Incoming body \<Rightarrow> direct_service env ri (with_body request body)
      | FullBody bytes \<Rightarrow>
          ri_handle env ri (with_body request (case bytes of None \<Rightarrow> [] | Some b \<Rightarrow> b)))"

definition conn_prepare ::
  "'i env \<Rightarrow> ('s, 'i, 'w) runtime_inner \<Rightarrow> socket_addr option \<Rightarrow> 'i incoming_request
     \<Rightarrow> 'w prepared outcome" where
  "conn_prepare env ri peer request =
     (let request = (case peer of None \<Rightarrow> request | Some p \<Rightarrow> request\<lparr>rq_peer := Some p\<rparr>)
      in if \<not> has_matching_layer (ri_middleware ri) (rq_method request) (rq_path request)
         then prepare_direct env ri request
         else Ret (Boxed (next_run (ri_middleware ri) (host_dispatch env ri) 0
                (with_body request (Incoming (rq_body request))))))"

definition conn_service ::
  "'i env \<Rightarrow> ('s, 'i, 'w) runtime_inner \<Rightarrow> socket_addr option \<Rightarrow> 'i incoming_request \<Rightarrow> 'w service" where
  "conn_service env ri peer request = run_or_panic (conn_prepare env ri peer request) poll_prepared"

text \<open>\<open>AppRuntime::oneshot\<close>, which tests use in place of a connection.\<close>

definition runtime_oneshot ::
  "'i env \<Rightarrow> ('s, 'i, 'w) runtime_inner \<Rightarrow> bytes_request \<Rightarrow> 'w service" where
  "runtime_oneshot env ri request =
     (if \<not> has_matching_layer (ri_middleware ri) (rq_method request) (rq_path request)
      then ri_handle env ri request
      else next_run (ri_middleware ri) (host_dispatch env ri) 0
             (with_body request (full_body (rq_body request))))"

section \<open>The copies in \<open>App\<close>\<close>

definition app_handle_matched ::
  "'i env \<Rightarrow> ('s, 'i, 'w) app \<Rightarrow> bytes_request \<Rightarrow> route_id \<Rightarrow> capture_provider \<Rightarrow> bool \<Rightarrow> 'w service" where
  "app_handle_matched env a request i captures is_head =
     run_or_panic (index (app_plans a) (route_id_index i)) (\<lambda>plan.
       case rp_handler plan of
         Zero f \<Rightarrow> map_response (maybe_head_flag is_head) f
       | Static_Kind response \<Rightarrow> respond (maybe_head_flag is_head (static_to_response response))
       | _ \<Rightarrow>
           if rp_body_mode plan = Buffered \<and> unat (rp_body_limit plan) < length (rq_body request)
           then respond (payload_too_large_response (env_to_vec env))
           else map_response (maybe_head_flag is_head)
             (case rp_handler plan of
                Typed_No_Params h \<Rightarrow> h request (app_state a)
              | Typed h \<Rightarrow>
                  run_or_panic (index (app_metadata a) (route_id_index i)) (\<lambda>md.
                    capture_invoke (env_debug env) (env_to_vec env) captures (rp_capture_mode plan)
                      request (rm_capture_names md) h (app_state a))
              | Raw _ \<Rightarrow> unreachable ''raw routes require Incoming request bodies''
              | _ \<Rightarrow> unreachable ''fast handlers returned before typed dispatch''))"

definition app_handle :: "'i env \<Rightarrow> ('s, 'i, 'w) app \<Rightarrow> bytes_request \<Rightarrow> 'w service" where
  "app_handle env a request =
     (let is_head = (rq_method request = HEAD);
          path = normalize_request_path (rq_path request)
      in case app_static a path of
           Some routes \<Rightarrow>
             run_or_panic (resolve_route_set (rq_method request) routes) (\<lambda>r.
               case r of
                 Inr i \<Rightarrow> app_handle_matched env a request i Static_Captures is_head
               | Inl (Failure_Options allow) \<Rightarrow> respond (options_response allow)
               | Inl (Method_Not_Allowed allow) \<Rightarrow> respond (method_not_allowed_response allow))
         | None \<Rightarrow>
             run_or_panic (trie_find (app_dynamic a) path) (\<lambda>found.
               case found of
                 None \<Rightarrow> respond not_found
               | Some (routes, caps) \<Rightarrow>
                   run_or_panic (resolve_route_set (rq_method request) routes) (\<lambda>r.
                     case r of
                       Inr i \<Rightarrow> app_handle_matched env a request i (Dynamic_Captures caps) is_head
                     | Inl (Failure_Options allow) \<Rightarrow> respond (options_response allow)
                     | Inl (Method_Not_Allowed allow) \<Rightarrow> respond (method_not_allowed_response allow))))"

lemma inner_of_app_fields [simp]:
  "ri_state (inner_of_app a) = app_state a"
  "ri_plans (inner_of_app a) = app_plans a"
  "ri_capture_names (inner_of_app a) = map rm_capture_names (app_metadata a)"
  "ri_static (inner_of_app a) = app_static a"
  "ri_dynamic (inner_of_app a) = app_dynamic a"
  "ri_middleware (inner_of_app a) = app_middleware a"
  by (simp_all add: inner_of_app_def)

lemma run_or_panic_Panic: "run_or_panic (Panic e) f = (\<lambda>w. (Panic e, w))"
  by (simp add: run_or_panic_def)

lemma run_or_panic_index_map:
  "run_or_panic (index (map g xs) n) f = run_or_panic (index xs n) (\<lambda>x. f (g x))"
  by (simp add: index_def run_or_panic_def)

lemma app_handle_matched_inner:
  "app_handle_matched env a request i captures is_head
     = handle_matched env (inner_of_app a) request i captures is_head"
  unfolding app_handle_matched_def handle_matched_def inner_of_app_fields run_or_panic_index_map
  by (rule refl)

lemma app_handle_inner: "app_handle env a = ri_handle env (inner_of_app a)"
  unfolding app_handle_def ri_handle_def app_handle_matched_inner inner_of_app_fields
  by (rule refl)

section \<open>Where a request goes\<close>

text \<open>The routing decision both paths make.\<close>

datatype routed =
    Routed route_id capture_provider
  | Routed_Options string
  | Routed_Refused string
  | Routed_Missing

definition routed_of :: "capture_provider \<Rightarrow> route_failure + route_id \<Rightarrow> routed" where
  "routed_of provider r =
     (case r of
        Inr i \<Rightarrow> Routed i provider
      | Inl (Failure_Options allow) \<Rightarrow> Routed_Options allow
      | Inl (Method_Not_Allowed allow) \<Rightarrow> Routed_Refused allow)"

definition route_request :: "('s, 'i, 'w) runtime_inner \<Rightarrow> http_method \<Rightarrow> string \<Rightarrow> routed outcome" where
  "route_request ri m path =
     (let path = normalize_request_path path
      in case ri_static ri path of
           Some routes \<Rightarrow> map_outcome (routed_of Static_Captures) (resolve_route_set m routes)
         | None \<Rightarrow>
             bind_outcome (trie_find (ri_dynamic ri) path) (\<lambda>found.
               case found of
                 None \<Rightarrow> Ret Routed_Missing
               | Some (routes, caps) \<Rightarrow>
                   map_outcome (routed_of (Dynamic_Captures caps)) (resolve_route_set m routes)))"

definition simple_answer :: "routed \<Rightarrow> response option" where
  "simple_answer r =
     (case r of
        Routed _ _ \<Rightarrow> None
      | Routed_Options allow \<Rightarrow> Some (options_response allow)
      | Routed_Refused allow \<Rightarrow> Some (method_not_allowed_response allow)
      | Routed_Missing \<Rightarrow> Some not_found)"

lemma ri_handle_route:
  "ri_handle env ri request =
     run_or_panic (route_request ri (rq_method request) (rq_path request)) (\<lambda>r.
       case r of
         Routed i captures \<Rightarrow> handle_matched env ri request i captures (rq_method request = HEAD)
       | _ \<Rightarrow> respond (the (simple_answer r)))"
proof -
  let ?p = "normalize_request_path (rq_path request)"
  have res: "run_or_panic x (\<lambda>r. case r of
         Inr i \<Rightarrow> handle_matched env ri request i captures (rq_method request = HEAD)
       | Inl (Failure_Options allow) \<Rightarrow> respond (options_response allow)
       | Inl (Method_Not_Allowed allow) \<Rightarrow> respond (method_not_allowed_response allow))
    = run_or_panic (map_outcome (routed_of captures) x) (\<lambda>r.
       case r of
         Routed i captures \<Rightarrow> handle_matched env ri request i captures (rq_method request = HEAD)
       | _ \<Rightarrow> respond (the (simple_answer r)))" for x captures
    by (cases x) (auto simp: run_or_panic_def routed_of_def simple_answer_def split: sum.splits route_failure.splits)
  show ?thesis
  proof (cases "ri_static ri ?p")
    case None
    then show ?thesis
      by (cases "trie_find (ri_dynamic ri) ?p")
        (auto simp: ri_handle_def route_request_def Let_def res simple_answer_def run_or_panic_Panic
          split: option.splits)
  next
    case (Some rs)
    then show ?thesis
      by (simp add: ri_handle_def route_request_def Let_def res)
  qed
qed

lemma normalized_slice:
  "utf8_valid p \<Longrightarrow> str_slice p 0 (length (normalize_request_path p)) = Ret (normalize_request_path p)"
proof -
  assume valid: "utf8_valid p"
  obtain t where t: "p = normalize_request_path p @ t" "set t \<subseteq> {slash}"
    using normalize_request_prefix by blast
  let ?n = "length (normalize_request_path p)"
  have le: "?n \<le> length p"
    using t(1) by (metis length_append le_add1)
  have "is_char_boundary p ?n"
  proof (cases "t = []")
    case True
    then show ?thesis using t(1) by (simp add: is_char_boundary_def)
  next
    case False
    then have "p ! ?n = hd t"
      using t(1) by (metis append_Nil2 hd_conv_nth length_append nth_append_length_plus add.right_neutral)
    then have "p ! ?n = slash"
      using False t(2) by (cases t) auto
    then show ?thesis
      by (rule boundary_at_seam[of p ?n, OF _ le, unfolded at_seam_def, OF disjI2, OF disjI2])
  qed
  moreover have "slice p 0 ?n = normalize_request_path p"
    using t(1) by (metis append_eq_conv_conj diff_zero drop_0 slice_def)
  ultimately show ?thesis
    using le by (simp add: str_slice_def is_char_boundary_def)
qed

lemma prepare_direct_route:
  assumes "utf8_valid (rq_path request)"
  shows "prepare_direct env ri request =
     bind_outcome (route_request ri (rq_method request) (rq_path request)) (\<lambda>r.
       case r of
         Routed i captures \<Rightarrow> prepare_matched env ri request i captures (rq_method request = HEAD)
       | _ \<Rightarrow> Ret (Ready (the (simple_answer r))))"
proof -
  let ?p = "normalize_request_path (rq_path request)"
  have res: "bind_outcome x (\<lambda>r. case r of
         Inr i \<Rightarrow> prepare_matched env ri request i captures (rq_method request = HEAD)
       | Inl (Failure_Options allow) \<Rightarrow> Ret (Ready (options_response allow))
       | Inl (Method_Not_Allowed allow) \<Rightarrow> Ret (Ready (method_not_allowed_response allow)))
    = bind_outcome (map_outcome (routed_of captures) x) (\<lambda>r.
       case r of
         Routed i captures \<Rightarrow> prepare_matched env ri request i captures (rq_method request = HEAD)
       | _ \<Rightarrow> Ret (Ready (the (simple_answer r))))" for x captures
    by (cases x) (auto simp: routed_of_def simple_answer_def split: sum.splits route_failure.splits)
  show ?thesis
  proof (cases "ri_static ri ?p")
    case None
    then show ?thesis
      by (cases "trie_find (ri_dynamic ri) ?p")
        (auto simp: prepare_direct_def route_request_def Let_def res simple_answer_def
          normalized_slice[OF assms] split: option.splits)
  next
    case (Some rs)
    then show ?thesis
      by (simp add: prepare_direct_def route_request_def Let_def res normalized_slice[OF assms])
  qed
qed

end
