(* ===== verification/Dispatch_Laws.thy ===== *)
theory Dispatch_Laws
  imports Dispatch
begin

text \<open>
  What the routing decision of a well-formed application means in terms of its registrations, and
  that dispatch on a connection and in memory answer alike.
\<close>

section \<open>Registrations that serve a path\<close>

text \<open>Whether a registration's template matches a normalised path.\<close>

definition serves :: "route_metadata \<Rightarrow> string \<Rightarrow> bool" where
  "serves md path \<longleftrightarrow>
     (if md_static md then rm_template md = path
      else pat_matches (pattern_of (rm_segments md)) (split_path path))"

definition answers_method :: "route_metadata \<Rightarrow> http_method \<Rightarrow> bool" where
  "answers_method md m \<longleftrightarrow> rm_method md = m \<or> m = HEAD \<and> rm_method md = GET"

text \<open>The captures a registration is served with.\<close>

definition served_captures :: "route_metadata \<Rightarrow> string \<Rightarrow> capture_provider \<Rightarrow> bool" where
  "served_captures md path provider \<longleftrightarrow>
     (if md_static md then provider = Static_Captures
      else \<exists>caps. provider = Dynamic_Captures caps \<and> wf_captures caps \<and>
             capture_ranges caps = captured_ranges (pattern_of (rm_segments md)) path)"

text \<open>A registration comes before another where both serve a path: a literal path before a pattern,
  then the one with a literal where the patterns first differ.\<close>

definition outranks :: "route_metadata \<Rightarrow> route_metadata \<Rightarrow> bool" where
  "outranks md md' \<longleftrightarrow>
     md_static md \<or>
     \<not> md_static md' \<and> (pattern_of (rm_segments md) = pattern_of (rm_segments md') \<or>
       preferred (pattern_of (rm_segments md)) (pattern_of (rm_segments md')))"

lemma registered_few_captures:
  assumes "wf_app a" "md \<in> set (app_metadata a)"
  shows "capture_count (pattern_of (rm_segments md)) \<le> max_capture_params"
proof -
  have "list_all2 wf_plan (app_plans a) (app_metadata a)"
    using assms(1) by (simp add: wf_app_def)
  moreover obtain i where "i < length (app_metadata a)" "md = app_metadata a ! i"
    using assms(2) by (auto simp: in_set_conv_nth)
  ultimately have "wf_plan (app_plans a ! i) md"
    by (auto simp: list_all2_conv_all_nth)
  then show ?thesis by (auto simp: wf_plan_def)
qed

lemma registered_candidate:
  assumes wf: "wf_app a"
  shows "candidate (app_dynamic a) ps ks \<longleftrightarrow>
    (\<exists>md \<in> set (app_metadata a). \<not> md_static md \<and> pattern_of (rm_segments md) = ks \<and> pat_matches ks ps)"
proof
  assume "candidate (app_dynamic a) ps ks"
  then obtain m r where "route_at (app_dynamic a) ks m = Some r" "pat_matches ks ps"
    by (auto simp: candidate_def live_def)
  then show "\<exists>md \<in> set (app_metadata a). \<not> md_static md \<and> pattern_of (rm_segments md) = ks \<and> pat_matches ks ps"
    unfolding dynamic_registered[OF wf] using nth_mem by blast
next
  assume "\<exists>md \<in> set (app_metadata a). \<not> md_static md \<and> pattern_of (rm_segments md) = ks \<and> pat_matches ks ps"
  then obtain md where md: "md \<in> set (app_metadata a)" "\<not> md_static md" "pattern_of (rm_segments md) = ks"
    "pat_matches ks ps" by blast
  obtain r where "route_id_index r < length (app_metadata a)" "app_metadata a ! route_id_index r = md"
    using registered_id[OF wf md(1)] .
  then have "route_at (app_dynamic a) ks (rm_method md) = Some r"
    using md by (simp add: dynamic_registered[OF wf])
  then show "candidate (app_dynamic a) ps ks"
    using md registered_few_captures[OF wf md(1)] by (auto simp: candidate_def live_def)
qed

section \<open>The decision\<close>

definition answer :: "(http_method \<Rightarrow> route_id option) \<Rightarrow> http_method \<Rightarrow> route_failure + route_id" where
  "answer tab m =
     (let allow = str_join '', '' (filter (\<lambda>n. tab n \<noteq> None) method_names)
      in case tab m of
           Some r \<Rightarrow> Inr r
         | None \<Rightarrow>
             (case (if m = HEAD then tab GET else None) of
                Some r \<Rightarrow> Inr r
              | None \<Rightarrow> Inl ((if m = OPTIONS then Failure_Options else Method_Not_Allowed) allow)))"

lemma resolve_answer: "wf_route_set rs \<Longrightarrow> resolve_route_set m rs = Ret (answer (route_table rs) m)"
  by (auto simp: resolve_route_set_table answer_def set_methods_def Let_def split: option.splits)

lemma answer_Inr:
  "answer tab m = Inr r \<longleftrightarrow> tab m = Some r \<or> tab m = None \<and> m = HEAD \<and> tab GET = Some r"
  by (auto simp: answer_def Let_def split: option.splits)

lemma route_request_cases:
  assumes wf: "wf_app a" and small: "length path \<le> u32_max"
  obtains
    (literal) "\<exists>n. static_at (app_static a) (normalize_request_path path) n \<noteq> None"
      "route_request (inner_of_app a) m path = Ret (routed_of Static_Captures
         (answer (static_at (app_static a) (normalize_request_path path)) m))"
  | (missing) "\<forall>n. static_at (app_static a) (normalize_request_path path) n = None"
      "\<forall>ks. \<not> candidate (app_dynamic a) (split_path (normalize_request_path path)) ks"
      "route_request (inner_of_app a) m path = Ret Routed_Missing"
  | (pattern) ks caps where "\<forall>n. static_at (app_static a) (normalize_request_path path) n = None"
      "best_pattern (app_dynamic a) (split_path (normalize_request_path path)) ks"
      "wf_captures caps" "capture_ranges caps = captured_ranges ks (normalize_request_path path)"
      "route_request (inner_of_app a) m path = Ret (routed_of (Dynamic_Captures caps)
         (answer (route_at (app_dynamic a) ks) m))"
proof -
  let ?p = "normalize_request_path path"
  obtain t where "path = ?p @ t"
    using normalize_request_prefix by blast
  then have len: "length ?p \<le> u32_max"
    using small by (metis length_append le_add1 le_trans)
  show thesis
  proof (cases "app_static a ?p")
    case (Some rs)
    then have rs: "wf_route_set rs" "\<exists>n. route_table rs n \<noteq> None"
      using wf by (auto simp: wf_app_def wf_static_def)
    have tab: "static_at (app_static a) ?p = route_table rs"
      using Some by (simp add: static_at_def fun_eq_iff)
    show ?thesis
      using rs(2) by (intro literal) (simp_all add: tab route_request_def Some resolve_answer[OF rs(1)])
  next
    case None
    then have none: "\<forall>n. static_at (app_static a) ?p n = None"
      by (simp add: static_at_def)
    have "wf_trie (app_dynamic a)"
      using wf by (simp add: wf_app_def)
    from trie_find_spec[OF this len] show ?thesis
    proof (elim disjE exE conjE)
      assume "trie_find (app_dynamic a) ?p = Ret None" "\<forall>ks. \<not> candidate (app_dynamic a) (split_path ?p) ks"
      then show ?thesis
        by (intro missing none) (simp_all add: route_request_def None)
    next
      fix rs caps ks
      assume found: "trie_find (app_dynamic a) ?p = Ret (Some (rs, caps))" "wf_route_set rs" "wf_captures caps"
        "best_pattern (app_dynamic a) (split_path ?p) ks" "route_table rs = route_at (app_dynamic a) ks"
        "capture_ranges caps = captured_ranges ks ?p"
      show ?thesis
        by (rule pattern[OF none found(4,3,6)])
          (simp add: route_request_def None found(1,5) resolve_answer[OF found(2)])
    qed
  qed
qed

lemma static_serves:
  assumes "wf_app a" "md \<in> set (app_metadata a)" "md_static md" "serves md p"
  shows "\<exists>r. static_at (app_static a) p (rm_method md) = Some r"
proof -
  obtain r where r: "route_id_index r < length (app_metadata a)" "app_metadata a ! route_id_index r = md"
    using registered_id[OF assms(1,2)] .
  have "static_at (app_static a) p (rm_method md) = Some r"
    using assms(3,4) r by (simp add: static_registered[OF assms(1)] serves_def)
  then show ?thesis ..
qed

lemma dynamic_serves:
  "wf_app a \<Longrightarrow> md \<in> set (app_metadata a) \<Longrightarrow> \<not> md_static md \<Longrightarrow> serves md p \<Longrightarrow>
     candidate (app_dynamic a) (split_path p) (pattern_of (rm_segments md))"
  by (auto simp: registered_candidate serves_def)

lemma route_request_sound:
  assumes wf: "wf_app a" and small: "length path \<le> u32_max"
  shows "\<exists>r. route_request (inner_of_app a) m path = Ret r \<and>
    (r = Routed_Missing \<longleftrightarrow>
       (\<forall>md \<in> set (app_metadata a). \<not> serves md (normalize_request_path path))) \<and>
    (\<forall>i caps. r = Routed i caps \<longrightarrow>
       route_id_index i < length (app_metadata a) \<and>
       (let md = app_metadata a ! route_id_index i
        in serves md (normalize_request_path path) \<and> answers_method md m \<and>
           served_captures md (normalize_request_path path) caps \<and>
           (\<forall>md' \<in> set (app_metadata a). serves md' (normalize_request_path path) \<longrightarrow> outranks md md')))"
  (is "\<exists>r. _ = Ret r \<and> ?missing r \<and> ?found r")
proof (rule route_request_cases[OF wf small, of m], goal_cases)
  case literal: 1
  let ?p = "normalize_request_path path" and ?tab = "static_at (app_static a) (normalize_request_path path)"
  obtain n r where nr: "?tab n = Some r"
    using literal(1) by blast
  then have "serves (app_metadata a ! route_id_index r) ?p" "route_id_index r < length (app_metadata a)"
    unfolding static_registered[OF wf] by (simp_all add: serves_def)
  then have "?missing (routed_of Static_Captures (answer ?tab m))"
    using nth_mem by (auto simp: routed_of_def split: sum.splits route_failure.splits)
  moreover have "?found (routed_of Static_Captures (answer ?tab m))"
    by (auto simp: routed_of_def answer_Inr static_registered[OF wf] serves_def answers_method_def
        served_captures_def outranks_def split: sum.splits route_failure.splits)
  ultimately show ?thesis using literal(2) by blast
next
  case missing: 2
  have "\<not> serves md (normalize_request_path path)" if "md \<in> set (app_metadata a)" for md
    using static_serves[OF wf that] dynamic_serves[OF wf that] missing(1,2) by fastforce
  then show ?thesis using missing(3) by simp
next
  case pattern: (3 ks caps)
  let ?p = "normalize_request_path path" and ?tab = "route_at (app_dynamic a) ks"
  have best: "candidate (app_dynamic a) (split_path ?p) ks"
    "\<And>ks'. candidate (app_dynamic a) (split_path ?p) ks' \<Longrightarrow> ks' = ks \<or> preferred ks ks'"
    using pattern(2) by (auto simp: best_pattern_def)
  have matches: "pat_matches ks (split_path ?p)"
    using best(1) by (simp add: candidate_def)
  have rank: "outranks md md'"
    if "\<not> md_static md" "pattern_of (rm_segments md) = ks" "md' \<in> set (app_metadata a)" "serves md' ?p"
    for md md'
    using static_serves[OF wf that(3) _ that(4)] dynamic_serves[OF wf that(3) _ that(4)] pattern(1) best(2) that
    by (fastforce simp: outranks_def)
  have "\<exists>md \<in> set (app_metadata a). serves md ?p"
    using best(1) by (auto simp: registered_candidate[OF wf] serves_def)
  then have "?missing (routed_of (Dynamic_Captures caps) (answer ?tab m))"
    by (auto simp: routed_of_def split: sum.splits route_failure.splits)
  moreover have "?found (routed_of (Dynamic_Captures caps) (answer ?tab m))"
    using matches pattern(3,4) rank
    by (auto simp: routed_of_def answer_Inr dynamic_registered[OF wf] serves_def answers_method_def
        served_captures_def split: sum.splits route_failure.splits)
  ultimately show ?thesis using pattern(5) by blast
qed

lemma route_request_complete:
  assumes wf: "wf_app a" and small: "length path \<le> u32_max" and i: "i < length (app_metadata a)"
    and serves: "serves (app_metadata a ! i) (normalize_request_path path)"
    and best: "\<forall>md' \<in> set (app_metadata a). serves md' (normalize_request_path path) \<longrightarrow>
       outranks (app_metadata a ! i) md'"
  shows "\<exists>caps. route_request (inner_of_app a) (rm_method (app_metadata a ! i)) path
    = Ret (Routed (word_of_nat i) caps)"
proof -
  let ?p = "normalize_request_path path" and ?md = "app_metadata a ! i"
  have id: "route_id_index (word_of_nat i) = i"
    using i wf wf_app_lengths[OF wf] by (intro route_id_index_of_nat) (simp add: wf_app_def)
  have mem: "?md \<in> set (app_metadata a)" using i by simp
  show ?thesis
  proof (rule route_request_cases[OF wf small, of "rm_method ?md"], goal_cases)
    case literal: 1
    then obtain n r where "static_at (app_static a) ?p n = Some r" by blast
    then have "\<exists>md' \<in> set (app_metadata a). serves md' ?p \<and> md_static md'"
      unfolding static_registered[OF wf] using nth_mem by (fastforce simp: serves_def)
    then have st: "md_static ?md" using best by (auto simp: outranks_def)
    then have "static_at (app_static a) ?p (rm_method ?md) = Some (word_of_nat i)"
      using serves i by (simp add: static_registered[OF wf] id serves_def)
    then show ?thesis
      using literal(2) by (simp add: answer_def routed_of_def)
  next
    case missing: 2
    then show ?thesis
      using static_serves[OF wf mem] dynamic_serves[OF wf mem] serves by fastforce
  next
    case pattern: (3 ks caps)
    have dyn: "\<not> md_static ?md"
      using static_serves[OF wf mem _ serves] pattern(1) by fastforce
    obtain md' where md': "md' \<in> set (app_metadata a)" "\<not> md_static md'" "pattern_of (rm_segments md') = ks"
      "serves md' ?p"
      using pattern(2) by (auto simp: best_pattern_def registered_candidate[OF wf] serves_def)
    then have "pattern_of (rm_segments ?md) = ks \<or> preferred (pattern_of (rm_segments ?md)) ks"
      using best dyn by (auto simp: outranks_def)
    moreover have "pattern_of (rm_segments ?md) = ks \<or> preferred ks (pattern_of (rm_segments ?md))"
      using dynamic_serves[OF wf mem dyn serves] pattern(2) by (auto simp: best_pattern_def)
    ultimately have "pattern_of (rm_segments ?md) = ks"
      using preferred_asym by blast
    then have "route_at (app_dynamic a) ks (rm_method ?md) = Some (word_of_nat i)"
      using i dyn by (simp add: dynamic_registered[OF wf] id)
    then show ?thesis
      using pattern(5) by (simp add: answer_def routed_of_def)
  qed
qed

section \<open>Dispatch that cannot panic\<close>

definition safe_kind :: "('s, 'i, 'w) handler_kind \<Rightarrow> bool" where
  "safe_kind kind =
     (case kind of
        Zero f \<Rightarrow> total_service f
      | Typed_No_Params h \<Rightarrow> \<forall>request s. total_service (h request s)
      | Typed h \<Rightarrow> safe_handler h
      | Raw h \<Rightarrow> \<forall>request. total_service (h request)
      | Static_Kind _ \<Rightarrow> True)"

text \<open>A route without captures must not ask for materialised ones, which trips a debug assertion.\<close>

definition safe_app :: "bool \<Rightarrow> ('s, 'i, 'w) app \<Rightarrow> bool" where
  "safe_app debug a \<longleftrightarrow>
     (\<forall>i < length (app_plans a).
        safe_kind (rp_handler (app_plans a ! i)) \<and>
        (debug \<longrightarrow> md_static (app_metadata a ! i) \<longrightarrow> rp_capture_mode (app_plans a ! i) \<noteq> Materialized))"

definition with_timeout :: "nat option \<Rightarrow> ('s, 'i, 'w) runtime_inner \<Rightarrow> ('s, 'i, 'w) runtime_inner" where
  "with_timeout t ri = ri\<lparr>ri_body_read_timeout := t\<rparr>"

lemma with_timeout_fields [simp]:
  "ri_body_read_timeout (with_timeout t ri) = t"
  "ri_state (with_timeout t ri) = ri_state ri" "ri_plans (with_timeout t ri) = ri_plans ri"
  "ri_capture_names (with_timeout t ri) = ri_capture_names ri" "ri_static (with_timeout t ri) = ri_static ri"
  "ri_dynamic (with_timeout t ri) = ri_dynamic ri" "ri_middleware (with_timeout t ri) = ri_middleware ri"
  by (simp_all add: with_timeout_def)

lemma route_request_timeout [simp]: "route_request (with_timeout t ri) = route_request ri"
  by (intro ext) (simp only: route_request_def with_timeout_fields)

lemma handle_matched_timeout [simp]: "handle_matched env (with_timeout t ri) = handle_matched env ri"
  by (intro ext) (simp only: handle_matched_def with_timeout_fields)

lemma wf_runtime_app: "wf_runtime ri \<longleftrightarrow> (\<exists>a t. wf_app a \<and> ri = with_timeout t (inner_of_app a))"
  by (auto simp: wf_runtime_def with_timeout_def inner_of_app_def)

lemma wf_app_plan:
  assumes "wf_app a" "i < length (app_metadata a)"
  shows "i < length (app_plans a)" "wf_plan (app_plans a ! i) (app_metadata a ! i)"
  using assms wf_app_lengths[OF assms(1)] by (auto simp: wf_app_def list_all2_conv_all_nth)

lemma safe_captures:
  assumes wf: "wf_app a" and i: "i < length (app_metadata a)" and safe: "safe_handler h"
    and debug: "debug \<longrightarrow> md_static (app_metadata a ! i) \<longrightarrow> rp_capture_mode (app_plans a ! i) \<noteq> Materialized"
    and valid: "utf8_valid (normalize_request_path (rq_path request))"
    and served: "served_captures (app_metadata a ! i) (normalize_request_path (rq_path request)) caps"
  shows "total_service (capture_invoke debug tv caps (rp_capture_mode (app_plans a ! i)) request
    (rm_capture_names (app_metadata a ! i)) h s)"
proof -
  note plan = wf_app_plan[OF wf i]
  show ?thesis
  proof (cases "md_static (app_metadata a ! i)")
    case True
    then have "\<not> debug \<or> rp_capture_mode (app_plans a ! i) = Capture_None"
      using debug plan(2) by (cases "rp_capture_mode (app_plans a ! i)") (auto simp: wf_plan_def)
    with True served safe show ?thesis
      by (simp add: served_captures_def safe_static_captures)
  next
    case False
    then obtain cs where cs: "caps = Dynamic_Captures cs" "wf_captures cs"
      "capture_ranges cs = captured_ranges (pattern_of (rm_segments (app_metadata a ! i)))
         (normalize_request_path (rq_path request))"
      using served by (auto simp: served_captures_def)
    show ?thesis
      unfolding cs(1)
      by (rule safe_dynamic_captures[OF safe cs(2)])
        (use captured_ranges_good[OF valid] cs(3) plan(2) in \<open>auto simp: wf_plan_def\<close>)
  qed
qed

lemma normalized_valid: "utf8_valid p \<Longrightarrow> utf8_valid (normalize_request_path p)"
proof -
  assume valid: "utf8_valid p"
  obtain t where t: "p = normalize_request_path p @ t" "set t \<subseteq> {slash}"
    using normalize_request_prefix by blast
  show ?thesis
  proof (cases t)
    case Nil
    then show ?thesis using t(1) valid by simp
  next
    case (Cons c t')
    then have "p = normalize_request_path p @ slash # t'"
      using t by simp
    then have "utf8_valid (normalize_request_path p @ slash # t')"
      using valid by simp
    then show ?thesis
      using utf8_valid_split_ascii[of "normalize_request_path p" slash t'] by simp
  qed
qed

lemma handle_matched_total:
  fixes a :: "('s, 'i, 'w) app"
  assumes wf: "wf_app a" and safe: "safe_app (env_debug env) a" and i: "route_id_index r < length (app_metadata a)"
    and valid: "utf8_valid (rq_path request)"
    and served: "served_captures (app_metadata a ! route_id_index r) (normalize_request_path (rq_path request)) caps"
    and typed: "rp_body_mode (app_plans a ! route_id_index r) \<noteq> Body_Incoming"
  shows "total_service (handle_matched env (inner_of_app a) request r caps is_head)"
proof -
  note plan = wf_app_plan[OF wf i]
  have kind: "safe_kind (rp_handler (app_plans a ! route_id_index r))"
    "env_debug env \<longrightarrow> md_static (app_metadata a ! route_id_index r) \<longrightarrow>
       rp_capture_mode (app_plans a ! route_id_index r) \<noteq> Materialized"
    using safe plan(1) by (auto simp: safe_app_def)
  have "total_service (capture_invoke (env_debug env) tv caps (rp_capture_mode (app_plans a ! route_id_index r))
      request (rm_capture_names (app_metadata a ! route_id_index r)) h s)"
    if "safe_handler h" for h :: "('s, 'w) handler_fn" and s tv
    using safe_captures[OF wf i that kind(2) normalized_valid[OF valid] served] .
  then show ?thesis
    using plan i kind(1) typed
    by (cases "rp_handler (app_plans a ! route_id_index r)")
      (auto simp: handle_matched_def safe_kind_def wf_plan_def)
qed

lemma prepare_matched_total:
  fixes a :: "('s, 'i, 'w) app"
  assumes wf: "wf_app a" and safe: "safe_app (env_debug env) a" and i: "route_id_index r < length (app_metadata a)"
    and valid: "utf8_valid (rq_path request)"
    and served: "served_captures (app_metadata a ! route_id_index r) (normalize_request_path (rq_path request)) caps"
  shows "total_service (run_or_panic (prepare_matched env (with_timeout t (inner_of_app a)) request r caps is_head)
    poll_prepared)"
proof -
  note plan = wf_app_plan[OF wf i]
  let ?plan = "app_plans a ! route_id_index r"
  have kind: "safe_kind (rp_handler ?plan)"
    "env_debug env \<longrightarrow> md_static (app_metadata a ! route_id_index r) \<longrightarrow> rp_capture_mode ?plan \<noteq> Materialized"
    using safe plan(1) by (auto simp: safe_app_def)
  have matched: "total_service (handle_matched env (inner_of_app a) (with_body request b) r caps is_head)"
    if "rp_body_mode ?plan \<noteq> Body_Incoming" for b
    using handle_matched_total[OF wf safe i, of "with_body request b" caps is_head] valid served that by simp
  have captured: "total_service (capture_invoke (env_debug env) tv caps (rp_capture_mode ?plan) (with_body request [])
      (rm_capture_names (app_metadata a ! route_id_index r)) h s)"
    if "safe_handler h" for h :: "('s, 'w) handler_fn" and s tv
    using safe_captures[OF wf i that kind(2), of "with_body request []"] normalized_valid[OF valid] served by simp
  show ?thesis
  proof (cases "rp_body_mode ?plan")
    case Body_None
    then show ?thesis
      using plan i kind(1) captured
      by (cases "rp_handler ?plan") (auto simp: prepare_matched_def safe_kind_def wf_plan_def)
  next
    case Buffered
    have "total_service (collect_and_handle env (with_timeout t (inner_of_app a)) request limit r caps is_head)" for limit
      using matched Buffered by (simp add: collect_and_handle_def split: collect_result.split)
    then show ?thesis
      using plan Buffered by (simp add: prepare_matched_def Let_def)
  next
    case Body_Incoming
    then show ?thesis
      using plan kind(1) by (auto simp: prepare_matched_def wf_plan_def safe_kind_def)
  qed
qed

lemma run_or_panic_bind: "run_or_panic (bind_outcome m f) g = run_or_panic m (\<lambda>x. run_or_panic (f x) g)"
  by (cases m) (simp_all add: run_or_panic_def)

lemma direct_service_total:
  assumes wf: "wf_app a" and safe: "safe_app (env_debug env) a" and small: "length (rq_path request) \<le> u32_max"
    and valid: "utf8_valid (rq_path request)"
  shows "total_service (direct_service env (with_timeout t (inner_of_app a)) request)"
proof -
  obtain r where r: "route_request (inner_of_app a) (rq_method request) (rq_path request) = Ret r"
      "\<And>i caps. r = Routed i caps \<Longrightarrow> route_id_index i < length (app_metadata a) \<and>
         served_captures (app_metadata a ! route_id_index i) (normalize_request_path (rq_path request)) caps"
    using route_request_sound[OF wf small, of "rq_method request"] unfolding Let_def by blast
  show ?thesis
  proof (cases r)
    case (Routed i caps)
    then show ?thesis
      using prepare_matched_total[OF wf safe _ valid, of i caps t] r(2)[OF Routed]
      by (simp add: direct_service_def prepare_direct_route[OF valid] r(1))
  qed (simp_all add: direct_service_def prepare_direct_route[OF valid] r(1) simple_answer_def)
qed

section \<open>A connection and a test answer alike\<close>

text \<open>A body that arrives in full as \<open>b\<close>: \<open>Limited\<close> passes it on or stops it at the limit.\<close>

definition arrives :: "'i env \<Rightarrow> nat option \<Rightarrow> 'i \<Rightarrow> string \<Rightarrow> bool" where
  "arrives env t body b \<longleftrightarrow>
     (\<forall>limit. env_collect env t limit body = (if length b \<le> limit then Collected b else Too_Long))"

definition announced_length :: "headers \<Rightarrow> nat option" where
  "announced_length hs = Option.bind (header_text hs ''content-length'') (parse_unsigned usize_max)"

definition reads_body :: "('s, 'i, 'w) route_plan \<Rightarrow> string \<Rightarrow> bool" where
  "reads_body plan b \<longleftrightarrow>
     (case rp_body_mode plan of
        Body_None \<Rightarrow> b = []
      | Buffered \<Rightarrow> (\<exists>h. rp_handler plan = Typed h) \<or> (\<exists>h. rp_handler plan = Typed_No_Params h)
      | Body_Incoming \<Rightarrow> False)"

lemma prepare_matched_memory:
  assumes plan: "route_id_index r < length (ri_plans ri)" "wf_plan (ri_plans ri ! route_id_index r) md"
    and names: "route_id_index r < length (ri_capture_names ri)"
    and arrives: "arrives env (ri_body_read_timeout ri) (rq_body request) b"
    and announced: "announced_length (rq_headers request) \<in> {None, Some (length b)}"
    and reads: "reads_body (ri_plans ri ! route_id_index r) b"
  shows "run_or_panic (prepare_matched env ri request r caps is_head) poll_prepared
    = handle_matched env ri (with_body request b) r caps is_head"
proof (cases "rp_body_mode (ri_plans ri ! route_id_index r)")
  case Body_None
  then have b: "b = []" using reads by (simp add: reads_body_def)
  have head: "map_response f (run_or_panic m g) = run_or_panic m (\<lambda>x. map_response f (g x))" for f m g
    by (cases m) (simp_all add: run_or_panic_def map_response_def)
  show ?thesis
    using plan names Body_None unfolding b
    by (cases "rp_handler (ri_plans ri ! route_id_index r)")
      (auto simp: prepare_matched_def handle_matched_def wf_plan_def)
next
  case Body_Incoming
  then show ?thesis using reads by (simp add: reads_body_def)
next
  case Buffered
  let ?plan = "ri_plans ri ! route_id_index r"
  let ?limit = "unat (rp_body_limit ?plan)"
  have typed: "(\<exists>h. rp_handler ?plan = Typed h) \<or> (\<exists>h. rp_handler ?plan = Typed_No_Params h)"
    using reads Buffered by (simp add: reads_body_def)
  have announced_limit: "announced_too_large (rq_headers request) n \<Longrightarrow> n < length b" for n
    using announced unfolding announced_length_def announced_too_large_def by (auto split: option.splits)
  show ?thesis
  proof (cases "?limit < length b")
    case True
    then show ?thesis
      using typed plan(1) arrives Buffered
      by (auto simp: prepare_matched_def Let_def collect_and_handle_def arrives_def handle_matched_def)
  next
    case False
    then show ?thesis
      using announced_limit[of ?limit] plan(1) arrives Buffered
      by (auto simp: prepare_matched_def Let_def collect_and_handle_def arrives_def)
  qed
qed

lemma direct_memory:
  assumes wf: "wf_app a" and small: "length (rq_path request) \<le> u32_max"
    and valid: "utf8_valid (rq_path request)"
    and arrives: "arrives env t (rq_body request) b"
    and announced: "announced_length (rq_headers request) \<in> {None, Some (length b)}"
    and reads: "\<And>i caps. route_request (inner_of_app a) (rq_method request) (rq_path request) = Ret (Routed i caps) \<Longrightarrow>
       reads_body (app_plans a ! route_id_index i) b"
  shows "direct_service env (with_timeout t (inner_of_app a)) request
    = ri_handle env (with_timeout t (inner_of_app a)) (with_body request b)"
proof -
  obtain r where r: "route_request (inner_of_app a) (rq_method request) (rq_path request) = Ret r"
      "\<And>i caps. r = Routed i caps \<Longrightarrow> route_id_index i < length (app_metadata a)"
    using route_request_sound[OF wf small, of "rq_method request"] unfolding Let_def by blast
  show ?thesis
  proof (cases r)
    case (Routed i caps)
    have "reads_body (app_plans a ! route_id_index i) b"
      using reads r(1) Routed by simp
    then show ?thesis
      using prepare_matched_memory[of i "with_timeout t (inner_of_app a)" "app_metadata a ! route_id_index i"
          env request b caps] wf_app_plan[OF wf r(2)[OF Routed]] r(2)[OF Routed] arrives announced
      by (simp add: direct_service_def prepare_direct_route[OF valid] ri_handle_route r(1) Routed
          del: handle_matched_timeout)
  qed (simp_all add: direct_service_def prepare_direct_route[OF valid] ri_handle_route r(1) simple_answer_def)
qed

section \<open>Scopes against routing\<close>

lemma parse_segment_ok: "parse_segment p = Ret s \<Longrightarrow> segment_ok (scope_of_segment s) p"
  by (auto simp: parse_segment_def scope_of_segment_def segment_ok_def outcome_simps split: if_splits)

lemma template_covers_itself:
  "parse_segments ps = Ret segs \<Longrightarrow> scope_covers (map scope_of_segment segs) ps True"
  by (induction ps arbitrary: segs) (auto simp: outcome_simps parse_segment_ok)

lemma pattern_covers:
  "pat_matches (pattern_of segs) ps \<Longrightarrow> scope_covers (map scope_of_segment segs) ps True"
proof (induction segs arbitrary: ps)
  case Nil
  then show ?case by (cases ps) (auto simp: pattern_of_def)
next
  case (Cons seg segs)
  then show ?case
    by (cases ps; cases seg) (auto simp: scope_of_segment_def segment_ok_def)
qed

lemma parse_scope_segments_append:
  "parse_scope_segments (ps @ qs) = Ret ss \<Longrightarrow> parse_scope_segments ps = Ret ss' \<Longrightarrow> \<exists>ss''. ss = ss' @ ss''"
  by (induction ps arbitrary: ss ss') (fastforce simp: outcome_simps)+

lemma scope_covers_take: "scope_covers (ss @ ss') vs b \<Longrightarrow> scope_covers ss vs False"
  by (induction ss vs b rule: scope_covers.induct) auto

lemma served_covered:
  assumes plan: "wf_plan plan md" and serves: "serves md (normalize_request_path path)"
  shows "scope_covers (map scope_of_segment (rm_segments md)) (split_path path) True"
proof (cases "md_static md")
  case True
  have "split_path (rm_template md) = split_path path"
    using serves True by (simp add: serves_def normalize_request_path_split)
  then show ?thesis
    using plan template_covers_itself by (auto simp: wf_plan_def parse_template_def)
next
  case False
  then show ?thesis
    using serves pattern_covers by (simp add: serves_def normalize_request_path_split)
qed

lemma routed_covered:
  assumes wf: "wf_app a" and small: "length path \<le> u32_max"
    and routed: "route_request (inner_of_app a) m path = Ret (Routed r caps)"
  shows "scope_covers (map scope_of_segment (rm_segments (app_metadata a ! route_id_index r))) (split_path path) True"
    and "answers_method (app_metadata a ! route_id_index r) m"
proof -
  have *: "route_id_index r < length (app_metadata a)"
    "serves (app_metadata a ! route_id_index r) (normalize_request_path path)"
    "answers_method (app_metadata a ! route_id_index r) m"
    using route_request_sound[OF wf small, of m] routed by (auto simp: Let_def)
  show "scope_covers (map scope_of_segment (rm_segments (app_metadata a ! route_id_index r))) (split_path path) True"
    using served_covered[OF wf_app_plan(2)[OF wf *(1)] *(2)] .
  show "answers_method (app_metadata a ! route_id_index r) m" by (rule *(3))
qed

text \<open>A layer put on a prefix covers what is routed to a template that begins with the prefix.\<close>

lemma prefix_layer_covers:
  assumes wf: "wf_app b" and small: "length path \<le> u32_max"
    and routed: "route_request (inner_of_app b) m path = Ret (Routed r caps)"
    and set: "app_layer_for pfx l a = Ret a'"
    and split: "split_path (rm_template (app_metadata b ! route_id_index r)) = split_path pfx @ rest"
  shows "\<exists>entry. app_middleware a' = app_middleware a @ [entry] \<and> sl_layer entry = l \<and>
    scope_matches (sl_scope entry) m path"
proof -
  let ?md = "app_metadata b ! route_id_index r"
  have len: "route_id_index r < length (app_metadata b)"
    using route_request_sound[OF wf small, of m] routed by (auto simp: Let_def)
  have parse: "scope_parse (rm_template ?md) = Ret (map scope_of_segment (rm_segments ?md))"
    using wf_app_plan(2)[OF wf len] scope_parse_template by (auto simp: wf_plan_def)
  obtain segs where segs: "scope_parse pfx = Ret segs"
    "a' = a\<lparr>app_middleware := app_middleware a @ [\<lparr>sl_scope = Scope_Prefix segs, sl_layer = l\<rparr>]\<rparr>"
    using set unfolding app_layer_for_def map_outcome_Ret by blast
  have "parse_scope_segments (split_path pfx @ rest) = Ret (map scope_of_segment (rm_segments ?md))"
    using parse split by (simp add: scope_parse_def)
  then have "\<exists>ss. map scope_of_segment (rm_segments ?md) = segs @ ss"
    using segs(1) parse_scope_segments_append by (fastforce simp: scope_parse_def)
  then have "scope_covers segs (split_path path) False"
    using routed_covered(1)[OF wf small routed] scope_covers_take by metis
  then show ?thesis
    unfolding segs(2) by (auto simp: scope_matches_def segments_match_covers)
qed

end
