(* ===== verification/Dispatch_Properties.thy ===== *)
theory Dispatch_Properties
  imports Dispatch_Laws
begin

text \<open>
  The properties of registration, building and dispatch, each applied to the small application of
  \<open>App_Registration\<close>: a static text at \<open>/ping\<close> and a handler at \<open>/items/{id}\<close>.
\<close>

section \<open>The small application\<close>

lemma demo_routing:
  "\<exists>a. demo_app = Ret a \<and> reachable_app a \<and> wf_app a \<and> length (app_metadata a) = 2 \<and>
     serves (app_metadata a ! 0) ''/ping'' \<and> \<not> serves (app_metadata a ! 1) ''/ping'' \<and>
     \<not> serves (app_metadata a ! 0) ''/items/7'' \<and> serves (app_metadata a ! 1) ''/items/7'' \<and>
     \<not> serves (app_metadata a ! 0) ''/x'' \<and> \<not> serves (app_metadata a ! 1) ''/x'' \<and>
     rm_method (app_metadata a ! 0) = GET \<and> rm_method (app_metadata a ! 1) = GET \<and>
     rm_template (app_metadata a ! 1) = ''/items/{id}'' \<and> app_last a = Some 1 \<and>
     rp_body_mode (app_plans a ! 1) = Body_None \<and> safe_app True a"
proof -
  obtain a md0 md1 plan0 plan1 where a: "demo_app = Ret a" "reachable_app a" "wf_app a"
      "app_metadata a = [md0, md1]" "app_plans a = [plan0, plan1]" "app_last a = Some 1"
      "rm_method md0 = GET" "rm_template md0 = ''/ping''" "rm_segments md0 = [Static ''ping'']"
      "rm_method md1 = GET" "rm_template md1 = ''/items/{id}''"
      "rm_segments md1 = [Static ''items'', Capture ''id'']"
      "rp_handler plan0 = Static_Kind (static_text ''ok'')" "rp_capture_mode plan0 = Capture_None"
      "rp_handler plan1 = Typed (h_call item_handler)" "rp_capture_mode plan1 = Borrowed"
      "rp_body_mode plan1 = Body_None"
    using demo_app_ok by blast
  have "safe_handler (h_call item_handler)"
    unfolding item_handler_def extractor_handler_def
    by (simp add: safe_call_extractors safe_extractors)
  then have "safe_app True a"
    using a by (auto simp: safe_app_def safe_kind_def less_Suc_eq)
  moreover have "valid_percent_encoding ''7''"
    using decode_bytes_literal[of "''7''" "[]"] by (simp add: valid_percent_encoding_decode)
  ultimately show ?thesis
    using a by (auto simp: serves_def md_static_def split_path_pieces pieces_def)
qed

lemma demo_paths [simp]:
  "normalize_request_path ''/ping'' = ''/ping''" "normalize_request_path ''/items/7'' = ''/items/7''"
  "normalize_request_path ''/items/7/'' = ''/items/7''" "normalize_request_path ''/x'' = ''/x''"
  by (simp_all add: normalize_request_path_def trim_end_char_def)

lemma demo_short:
  "length ''/ping'' \<le> u32_max" "length ''/items/7'' \<le> u32_max" "length ''/items/7/'' \<le> u32_max"
  "length ''/x'' \<le> u32_max"
  by (simp_all add: u32_max_def)

section \<open>Routing\<close>

text \<open>C1: On a well-formed application the routing decision never panics. A request is answered as
  missing exactly when no registration serves its normalised path; when it is routed, it is to a
  registration that serves the path and answers the method, with the captures of its own template,
  and that comes before every other registration that serves the path: a literal path before a
  template with captures, and of two templates the one with a literal where they first differ.\<close>

theorem routing_is_sound:
  assumes "wf_app a" "length path \<le> u32_max"
  shows "\<exists>r. route_request (inner_of_app a) m path = Ret r \<and>
    (r = Routed_Missing \<longleftrightarrow>
       (\<forall>md \<in> set (app_metadata a). \<not> serves md (normalize_request_path path))) \<and>
    (\<forall>i caps. r = Routed i caps \<longrightarrow>
       route_id_index i < length (app_metadata a) \<and>
       (let md = app_metadata a ! route_id_index i
        in serves md (normalize_request_path path) \<and> answers_method md m \<and>
           served_captures md (normalize_request_path path) caps \<and>
           (\<forall>md' \<in> set (app_metadata a). serves md' (normalize_request_path path) \<longrightarrow> outranks md md')))"
  by (rule route_request_sound[OF assms])

lemma routing_is_sound_witness:
  "\<exists>a. demo_app = Ret a \<and> route_request (inner_of_app a) GET ''/x'' = Ret Routed_Missing"
proof -
  obtain a where a: "demo_app = Ret a" "wf_app a" "length (app_metadata a) = 2"
      "\<not> serves (app_metadata a ! 0) ''/x''" "\<not> serves (app_metadata a ! 1) ''/x''"
    using demo_routing by blast
  then have "\<forall>md \<in> set (app_metadata a). \<not> serves md ''/x''"
    by (auto simp: in_set_conv_nth less_2_cases_iff)
  then show ?thesis
    using routing_is_sound[OF a(2) demo_short(4), of GET] a(1) by auto
qed

text \<open>C2: No registration is lost: a request with the method of a registration and a path that it
  serves is routed to exactly that registration, unless another registration that serves the path
  comes before it.\<close>

theorem routing_is_complete:
  assumes "wf_app a" "length path \<le> u32_max" "i < length (app_metadata a)"
    "serves (app_metadata a ! i) (normalize_request_path path)"
    "\<forall>md' \<in> set (app_metadata a). serves md' (normalize_request_path path) \<longrightarrow> outranks (app_metadata a ! i) md'"
  shows "\<exists>caps. route_request (inner_of_app a) (rm_method (app_metadata a ! i)) path
    = Ret (Routed (word_of_nat i) caps)"
  by (rule route_request_complete[OF assms])

lemma routing_is_complete_witness:
  "\<exists>a caps. demo_app = Ret a \<and> route_request (inner_of_app a) GET ''/items/7/'' = Ret (Routed 1 caps)"
proof -
  obtain a where a: "demo_app = Ret a" "wf_app a" "length (app_metadata a) = 2"
      "serves (app_metadata a ! 1) ''/items/7''" "\<not> serves (app_metadata a ! 0) ''/items/7''"
      "rm_method (app_metadata a ! 1) = GET" "serves (app_metadata a ! 0) ''/ping''"
      "\<not> serves (app_metadata a ! 1) ''/ping''"
    using demo_routing by blast
  have "outranks (app_metadata a ! 1) (app_metadata a ! 1)"
    by (auto simp: outranks_def)
  then have "\<forall>md' \<in> set (app_metadata a). serves md' ''/items/7'' \<longrightarrow> outranks (app_metadata a ! 1) md'"
    using a(3,5) by (auto simp: in_set_conv_nth less_2_cases_iff)
  then show ?thesis
    using routing_is_complete[OF a(2) demo_short(3), of 1] a by auto
qed

section \<open>Dispatch\<close>


definition demo_request :: "http_method \<Rightarrow> string \<Rightarrow> 'b \<Rightarrow> 'b request" where
  "demo_request m path body =
     \<lparr>rq_method = m, rq_path = path, rq_query = None, rq_version = 11, rq_headers = no_headers, rq_peer = None,
      rq_body = body\<rparr>"

definition demo_env :: "string env" where
  "demo_env =
     \<lparr>env_debug = True, env_to_vec = (\<lambda>_. Some []),
      env_collect = (\<lambda>t limit b. if length b \<le> limit then Collected b else Too_Long)\<rparr>"

lemma demo_request_fields [simp]:
  "rq_path (demo_request m path body) = path" "rq_method (demo_request m path body) = m"
  "rq_headers (demo_request m path body) = no_headers" "rq_body (demo_request m path body) = body"
  by (simp_all add: demo_request_def)

lemma demo_valid: "utf8_valid ''/items/7''" "utf8_valid ''/ping''"
  by simp_all



lemma demo_routed:
  assumes "demo_app = Ret a" "route_request (inner_of_app a) m ''/items/7'' = Ret (Routed i caps)"
  shows "route_id_index i = 1"
proof -
  have a: "wf_app a" "length (app_metadata a) = 2" "\<not> serves (app_metadata a ! 0) ''/items/7''"
    using demo_routing assms(1) outcome.inject(1) by metis+
  then have "route_id_index i < 2" "serves (app_metadata a ! route_id_index i) ''/items/7''"
    using route_request_sound[OF a(1) demo_short(2), of m] assms(2) by (auto simp: Let_def)
  then show ?thesis
    using a(3) by (cases "route_id_index i") (auto simp: less_2_cases_iff)
qed


text \<open>The dispatcher that \<open>App\<close> has for tests is the one the built runtime has.\<close>

theorem app_handle_is_runtime_handle: "app_handle env a = ri_handle env (inner_of_app a)"
  by (rule app_handle_inner)

section \<open>Scopes\<close>

text \<open>C5: A layer is never skipped for a request the router serves on its route. Whatever is registered
  later, a layer put on a route covers every request that is routed to that route, and a layer put
  on a prefix covers every request that is routed to a template that begins with that prefix.\<close>

theorem layers_cover_their_routes:
  assumes "wf_app b" "length path \<le> u32_max"
    "route_request (inner_of_app b) m path = Ret (Routed r caps)"
  shows "(app_last a = Some i \<longrightarrow> app_route_layer l a = Ret a' \<longrightarrow>
        rm_template (app_metadata a ! i) = rm_template (app_metadata b ! route_id_index r) \<longrightarrow>
        rm_method (app_metadata a ! i) = rm_method (app_metadata b ! route_id_index r) \<longrightarrow>
        (\<exists>entry. app_middleware a' = app_middleware a @ [entry] \<and> sl_layer entry = l \<and>
           scope_matches (sl_scope entry) m path)) \<and>
    (app_layer_for pfx l a = Ret a' \<longrightarrow>
        split_path (rm_template (app_metadata b ! route_id_index r)) = split_path pfx @ rest \<longrightarrow>
        (\<exists>entry. app_middleware a' = app_middleware a @ [entry] \<and> sl_layer entry = l \<and>
           scope_matches (sl_scope entry) m path))"
proof -
  let ?md = "app_metadata b ! route_id_index r"
  have len: "route_id_index r < length (app_metadata b)"
    using route_request_sound[OF assms(1,2), of m] assms(3) by (auto simp: Let_def)
  note cov = routed_covered[OF assms]
  have parse: "scope_parse (rm_template ?md) = Ret (map scope_of_segment (rm_segments ?md))"
    using wf_app_plan(2)[OF assms(1) len] scope_parse_template by (auto simp: wf_plan_def)
  have one: "\<exists>entry. app_middleware a' = app_middleware a @ [entry] \<and> sl_layer entry = l \<and>
      scope_matches (sl_scope entry) m path"
    if "app_last a = Some i" "app_route_layer l a = Ret a'" "rm_template (app_metadata a ! i) = rm_template ?md"
      "rm_method (app_metadata a ! i) = rm_method ?md"
  proof -
    have a': "a' = a\<lparr>app_middleware := app_middleware a
        @ [\<lparr>sl_scope = Scope_Route (rm_method ?md) (map scope_of_segment (rm_segments ?md)), sl_layer = l\<rparr>]\<rparr>"
      using that parse by (auto simp: app_route_layer_def outcome_simps)
    show ?thesis
      using cov unfolding a' by (auto simp: scope_matches_def segments_match_covers answers_method_def)
  qed
  moreover have "\<exists>entry. app_middleware a' = app_middleware a @ [entry] \<and> sl_layer entry = l \<and>
      scope_matches (sl_scope entry) m path"
    if set: "app_layer_for pfx l a = Ret a'" and split: "split_path (rm_template ?md) = split_path pfx @ rest"
    by (rule prefix_layer_covers[OF assms set split])
  ultimately show ?thesis by blast
qed

lemma layers_cover_their_routes_witness:
  "\<exists>a a' entry. demo_app = Ret a \<and> app_route_layer (\<lambda>request k. k request) a = Ret a' \<and>
     app_middleware a' = app_middleware a @ [entry] \<and> scope_matches (sl_scope entry) GET ''/items/7''"
proof -
  obtain a where a: "demo_app = Ret a" "wf_app a" "length (app_metadata a) = 2" "app_last a = Some 1"
      "serves (app_metadata a ! 1) ''/items/7''" "\<not> serves (app_metadata a ! 0) ''/items/7''"
      "rm_method (app_metadata a ! 1) = GET"
    using demo_routing by blast
  have "outranks (app_metadata a ! 1) (app_metadata a ! 1)"
    by (auto simp: outranks_def)
  then have "\<forall>md' \<in> set (app_metadata a). serves md' ''/items/7'' \<longrightarrow> outranks (app_metadata a ! 1) md'"
    using a(3,6) by (auto simp: in_set_conv_nth less_2_cases_iff)
  then obtain caps where routed: "route_request (inner_of_app a) GET ''/items/7'' = Ret (Routed 1 caps)"
    using route_request_complete[OF a(2) demo_short(2), of 1] a(3,5,7) by auto
  have one: "route_id_index 1 = 1"
    by (simp add: route_id_index_def)
  obtain a' where a': "app_route_layer (\<lambda>request k. k request) a = Ret a'"
    using app_route_layer_total[OF a(2)] by (rule no_panicE)
  show ?thesis
    using layers_cover_their_routes[OF a(2) demo_short(2) routed, of a 1 "\<lambda>request k. k request" a'] a(1,4) a'
    unfolding one by blast
qed

section \<open>Registration and building\<close>

text \<open>What a registration does. On a well-formed application with room for it, \<open>add_route\<close> panics
  exactly when the path does not begin with a slash or is no template, when another route has the
  same method and the same literal path or the same pattern of literals and captures, when the
  method is none of the seven, or when the handler takes more than one \<open>Path<T>\<close>. A template with
  more captures than the limit only records an error for \<open>build\<close>; otherwise exactly one route is
  added, with the normalised template, and becomes the one the per-route methods act on.\<close>

theorem registration_cases:
  assumes "wf_app a" "has_room path a"
  shows "(case add_route m path h a of
      Panic _ \<Rightarrow> \<not> accepted m path (path_extractors h (app_schemas a)) a
    | Ret a' \<Rightarrow>
        accepted m path (path_extractors h (app_schemas a)) a \<and> wf_app a' \<and>
        (\<exists>segs. parse_template (normalize_path path) = Ret segs \<and>
          (if too_many_captures segs
           then app_metadata a' = app_metadata a \<and> app_plans a' = app_plans a \<and> app_route_error a' \<noteq> None
           else \<exists>md plan. app_metadata a' = app_metadata a @ [md] \<and> app_plans a' = app_plans a @ [plan] \<and>
                  app_last a' = Some (length (app_plans a)) \<and> rm_method md = m \<and>
                  rm_template md = normalize_path path \<and> rm_segments md = segs \<and>
                  rp_handler plan = handler_kind_of h)))"
proof (cases "add_route m path h a")
  case (Panic e)
  then show ?thesis
    using add_route_accepts[OF assms, of m h] by simp
next
  case (Ret a')
  then have acc: "accepted m path (path_extractors h (app_schemas a)) a"
    using add_route_accepts[OF assms, of m h] by simp
  then obtain segs where segs: "parse_template (normalize_path path) = Ret segs"
    by (auto simp: accepted_def)
  have "app_metadata a' = app_metadata a \<and> app_plans a' = app_plans a \<and> app_route_error a' \<noteq> None"
    if "too_many_captures segs"
    using Ret segs that
    by (auto simp: add_route_def Let_def outcome_simps record_capture_limit_error_cases split: if_splits)
  then show ?thesis
    using add_route_wf[OF assms Ret] add_route_adds[OF Ret segs] acc segs by (auto simp: Ret)
qed

lemma registration_cases_witness:
  "\<exists>a a' :: (unit, string, unit) app. app_new = Ret a \<and>
     add_route GET ''/items/{id}'' item_handler a = Ret a' \<and> wf_app a' \<and>
     \<not> no_panic (add_route ''TRACE'' ''/items/{id}'' item_handler a)"
proof -
  obtain a :: "(unit, string, unit) app" where a: "app_new = Ret a" "wf_app a" "has_room ''/items/{id}'' a"
      "accepted GET ''/items/{id}'' (path_extractors item_handler (app_schemas a)) a"
    using fresh_item_route by blast
  obtain a' where "add_route GET ''/items/{id}'' item_handler a = Ret a'" "wf_app a'"
    using registration_cases[OF a(2,3), of GET item_handler] a(4) by (auto split: outcome.splits)
  moreover have "\<not> accepted ''TRACE'' ''/items/{id}'' n a" for n
    by (simp add: accepted_def demo_templates too_many_captures_def max_capture_params_def
        method_slot_def)
  then have "\<not> no_panic (add_route ''TRACE'' ''/items/{id}'' item_handler a)"
    using registration_cases[OF a(2,3), of "''TRACE''" item_handler]
    by (auto simp: no_panic_def split: outcome.splits)
  ultimately show ?thesis using a(1) by blast
qed

text \<open>C7: Every application the builder's methods can reach is well formed, and a successful \<open>build\<close> of
  it yields a well-formed runtime. It has then found no route error, no two types under one schema
  name, and no security requirement, of the document or of a route, that is not a declared scheme.\<close>

theorem reachable_apps_build:
  assumes "reachable_app a" "length (app_plans a) + 2 \<le> u32_max"
    "app_build reason to_text quote a = Ret (Inr rt)"
  shows "wf_app a \<and> wf_runtime (rt_inner rt) \<and> app_route_error a = None \<and>
    sr_conflicts (app_schemas a) = [] \<and>
    (\<forall>c. app_openapi a = Some c \<longrightarrow>
       (\<forall>group \<in> set (oc_default_security c). \<forall>name \<in> set group. name \<in> fst ` set (oc_schemes c)) \<and>
       (\<forall>md \<in> set (app_metadata a). \<forall>groups. \<not> rm_builtin md \<longrightarrow>
          op_security (rm_operation md) = Some groups \<longrightarrow>
          (\<forall>group \<in> set groups. \<forall>name \<in> set group. name \<in> fst ` set (oc_schemes c))))"
  using reachable_wf[OF assms(1)] build_wf[OF _ assms(2,3)] build_checked[OF assms(3)] by blast

lemma reachable_apps_build_witness:
  "\<exists>(a :: (unit, string, unit) app) rt. reachable_app a \<and>
     app_build (\<lambda>_. None) (\<lambda>_. []) (\<lambda>s. s) a = Ret (Inr rt) \<and> wf_runtime (rt_inner rt)"
proof -
  obtain a0 :: "(unit, string, unit) app" where a0: "app_new = Ret a0" "app_plans a0 = []"
    using app_new_wf by blast
  then have open0: "app_openapi a0 = None" "app_route_error a0 = None" "app_swagger a0 = None"
    by (auto simp: app_new_def outcome_simps)
  obtain a :: "(unit, string, unit) app" where a: "app_with_state () a0 = Ret a"
      "app_plans a = []" "app_openapi a = None" "app_route_error a = None" "app_swagger a = None"
      "app_schemas a = registry_document"
    using a0 open0 by (auto simp: app_with_state_def)
  have reach: "reachable_app a"
    using reachable_app.fresh[OF a0(1) a(1)] .
  obtain rt where rt: "app_build (\<lambda>_. None) (\<lambda>_. []) (\<lambda>s. s) a = Ret (Inr rt)"
    using a by (auto simp: app_build_def validate_schemas_def validate_security_def registry_document_def
        prepare_openapi_def prepare_swagger_def install_generated_routes_def)
  then show ?thesis
    using reachable_apps_build[OF reach _ rt] reach a(2) by (auto simp: u32_max_def)
qed

section \<open>Body limits\<close>


text \<open>A runtime with one route, \<open>POST /e\<close>.\<close>

definition one_route :: "route_set \<Rightarrow> (unit, string, unit) route_plan \<Rightarrow> (unit, string, unit) runtime_inner" where
  "one_route rs plan =
     \<lparr>ri_body_read_timeout = None, ri_state = (), ri_plans = [plan], ri_capture_names = [Some []],
      ri_static = [''/e'' \<mapsto> rs], ri_dynamic = empty_trie, ri_middleware = []\<rparr>"

lemma one_route_set:
  obtains rs where "route_set_insert POST 0 empty_route_set = Ret rs" "wf_route_set rs"
    "\<And>plan. route_request (one_route rs plan) POST ''/e'' = Ret (Routed 0 Static_Captures)"
proof -
  obtain slot where slot: "method_slot POST = Some slot"
    by (simp add: method_slot_def)
  obtain rs where rs: "route_set_insert POST 0 empty_route_set = Ret rs" "wf_route_set rs"
      "route_table rs = (route_table empty_route_set)(POST \<mapsto> word_of_nat 0)"
    using route_set_insert_table[OF wf_empty_route_set _ slot, of 0] by auto
  have "normalize_request_path ''/e'' = ''/e''"
    by (simp add: normalize_request_path_def trim_end_char_def)
  then have "route_request (one_route rs plan) POST ''/e'' = Ret (Routed 0 Static_Captures)" for plan
    by (simp add: route_request_def one_route_def resolve_answer[OF rs(2)] rs(3) answer_def routed_of_def)
  with rs show thesis using that by blast
qed

lemma one_route_plan [simp]: "ri_plans (one_route rs plan) = [plan]"
  by (simp add: one_route_def)


section \<open>Literal routes and \<open>Params\<close>\<close>



end
