(* ===== verification/Frame_Scanner.thy ===== *)
theory Frame_Scanner
  imports Rust_Prelude
begin

unbundle bit_operations_syntax

text \<open>
  Model of \<open>FrameScanner\<close> in \<open>src/runtime.rs\<close>, which follows the HTTP/2 frames a connection writes,
  and its specification over whole frames. Bytes are \<open>u8\<close> here, since the scanner computes with
  them. The loop of \<open>feed\<close> answers \<open>None\<close> if it does not end; on the states the scanner reaches it
  always ends.
\<close>

section \<open>The scanner\<close>

record scanner =
  fs_header :: "u8 list"
  fs_filled :: nat
  fs_left :: u32
  fs_carries :: bool

definition scanner_default :: scanner where
  "scanner_default = \<lparr>fs_header = replicate 9 0, fs_filled = 0, fs_left = 0, fs_carries = False\<rparr>"

text \<open>\<open>u32::from_be_bytes([0, a, b, c])\<close>\<close>

definition be24 :: "u8 \<Rightarrow> u8 \<Rightarrow> u8 \<Rightarrow> u32" where
  "be24 a b c = push_bit 16 (ucast a) OR push_bit 8 (ucast b) OR ucast c"

text \<open>A complete frame header starts the frame.\<close>

definition start_frame :: "scanner \<Rightarrow> bool \<Rightarrow> bool \<times> scanner" where
  "start_frame s progress =
     (let kind = fs_header s ! 3
      in (progress \<or> kind = 1,
          s\<lparr>fs_filled := 0, fs_left := be24 (fs_header s ! 0) (fs_header s ! 1) (fs_header s ! 2),
            fs_carries := kind \<in> {0, 1, 9}\<rparr>))"

definition copy_header :: "scanner \<Rightarrow> nat \<Rightarrow> u8 list \<Rightarrow> scanner" where
  "copy_header s n data =
     s\<lparr>fs_header := take (fs_filled s) (fs_header s) @ take n data @ drop (fs_filled s + n) (fs_header s),
       fs_filled := fs_filled s + n\<rparr>"

partial_function (option) feed_loop ::
  "scanner \<Rightarrow> u8 list \<Rightarrow> bool \<Rightarrow> (bool \<times> scanner) option" where
  "feed_loop s data progress =
     (if data = [] then Some (progress, s)
      else if 0 < fs_left s then
        (let n = min (unat (fs_left s)) (length data)
         in feed_loop (s\<lparr>fs_left := fs_left s - word_of_nat n\<rparr>) (drop n data) (progress \<or> fs_carries s))
      else
        (let n = min (9 - fs_filled s) (length data);
             s = copy_header s n data
         in if fs_filled s = 9
            then (let (progress, s) = start_frame s progress in feed_loop s (drop n data) progress)
            else feed_loop s (drop n data) progress))"

definition feed :: "scanner \<Rightarrow> u8 list \<Rightarrow> (bool \<times> scanner) option" where
  "feed s data = feed_loop s data False"

definition wf_scanner :: "scanner \<Rightarrow> bool" where
  "wf_scanner s \<longleftrightarrow> length (fs_header s) = 9 \<and> fs_filled s < 9"

section \<open>One byte at a time\<close>

text \<open>The effect of a single byte, the reference for any cut of the stream.\<close>

definition scan_byte :: "scanner \<Rightarrow> u8 \<Rightarrow> bool \<times> scanner" where
  "scan_byte s b =
     (if 0 < fs_left s then (fs_carries s, s\<lparr>fs_left := fs_left s - 1\<rparr>)
      else (let s = s\<lparr>fs_header := (fs_header s)[fs_filled s := b], fs_filled := Suc (fs_filled s)\<rparr>
            in if fs_filled s = 9 then start_frame s False else (False, s)))"

fun scan_bytes :: "scanner \<Rightarrow> u8 list \<Rightarrow> bool \<times> scanner" where
  "scan_bytes s [] = (False, s)"
| "scan_bytes s (b # bs) =
     (let (p, s) = scan_byte s b; (p', s) = scan_bytes s bs in (p \<or> p', s))"

lemma scan_bytes_append:
  "scan_bytes s (xs @ ys) =
     (let (p, s) = scan_bytes s xs; (p', s) = scan_bytes s ys in (p \<or> p', s))"
  by (induction xs arbitrary: s) (auto simp: Let_def split: prod.splits)

lemma scan_bytes_payload:
  "n \<le> unat (fs_left s) \<Longrightarrow> length xs = n \<Longrightarrow>
     scan_bytes s xs = (fs_carries s \<and> 0 < n, s\<lparr>fs_left := fs_left s - word_of_nat n\<rparr>)"
proof (induction xs arbitrary: s n)
  case (Cons x xs)
  define m where "m = length xs"
  have n: "n = Suc m" using Cons.prems by (simp add: m_def)
  have pos: "0 < fs_left s"
    using Cons.prems n by (simp add: word_less_nat_alt)
  have "unat (fs_left s - 1) = unat (fs_left s) - 1"
    using pos unat_minus_one[of "fs_left s"] by (simp add: word_gt_0)
  then have "m \<le> unat (fs_left (s\<lparr>fs_left := fs_left s - 1\<rparr>))"
    using Cons.prems n by simp
  from Cons.IH[OF this] m_def have "scan_bytes (s\<lparr>fs_left := fs_left s - 1\<rparr>) xs
      = (fs_carries s \<and> 0 < m, s\<lparr>fs_left := fs_left s - 1 - word_of_nat m\<rparr>)"
    by simp
  then show ?case
    using pos n by (auto simp: scan_byte_def algebra_simps)
qed simp

lemma scan_bytes_header:
  assumes "fs_left s = 0" "length (fs_header s) = 9" "fs_filled s + length xs \<le> 9" "fs_filled s < 9" "xs \<noteq> []"
  shows "scan_bytes s xs =
    (let s = copy_header s (length xs) xs in if fs_filled s = 9 then start_frame s False else (False, s))"
  using assms
proof (induction xs arbitrary: s)
  case (Cons x xs)
  define s1 where "s1 = s\<lparr>fs_header := (fs_header s)[fs_filled s := x], fs_filled := Suc (fs_filled s)\<rparr>"
  have head: "take (Suc (fs_filled s)) ((fs_header s)[fs_filled s := x]) = take (fs_filled s) (fs_header s) @ [x]"
    using Cons.prems by (simp add: take_Suc_conv_app_nth)
  show ?case
  proof (cases "xs = []")
    case True
    have "s1 = copy_header s 1 [x]"
      using Cons.prems by (simp add: s1_def copy_header_def upd_conv_take_nth_drop)
    then show ?thesis
      using True Cons.prems(1) by (auto simp: scan_byte_def s1_def Let_def split: prod.splits)
  next
    case False
    have copy: "copy_header s1 (length xs) xs = copy_header s (length (x # xs)) (x # xs)"
      using head by (simp add: copy_header_def s1_def)
    have more: "fs_filled s1 < 9"
      using Cons.prems False by (cases xs) (auto simp: s1_def)
    have "scan_bytes s (x # xs) = scan_bytes s1 xs"
      using Cons.prems(1) more by (auto simp: scan_byte_def s1_def Let_def split: prod.splits)
    also have "\<dots> = (let s = copy_header s1 (length xs) xs
        in if fs_filled s = 9 then start_frame s False else (False, s))"
      using Cons.prems False more by (intro Cons.IH) (auto simp: s1_def)
    finally show ?thesis
      using copy by simp
  qed
qed simp

lemma start_frame_progress: "start_frame s p = (p \<or> fst (start_frame s False), snd (start_frame s False))"
  by (simp add: start_frame_def Let_def)

lemma wf_scan_byte: "wf_scanner s \<Longrightarrow> wf_scanner (snd (scan_byte s b))"
  by (auto simp: wf_scanner_def scan_byte_def start_frame_def Let_def)

lemma wf_scan_bytes: "wf_scanner s \<Longrightarrow> wf_scanner (snd (scan_bytes s xs))"
proof (induction xs arbitrary: s)
  case (Cons x xs)
  then show ?case
    using wf_scan_byte[of s x] by (auto simp: Let_def split: prod.splits) (metis snd_conv)
qed simp

lemma feed_loop_scan:
  "wf_scanner s \<Longrightarrow> feed_loop s data progress
     = Some (progress \<or> fst (scan_bytes s data), snd (scan_bytes s data))"
proof (induction "length data" arbitrary: s data progress rule: less_induct)
  case less
  show ?case
  proof (cases "data = []")
    case True
    then show ?thesis by (subst feed_loop.simps) simp
  next
    case False
    let ?n = "if 0 < fs_left s then min (unat (fs_left s)) (length data) else min (9 - fs_filled s) (length data)"
    have pos: "0 < ?n"
      using False less.prems by (auto simp: wf_scanner_def word_less_nat_alt)
    have split: "data = take ?n data @ drop ?n data" by simp
    have len: "length (take ?n data) = ?n" by simp
    have wf: "wf_scanner (snd (scan_bytes s (take ?n data)))"
      by (rule wf_scan_bytes[OF less.prems])
    have ih: "feed_loop (snd (scan_bytes s (take ?n data))) (drop ?n data) p
        = Some (p \<or> fst (scan_bytes (snd (scan_bytes s (take ?n data))) (drop ?n data)),
                snd (scan_bytes (snd (scan_bytes s (take ?n data))) (drop ?n data)))" for p
      using pos False by (intro less.hyps wf) simp
    have "feed_loop s data progress = feed_loop (snd (scan_bytes s (take ?n data))) (drop ?n data)
        (progress \<or> fst (scan_bytes s (take ?n data)))"
    proof (cases "0 < fs_left s")
      case True
      then have "scan_bytes s (take ?n data)
          = (fs_carries s \<and> 0 < ?n, s\<lparr>fs_left := fs_left s - word_of_nat ?n\<rparr>)"
        by (intro scan_bytes_payload len) simp
      then show ?thesis
        using True False pos by (simp add: feed_loop.simps[of s data] Let_def)
    next
      case hdr: False
      then have "scan_bytes s (take ?n data) = (let s = copy_header s (length (take ?n data)) (take ?n data)
          in if fs_filled s = 9 then start_frame s False else (False, s))"
        using less.prems False pos
        by (intro scan_bytes_header) (auto simp: wf_scanner_def word_gt_0)
      moreover have "copy_header s ?n (take ?n data) = copy_header s ?n data"
        by (simp add: copy_header_def)
      ultimately have "scan_bytes s (take ?n data) = (let s = copy_header s ?n data
          in if fs_filled s = 9 then start_frame s False else (False, s))"
        using len by simp
      then show ?thesis
        using hdr False start_frame_progress[of "copy_header s ?n data" progress]
        by (simp add: feed_loop.simps[of s data] Let_def case_prod_beta)
    qed
    then show ?thesis
      using ih scan_bytes_append[of s "take ?n data" "drop ?n data"]
      by (simp add: case_prod_beta Let_def)
  qed
qed

lemma feed_scan: "wf_scanner s \<Longrightarrow> feed s data = Some (scan_bytes s data)"
  by (simp add: feed_def feed_loop_scan)

section \<open>Whole frames\<close>

record frame =
  fr_kind :: u8
  fr_flags_and_stream :: "u8 list"
  fr_payload :: "u8 list"

definition wf_frame :: "frame \<Rightarrow> bool" where
  "wf_frame f \<longleftrightarrow> length (fr_flags_and_stream f) = 5 \<and> length (fr_payload f) < 2 ^ 24"

definition encode_frame :: "frame \<Rightarrow> u8 list" where
  "encode_frame f =
     (let n = word_of_nat (length (fr_payload f)) :: u32
      in [ucast (drop_bit 16 n), ucast (drop_bit 8 n), ucast n, fr_kind f]
         @ fr_flags_and_stream f @ fr_payload f)"

text \<open>Response data: \<open>HEADERS\<close>, or \<open>DATA\<close> or \<open>CONTINUATION\<close> with a payload.\<close>

definition carries_response :: "frame \<Rightarrow> bool" where
  "carries_response f \<longleftrightarrow> fr_kind f = 1 \<or> fr_kind f \<in> {0, 9} \<and> fr_payload f \<noteq> []"

lemma be24_split:
  assumes "n < 2 ^ 24"
  shows "be24 (ucast (drop_bit 16 (word_of_nat n :: u32))) (ucast (drop_bit 8 (word_of_nat n :: u32)))
      (ucast (word_of_nat n :: u32)) = word_of_nat n"
proof -
  have high: "\<not> bit (word_of_nat n :: u32) i" if "24 \<le> i" for i
  proof -
    have "\<not> bit n i"
      using assms that by (metis bit_take_bit_iff less_le_trans not_less one_le_numeral power_increasing
          take_bit_nat_eq_self_iff)
    then show ?thesis by (simp add: bit_of_nat_iff_bit bit_simps)
  qed
  have cover: "i < 8 \<or> 8 \<le> i \<and> i < 16 \<or> 16 \<le> i \<and> i < 24 \<or> 24 \<le> i" for i :: nat
    by linarith
  show ?thesis
  proof (rule bit_word_eqI)
    fix i assume "i < LENGTH(32)"
    then show "bit (be24 (ucast (drop_bit 16 (word_of_nat n :: u32))) (ucast (drop_bit 8 (word_of_nat n :: u32)))
        (ucast (word_of_nat n :: u32))) i = bit (word_of_nat n :: u32) i"
      using cover[of i] high[of i]
      by (auto simp: be24_def bit_or_iff bit_push_bit_iff bit_ucast_iff bit_drop_bit_eq)
  qed
qed

definition at_boundary :: "scanner \<Rightarrow> bool" where
  "at_boundary s \<longleftrightarrow> length (fs_header s) = 9 \<and> fs_filled s = 0 \<and> fs_left s = 0"

lemma scan_frame:
  assumes "at_boundary s" "wf_frame f"
  shows "fst (scan_bytes s (encode_frame f)) = carries_response f \<and>
    at_boundary (snd (scan_bytes s (encode_frame f)))"
proof -
  let ?n = "word_of_nat (length (fr_payload f)) :: u32"
  define hdr where "hdr = [ucast (drop_bit 16 ?n), ucast (drop_bit 8 ?n), ucast ?n, fr_kind f] @ fr_flags_and_stream f"
  have enc: "encode_frame f = hdr @ fr_payload f"
    by (simp add: encode_frame_def hdr_def Let_def)
  have len: "length hdr = 9"
    using assms(2) by (simp add: hdr_def wf_frame_def)
  have nth: "hdr ! 0 = ucast (drop_bit 16 ?n)" "hdr ! 1 = ucast (drop_bit 8 ?n)" "hdr ! 2 = ucast ?n"
      "hdr ! 3 = fr_kind f"
    by (simp_all add: hdr_def)
  have small: "length (fr_payload f) < 2 ^ 24"
    using assms(2) by (simp add: wf_frame_def)
  define s1 where "s1 = s\<lparr>fs_header := hdr, fs_filled := 0, fs_left := ?n, fs_carries := fr_kind f \<in> {0, 1, 9}\<rparr>"
  have "scan_bytes s hdr = start_frame (copy_header s 9 hdr) False"
    using scan_bytes_header[of s hdr] assms(1) len
    by (cases hdr) (auto simp: at_boundary_def copy_header_def Let_def)
  also have "\<dots> = (fr_kind f = 1, s1)"
    using assms(1) len nth be24_split[OF small]
    by (simp add: start_frame_def copy_header_def at_boundary_def s1_def Let_def)
  finally have 1: "scan_bytes s hdr = (fr_kind f = 1, s1)" .
  have "unat (fs_left s1) = length (fr_payload f)"
    using small by (simp add: s1_def unat_of_nat_u32)
  then have 2: "scan_bytes s1 (fr_payload f)
      = (fr_kind f \<in> {0, 1, 9} \<and> fr_payload f \<noteq> [], s1\<lparr>fs_left := 0\<rparr>)"
    using scan_bytes_payload[of "length (fr_payload f)" s1 "fr_payload f"]
    by (auto simp: s1_def)
  show ?thesis
    unfolding enc scan_bytes_append 1 2 prod.case Let_def
    using len by (auto simp: carries_response_def at_boundary_def s1_def)
qed

lemma scan_frames:
  "at_boundary s \<Longrightarrow> list_all wf_frame fs \<Longrightarrow>
     fst (scan_bytes s (concat (map encode_frame fs))) = list_ex carries_response fs \<and>
     at_boundary (snd (scan_bytes s (concat (map encode_frame fs))))"
proof (induction fs arbitrary: s)
  case (Cons f fs)
  have "at_boundary (snd (scan_bytes s (encode_frame f)))"
    using scan_frame Cons.prems by simp
  from Cons.IH[OF this] show ?case
    using scan_frame[OF Cons.prems(1), of f] Cons.prems(2) by (simp add: scan_bytes_append case_prod_beta Let_def)
qed simp

fun feed_all :: "scanner \<Rightarrow> u8 list list \<Rightarrow> (bool \<times> scanner) option" where
  "feed_all s [] = Some (False, s)"
| "feed_all s (chunk # chunks) =
     (case feed s chunk of
        None \<Rightarrow> None
      | Some (p, s) \<Rightarrow> map_option (\<lambda>(p', s). (p \<or> p', s)) (feed_all s chunks))"

lemma feed_all_scan: "wf_scanner s \<Longrightarrow> feed_all s chunks = Some (scan_bytes s (concat chunks))"
proof (induction chunks arbitrary: s)
  case (Cons c cs)
  then show ?case
    using wf_scan_bytes[OF Cons.prems, of c]
    by (simp add: feed_scan scan_bytes_append case_prod_beta Let_def)
qed simp

lemma scanner_default_ok [simp]: "wf_scanner scanner_default" "at_boundary scanner_default"
  by (simp_all add: wf_scanner_def at_boundary_def scanner_default_def)

section \<open>Property\<close>

text \<open>C14: The scanner always ends and its verdict does not depend on how the bytes are cut into writes:
  feeding the pieces reports response data, over all of them, exactly when feeding them joined
  does, and leaves the same state. When what was written is a sequence of complete frames, that is
  exactly when one of them is a \<open>HEADERS\<close> frame or a \<open>DATA\<close> or \<open>CONTINUATION\<close> frame with a payload,
  and the scanner stands at a frame boundary again.\<close>

theorem scanner_sees_responses:
  "feed_all scanner_default chunks = feed_all scanner_default [concat chunks] \<and>
   feed_all scanner_default chunks \<noteq> None \<and>
   (list_all wf_frame frames \<longrightarrow> concat chunks = concat (map encode_frame frames) \<longrightarrow>
      (\<exists>s. feed_all scanner_default chunks = Some (list_ex carries_response frames, s) \<and> at_boundary s))"
proof -
  have "feed_all scanner_default [concat chunks] = Some (scan_bytes scanner_default (concat chunks))"
    using feed_all_scan[of scanner_default "[concat chunks]"] by simp
  then show ?thesis
    using feed_all_scan[of scanner_default chunks] scan_frames[of scanner_default frames]
    by (auto intro!: exI[of _ "snd (scan_bytes scanner_default (concat (map encode_frame frames)))"]
        simp: prod_eq_iff)
qed

lemma scanner_sees_responses_witness:
  "\<exists>s. feed_all scanner_default
      [[0, 0, 8, 6], [0, 0, 0, 0, 0] @ replicate 8 0 @ [0, 0], [0, 1, 4, 0, 0, 0, 1]] = Some (True, s)"
proof -
  define chunks :: "u8 list list" where
    "chunks = [[0, 0, 8, 6], [0, 0, 0, 0, 0] @ replicate 8 0 @ [0, 0], [0, 1, 4, 0, 0, 0, 1]]"
  define frames where "frames =
    [\<lparr>fr_kind = 6, fr_flags_and_stream = [0, 0, 0, 0, 0], fr_payload = replicate 8 0\<rparr>,
     \<lparr>fr_kind = 1, fr_flags_and_stream = [4, 0, 0, 0, 1], fr_payload = []\<rparr>]"
  have "list_all wf_frame frames"
    by (simp add: frames_def wf_frame_def)
  moreover have "concat chunks = concat (map encode_frame frames)"
    by (simp add: chunks_def frames_def encode_frame_def)
  moreover have "list_ex carries_response frames = True"
    by (simp add: frames_def carries_response_def)
  ultimately have "\<exists>s. feed_all scanner_default chunks = Some (True, s)"
    using scanner_sees_responses[of chunks frames] by metis
  then show ?thesis
    unfolding chunks_def .
qed

end
