(* ===== verification/Tracked_Io.thy ===== *)
theory Tracked_Io
  imports Frame_Scanner
begin

text \<open>
  Model of \<open>Tracked\<close> in \<open>src/runtime.rs\<close>: the I/O object of a connection that reports response data to
  the connection's activity and fails a write the socket refuses for too long. The socket is the
  result of each poll of it, time is the number of milliseconds since some start, passed to each
  poll; \<open>tokio::time::sleep\<close> completes once its deadline has come. Each write answers the poll result
  and whether the activity was touched.
\<close>

datatype 'a poll = Pending | Ready 'a

datatype io_error = Send_Timeout | Io_Error string

record tracked =
  tk_watched :: bool
  tk_scanner :: scanner
  tk_send_timeout :: "nat option"
  tk_stall :: "nat option"

definition tracked_new :: "bool \<Rightarrow> nat option \<Rightarrow> tracked" where
  "tracked_new watched send_timeout =
     \<lparr>tk_watched = watched, tk_scanner = scanner_default, tk_send_timeout = send_timeout, tk_stall = None\<rparr>"

definition stalled :: "nat \<Rightarrow> tracked \<Rightarrow> io_error poll \<times> tracked" where
  "stalled now t =
     (case tk_send_timeout t of
        None \<Rightarrow> (Pending, t)
      | Some limit \<Rightarrow>
          (let deadline = (case tk_stall t of None \<Rightarrow> now + limit | Some d \<Rightarrow> d)
           in (if deadline \<le> now then Ready Send_Timeout else Pending, t\<lparr>tk_stall := Some deadline\<rparr>)))"

text \<open>Whether the activity was touched, and the scanner after; \<open>None\<close> if the scanner did not end.\<close>

definition observe :: "u8 list \<Rightarrow> tracked \<Rightarrow> (bool \<times> tracked) option" where
  "observe written t =
     (if \<not> tk_watched t then Some (False, t)
      else map_option (\<lambda>(p, s). (p, t\<lparr>tk_scanner := s\<rparr>)) (feed (tk_scanner t) written))"

type_synonym write_result = "(io_error + nat) poll"

definition refused :: "nat \<Rightarrow> tracked \<Rightarrow> write_result \<times> tracked" where
  "refused now t =
     (case stalled now t of
        (Ready e, t) \<Rightarrow> (Ready (Inl e), t)
      | (Pending, t) \<Rightarrow> (Pending, t))"

definition poll_write ::
  "nat \<Rightarrow> write_result \<Rightarrow> u8 list \<Rightarrow> tracked \<Rightarrow> (write_result \<times> bool \<times> tracked) option" where
  "poll_write now result data t =
     (case result of
        Ready (Inr written) \<Rightarrow>
          map_option (\<lambda>(p, t). (result, p, t)) (observe (take written data) (t\<lparr>tk_stall := None\<rparr>))
      | Ready (Inl _) \<Rightarrow> Some (result, False, t\<lparr>tk_stall := None\<rparr>)
      | Pending \<Rightarrow> (case refused now t of (r, t) \<Rightarrow> Some (r, False, t)))"

fun observe_buffers :: "nat \<Rightarrow> u8 list list \<Rightarrow> tracked \<Rightarrow> (bool \<times> tracked) option" where
  "observe_buffers left [] t = Some (False, t)"
| "observe_buffers left (buffer # buffers) t =
     (if left = 0 then Some (False, t)
      else (let n = min left (length buffer)
            in case observe (take n buffer) t of
                 None \<Rightarrow> None
               | Some (p, t) \<Rightarrow>
                   map_option (\<lambda>(p', t). (p \<or> p', t)) (observe_buffers (left - n) buffers t)))"

definition poll_write_vectored ::
  "nat \<Rightarrow> write_result \<Rightarrow> u8 list list \<Rightarrow> tracked \<Rightarrow> (write_result \<times> bool \<times> tracked) option" where
  "poll_write_vectored now result buffers t =
     (case result of
        Ready (Inr written) \<Rightarrow>
          map_option (\<lambda>(p, t). (result, p, t)) (observe_buffers written buffers (t\<lparr>tk_stall := None\<rparr>))
      | Ready (Inl _) \<Rightarrow> Some (result, False, t\<lparr>tk_stall := None\<rparr>)
      | Pending \<Rightarrow> (case refused now t of (r, t) \<Rightarrow> Some (r, False, t)))"

definition poll_flush :: "nat \<Rightarrow> write_result \<Rightarrow> tracked \<Rightarrow> write_result \<times> tracked" where
  "poll_flush now result t =
     (case result of
        Ready _ \<Rightarrow> (result, t\<lparr>tk_stall := None\<rparr>)
      | Pending \<Rightarrow> refused now t)"

section \<open>What is observed\<close>

definition wf_tracked :: "tracked \<Rightarrow> bool" where
  "wf_tracked t \<longleftrightarrow> wf_scanner (tk_scanner t)"

lemma observe_scan:
  "wf_tracked t \<Longrightarrow> observe bs t =
     Some (if tk_watched t then (fst (scan_bytes (tk_scanner t) bs), t\<lparr>tk_scanner := snd (scan_bytes (tk_scanner t) bs)\<rparr>)
           else (False, t))"
  by (simp add: observe_def wf_tracked_def feed_scan case_prod_beta)

lemma observe_buffers_scan:
  "wf_tracked t \<Longrightarrow> observe_buffers left buffers t = observe (take left (concat buffers)) t"
proof (induction buffers arbitrary: left t)
  case Nil
  then show ?case by (simp add: observe_scan)
next
  case (Cons buffer buffers)
  let ?n = "min left (length buffer)"
  have take: "take left (concat (buffer # buffers)) = take ?n buffer @ take (left - ?n) (concat buffers)"
    by (cases "left \<le> length buffer") (simp_all add: min_def)
  show ?case
  proof (cases "left = 0")
    case True
    then show ?thesis using Cons.prems by (simp add: observe_scan)
  next
    case False
    let ?t = "t\<lparr>tk_scanner := snd (scan_bytes (tk_scanner t) (take ?n buffer))\<rparr>"
    have wf: "wf_tracked ?t"
      using Cons.prems wf_scan_bytes by (simp add: wf_tracked_def)
    show ?thesis
    proof (cases "tk_watched t")
      case True
      have "observe_buffers (left - ?n) buffers ?t = observe (take (left - ?n) (concat buffers)) ?t"
        by (rule Cons.IH[OF wf])
      then show ?thesis
        unfolding take
        using False True observe_scan[OF Cons.prems] observe_scan[OF wf]
        by (simp add: Let_def scan_bytes_append case_prod_beta)
    next
      case unwatched: False
      have "observe_buffers (left - ?n) buffers t = observe (take (left - ?n) (concat buffers)) t"
        by (rule Cons.IH[OF Cons.prems])
      then show ?thesis
        unfolding take
        using False unwatched observe_scan[OF Cons.prems] by (simp add: Let_def)
    qed
  qed
qed

section \<open>The send timeout\<close>

text \<open>Any of the three polls, over a history of them.\<close>

datatype io_op = Write "u8 list" | Write_Vectored "u8 list list" | Flush

fun poll_io :: "nat \<Rightarrow> io_op \<Rightarrow> write_result \<Rightarrow> tracked \<Rightarrow> (write_result \<times> bool \<times> tracked) option" where
  "poll_io now (Write data) result t = poll_write now result data t"
| "poll_io now (Write_Vectored buffers) result t = poll_write_vectored now result buffers t"
| "poll_io now Flush result t = (case poll_flush now result t of (r, t) \<Rightarrow> Some (r, False, t))"

type_synonym io_history = "(nat \<times> io_op \<times> write_result) list"

fun run_io :: "io_history \<Rightarrow> tracked \<Rightarrow> tracked option" where
  "run_io [] t = Some t"
| "run_io ((now, op, result) # polls) t =
     (case poll_io now op result t of None \<Rightarrow> None | Some (_, _, t) \<Rightarrow> run_io polls t)"

text \<open>Since when the socket has refused every poll.\<close>

fun refused_since :: "io_history \<Rightarrow> nat option \<Rightarrow> nat option" where
  "refused_since [] since = since"
| "refused_since ((now, op, result) # polls) since =
     refused_since polls
       (case result of
          Ready _ \<Rightarrow> None
        | Pending \<Rightarrow> (case since of None \<Rightarrow> Some now | Some t0 \<Rightarrow> Some t0))"

text \<open>The armed deadline is the send timeout after the first of the refused polls.\<close>

definition stall_matches :: "nat option \<Rightarrow> tracked \<Rightarrow> bool" where
  "stall_matches since t \<longleftrightarrow>
     (case tk_send_timeout t of
        None \<Rightarrow> tk_stall t = None
      | Some limit \<Rightarrow> tk_stall t = map_option (\<lambda>t0. t0 + limit) since)"

lemma refused_matches:
  assumes "stall_matches since t"
  shows "stall_matches (case since of None \<Rightarrow> Some now | Some t0 \<Rightarrow> Some t0) (snd (refused now t))"
    and "tk_send_timeout (snd (refused now t)) = tk_send_timeout t"
    and "fst (refused now t) =
      (case tk_send_timeout t of
         None \<Rightarrow> Pending
       | Some limit \<Rightarrow>
           if (case since of None \<Rightarrow> now | Some t0 \<Rightarrow> t0) + limit \<le> now then Ready (Inl Send_Timeout) else Pending)"
  using assms
  by (auto simp: stall_matches_def refused_def stalled_def Let_def split: option.splits)

lemma wf_refused: "wf_tracked t \<Longrightarrow> wf_tracked (snd (refused now t))"
  by (auto simp: wf_tracked_def refused_def stalled_def Let_def split: option.splits)

lemma wf_clear: "wf_tracked t \<Longrightarrow> wf_tracked (t\<lparr>tk_stall := None\<rparr>)"
  by (simp add: wf_tracked_def)

lemma observe_keeps:
  assumes "wf_tracked t"
  shows "\<exists>p t'. observe bs t = Some (p, t') \<and> wf_tracked t' \<and> tk_stall t' = tk_stall t \<and>
    tk_send_timeout t' = tk_send_timeout t"
  using assms wf_scan_bytes[of "tk_scanner t" bs] observe_scan[OF assms, of bs]
  by (cases "tk_watched t") (auto simp: wf_tracked_def)

text \<open>One poll keeps the clock in step with the history, and answers what the socket said unless it
  refused for the whole limit.\<close>

lemma poll_io_step:
  assumes wf: "wf_tracked t" and matches: "stall_matches since t"
  obtains r p t' where "poll_io now op result t = Some (r, p, t')" "wf_tracked t'"
    "tk_send_timeout t' = tk_send_timeout t" "stall_matches (refused_since [(now, op, result)] since) t'"
    "r = (case result of Ready _ \<Rightarrow> result | Pending \<Rightarrow> fst (refused now t))"
proof (cases result)
  case Pending
  then have "poll_io now op result t = Some (fst (refused now t), False, snd (refused now t))"
    by (cases op) (simp_all add: poll_write_def poll_write_vectored_def poll_flush_def case_prod_beta)
  then show thesis
    using that[of "fst (refused now t)" False "snd (refused now t)"] wf_refused[OF wf, of now]
      refused_matches(1,2)[OF matches, of now] Pending by simp
next
  case (Ready x)
  let ?t = "t\<lparr>tk_stall := None\<rparr>"
  have stop: "stall_matches None u" if "tk_stall u = None" "tk_send_timeout u = tk_send_timeout t" for u
    using that by (simp add: stall_matches_def split: option.splits)
  show thesis
  proof (cases x)
    case (Inl e)
    have "poll_io now op result t = Some (result, False, ?t)"
      unfolding Ready Inl
      by (cases op) (simp_all add: poll_write_def poll_write_vectored_def poll_flush_def)
    then show thesis
      using that[of result False ?t] wf_clear[OF wf] stop[of ?t] Ready by simp
  next
    case (Inr n)
    have buffers: "observe_buffers n bufs ?t = observe (take n (concat bufs)) ?t" for bufs
      by (rule observe_buffers_scan[OF wf_clear[OF wf]])
    have flush: "poll_io now Flush result t = Some (result, False, ?t)"
      by (simp add: Ready poll_flush_def)
    have done_write: "\<exists>p t'. poll_io now op result t = Some (result, p, t') \<and> wf_tracked t' \<and>
        tk_stall t' = None \<and> tk_send_timeout t' = tk_send_timeout t"
      using observe_keeps[OF wf_clear[OF wf]] flush wf_clear[OF wf]
      by (cases op) (fastforce simp: poll_write_def poll_write_vectored_def Ready Inr buffers)+
    then show thesis
      using that stop Ready by fastforce
  qed
qed

lemma refused_since_append: "refused_since (h @ h') s = refused_since h' (refused_since h s)"
  by (induction h s rule: refused_since.induct) auto

lemma run_io_matches:
  "wf_tracked t \<Longrightarrow> stall_matches since t \<Longrightarrow>
     \<exists>t'. run_io history t = Some t' \<and> wf_tracked t' \<and> stall_matches (refused_since history since) t' \<and>
       tk_send_timeout t' = tk_send_timeout t"
proof (induction history arbitrary: t since)
  case (Cons poll history)
  obtain now op result where poll: "poll = (now, op, result)" by (cases poll)
  obtain r p t' where t': "poll_io now op result t = Some (r, p, t')" "wf_tracked t'"
      "tk_send_timeout t' = tk_send_timeout t" "stall_matches (refused_since [(now, op, result)] since) t'"
    using poll_io_step[OF Cons.prems] by blast
  show ?case
    using Cons.IH[OF t'(2,4)] t'(1,3) poll by simp
qed simp

section \<open>Properties\<close>

text \<open>C15: The send timeout fires exactly when it should. After any history of writes, vectored writes and
  flushes on a new tracked connection, the next poll answers what the socket answers, except that
  it fails with the send timeout exactly when the socket refuses it and has refused every poll
  since some moment at least the limit ago. Without a limit nothing ever fails.\<close>

theorem send_timeout_exact:
  "\<exists>t r p t'. run_io history (tracked_new watched limit) = Some t \<and> poll_io now op result t = Some (r, p, t') \<and>
     r = (if result = Pending \<and>
            (\<exists>l t0. limit = Some l \<and> refused_since (history @ [(now, op, Pending)]) None = Some t0 \<and> t0 + l \<le> now)
          then Ready (Inl Send_Timeout) else result)"
proof -
  have "wf_tracked (tracked_new watched limit)" "stall_matches None (tracked_new watched limit)"
    by (simp_all add: wf_tracked_def tracked_new_def stall_matches_def split: option.splits)
  from run_io_matches[OF this, of history] obtain t where t: "run_io history (tracked_new watched limit) = Some t"
      "wf_tracked t" "stall_matches (refused_since history None) t" "tk_send_timeout t = limit"
    by (auto simp: tracked_new_def)
  obtain r p t' where r: "poll_io now op result t = Some (r, p, t')"
      "r = (case result of Ready _ \<Rightarrow> result | Pending \<Rightarrow> fst (refused now t))"
    using poll_io_step[OF t(2,3)] by blast
  have "refused_since (history @ [(now, op, Pending)]) None
      = Some (case refused_since history None of None \<Rightarrow> now | Some t0 \<Rightarrow> t0)"
    by (simp add: refused_since_append split: option.splits)
  then have "r = (if result = Pending \<and>
            (\<exists>l t0. limit = Some l \<and> refused_since (history @ [(now, op, Pending)]) None = Some t0 \<and> t0 + l \<le> now)
          then Ready (Inl Send_Timeout) else result)"
    using r(2) refused_matches(3)[OF t(3), of now] t(4)
    by (cases result; cases limit) auto
  then show ?thesis using t(1) r(1) by blast
qed

text \<open>A vectored write of several buffers reports response data, and leaves the scanner, exactly as
  one write of the buffers joined does.\<close>

theorem vectored_write_joined:
  assumes "wf_tracked t"
  shows "poll_write_vectored now result buffers t = poll_write now result (concat buffers) t"
  using observe_buffers_scan[OF wf_clear[OF assms]]
  by (auto simp: poll_write_vectored_def poll_write_def split: poll.splits sum.splits)

lemma vectored_write_joined_witness:
  "poll_write_vectored 5 (Ready (Inr 10)) [[0, 0, 1, 0], [0, 0, 0, 0, 1, 7, 7]] (tracked_new True None)
    = poll_write 5 (Ready (Inr 10)) [0, 0, 1, 0, 0, 0, 0, 0, 1, 7, 7] (tracked_new True None)"
  using vectored_write_joined[of "tracked_new True None" 5 "Ready (Inr 10)" "[[0, 0, 1, 0], [0, 0, 0, 0, 1, 7, 7]]"]
  by (simp add: wf_tracked_def tracked_new_def)

end
