(* ===== verification/Protocol_Detection.thy ===== *)
theory Protocol_Detection
  imports Rust_Str
begin

text \<open>
  Model of \<open>detect_h2\<close> and \<open>Rewind\<close> in \<open>src/runtime.rs\<close>. What they read from is an interface: a
  source of bytes that yields its stream in pieces of at most the wanted size. \<open>Rewind\<close> over a
  source is a source again, of the replayed bytes and the rest.
\<close>

section \<open>Sources of bytes\<close>

text \<open>\<open>read n\<close> fills a buffer of \<open>n\<close> bytes with some of the next bytes; none of them at the end.\<close>

type_synonym 'io reader = "nat \<Rightarrow> 'io \<Rightarrow> (string + string) \<times> 'io"

locale byte_source =
  fixes read_some :: "'io reader"
    and stream_of :: "'io \<Rightarrow> string"
  assumes read_next: "read_some n io = (Inr bs, io') \<Longrightarrow> stream_of io = bs @ stream_of io' \<and> length bs \<le> n"
    and read_end: "read_some n io = (Inr [], io') \<Longrightarrow> 0 < n \<Longrightarrow> stream_of io = []"
    and read_failed: "read_some n io = (Inl e, io') \<Longrightarrow> stream_of io' = stream_of io"

section \<open>Detection\<close>

definition crlf :: string where
  "crlf = [CHR 0x0D, CHR 0x0A]"

definition h2_preface :: string where
  "h2_preface = ''PRI * HTTP/2.0'' @ crlf @ crlf @ ''SM'' @ crlf @ crlf"

lemma length_preface [simp]: "length h2_preface = 24"
  by (simp add: h2_preface_def crlf_def)

text \<open>The loop with the bytes already \<open>seen\<close>; answers the verdict, the bytes seen and the source.\<close>

function detect_h2 :: "'io reader \<Rightarrow> 'io \<Rightarrow> string \<Rightarrow> (string + bool) \<times> string \<times> 'io" where
  "detect_h2 rd io seen =
     (if length seen < length h2_preface then
        (if \<not> starts_with h2_preface seen then (Inr False, seen, io)
         else (case rd (length h2_preface - length seen) io of
                 (Inl e, io) \<Rightarrow> (Inl e, seen, io)
               | (Inr chunk, io) \<Rightarrow>
                   if chunk = [] then (Inr False, seen, io) else detect_h2 rd io (seen @ chunk)))
      else (Inr (seen = h2_preface), seen, io))"
  by pat_completeness auto
termination
  by (relation "measure (\<lambda>(rd, io, seen). length h2_preface - length seen)") (auto simp: neq_Nil_conv)

declare detect_h2.simps [simp del]

section \<open>Replaying what was read\<close>

type_synonym 'io rewind = "string \<times> 'io"

definition rewind_read :: "'io reader \<Rightarrow> 'io rewind reader" where
  "rewind_read rd n r =
     (case r of (pre, io) \<Rightarrow>
        if pre \<noteq> [] then
          (let count = min (length pre) n in (Inr (take count pre), (drop count pre, io)))
        else (case rd n io of (result, io) \<Rightarrow> (result, ([], io))))"

definition rewind_stream :: "('io \<Rightarrow> string) \<Rightarrow> 'io rewind \<Rightarrow> string" where
  "rewind_stream stream r = (case r of (pre, io) \<Rightarrow> pre @ stream io)"

section \<open>Correctness over any source\<close>

lemma starts_with_append: "starts_with s p \<longleftrightarrow> (\<exists>t. s = p @ t)"
  by (auto simp: starts_with_def) (metis append_take_drop_id)

context byte_source
begin

lemma rewind_is_source: "byte_source (rewind_read read_some) (rewind_stream stream_of)"
proof unfold_locales
  fix n and r r' :: "'io rewind" and bs
  assume read: "rewind_read read_some n r = (Inr bs, r')"
  obtain pre io where r: "r = (pre, io)" by (cases r)
  show "rewind_stream stream_of r = bs @ rewind_stream stream_of r' \<and> length bs \<le> n"
    using read read_next[of n io bs]
    by (cases "pre = []") (auto simp: r rewind_read_def rewind_stream_def Let_def split: prod.splits)
next
  fix n and r r' :: "'io rewind"
  assume read: "rewind_read read_some n r = (Inr [], r')" "0 < n"
  obtain pre io where r: "r = (pre, io)" by (cases r)
  show "rewind_stream stream_of r = []"
    using read read_end[of n io]
    by (cases "pre = []")
      (auto simp: r rewind_read_def rewind_stream_def Let_def min_def split: prod.splits if_splits)
next
  fix n and r r' :: "'io rewind" and e
  assume read: "rewind_read read_some n r = (Inl e, r')"
  obtain pre io where r: "r = (pre, io)" by (cases r)
  show "rewind_stream stream_of r' = rewind_stream stream_of r"
    using read read_failed[of n io e]
    by (cases "pre = []") (auto simp: r rewind_read_def rewind_stream_def Let_def split: prod.splits)
qed

text \<open>Detection reads no further than the preface and loses nothing; its verdict is whether the
  stream begins with the preface.\<close>

lemma detect_h2_loop:
  "detect_h2 read_some io seen = (result, seen', io') \<Longrightarrow> length seen \<le> length h2_preface \<Longrightarrow>
     seen' @ stream_of io' = seen @ stream_of io \<and> length seen' \<le> length h2_preface \<and>
     (\<forall>b. result = Inr b \<longrightarrow> b = starts_with (seen @ stream_of io) h2_preface)"
proof (induction "length h2_preface - length seen" arbitrary: io seen rule: less_induct)
  case less
  note result = less.prems(1)[unfolded detect_h2.simps[of read_some io seen]]
  show ?case
  proof (cases "length seen < length h2_preface")
    case False
    then have "length seen = length h2_preface" using less.prems(2) by simp
    then show ?thesis
      using result by (auto simp: starts_with_def)
  next
    case short: True
    show ?thesis
    proof (cases "starts_with h2_preface seen")
      case False
      have "\<not> starts_with (seen @ stream_of io) h2_preface"
      proof
        assume "starts_with (seen @ stream_of io) h2_preface"
        then have "take (length seen) h2_preface = seen"
          using short by (auto simp: starts_with_def) (metis append_eq_conv_conj less_imp_le min.absorb1 take_append take_take)
        then show False using False by (simp add: starts_with_def)
      qed
      then show ?thesis
        using result short False by auto
    next
      case match: True
      obtain r io1 where rd: "read_some (length h2_preface - length seen) io = (r, io1)"
        by (cases "read_some (length h2_preface - length seen) io")
      show ?thesis
      proof (cases r)
        case (Inl e)
        then show ?thesis
          using result short match rd read_failed[of _ io e io1] by auto
      next
        case (Inr chunk)
        note next' = read_next[OF rd[unfolded Inr]]
        show ?thesis
        proof (cases "chunk = []")
          case True
          then have "stream_of io = []"
            using read_end[of _ io io1] rd Inr short by auto
          then have "\<not> starts_with (seen @ stream_of io) h2_preface"
            using short by (simp add: starts_with_def) (metis length_preface less_irrefl)
          then show ?thesis
            using result short match rd Inr True next' by auto
        next
          case False
          then have rec: "detect_h2 read_some io1 (seen @ chunk) = (result, seen', io')"
            using result short match rd Inr by simp
          have "length (seen @ chunk) \<le> length h2_preface"
            using next' short by (simp add: le_diff_conv2)
          from less.hyps[OF _ rec this] show ?thesis
            using False short next' by (cases chunk) auto
        qed
      qed
    qed
  qed
qed

end

section \<open>A connection as segments\<close>

text \<open>The bytes of a connection, cut into the segments they arrive in.\<close>

fun segment_read :: "string list reader" where
  "segment_read n [] = (Inr [], [])"
| "segment_read n (seg # segs) =
     (if seg = [] then segment_read n segs
      else if n < length seg then (Inr (take n seg), drop n seg # segs) else (Inr seg, segs))"

lemma segment_read_spec:
  "segment_read n segs = (r, segs') \<Longrightarrow>
     (\<exists>bs. r = Inr bs \<and> concat segs = bs @ concat segs' \<and> length bs \<le> n \<and> (bs = [] \<longrightarrow> 0 < n \<longrightarrow> concat segs = []))"
  by (induction n segs rule: segment_read.induct) (auto split: if_splits)

interpretation segments: byte_source segment_read concat
  by unfold_locales (use segment_read_spec in \<open>fastforce+\<close>)

interpretation replayed: byte_source "rewind_read segment_read" "rewind_stream concat"
  by (rule segments.rewind_is_source)

section \<open>Property\<close>


end
