(* ===== verification/Connection.thy ===== *)
theory Connection
  imports Tracked_Io Protocol_Detection Http_Types
begin

text \<open>
  Model of the life of a connection in \<open>src/runtime.rs\<close>: accepting it (\<open>classify_accept_error\<close>,
  \<open>accept_next\<close>, \<open>connection_limit\<close>), the activity of an HTTP/2 connection (\<open>Activity\<close> with its
  guards and response streams), how a response is made to hold its request in flight
  (\<open>finish_with\<close>, \<open>Chunked\<close>), and the loop that watches the connection (\<open>drive\<close>, \<open>drive_h2\<close>).

  The counters are atomics in the code; each operation here is one step, and the step relation
  allows any order of them. Times are milliseconds since the connection was created.
\<close>

section \<open>Accepting\<close>

datatype error_kind =
    Connection_Aborted | Connection_Reset | Interrupted | Out_Of_Memory | Other_Kind

datatype accept_action = Retry | Backoff | Fatal

text \<open>On Unix; the numbers are \<open>EMFILE\<close>, \<open>ENFILE\<close>, \<open>ENOMEM\<close> and two of \<open>ENOBUFS\<close>.\<close>

definition classify_accept_error :: "error_kind \<Rightarrow> int option \<Rightarrow> accept_action" where
  "classify_accept_error kind os =
     (if kind \<in> {Connection_Aborted, Connection_Reset, Interrupted} then Retry
      else if kind = Out_Of_Memory then Backoff
      else (case os of
              None \<Rightarrow> Fatal
            | Some n \<Rightarrow> if n \<in> {23, 24, 12, 105, 55} then Backoff else Fatal))"

text \<open>What the select of \<open>accept_next\<close> sees, in order, and what it answers once it returns. The
  third component of the answer counts the waits of \<open>ACCEPT_BACKOFF\<close>.\<close>

datatype 'p accept_event = Shutdown | Accepted 'p | Accept_Error error_kind "int option"

datatype 'p accept_outcome = Stopped | Connection 'p | Broken_Listener error_kind "int option"

fun accept_loop :: "'p accept_event list \<Rightarrow> nat \<Rightarrow> ('p accept_outcome \<times> nat) option" where
  "accept_loop [] waits = None"
| "accept_loop (e # es) waits =
     (case e of
        Shutdown \<Rightarrow> Some (Stopped, waits)
      | Accepted p \<Rightarrow> Some (Connection p, waits)
      | Accept_Error kind os \<Rightarrow>
          (case classify_accept_error kind os of
             Retry \<Rightarrow> accept_loop es waits
           | Backoff \<Rightarrow> accept_loop es (Suc waits)
           | Fatal \<Rightarrow> Some (Broken_Listener kind os, waits)))"

text \<open>With a limit a slot is taken first: \<open>slot_ready\<close> says whether one came before the shutdown.\<close>

definition accept_next ::
  "nat option \<Rightarrow> bool \<Rightarrow> 'p accept_event list \<Rightarrow> ('p accept_outcome \<times> nat) option" where
  "accept_next limit slot_ready es =
     (if limit \<noteq> None \<and> \<not> slot_ready then Some (Stopped, 0) else accept_loop es 0)"

definition connection_limit :: "nat \<Rightarrow> nat option \<Rightarrow> nat option" where
  "connection_limit max_permits limit = map_option (\<lambda>n. min n max_permits) limit"

lemma accept_loop_fatal:
  "accept_loop es w = Some (Broken_Listener k os, w') \<Longrightarrow> classify_accept_error k os = Fatal"
  by (induction es w rule: accept_loop.induct)
    (auto split: accept_event.splits accept_action.splits)

section \<open>Activity\<close>

text \<open>The list of streams holds, per response stream, its slot: \<open>0\<close>, or one more than the time at
  which it handed over a chunk. \<open>ac_open\<close> are the streams whose \<open>Guarded\<close> is alive, which is what
  the reference counts of the slots tell.\<close>

record activity =
  ac_in_flight :: nat
  ac_last :: nat
  ac_streams :: "(nat \<times> nat) list"
  ac_open :: "nat list"
  ac_next :: nat

definition activity_new :: activity where
  "activity_new = \<lparr>ac_in_flight = 0, ac_last = 0, ac_streams = [], ac_open = [], ac_next = 0\<rparr>"

definition touch :: "nat \<Rightarrow> activity \<Rightarrow> activity" where
  "touch now a = a\<lparr>ac_last := max (ac_last a) now\<rparr>"

definition register_stream :: "activity \<Rightarrow> nat \<times> activity" where
  "register_stream a =
     (ac_next a, a\<lparr>ac_streams := ac_streams a @ [(ac_next a, 0)], ac_open := ac_open a @ [ac_next a],
                   ac_next := Suc (ac_next a)\<rparr>)"

definition store_slot :: "nat \<Rightarrow> nat \<Rightarrow> activity \<Rightarrow> activity" where
  "store_slot i v a = a\<lparr>ac_streams := map (\<lambda>(j, w). (j, if j = i then v else w)) (ac_streams a)\<rparr>"

definition stalled_for :: "nat \<Rightarrow> activity \<Rightarrow> nat option \<times> activity" where
  "stalled_for now a =
     (let kept = filter (\<lambda>(i, _). i \<in> set (ac_open a)) (ac_streams a);
          waits = map (\<lambda>(_, since). now - (since - 1)) (filter (\<lambda>(_, since). since \<noteq> 0) kept)
      in (if waits = [] then None else Some (Max (set waits)), a\<lparr>ac_streams := kept\<rparr>))"

definition idle_for :: "nat \<Rightarrow> activity \<Rightarrow> nat option" where
  "idle_for now a = (if ac_in_flight a = 0 then Some (now - ac_last a) else None)"

definition guard_start :: "activity \<Rightarrow> activity" where
  "guard_start a = a\<lparr>ac_in_flight := ac_in_flight a + 1\<rparr>"

definition guard_drop :: "nat \<Rightarrow> activity \<Rightarrow> activity" where
  "guard_drop now a = (touch now a)\<lparr>ac_in_flight := ac_in_flight a - 1\<rparr>"

text \<open>A guarded stream: polled for a chunk, and dropped with its guard.\<close>

definition guarded_poll :: "nat \<Rightarrow> nat \<Rightarrow> bool \<Rightarrow> activity \<Rightarrow> activity" where
  "guarded_poll i now got_chunk a =
     (let a = store_slot i 0 a in if got_chunk then store_slot i (now + 1) a else a)"

definition guarded_drop :: "nat \<Rightarrow> nat \<Rightarrow> activity \<Rightarrow> activity" where
  "guarded_drop i now a =
     (guard_drop now (store_slot i 0 a))\<lparr>ac_open := remove1 i (ac_open a)\<rparr>"

section \<open>Holding a request in flight\<close>

definition large_buffered_body :: nat where
  "large_buffered_body = 32 * 1024"

definition chunk_size :: nat where
  "chunk_size = 16 * 1024"

text \<open>The chunks \<open>Chunked\<close> yields.\<close>

function chunked :: "string \<Rightarrow> string list" where
  "chunked b =
     (if b = [] then []
      else (let n = min chunk_size (length b) in take n b # chunked (drop n b)))"
  by pat_completeness auto
termination
  by (relation "measure length") (auto simp: chunk_size_def)

declare chunked.simps [simp del]

text \<open>The response and whether it now holds the guard; without that the guard is dropped here.\<close>

definition finish_with :: "bool \<Rightarrow> response \<Rightarrow> response \<times> bool" where
  "finish_with has_guard response =
     (if \<not> has_guard then (response, False)
      else (case resp_body response of
              Stream cs \<Rightarrow> (response, True)
            | Full (Some bytes) \<Rightarrow>
                if large_buffered_body < length bytes
                then (response\<lparr>resp_headers :=
                        (if hm_contains (resp_headers response) ''content-length'' then resp_headers response
                         else hm_insert ''content-length'' (text_value (dec (length bytes))) (resp_headers response)),
                        resp_body := Stream (chunked bytes)\<rparr>, True)
                else (response, False)
            | Full None \<Rightarrow> (response, False)))"

section \<open>Watching a connection\<close>

text \<open>What the select of \<open>drive_h2\<close> sees: the connection ends, the shutdown signal, or a tick of the
  watch at a time. \<open>closing\<close> is when the connection was asked to go away.\<close>

datatype 'r drive_event = Ended 'r | Stop | Tick

datatype 'r drive_step =
    Returned 'r
  | Dropped
  | Go_Away
  | Wait

definition h2_shutdown_grace :: nat where
  "h2_shutdown_grace = 2000"

definition at_least :: "nat option \<Rightarrow> nat option \<Rightarrow> bool" where
  "at_least limit d \<longleftrightarrow>
     (case (limit, d) of (Some limit, Some d) \<Rightarrow> limit \<le> d | _ \<Rightarrow> False)"

definition drive_tick ::
  "nat option \<Rightarrow> nat option \<Rightarrow> nat \<Rightarrow> activity \<Rightarrow> nat option \<Rightarrow> 'r drive_step \<times> activity \<times> nat option" where
  "drive_tick idle stall now a closing =
     (let (stalled, a) = stalled_for now a
      in if at_least stall stalled then (Dropped, a, closing)
         else (case (closing, idle_for now a) of
                 (Some since, Some idle_time) \<Rightarrow>
                   if h2_shutdown_grace \<le> now - since \<and> h2_shutdown_grace \<le> idle_time
                   then (Dropped, a, closing) else (Wait, a, closing)
               | (None, Some idle_time) \<Rightarrow>
                   if at_least idle (Some idle_time) then (Go_Away, a, Some now) else (Wait, a, closing)
               | (_, None) \<Rightarrow> (Wait, a, closing)))"

definition drive_h2 ::
  "nat option \<Rightarrow> nat option \<Rightarrow> nat \<Rightarrow> 'r drive_event \<Rightarrow> activity \<Rightarrow> nat option
     \<Rightarrow> 'r drive_step \<times> activity \<times> nat option" where
  "drive_h2 idle stall now event a closing =
     (case event of
        Ended r \<Rightarrow> (Returned r, a, closing)
      | Stop \<Rightarrow> if closing = None then (Go_Away, a, Some now) else (Wait, a, closing)
      | Tick \<Rightarrow> drive_tick idle stall now a closing)"

text \<open>\<open>drive\<close>, for HTTP/1.1: the signal asks the connection to finish, then only its end counts.\<close>

fun drive :: "'r drive_event list \<Rightarrow> bool \<Rightarrow> ('r \<times> bool) option" where
  "drive [] asked = None"
| "drive (e # es) asked =
     (case e of Ended r \<Rightarrow> Some (r, asked) | Stop \<Rightarrow> drive es True | Tick \<Rightarrow> drive es asked)"

section \<open>The states a connection reaches\<close>

text \<open>\<open>cn_plain\<close> counts the requests whose guard is held by the handler, or by a response that does not
  stream; the others are held by the open streams.\<close>

record conn =
  cn_act :: activity
  cn_plain :: nat
  cn_now :: nat

inductive conn_step :: "conn \<Rightarrow> conn \<Rightarrow> bool" where
  request: "conn_step c (c\<lparr>cn_act := guard_start (cn_act c), cn_plain := Suc (cn_plain c)\<rparr>)"
| answered: "0 < cn_plain c \<Longrightarrow>
    conn_step c (c\<lparr>cn_act := guard_drop (cn_now c) (cn_act c), cn_plain := cn_plain c - 1\<rparr>)"
| streaming: "0 < cn_plain c \<Longrightarrow>
    conn_step c (c\<lparr>cn_act := snd (register_stream (cn_act c)), cn_plain := cn_plain c - 1\<rparr>)"
| chunk: "i \<in> set (ac_open (cn_act c)) \<Longrightarrow>
    conn_step c (c\<lparr>cn_act := guarded_poll i (cn_now c) got (cn_act c)\<rparr>)"
| stream_end: "i \<in> set (ac_open (cn_act c)) \<Longrightarrow>
    conn_step c (c\<lparr>cn_act := guarded_drop i (cn_now c) (cn_act c)\<rparr>)"
| written: "conn_step c (c\<lparr>cn_act := touch (cn_now c) (cn_act c)\<rparr>)"
| watch: "conn_step c (c\<lparr>cn_act := snd (stalled_for (cn_now c) (cn_act c))\<rparr>)"
| time: "cn_now c \<le> t \<Longrightarrow> conn_step c (c\<lparr>cn_now := t\<rparr>)"

inductive conn_reachable :: "conn \<Rightarrow> bool" where
  accepted: "conn_reachable \<lparr>cn_act = activity_new, cn_plain = 0, cn_now = 0\<rparr>"
| stepped: "conn_reachable c \<Longrightarrow> conn_step c c' \<Longrightarrow> conn_reachable c'"

definition conn_inv :: "conn \<Rightarrow> bool" where
  "conn_inv c \<longleftrightarrow>
     ac_in_flight (cn_act c) = cn_plain c + length (ac_open (cn_act c)) \<and>
     distinct (ac_open (cn_act c)) \<and> (\<forall>i \<in> set (ac_open (cn_act c)). i < ac_next (cn_act c)) \<and>
     set (ac_open (cn_act c)) \<subseteq> fst ` set (ac_streams (cn_act c)) \<and>
     ac_last (cn_act c) \<le> cn_now c \<and> (\<forall>(i, since) \<in> set (ac_streams (cn_act c)). since \<le> Suc (cn_now c))"

lemma store_slot_sel [simp]:
  "ac_in_flight (store_slot i v a) = ac_in_flight a" "ac_last (store_slot i v a) = ac_last a"
  "ac_open (store_slot i v a) = ac_open a" "ac_next (store_slot i v a) = ac_next a"
  "fst ` set (ac_streams (store_slot i v a)) = fst ` set (ac_streams a)"
  by (simp_all add: store_slot_def image_image case_prod_beta)

lemma store_slot_bound:
  "(\<forall>(j, since) \<in> set (ac_streams a). since \<le> n) \<Longrightarrow> v \<le> n \<Longrightarrow>
     (\<forall>(j, since) \<in> set (ac_streams (store_slot i v a)). since \<le> n)"
  by (auto simp: store_slot_def)

lemma guarded_poll_sel [simp]:
  "ac_in_flight (guarded_poll i now got a) = ac_in_flight a" "ac_last (guarded_poll i now got a) = ac_last a"
  "ac_open (guarded_poll i now got a) = ac_open a" "ac_next (guarded_poll i now got a) = ac_next a"
  "fst ` set (ac_streams (guarded_poll i now got a)) = fst ` set (ac_streams a)"
  by (simp_all add: guarded_poll_def Let_def)

lemma conn_step_inv: "conn_step c c' \<Longrightarrow> conn_inv c \<Longrightarrow> conn_inv c'"
proof (induction rule: conn_step.induct)
  case (chunk i c got)
  have "\<forall>(j, since) \<in> set (ac_streams (guarded_poll i (cn_now c) got (cn_act c))). since \<le> Suc (cn_now c)"
    using chunk.prems store_slot_bound[of "cn_act c" "Suc (cn_now c)" 0 i]
      store_slot_bound[of "store_slot i 0 (cn_act c)" "Suc (cn_now c)" "cn_now c + 1" i]
    by (simp add: conn_inv_def guarded_poll_def Let_def)
  then show ?case
    using chunk by (simp add: conn_inv_def)
next
  case (stream_end i c)
  let ?a = "guarded_drop i (cn_now c) (cn_act c)"
  have slots: "\<forall>(j, since) \<in> set (ac_streams (store_slot i 0 (cn_act c))). since \<le> Suc (cn_now c)"
    using stream_end.prems by (intro store_slot_bound) (simp_all add: conn_inv_def)
  have open': "length (ac_open (cn_act c)) = Suc (length (remove1 i (ac_open (cn_act c))))"
    using stream_end.hyps length_pos_if_in_set[OF stream_end.hyps] by (simp add: length_remove1)
  have "ac_in_flight ?a = cn_plain c + length (ac_open ?a)"
    using stream_end.prems open' by (simp add: conn_inv_def guarded_drop_def guard_drop_def touch_def)
  moreover have "distinct (ac_open ?a)" "set (ac_open ?a) \<subseteq> set (ac_open (cn_act c))"
    using stream_end.prems set_remove1_subset by (auto simp: conn_inv_def guarded_drop_def)
  moreover have "ac_last ?a \<le> cn_now c" "ac_next ?a = ac_next (cn_act c)"
    "ac_streams ?a = ac_streams (store_slot i 0 (cn_act c))"
    using stream_end.prems by (simp_all add: conn_inv_def guarded_drop_def guard_drop_def touch_def)
  ultimately show ?case
    using stream_end.prems slots store_slot_sel(5)[of i 0 "cn_act c"] by (simp add: conn_inv_def) blast
next
  case (watch c)
  have "set (ac_open (cn_act c)) \<subseteq> fst ` set (filter (\<lambda>(i, _). i \<in> set (ac_open (cn_act c))) (ac_streams (cn_act c)))"
    using watch by (fastforce simp: conn_inv_def)
  then show ?case
    using watch by (auto simp: conn_inv_def stalled_for_def Let_def)
qed (auto simp: conn_inv_def guard_start_def guard_drop_def touch_def register_stream_def)

lemma conn_reachable_inv: "conn_reachable c \<Longrightarrow> conn_inv c"
proof (induction rule: conn_reachable.induct)
  case accepted
  then show ?case by (simp add: conn_inv_def activity_new_def)
next
  case (stepped c c')
  then show ?case using conn_step_inv by blast
qed

section \<open>Chunks\<close>

lemma chunked_concat: "concat (chunked b) = b"
proof (induction b rule: chunked.induct)
  case (1 b)
  then show ?case
    by (subst chunked.simps) (simp add: Let_def)
qed

lemma chunked_bounds: "c \<in> set (chunked b) \<Longrightarrow> c \<noteq> [] \<and> length c \<le> chunk_size"
proof (induction b rule: chunked.induct)
  case (1 b)
  show ?case
  proof (cases "b = []")
    case True
    then show ?thesis using "1.prems" by (simp add: chunked.simps)
  next
    case False
    let ?n = "min chunk_size (length b)"
    have "c = take ?n b \<or> c \<in> set (chunked (drop ?n b))"
      using "1.prems" False by (subst (asm) chunked.simps) (simp add: Let_def)
    then show ?thesis
      using "1.IH"[OF False refl] False by (auto simp: chunk_size_def min_def split: if_splits)
  qed
qed

inductive_cases conn_stepE: "conn_step c c'"

section \<open>What the watch decides\<close>

lemma stalled_for_snd [simp]:
  "ac_in_flight (snd (stalled_for now a)) = ac_in_flight a" "ac_last (snd (stalled_for now a)) = ac_last a"
  "ac_open (snd (stalled_for now a)) = ac_open a"
  by (simp_all add: stalled_for_def Let_def)

lemma idle_for_snd [simp]: "idle_for now (snd (stalled_for now a)) = idle_for now a"
  by (simp add: idle_for_def)

text \<open>The stall limit is reached exactly when one stream on its own has waited that long.\<close>

lemma at_least_stalled:
  "at_least (Some limit) (fst (stalled_for now a)) \<longleftrightarrow>
     (\<exists>i since. i \<in> set (ac_open a) \<and> (i, Suc since) \<in> set (ac_streams a) \<and> limit \<le> now - since)"
proof -
  let ?waits = "map (\<lambda>(_, since). now - (since - 1))
    (filter (\<lambda>(_, since). since \<noteq> 0) (filter (\<lambda>(i, _). i \<in> set (ac_open a)) (ac_streams a)))"
  have mem: "w \<in> set ?waits \<longleftrightarrow>
      (\<exists>i since. i \<in> set (ac_open a) \<and> (i, Suc since) \<in> set (ac_streams a) \<and> w = now - since)" for w
    by (force simp: image_iff gr0_conv_Suc)
  have "at_least (Some limit) (fst (stalled_for now a)) \<longleftrightarrow> (\<exists>w \<in> set ?waits. limit \<le> w)"
    by (simp add: stalled_for_def Let_def at_least_def Max_ge_iff del: set_map set_filter)
  then show ?thesis
    unfolding Bex_def mem by blast
qed

lemma at_least_None [simp]: "\<not> at_least None d" "\<not> at_least l None"
  by (simp_all add: at_least_def split: option.splits)

text \<open>A tick, by the facts about the activity it looks at.\<close>

lemma drive_tick_fst:
  "fst (drive_tick idle stall now a closing) =
     (if at_least stall (fst (stalled_for now a)) then Dropped
      else (case (closing, idle_for now a) of
              (Some since, Some idle_time) \<Rightarrow>
                if h2_shutdown_grace \<le> now - since \<and> h2_shutdown_grace \<le> idle_time then Dropped else Wait
            | (None, Some idle_time) \<Rightarrow> if at_least idle (Some idle_time) then Go_Away else Wait
            | (_, None) \<Rightarrow> Wait))"
  by (simp add: drive_tick_def Let_def split_beta split: option.splits)

lemma no_stream_no_stall: "ac_open a = [] \<Longrightarrow> fst (stalled_for now a) = None"
  by (simp add: stalled_for_def Let_def)

text \<open>C12: A connection with requests in flight is never asked to go away by the watch, and it is
  dropped only for a stalled client: exactly when the stall limit is set and one of its open
  response streams has waited that long for the client, whatever the other streams did. In every
  reachable state the number of requests in flight is that of the handlers plus that of the open
  streams.\<close>

theorem busy_connection_kept:
  fixes idle stall closing :: "nat option" and step :: "'r drive_step"
  assumes "conn_reachable c" "0 < ac_in_flight (cn_act c)"
  defines "step \<equiv> fst (drive_tick idle stall (cn_now c) (cn_act c) closing)"
  shows "step \<in> {Wait, Dropped} \<and>
    (step = Dropped \<longleftrightarrow> (\<exists>limit i since. stall = Some limit \<and> i \<in> set (ac_open (cn_act c)) \<and>
           (i, Suc since) \<in> set (ac_streams (cn_act c)) \<and> since \<le> cn_now c \<and> limit \<le> cn_now c - since)) \<and>
    ac_in_flight (cn_act c) = cn_plain c + length (ac_open (cn_act c))"
proof (intro conjI)
  have inv: "conn_inv c"
    using assms(1) by (rule conn_reachable_inv)
  then show "ac_in_flight (cn_act c) = cn_plain c + length (ac_open (cn_act c))"
    by (simp add: conn_inv_def)
  have busy: "idle_for (cn_now c) (cn_act c) = None"
    using assms(2) by (simp add: idle_for_def)
  show "step \<in> {Wait, Dropped}"
    by (simp add: step_def drive_tick_fst busy split: option.splits)
  have bound: "since \<le> cn_now c" if "(i, Suc since) \<in> set (ac_streams (cn_act c))" for i since
    using inv that by (auto simp: conn_inv_def)
  have "step = Dropped \<longleftrightarrow> at_least stall (fst (stalled_for (cn_now c) (cn_act c)))"
    by (simp add: step_def drive_tick_fst busy split: option.splits)
  then show "step = Dropped \<longleftrightarrow> (\<exists>limit i since. stall = Some limit \<and> i \<in> set (ac_open (cn_act c)) \<and>
      (i, Suc since) \<in> set (ac_streams (cn_act c)) \<and> since \<le> cn_now c \<and> limit \<le> cn_now c - since)"
    using bound by (cases stall) (auto simp: at_least_stalled)
qed

definition demo_conn :: conn where
  "demo_conn = \<lparr>cn_act = \<lparr>ac_in_flight = 1, ac_last = 0, ac_streams = [(0, 4)], ac_open = [0], ac_next = 1\<rparr>,
     cn_plain = 0, cn_now = 9\<rparr>"

lemma demo_conn_reachable: "conn_reachable demo_conn"
proof -
  let ?a = "\<lambda>n ss os k. \<lparr>ac_in_flight = n, ac_last = 0, ac_streams = ss, ac_open = os, ac_next = k\<rparr>"
  have "conn_reachable \<lparr>cn_act = ?a 0 [] [] 0, cn_plain = 0, cn_now = 0\<rparr>"
    using conn_reachable.accepted by (simp add: activity_new_def)
  from stepped[OF this conn_step.request]
  have "conn_reachable \<lparr>cn_act = ?a 1 [] [] 0, cn_plain = 1, cn_now = 0\<rparr>"
    by (simp add: guard_start_def)
  from stepped[OF this conn_step.streaming]
  have "conn_reachable \<lparr>cn_act = ?a 1 [(0, 0)] [0] 1, cn_plain = 0, cn_now = 0\<rparr>"
    by (simp add: register_stream_def)
  from stepped[OF this conn_step.time[where t = 3]]
  have "conn_reachable \<lparr>cn_act = ?a 1 [(0, 0)] [0] 1, cn_plain = 0, cn_now = 3\<rparr>"
    by simp
  from stepped[OF this conn_step.chunk[where i = 0 and got = True]]
  have "conn_reachable \<lparr>cn_act = ?a 1 [(0, 4)] [0] 1, cn_plain = 0, cn_now = 3\<rparr>"
    by (simp add: guarded_poll_def store_slot_def)
  from stepped[OF this conn_step.time[where t = 9]] show ?thesis
    by (simp add: demo_conn_def)
qed

theorem busy_connection_kept_witness:
  "fst (drive_tick (Some 5) (Some 6) (cn_now demo_conn) (cn_act demo_conn) None) = (Dropped :: unit drive_step)"
proof -
  have "0 < ac_in_flight (cn_act demo_conn)"
    by (simp add: demo_conn_def)
  from busy_connection_kept[OF demo_conn_reachable this, of "Some 5" "Some 6" None, where 'r = unit] show ?thesis
    by (auto simp: demo_conn_def)
qed

text \<open>C13: With no request in flight the watch never drops the connection for a stall. It asks the
  connection to go away exactly when the idle limit is set and nothing was sent for that long; once
  asked, the connection is dropped exactly when both the grace period since and a grace period
  of silence have passed, so a connection that stays silent is always closed in the end.\<close>

theorem idle_connection_closed:
  assumes "conn_reachable c" "ac_in_flight (cn_act c) = 0"
  shows "fst (drive_tick (Some limit) stall (cn_now c) (cn_act c) None) =
           (if limit \<le> cn_now c - ac_last (cn_act c) then Go_Away else Wait :: 'r drive_step) \<and>
         fst (drive_tick None stall (cn_now c) (cn_act c) None) = (Wait :: 'r drive_step) \<and>
         fst (drive_tick idle stall (cn_now c) (cn_act c) (Some since)) =
           (if since + h2_shutdown_grace \<le> cn_now c \<and> ac_last (cn_act c) + h2_shutdown_grace \<le> cn_now c
            then Dropped else Wait :: 'r drive_step)"
proof (intro conjI)
  have inv: "conn_inv c"
    using assms(1) by (rule conn_reachable_inv)
  then have "ac_open (cn_act c) = []"
    using assms(2) by (simp add: conn_inv_def)
  note facts = drive_tick_fst no_stream_no_stall[OF this] idle_for_def assms(2)
  show "fst (drive_tick (Some limit) stall (cn_now c) (cn_act c) None) =
      (if limit \<le> cn_now c - ac_last (cn_act c) then Go_Away else Wait :: 'r drive_step)"
    by (simp add: facts) (simp add: at_least_def)
  show "fst (drive_tick None stall (cn_now c) (cn_act c) None) = (Wait :: 'r drive_step)"
    by (simp add: facts)
  show "fst (drive_tick idle stall (cn_now c) (cn_act c) (Some since)) =
      (if since + h2_shutdown_grace \<le> cn_now c \<and> ac_last (cn_act c) + h2_shutdown_grace \<le> cn_now c
       then Dropped else Wait :: 'r drive_step)"
    by (auto simp: facts h2_shutdown_grace_def)
qed

theorem idle_connection_closed_witness:
  "fst (drive_tick (Some 30) None 40 activity_new None) = (Go_Away :: unit drive_step)"
proof -
  have c: "conn_reachable \<lparr>cn_act = activity_new, cn_plain = 0, cn_now = 40\<rparr>"
    using stepped[OF accepted conn_step.time[where t = 40]] by simp
  have idle: "ac_in_flight activity_new = 0" "ac_last activity_new = 0"
    by (simp_all add: activity_new_def)
  show ?thesis
    using idle_connection_closed[OF c, of 30 None, where 'r = unit] idle by simp
qed

section \<open>What a held response delivers\<close>

lemma chunked_length: "length (chunked b) = (length b + (chunk_size - 1)) div chunk_size"
proof (induction b rule: chunked.induct)
  case (1 b)
  show ?case
  proof (cases "b = []")
    case True
    then show ?thesis by (simp add: chunked.simps chunk_size_def)
  next
    case False
    let ?n = "min chunk_size (length b)"
    have step: "length (chunked b) = Suc (length (chunked (drop ?n b)))"
      using False by (subst chunked.simps) (simp add: Let_def)
    have rest: "length (chunked (drop ?n b)) = (length (drop ?n b) + (chunk_size - 1)) div chunk_size"
      by (rule "1.IH"[OF False refl])
    show ?thesis
    proof (cases "chunk_size \<le> length b")
      case True
      then have "length b + (chunk_size - 1) = (length b - chunk_size + (chunk_size - 1)) + chunk_size"
        by simp
      then show ?thesis
        using step rest True by (simp add: chunk_size_def min_def)
    next
      case short: False
      then show ?thesis
        using step rest False by (simp add: chunk_size_def min_def Suc_leI div_add_self2 le_div_geq
            div_eq_0_iff flip: length_greater_0_conv)
    qed
  qed
qed

text \<open>Holding a request in flight changes nothing a client sees: status, error information, every
  header but \<open>content-length\<close>, and all bytes of the body stay, and a header that stated the length
  still states it. The request stays in flight exactly for a stream or a buffered body above the
  threshold; that one is handed over in non-empty chunks of at most 16 KiB, as many as needed and no
  more, and its length is stated.\<close>

theorem finish_with_preserves:
  fixes r :: response
  defines "r' \<equiv> fst (finish_with True r)" and "held \<equiv> snd (finish_with True r)"
  shows "finish_with False r = (r, False) \<and>
    resp_status r' = resp_status r \<and> resp_error r' = resp_error r \<and>
    body_bytes (resp_body r') = body_bytes (resp_body r) \<and>
    (\<forall>k. k \<noteq> ''content-length'' \<longrightarrow> hm_get (resp_headers r') k = hm_get (resp_headers r) k) \<and>
    (held \<longleftrightarrow> (\<exists>cs. resp_body r = Stream cs) \<or> large_buffered_body < length (body_bytes (resp_body r))) \<and>
    (\<forall>b. resp_body r = Full (Some b) \<and> held \<longrightarrow>
       (\<exists>cs. resp_body r' = Stream cs \<and> (\<forall>c \<in> set cs. c \<noteq> [] \<and> length c \<le> chunk_size) \<and>
          length cs = (length b + (chunk_size - 1)) div chunk_size) \<and>
       hm_get (resp_headers r') ''content-length'' =
         (case hm_get (resp_headers r) ''content-length'' of
            None \<Rightarrow> Some (text_value (dec (length b))) | Some v \<Rightarrow> Some v))"
  by (auto simp: r'_def held_def finish_with_def chunked_concat chunked_bounds chunked_length hm_contains_get
      split: response_body.splits option.splits if_splits)

theorem finish_with_preserves_witness:
  "snd (finish_with True (new_response 200 (Stream [''ab'']))) \<and>
   (\<exists>cs. resp_body (fst (finish_with True (new_response 200 (Full (Some (replicate 40000 CHR ''x'')))))) = Stream cs \<and>
      length cs = 3)"
proof
  show "snd (finish_with True (new_response 200 (Stream [''ab''])))"
    using finish_with_preserves[of "new_response 200 (Stream [''ab''])"] by simp
  let ?r = "new_response 200 (Full (Some (replicate 40000 CHR ''x'')))"
  have "snd (finish_with True ?r)"
    using finish_with_preserves[of ?r] by (simp add: large_buffered_body_def)
  with finish_with_preserves[of ?r] show "\<exists>cs. resp_body (fst (finish_with True ?r)) = Stream cs \<and> length cs = 3"
    by (force simp: chunk_size_def)
qed

section \<open>What accepting survives\<close>

definition transient :: "error_kind \<times> int option \<Rightarrow> bool" where
  "transient e \<longleftrightarrow> classify_accept_error (fst e) (snd e) \<noteq> Fatal"

definition backoffs :: "(error_kind \<times> int option) list \<Rightarrow> nat" where
  "backoffs es = length (filter (\<lambda>e. classify_accept_error (fst e) (snd e) = Backoff) es)"

lemma accept_loop_errors:
  "list_all transient errs \<Longrightarrow>
     accept_loop (map (\<lambda>(k, os). Accept_Error k os) errs @ es) w = accept_loop es (w + backoffs errs)"
  by (induction errs arbitrary: w) (auto simp: transient_def backoffs_def split: accept_action.splits)

lemma accept_loop_cases:
  "accept_loop es w = Some res \<Longrightarrow>
     \<exists>errs e rest. es = map (\<lambda>(k, os). Accept_Error k os) errs @ e # rest \<and> list_all transient errs \<and>
       snd res = w + backoffs errs \<and>
       (case fst res of
          Stopped \<Rightarrow> e = Shutdown
        | Connection p \<Rightarrow> e = Accepted p
        | Broken_Listener k os \<Rightarrow> e = Accept_Error k os \<and> \<not> transient (k, os))"
proof (induction es arbitrary: w)
  case (Cons e es)
  show ?case
  proof (cases "\<exists>k os. e = Accept_Error k os \<and> transient (k, os)")
    case False
    then show ?thesis
      using Cons.prems by (intro exI[of _ "[]"] exI[of _ e] exI[of _ es])
        (auto simp: transient_def backoffs_def split: accept_event.splits accept_action.splits)
  next
    case True
    then obtain k os where e: "e = Accept_Error k os" "transient (k, os)"
      by blast
    define w' where "w' = w + backoffs [(k, os)]"
    have "accept_loop es w' = Some res"
      using Cons.prems e by (auto simp: w'_def transient_def backoffs_def split: accept_action.splits)
    from Cons.IH[OF this] obtain errs e' rest where tail: "es = map (\<lambda>(k, os). Accept_Error k os) errs @ e' # rest"
      "list_all transient errs" "snd res = w' + backoffs errs"
      "case fst res of Stopped \<Rightarrow> e' = Shutdown | Connection p \<Rightarrow> e' = Accepted p
        | Broken_Listener k os \<Rightarrow> e' = Accept_Error k os \<and> \<not> transient (k, os)"
      by blast
    show ?thesis
      by (rule exI[of _ "(k, os) # errs"], rule exI[of _ e'], rule exI[of _ rest])
        (use tail e in \<open>simp add: w'_def backoffs_def\<close>)
  qed
qed simp

text \<open>Accepting survives every finite run of transient errors: whatever aborted connections and
  exhausted resources come first, the next connection or the shutdown is answered, after one pause
  per exhausted resource. It gives the listener up only on an error that is not transient, and never
  invents a connection.\<close>

theorem accept_survives_errors:
  fixes p :: 'p
  assumes "limit = None \<or> slot_ready" "list_all transient errs"
  defines "seen \<equiv> map (\<lambda>(k, os). Accept_Error k os) errs"
  shows "accept_next limit slot_ready (seen @ Accepted p # es) = Some (Connection p, backoffs errs) \<and>
    accept_next limit slot_ready (seen @ Shutdown # es) = Some (Stopped, backoffs errs) \<and>
    (\<forall>es n (p :: 'p). accept_next limit slot_ready es = Some (Connection p, n) \<longrightarrow> Accepted p \<in> set es) \<and>
    (\<forall>es k os n. accept_next limit slot_ready es = Some (Broken_Listener k os :: 'p accept_outcome, n) \<longrightarrow>
       Accept_Error k os \<in> set es \<and> k = Other_Kind \<and> os \<notin> Some ` {23, 24, 12, 105, 55})"
proof -
  have loop: "accept_next limit slot_ready es = accept_loop es 0" for es :: "'p accept_event list"
    using assms(1) by (auto simp: accept_next_def)
  have goes_on: "accept_next limit slot_ready (seen @ Accepted p # es) = Some (Connection p, backoffs errs)"
    "accept_next limit slot_ready (seen @ Shutdown # es) = Some (Stopped, backoffs errs)"
    using assms(2) by (simp_all add: loop seen_def accept_loop_errors)
  have real: "Accepted p \<in> set es"
    if "accept_next limit slot_ready es = Some (Connection p, n)" for es :: "'p accept_event list" and p n
    using accept_loop_cases[of es 0 "(Connection p, n)"] that by (auto simp: loop)
  have given_up: "Accept_Error k os \<in> set es \<and> k = Other_Kind \<and> os \<notin> Some ` {23, 24, 12, 105, 55}"
    if "accept_next limit slot_ready es = Some (Broken_Listener k os, n)"
    for es :: "'p accept_event list" and k os n
  proof -
    have "Accept_Error k os \<in> set es" "\<not> transient (k, os)"
      using accept_loop_cases[of es 0 "(Broken_Listener k os, n)"] that by (auto simp: loop)
    then show ?thesis
      by (cases k) (auto simp: transient_def classify_accept_error_def split: if_splits option.splits)
  qed
  show ?thesis
    using goes_on real given_up by blast
qed

theorem accept_survives_errors_witness:
  "accept_next (Some 8) True [Accept_Error Interrupted None, Accept_Error Other_Kind (Some 24), Accepted (7 :: nat)] =
     Some (Connection 7, 1)"
  using accept_survives_errors[of "Some 8" True "[(Interrupted, None), (Other_Kind, Some 24)]" "7 :: nat" "[]",
      THEN conjunct1]
  by (simp add: transient_def backoffs_def classify_accept_error_def)

end
