(* ===== verification/Static_Files.thy ===== *)
theory Static_Files
  imports Middleware Protocol_Detection
begin

text \<open>
  Model of \<open>src/static_files.rs\<close>: \<open>ServeDir\<close>, which answers requests under a prefix with the files
  of a directory. A path of the operating system is the list of its components (Unix rules); the
  file system is a record of what the calls answer: \<open>canonicalize\<close>, \<open>metadata\<close>, and \<open>open\<close> with the
  metadata of the opened handle, so a file that changes between the check and the opening may
  be described differently by the two. An opened file is read as a source of bytes
  (\<open>Protocol_Detection\<close>). Times are nanoseconds since the Unix epoch, negative before it.
  The \<open>httpdate\<close> functions and the validity of a header value are parameters.
\<close>

section \<open>The file system\<close>

type_synonym os_path = "string list"

record metadata =
  md_dir :: bool
  md_file :: bool
  md_len :: nat
  md_modified :: "int option"

record 'f file_system =
  fs_canonicalize :: "os_path \<Rightarrow> os_path option"
  fs_metadata :: "os_path \<Rightarrow> metadata option"
  fs_open :: "os_path \<Rightarrow> ('f \<times> metadata option) option"

text \<open>\<open>path.join(name)\<close>: an absolute name replaces the path, its components are appended otherwise.\<close>

definition path_join :: "os_path \<Rightarrow> string \<Rightarrow> os_path" where
  "path_join path name =
     (let parts = filter (\<lambda>p. p \<noteq> [] \<and> p \<noteq> ''.'') (str_split slash name)
      in if starts_with name [slash] then parts else path @ parts)"

section \<open>Configuration\<close>

record serve_config =
  sd_prefix :: "string list"
  sd_root :: os_path
  sd_index :: "string option"
  sd_cache_control :: "header_value option"
  sd_dotfiles :: bool

definition serve_dir_new :: "'f file_system \<Rightarrow> string \<Rightarrow> os_path \<Rightarrow> serve_config outcome" where
  "serve_dir_new fs url_prefix directory =
     bind_outcome (expect (fs_canonicalize fs directory) ''ServeDir: cannot use the directory'') (\<lambda>root.
     bind_outcome (assert_that (case fs_metadata fs root of None \<Rightarrow> False | Some m \<Rightarrow> md_dir m)
       ''ServeDir: is not a directory'') (\<lambda>_.
       Ret \<lparr>sd_prefix = split_path url_prefix, sd_root = root, sd_index = Some ''index.html'',
            sd_cache_control = None, sd_dotfiles = False\<rparr>))"

definition set_index_file :: "string \<Rightarrow> serve_config \<Rightarrow> serve_config" where
  "set_index_file name c = c\<lparr>sd_index := Some name\<rparr>"

definition set_cache_control ::
  "(string \<Rightarrow> header_value option) \<Rightarrow> string \<Rightarrow> serve_config \<Rightarrow> serve_config outcome" where
  "set_cache_control header_from_str v c =
     map_outcome (\<lambda>v. c\<lparr>sd_cache_control := Some v\<rparr>)
       (expect (header_from_str v) ''a valid Cache-Control value'')"

definition set_allow_dotfiles :: "bool \<Rightarrow> serve_config \<Rightarrow> serve_config" where
  "set_allow_dotfiles allow c = c\<lparr>sd_dotfiles := allow\<rparr>"

section \<open>From the URL to a path\<close>

text \<open>\<open>chars().any(char::is_control)\<close> on the UTF-8 bytes: the C1 controls are \<open>C2 80\<close> to \<open>C2 9F\<close>.\<close>

fun has_control :: "string \<Rightarrow> bool" where
  "has_control [] = False"
| "has_control (c # s) =
     (byte c < 32 \<or> byte c = 127 \<or>
      (byte c = 194 \<and> (case s of [] \<Rightarrow> False | d # _ \<Rightarrow> 128 \<le> byte d \<and> byte d < 160)) \<or> has_control s)"

definition hidden :: "string \<Rightarrow> bool" where
  "hidden name = starts_with name ''.''"

definition unsafe_segment :: "bool \<Rightarrow> string \<Rightarrow> bool" where
  "unsafe_segment dotfiles seg \<longleftrightarrow>
     seg = ''.'' \<or> seg = ''..'' \<or>
     list_ex (\<lambda>c. c = slash \<or> c = CHR 0x5C \<or> c = CHR 0x00 \<or> c = CHR '':'') seg \<or>
     has_control seg \<or> (\<not> dotfiles \<and> hidden seg)"

text \<open>The two loops of \<open>Config::relative\<close> over the iterator of the path.\<close>

fun skip_expected :: "string list \<Rightarrow> path_parts \<Rightarrow> path_parts option" where
  "skip_expected [] parts = Some parts"
| "skip_expected (expected # es) parts =
     (case parts_next parts of
        (None, _) \<Rightarrow> None
      | (Some part, rest) \<Rightarrow> if part_value part \<noteq> expected then None else skip_expected es rest)"

fun collect_segments :: "bool \<Rightarrow> string list \<Rightarrow> string list option" where
  "collect_segments dotfiles [] = Some []"
| "collect_segments dotfiles (raw # rest) =
     (case percent_decode raw of
        Inl _ \<Rightarrow> None
      | Inr seg \<Rightarrow>
          if unsafe_segment dotfiles seg then None
          else map_option ((#) seg) (collect_segments dotfiles rest))"

definition relative :: "serve_config \<Rightarrow> string \<Rightarrow> string list option" where
  "relative c path =
     (case skip_expected (sd_prefix c) (path_parts_new path) of
        None \<Rightarrow> None
      | Some rest \<Rightarrow> collect_segments (sd_dotfiles c) (map part_value (parts_list rest)))"

definition contained :: "serve_config \<Rightarrow> 'f file_system \<Rightarrow> os_path \<Rightarrow> os_path option" where
  "contained c fs path =
     (case fs_canonicalize fs path of
        None \<Rightarrow> None
      | Some canonical \<Rightarrow>
          if take (length (sd_root c)) canonical \<noteq> sd_root c then None
          else if \<not> sd_dotfiles c \<and> list_ex hidden (drop (length (sd_root c)) canonical) then None
          else Some canonical)"

record resolved =
  rs_path :: os_path
  rs_metadata :: metadata
  rs_via_directory :: bool

definition resolve :: "serve_config \<Rightarrow> 'f file_system \<Rightarrow> string list \<Rightarrow> resolved option" where
  "resolve c fs segments =
     Option.bind (contained c fs (sd_root c @ segments)) (\<lambda>path.
     Option.bind (fs_metadata fs path) (\<lambda>metadata.
     Option.bind
       (if md_dir metadata then
          Option.bind (sd_index c) (\<lambda>index_file.
          Option.bind (contained c fs (path_join path index_file)) (\<lambda>path.
          Option.bind (fs_metadata fs path) (\<lambda>metadata. Some (path, metadata, True))))
        else Some (path, metadata, False)) (\<lambda>(path, metadata, via_directory).
     if md_file metadata
     then Some \<lparr>rs_path = path, rs_metadata = metadata, rs_via_directory = via_directory\<rparr> else None)))"

section \<open>Describing a file\<close>

definition content_types :: "(string \<times> string) list" where
  "content_types =
     [(''html'', ''text/html; charset=utf-8''), (''htm'', ''text/html; charset=utf-8''),
      (''css'', ''text/css; charset=utf-8''), (''js'', ''text/javascript; charset=utf-8''),
      (''mjs'', ''text/javascript; charset=utf-8''), (''json'', ''application/json''),
      (''map'', ''application/json''), (''txt'', ''text/plain; charset=utf-8''),
      (''md'', ''text/plain; charset=utf-8''), (''webmanifest'', ''application/manifest+json''),
      (''xhtml'', ''application/xhtml+xml''), (''bmp'', ''image/bmp''),
      (''eot'', ''application/vnd.ms-fontobject''), (''flac'', ''audio/flac''), (''m4a'', ''audio/mp4''),
      (''jsonld'', ''application/ld+json''), (''rss'', ''application/xml''), (''atom'', ''application/xml''),
      (''csv'', ''text/csv; charset=utf-8''), (''xml'', ''application/xml''), (''svg'', ''image/svg+xml''),
      (''png'', ''image/png''), (''jpg'', ''image/jpeg''), (''jpeg'', ''image/jpeg''), (''gif'', ''image/gif''),
      (''webp'', ''image/webp''), (''avif'', ''image/avif''), (''ico'', ''image/x-icon''),
      (''woff'', ''font/woff''), (''woff2'', ''font/woff2''), (''ttf'', ''font/ttf''), (''otf'', ''font/otf''),
      (''pdf'', ''application/pdf''), (''wasm'', ''application/wasm''), (''mp4'', ''video/mp4''),
      (''webm'', ''video/webm''), (''mp3'', ''audio/mpeg''), (''ogg'', ''audio/ogg''), (''wav'', ''audio/wav''),
      (''zip'', ''application/zip''), (''gz'', ''application/gzip'')]"

text \<open>\<open>Path::extension\<close> of a file name: what follows its last dot, unless that is its first character.\<close>

definition file_extension :: "string \<Rightarrow> string option" where
  "file_extension name =
     (let tail = takeWhile (\<lambda>c. c \<noteq> CHR ''.'') (rev name)
      in if length name \<le> length tail + 1 then None else Some (rev tail))"

definition content_type :: "os_path \<Rightarrow> string" where
  "content_type path =
     (let ext = (if path = [] then [] else case file_extension (last path) of None \<Rightarrow> [] | Some e \<Rightarrow> e)
      in case map_of content_types (to_ascii_lowercase ext) of
           None \<Rightarrow> ''application/octet-stream'' | Some t \<Rightarrow> t)"

record validators =
  va_if_none_match :: "string option"
  va_if_modified_since :: "string option"

record http_dates =
  hd_format :: "int \<Rightarrow> string"
  hd_parse :: "string \<Rightarrow> int option"
  hd_header_ok :: "string \<Rightarrow> bool"

definition weak_tag :: "string \<Rightarrow> string" where
  "weak_tag tag =
     (let tag = trim tag in trim (case strip_prefix tag ''W/'' of None \<Rightarrow> tag | Some t \<Rightarrow> t))"

definition whole_seconds :: "int \<Rightarrow> int" where
  "whole_seconds t = (if t < 0 then 0 else t div 1000000000)"

definition not_modified :: "http_dates \<Rightarrow> validators \<Rightarrow> string \<Rightarrow> int \<Rightarrow> bool" where
  "not_modified dates v etag modified =
     (case va_if_none_match v of
        Some candidates \<Rightarrow>
          list_ex (\<lambda>candidate. trim candidate = ''*'' \<or> weak_tag candidate = weak_tag etag)
            (str_split (CHR '','') candidates)
      | None \<Rightarrow>
          (case Option.bind (va_if_modified_since v) (hd_parse dates) of
             Some since \<Rightarrow> whole_seconds modified \<le> whole_seconds since
           | None \<Rightarrow> False))"

definition quote :: char where
  "quote = CHR 0x22"

definition make_etag :: "int option \<Rightarrow> nat \<Rightarrow> string option" where
  "make_etag modified len =
     map_option (\<lambda>t. ''W/'' @ [quote] @ lower_hex len @ ''-'' @ lower_hex (nat t) @ [quote]) modified"

section \<open>Reading a file\<close>

definition small_file :: nat where
  "small_file = 64 * 1024"

definition file_chunk :: nat where
  "file_chunk = 64 * 1024"

text \<open>The chunks \<open>FileChunks\<close> yields until it ends.\<close>

function file_chunks :: "'f reader \<Rightarrow> 'f \<Rightarrow> nat \<Rightarrow> string list" where
  "file_chunks rd file remaining =
     (if remaining = 0 then []
      else (case rd (min file_chunk remaining) file of
              (Inl _, _) \<Rightarrow> []
            | (Inr filled, file) \<Rightarrow>
                if filled = [] then [] else filled # file_chunks rd file (remaining - length filled)))"
  by pat_completeness auto
termination
  by (relation "measure (\<lambda>(rd, file, remaining). remaining)") auto

text \<open>\<open>read_to_end\<close> of \<open>take(file, limit)\<close>\<close>

function read_to_end_take :: "'f reader \<Rightarrow> 'f \<Rightarrow> nat \<Rightarrow> string + string" where
  "read_to_end_take rd file limit =
     (if limit = 0 then Inr []
      else (case rd limit file of
              (Inl e, _) \<Rightarrow> Inl e
            | (Inr filled, file) \<Rightarrow>
                if filled = [] then Inr []
                else bind_result (read_to_end_take rd file (limit - length filled)) (\<lambda>more. Inr (filled @ more))))"
  by pat_completeness auto
termination
  by (relation "measure (\<lambda>(rd, file, limit). limit)") auto

declare file_chunks.simps [simp del] read_to_end_take.simps [simp del]

section \<open>Answering\<close>

text \<open>Body, and the length and validator that describe it.\<close>

definition file_body ::
  "'f reader \<Rightarrow> bool \<Rightarrow> nat \<Rightarrow> int option \<Rightarrow> 'f \<Rightarrow> (response_body \<times> nat \<times> string option) option" where
  "file_body rd head len modified file =
     (if head then Some (Full (Some []), len, make_etag modified len)
      else if len \<le> small_file then
        (case read_to_end_take rd file len of
           Inl _ \<Rightarrow> None
         | Inr bytes \<Rightarrow> Some (Full (Some bytes), length bytes, make_etag modified (length bytes)))
      else Some (Stream (file_chunks rd file len), len, make_etag modified len))"

definition described :: "http_dates \<Rightarrow> serve_config \<Rightarrow> os_path \<Rightarrow> int option \<Rightarrow> headers" where
  "described dates c path modified =
     (let h = hm_append ''content-type'' (text_value (content_type path)) no_headers;
          h = hm_append ''accept-ranges'' (text_value ''none'') h;
          h = hm_append ''x-content-type-options'' (text_value ''nosniff'') h;
          h = (case sd_cache_control c of None \<Rightarrow> h | Some v \<Rightarrow> hm_append ''cache-control'' v h)
      in case modified of
           None \<Rightarrow> h | Some t \<Rightarrow> hm_append ''last-modified'' (text_value (hd_format dates t)) h)"

definition append_etag :: "string option \<Rightarrow> headers \<Rightarrow> headers" where
  "append_etag etag h = (case etag of None \<Rightarrow> h | Some e \<Rightarrow> hm_append ''etag'' (text_value e) h)"

definition redirect :: "http_dates \<Rightarrow> string \<Rightarrow> response option" where
  "redirect dates location =
     (if hd_header_ok dates location
      then Some ((new_response 308 (Full (Some [])))\<lparr>resp_headers :=
             hm_append ''content-length'' (text_value ''0'')
               (hm_append ''location'' (text_value location) no_headers)\<rparr>)
      else None)"

definition serve_file ::
  "http_dates \<Rightarrow> 'f reader \<Rightarrow> serve_config \<Rightarrow> validators \<Rightarrow> bool \<Rightarrow> os_path \<Rightarrow> metadata \<Rightarrow> 'f
     \<Rightarrow> response option" where
  "serve_file dates rd c v head path md file =
     (let len = md_len md; modified = md_modified md; etag = make_etag modified len;
          h = described dates c path modified
      in if (case (etag, modified) of (Some e, Some t) \<Rightarrow> not_modified dates v e t | _ \<Rightarrow> False)
         then Some ((new_response 304 (Full (Some [])))\<lparr>resp_headers := append_etag etag h\<rparr>)
         else (case file_body rd head len modified file of
                 None \<Rightarrow> None
               | Some (body, len, etag) \<Rightarrow>
                   Some ((new_response 200 body)\<lparr>resp_headers :=
                     hm_append ''content-length'' (text_value (dec len)) (append_etag etag h)\<rparr>)))"

definition serve ::
  "http_dates \<Rightarrow> 'f reader \<Rightarrow> serve_config \<Rightarrow> 'f file_system \<Rightarrow> string list \<Rightarrow> validators \<Rightarrow> bool
     \<Rightarrow> string option \<Rightarrow> response option" where
  "serve dates rd c fs segments v head redirect_to =
     (case resolve c fs segments of
        None \<Rightarrow> None
      | Some r \<Rightarrow>
          (case (rs_via_directory r, redirect_to) of
             (True, Some location) \<Rightarrow> redirect dates location
           | _ \<Rightarrow>
             (case fs_open fs (rs_path r) of
                None \<Rightarrow> None
              | Some (file, opened) \<Rightarrow>
                  serve_file dates rd c v head (rs_path r)
                    (case opened of Some m \<Rightarrow> if md_file m then m else rs_metadata r | None \<Rightarrow> rs_metadata r)
                    file)))"

text \<open>Where a directory without a trailing slash is redirected to.\<close>

definition slashed_location :: "string \<Rightarrow> string option \<Rightarrow> string option" where
  "slashed_location path query =
     (if ends_with path [slash] then None
      else Some ([slash] @ concat (map (\<lambda>part. part @ [slash]) (split_path path)) @
                 (case query of None \<Rightarrow> [] | Some q \<Rightarrow> CHR ''?'' # q)))"

definition serve_dir_handle ::
  "http_dates \<Rightarrow> 'f reader \<Rightarrow> serve_config \<Rightarrow> ('w \<Rightarrow> 'f file_system) \<Rightarrow> ('i, 'w) layer" where
  "serve_dir_handle dates rd c fs request run_next =
     (let head = (rq_method request = HEAD)
      in if \<not> head \<and> rq_method request \<noteq> GET then run_next request
         else (case relative c (rq_path request) of
                 None \<Rightarrow> run_next request
               | Some segments \<Rightarrow>
                   (\<lambda>w. case serve dates rd c (fs w) segments
                              \<lparr>va_if_none_match = header_text (rq_headers request) ''if-none-match'',
                               va_if_modified_since = header_text (rq_headers request) ''if-modified-since''\<rparr>
                              head (slashed_location (rq_path request) (rq_query request)) of
                          Some response \<Rightarrow> (Ret response, w)
                        | None \<Rightarrow> run_next request w)))"

section \<open>Which segments are served\<close>

lemma skip_expected_list:
  "skip_expected es parts = Some rest \<Longrightarrow>
     map part_value (parts_list parts) = es @ map part_value (parts_list rest)"
proof (induction es parts rule: skip_expected.induct)
  case (2 expected es parts)
  obtain r rest' where nx: "parts_next parts = (r, rest')" by (cases "parts_next parts")
  then show ?case
    using 2 by (cases r) (auto simp: parts_list.simps[of parts] split: if_splits)
qed simp

lemma skip_expected_None:
  "skip_expected es parts = None \<Longrightarrow> take (length es) (map part_value (parts_list parts)) \<noteq> es"
proof (induction es parts rule: skip_expected.induct)
  case (2 expected es parts)
  obtain r rest' where nx: "parts_next parts = (r, rest')" by (cases "parts_next parts")
  then show ?case
    using 2 by (cases r) (auto simp: parts_list.simps[of parts] split: if_splits)
qed simp

lemma relative_segments:
  "relative c path =
     (if take (length (sd_prefix c)) (split_path path) = sd_prefix c
      then collect_segments (sd_dotfiles c) (drop (length (sd_prefix c)) (split_path path)) else None)"
proof (cases "skip_expected (sd_prefix c) (path_parts_new path)")
  case None
  then show ?thesis
    using skip_expected_None[OF None] by (simp add: relative_def split_path_def)
next
  case (Some rest)
  then show ?thesis
    using skip_expected_list[OF Some] by (simp add: relative_def split_path_def)
qed

lemma collect_segments_all:
  "collect_segments dotfiles raws = Some segs \<Longrightarrow>
     list_all2 (\<lambda>raw seg. percent_decode raw = Inr seg \<and> \<not> unsafe_segment dotfiles seg) raws segs"
  by (induction raws arbitrary: segs) (auto split: sum.splits if_splits)

lemma collect_segments_iff:
  "collect_segments dotfiles raws = Some segs \<longleftrightarrow>
     list_all2 (\<lambda>raw seg. percent_decode raw = Inr seg \<and> \<not> unsafe_segment dotfiles seg) raws segs"
proof
  show "collect_segments dotfiles raws = Some segs"
    if "list_all2 (\<lambda>raw seg. percent_decode raw = Inr seg \<and> \<not> unsafe_segment dotfiles seg) raws segs"
    using that by (induction raws segs rule: list_all2_induct) auto
qed (rule collect_segments_all)

lemma list_all2_origin: "list_all2 P xs ys \<Longrightarrow> y \<in> set ys \<Longrightarrow> \<exists>x \<in> set xs. P x y"
  by (induction rule: list_all2_induct) auto

lemma decode_bytes_nonempty: "decode_bytes s = Some [] \<Longrightarrow> s = []"
  by (cases s rule: decode_bytes.cases) (auto split: list.splits option.splits if_splits)

lemma percent_decode_head:
  assumes "percent_decode (c # s) = Inr seg" "c \<noteq> percent"
  shows "\<exists>t. seg = c # t"
  using assms decode_bytes_literal[of "[c]" s]
  by (auto simp: percent_decode_reference split: option.splits if_splits)

lemma control_bytes: "\<not> has_control seg \<Longrightarrow> x \<in> set seg \<Longrightarrow> 32 \<le> byte x \<and> byte x \<noteq> 127"
  by (induction seg) auto

lemma slashed_location_head:
  assumes "slashed_location path query = Some location"
  obtains "split_path path = []" "location = [slash] @ (case query of None \<Rightarrow> [] | Some q \<Rightarrow> CHR ''?'' # q)"
  | p ps rest where "split_path path = p # ps" "p \<noteq> []" "slash \<notin> set p" "location = slash # p @ rest"
proof (cases "split_path path")
  case Nil
  then show ?thesis
    using assms that(1) by (simp add: slashed_location_def split: if_splits)
next
  case (Cons p ps)
  then have "p \<noteq> []" "slash \<notin> set p"
    using pieces_no_slash[of p path] by (simp_all add: split_path_pieces)
  then show ?thesis
    using assms that(2)[OF Cons] Cons by (auto simp: slashed_location_def split: if_splits)
qed

definition served_as :: "serve_config \<Rightarrow> string \<Rightarrow> string \<Rightarrow> bool" where
  "served_as c raw seg \<longleftrightarrow> percent_decode raw = Inr seg \<and> \<not> unsafe_segment (sd_dotfiles c) seg"

lemma relative_iff:
  "relative c path = Some segs \<longleftrightarrow>
     (\<exists>raws. split_path path = sd_prefix c @ raws \<and> list_all2 (served_as c) raws segs)"
proof -
  have "(\<exists>raws. split_path path = sd_prefix c @ raws \<and> P raws) \<longleftrightarrow>
      take (length (sd_prefix c)) (split_path path) = sd_prefix c \<and> P (drop (length (sd_prefix c)) (split_path path))"
    for P by (metis append_eq_conv_conj)
  then show ?thesis
    by (simp add: relative_segments collect_segments_iff served_as_def[abs_def])
qed

lemma served_name_safe:
  assumes "served_as c raw seg" "raw \<noteq> []"
  shows "seg \<notin> {[], ''.'', ''..''}" "hidden seg \<Longrightarrow> sd_dotfiles c"
    "x \<in> set seg \<Longrightarrow> x \<notin> {slash, CHR 0x5C, CHR '':''} \<and> 32 \<le> byte x \<and> byte x \<noteq> 127"
proof -
  have "seg \<noteq> []"
    using assms decode_bytes_nonempty
    by (auto simp: served_as_def percent_decode_reference split: option.splits if_splits)
  then show "seg \<notin> {[], ''.'', ''..''}" "hidden seg \<Longrightarrow> sd_dotfiles c"
    "x \<in> set seg \<Longrightarrow> x \<notin> {slash, CHR 0x5C, CHR '':''} \<and> 32 \<le> byte x \<and> byte x \<noteq> 127"
    using assms(1) control_bytes[of seg] by (auto simp: served_as_def unsafe_segment_def list_ex_iff)
qed

lemma served_name_no_backslash: "served_as c p seg \<Longrightarrow> p \<noteq> [] \<Longrightarrow> hd p \<noteq> CHR 0x5C"
  using percent_decode_head[of "CHR 0x5C" "tl p" seg]
  by (cases p) (auto simp: served_as_def unsafe_segment_def)

lemma location_on_host:
  assumes "relative c path = Some segs" "slashed_location path query = Some location"
  shows "\<exists>rest. location = slash # rest \<and>
           (rest \<noteq> [] \<longrightarrow> hd rest \<noteq> slash \<and> (sd_prefix c = [] \<longrightarrow> hd rest \<noteq> CHR 0x5C))"
  using assms(2)
proof (cases rule: slashed_location_head)
  case 1
  then show ?thesis by (auto split: option.splits)
next
  case (2 p ps rest)
  have "hd p \<noteq> slash" using 2 by (metis hd_in_set)
  moreover have "hd p \<noteq> CHR 0x5C" if "sd_prefix c = []"
    using assms(1) that 2 served_name_no_backslash[of c p] by (auto simp: relative_iff list_all2_Cons1)
  ultimately show ?thesis using 2 by auto
qed

text \<open>A request is served from the directory exactly when its path lies under the prefix and every
  further segment decodes to a safe name. Then no name is empty, \<open>.\<close> or \<open>..\<close>, contains a slash, a
  backslash, a colon or a control character, or, unless allowed, is hidden; and the location a
  directory is redirected to stays on this host: it begins with a single slash, which no browser
  takes for the start of a host name.\<close>

theorem served_paths_safe:
  "(relative c path = Some segs \<longleftrightarrow>
      (\<exists>raws. split_path path = sd_prefix c @ raws \<and>
         list_all2 (served_as c) raws segs)) \<and>
   (relative c path = Some segs \<longrightarrow>
      (\<forall>seg \<in> set segs. seg \<notin> {[], ''.'', ''..''} \<and> (hidden seg \<longrightarrow> sd_dotfiles c) \<and>
         (\<forall>x \<in> set seg. x \<notin> {slash, CHR 0x5C, CHR '':''} \<and> 32 \<le> byte x \<and> byte x \<noteq> 127)) \<and>
      (\<forall>query location. slashed_location path query = Some location \<longrightarrow>
         (\<exists>rest. location = slash # rest \<and>
            (rest \<noteq> [] \<longrightarrow> hd rest \<noteq> slash \<and> (sd_prefix c = [] \<longrightarrow> hd rest \<noteq> CHR 0x5C)))))"
proof -
  have "seg \<notin> {[], ''.'', ''..''} \<and> (hidden seg \<longrightarrow> sd_dotfiles c) \<and>
      (\<forall>x \<in> set seg. x \<notin> {slash, CHR 0x5C, CHR '':''} \<and> 32 \<le> byte x \<and> byte x \<noteq> 127)"
    if known: "relative c path = Some segs" "seg \<in> set segs" for seg
  proof -
    obtain raws where raws: "split_path path = sd_prefix c @ raws" "list_all2 (served_as c) raws segs"
      using known(1)[unfolded relative_iff] by blast
    then obtain raw where "raw \<in> set raws" "served_as c raw seg"
      using list_all2_origin[OF raws(2) known(2)] by blast
    moreover have "raw \<noteq> []"
      using calculation(1) raws(1) pieces_no_slash[of raw path] by (auto simp: split_path_pieces)
    ultimately show ?thesis
      using served_name_safe by blast
  qed
  note names = this
  show ?thesis
  proof (rule conjI[OF relative_iff], rule impI, rule conjI)
    assume "relative c path = Some segs"
    then show "\<forall>seg \<in> set segs. seg \<notin> {[], ''.'', ''..''} \<and> (hidden seg \<longrightarrow> sd_dotfiles c) \<and>
        (\<forall>x \<in> set seg. x \<notin> {slash, CHR 0x5C, CHR '':''} \<and> 32 \<le> byte x \<and> byte x \<noteq> 127)"
      by (intro ballI names)
    show "\<forall>query location. slashed_location path query = Some location \<longrightarrow>
        (\<exists>rest. location = slash # rest \<and>
          (rest \<noteq> [] \<longrightarrow> hd rest \<noteq> slash \<and> (sd_prefix c = [] \<longrightarrow> hd rest \<noteq> CHR 0x5C)))"
      using location_on_host[OF \<open>relative c path = Some segs\<close>] by blast
  qed
qed

definition demo_site :: serve_config where
  "demo_site = \<lparr>sd_prefix = [], sd_root = [''srv'', ''www''], sd_index = Some ''index.html'',
     sd_cache_control = None, sd_dotfiles = False\<rparr>"

theorem served_paths_safe_witness:
  "relative demo_site ''/docs/a.txt'' = Some [''docs'', ''a.txt''] \<and> relative demo_site ''/.env'' = None"
proof -
  have split: "split_path ''/docs/a.txt'' = [''docs'', ''a.txt'']" "split_path ''/.env'' = [''.env'']"
    by (simp_all add: split_path_pieces pieces_def)
  have "percent_decode ''docs'' = Inr ''docs''" "percent_decode ''a.txt'' = Inr ''a.txt''"
    "percent_decode ''.env'' = Inr ''.env''"
    by (simp_all add: percent_decode_literal)
  then have "served_as demo_site ''docs'' ''docs''" "served_as demo_site ''a.txt'' ''a.txt''"
    "\<And>seg. \<not> served_as demo_site ''.env'' seg"
    by (auto simp: served_as_def unsafe_segment_def hidden_def starts_with_def demo_site_def)
  then show ?thesis
    using served_paths_safe[of demo_site "''/docs/a.txt''" "[''docs'', ''a.txt'']"]
      served_paths_safe[of demo_site "''/.env''" "the (relative demo_site ''/.env'')"] split
    by (cases "relative demo_site ''/.env''") (simp_all add: demo_site_def list_all2_Cons1)
qed

section \<open>Nothing outside the directory\<close>

definition visible :: "serve_config \<Rightarrow> os_path \<Rightarrow> bool" where
  "visible c p \<longleftrightarrow>
     take (length (sd_root c)) p = sd_root c \<and>
     (sd_dotfiles c \<or> (\<forall>name \<in> set (drop (length (sd_root c)) p). \<not> hidden name))"

lemma contained_visible:
  "contained c fs p = Option.bind (fs_canonicalize fs p) (\<lambda>q. if visible c q then Some q else None)"
  by (auto simp: contained_def visible_def list_ex_iff split: option.splits)

text \<open>Two file systems that agree on the visible files, and on which names lead to them.\<close>

definition same_tree :: "serve_config \<Rightarrow> 'f file_system \<Rightarrow> 'f file_system \<Rightarrow> bool" where
  "same_tree c fs fs' \<longleftrightarrow>
     (\<forall>p q. visible c q \<longrightarrow> (fs_canonicalize fs p = Some q \<longleftrightarrow> fs_canonicalize fs' p = Some q)) \<and>
     (\<forall>q. visible c q \<longrightarrow> fs_metadata fs q = fs_metadata fs' q \<and> fs_open fs q = fs_open fs' q)"

lemma contained_Some: "contained c fs p = Some q \<longleftrightarrow> fs_canonicalize fs p = Some q \<and> visible c q"
  by (auto simp: contained_visible bind_eq_Some_conv split: if_splits)

lemma contained_same: "same_tree c fs fs' \<Longrightarrow> contained c fs p = contained c fs' p"
proof -
  assume "same_tree c fs fs'"
  then have "contained c fs p = Some q \<longleftrightarrow> contained c fs' p = Some q" for q
    unfolding contained_Some same_tree_def by blast
  then show ?thesis
    by (metis option.exhaust)
qed

lemma resolve_visible: "resolve c fs segs = Some r \<Longrightarrow> visible c (rs_path r)"
  by (auto simp: resolve_def bind_eq_Some_conv contained_Some split: if_splits)

lemma resolve_same:
  assumes "same_tree c fs fs'"
  shows "resolve c fs segs = resolve c fs' segs"
proof -
  have "fs_metadata fs q = fs_metadata fs' q" if "q \<in> set_option (contained c fs' p)" for p q
    using assms that by (simp add: same_tree_def contained_Some)
  then show ?thesis
    unfolding resolve_def contained_same[OF assms]
    by (intro bind_option_cong refl) (auto intro!: bind_option_cong)
qed

text \<open>C17: Nothing outside the directory can be read through it. Every file that is found lies in the
  directory and, unless hidden files are allowed, under no hidden name, whatever links the path
  went through; and the whole layer, for all requests, depends on no other file of the system: it
  answers the same when all of those have other contents or do not exist.\<close>

theorem only_the_directory_is_served:
  assumes "\<And>w. same_tree c (fs w) (fs' w)"
  shows "(serve_dir_handle dates rd c fs :: ('i, 'w) layer) = serve_dir_handle dates rd c fs' \<and>
    (\<forall>w segs r. resolve c (fs w) segs = Some r \<longrightarrow> visible c (rs_path r))"
proof
  have "serve dates rd c (fs w) segs v head to = serve dates rd c (fs' w) segs v head to" for w segs v head to
  proof -
    have same: "resolve c (fs w) segs = resolve c (fs' w) segs"
      by (rule resolve_same[OF assms])
    show ?thesis
    proof (cases "resolve c (fs' w) segs")
      case None
      then show ?thesis using same by (simp add: serve_def)
    next
      case (Some r)
      then have "fs_open (fs w) (rs_path r) = fs_open (fs' w) (rs_path r)"
        using assms[of w] resolve_visible[OF Some] by (simp add: same_tree_def)
      then show ?thesis using same Some by (cases to; cases "rs_via_directory r") (simp_all add: serve_def)
    qed
  qed
  note same = this
  show "(serve_dir_handle dates rd c fs :: ('i, 'w) layer) = serve_dir_handle dates rd c fs'"
  proof (intro ext)
    fix request :: "'i request_body request" and run_next w
    show "serve_dir_handle dates rd c fs request run_next w = serve_dir_handle dates rd c fs' request run_next w"
      by (cases "relative c (rq_path request)") (simp_all add: serve_dir_handle_def Let_def same)
  qed
  show "\<forall>w segs r. resolve c (fs w) segs = Some r \<longrightarrow> visible c (rs_path r)"
    using resolve_visible by blast
qed

definition demo_metadata :: metadata where
  "demo_metadata = \<lparr>md_dir = False, md_file = True, md_len = 2, md_modified = Some 5\<rparr>"

definition demo_fs :: "string \<Rightarrow> string list file_system" where
  "demo_fs secret =
     \<lparr>fs_canonicalize = (\<lambda>p. if p = [''srv'', ''www'', ''link''] then Some [''etc'', ''key'']
        else if p = [''srv'', ''www'', ''a.txt''] then Some p else None),
      fs_metadata = (\<lambda>p. Some demo_metadata),
      fs_open = (\<lambda>p. if p = [''etc'', ''key''] then Some ([secret], None) else Some ([''hi''], None))\<rparr>"

theorem only_the_directory_is_served_witness:
  "serve_dir_handle \<lparr>hd_format = (\<lambda>_. []), hd_parse = (\<lambda>_. None), hd_header_ok = (\<lambda>_. True)\<rparr> segment_read demo_site
     (\<lambda>_ :: unit. demo_fs ''aa'') =
     (serve_dir_handle \<lparr>hd_format = (\<lambda>_. []), hd_parse = (\<lambda>_. None), hd_header_ok = (\<lambda>_. True)\<rparr>
      segment_read demo_site (\<lambda>_. demo_fs ''bb'') :: (unit, unit) layer)"
proof -
  have "same_tree demo_site (demo_fs ''aa'') (demo_fs ''bb'')"
    by (auto simp: same_tree_def demo_fs_def visible_def demo_site_def)
  from only_the_directory_is_served[where fs = "\<lambda>_. demo_fs ''aa''", OF this] show ?thesis
    by blast
qed

section \<open>What is served\<close>

context byte_source
begin

text \<open>A source that does not fail.\<close>

lemma file_chunks_stream:
  assumes "\<And>n io. \<exists>bs io'. read_some n io = (Inr bs, io')"
  shows "concat (file_chunks read_some io n) = take n (stream_of io)"
proof (induction n arbitrary: io rule: less_induct)
  case (less n)
  obtain bs io' where rd: "read_some (min file_chunk n) io = (Inr bs, io')"
    using assms by blast
  note step = read_next[OF rd]
  show ?case
  proof (cases "n = 0 \<or> bs = []")
    case True
    then show ?thesis
      using read_end[of "min file_chunk n" io io'] rd
      by (auto simp: file_chunks.simps[of _ _ n] file_chunk_def)
  next
    case False
    then have "concat (file_chunks read_some io' (n - length bs)) = take (n - length bs) (stream_of io')"
      by (intro less) simp
    then show ?thesis
      using False rd step by (simp add: file_chunks.simps[of _ _ n])
  qed
qed

lemma read_to_end_take_stream:
  assumes "\<And>n io. \<exists>bs io'. read_some n io = (Inr bs, io')"
  shows "read_to_end_take read_some io n = Inr (take n (stream_of io))"
proof (induction n arbitrary: io rule: less_induct)
  case (less n)
  obtain bs io' where rd: "read_some n io = (Inr bs, io')"
    using assms by blast
  note step = read_next[OF rd]
  show ?case
  proof (cases "n = 0 \<or> bs = []")
    case True
    then show ?thesis
      using read_end[of n io io'] rd by (auto simp: read_to_end_take.simps[of _ _ n])
  next
    case False
    then have "read_to_end_take read_some io' (n - length bs) = Inr (take (n - length bs) (stream_of io'))"
      by (intro less) simp
    then show ?thesis
      using False rd step by (simp add: read_to_end_take.simps[of _ _ n])
  qed
qed

end

lemma segment_read_total: "\<exists>bs segs'. segment_read n segs = (Inr bs, segs')"
  using segment_read_spec by (metis surj_pair)

lemmas segment_file = segments.file_chunks_stream[OF segment_read_total]
  segments.read_to_end_take_stream[OF segment_read_total]

text \<open>A file that did not shrink is served whole, however the reads are cut: the answer is either
  a 304 without a body, exactly when the validators of the request match, or a 200 with the bytes of
  the file up to the size its handle reported, stating that length. Both carry the entity tag of that
  size and time. A \<open>HEAD\<close> request gets the status and headers of the \<open>GET\<close> with no body.\<close>

theorem files_served_whole:
  assumes "md_len md \<le> length (concat file)"
  shows "\<exists>r. serve_file dates segment_read c v False path md file = Some r \<and>
    serve_file dates segment_read c v True path md file = Some (r\<lparr>resp_body := Full (Some [])\<rparr>) \<and>
    hm_get (resp_headers r) ''etag'' = map_option text_value (make_etag (md_modified md) (md_len md)) \<and>
    (if \<exists>t e. md_modified md = Some t \<and> make_etag (Some t) (md_len md) = Some e \<and> not_modified dates v e t
     then resp_status r = 304 \<and> body_bytes (resp_body r) = [] \<and>
          hm_get (resp_headers r) ''content-length'' = None
     else resp_status r = 200 \<and> body_bytes (resp_body r) = take (md_len md) (concat file) \<and>
          states_length r (md_len md) \<and> well_framed r)"
proof -
  let ?t = "md_modified md" and ?n = "md_len md"
  let ?h = "described dates c path ?t"
  have keys: "?h ''etag'' = []" "?h ''content-length'' = []"
    by (auto simp: described_def Let_def hm_append_def no_headers_def split: option.splits)
  have tag: "hm_get (append_etag (make_etag ?t ?n) ?h) ''etag'' = map_option text_value (make_etag ?t ?n)"
    using keys(1) by (cases "make_etag ?t ?n") (simp_all add: append_etag_def hm_get_def hm_append_def)
  have no_length: "append_etag (make_etag ?t ?n) ?h ''content-length'' = []"
    using keys(2) by (simp add: append_etag_def hm_append_def split: option.split)
  have body: "\<exists>b. file_body segment_read False ?n ?t file = Some (b, ?n, make_etag ?t ?n) \<and>
      body_bytes b = take ?n (concat file)"
    using assms by (simp add: file_body_def segment_file)
  then obtain b where b: "file_body segment_read False ?n ?t file = Some (b, ?n, make_etag ?t ?n)"
      "body_bytes b = take ?n (concat file)"
    by blast
  have head: "file_body segment_read True ?n ?t file = Some (Full (Some []), ?n, make_etag ?t ?n)"
    by (simp add: file_body_def)
  let ?match = "case (make_etag ?t ?n, ?t) of (Some e, Some t) \<Rightarrow> not_modified dates v e t | _ \<Rightarrow> False"
  have match: "?match \<longleftrightarrow> (\<exists>t e. ?t = Some t \<and> make_etag (Some t) ?n = Some e \<and> not_modified dates v e t)"
    by (cases ?t) (auto simp: make_etag_def)
  show ?thesis
  proof (cases ?match)
    case True
    then show ?thesis
      using tag no_length match[symmetric] by (simp add: serve_file_def Let_def hm_get_def)
  next
    case False
    then show ?thesis
      using tag no_length b head assms match[symmetric]
      by (simp add: serve_file_def Let_def states_length_def well_framed_def header_text_def)
  qed
qed

theorem files_served_whole_witness:
  "\<exists>r. serve_file \<lparr>hd_format = (\<lambda>_. ''Thu, 01 Jan 1970 00:00:00 GMT''), hd_parse = (\<lambda>_. None),
            hd_header_ok = (\<lambda>_. True)\<rparr> segment_read demo_site
         \<lparr>va_if_none_match = None, va_if_modified_since = None\<rparr> False [''srv'', ''www'', ''a.txt'']
         demo_metadata [''h'', ''i''] = Some r \<and> resp_status r = 200 \<and> body_bytes (resp_body r) = ''hi''"
proof -
  have "md_len demo_metadata \<le> length (concat [''h'', ''i''])"
    by (simp add: demo_metadata_def)
  from files_served_whole[OF this, of "\<lparr>hd_format = (\<lambda>_. ''Thu, 01 Jan 1970 00:00:00 GMT''),
        hd_parse = (\<lambda>_. None), hd_header_ok = (\<lambda>_. True)\<rparr>" demo_site
        "\<lparr>va_if_none_match = None, va_if_modified_since = None\<rparr>" "[''srv'', ''www'', ''a.txt'']"]
  show ?thesis
    by (auto simp: not_modified_def demo_metadata_def)
qed

section \<open>Entity tags\<close>

definition hex_value :: "string \<Rightarrow> nat" where
  "hex_value s = foldl (\<lambda>a c. 16 * a + the (hex c)) 0 s"

lemma hex_value_lower_hex: "hex_value (lower_hex n) = n"
proof (induction n rule: lower_hex.induct)
  case (1 n)
  then show ?case
    by (subst lower_hex.simps) (auto simp: hex_value_def)
qed

lemma lower_hex_digits: "c \<in> set (lower_hex n) \<Longrightarrow> c \<notin> {CHR '','', CHR ''-''}"
proof (induction n rule: lower_hex.induct)
  case (1 n)
  have "hex_digit d \<notin> {CHR '','', CHR ''-''}" if "d < 16" for d
  proof
    assume "hex_digit d \<in> {CHR '','', CHR ''-''}"
    then have "hex (hex_digit d) = None"
      by (auto simp: hex_def)
    then show False using that by simp
  qed
  then show ?case
    using 1 by (subst (asm) lower_hex.simps) (auto split: if_splits)
qed

lemma append_at_inject: "(c :: char) \<notin> set a \<Longrightarrow> c \<notin> set b \<Longrightarrow> a @ c # x = b @ c # y \<longleftrightarrow> a = b \<and> x = y"
  using split_once_Some[of c "b @ c # y" b y] split_once_Some[of c "b @ c # y" a x] by auto

definition tag_text :: "int \<Rightarrow> nat \<Rightarrow> string" where
  "tag_text t len = [quote] @ lower_hex len @ ''-'' @ lower_hex (nat t) @ [quote]"

lemma make_etag_Some: "make_etag (Some t) len = Some (''W/'' @ tag_text t len)"
  by (simp add: make_etag_def tag_text_def)

lemma weak_tag_etag: "weak_tag (''W/'' @ tag_text t len) = tag_text t len"
proof -
  have "trim (''W/'' @ tag_text t len) = ''W/'' @ tag_text t len" "trim (tag_text t len) = tag_text t len"
    by (auto intro!: trim_plain simp: tag_text_def quote_def)
  then show ?thesis
    by (simp add: weak_tag_def strip_prefix_def starts_with_def)
qed

lemma tag_text_inject:
  "0 \<le> t \<Longrightarrow> 0 \<le> t' \<Longrightarrow> tag_text t len = tag_text t' len' \<longleftrightarrow> t = t' \<and> len = len'"
proof
  assume pos: "0 \<le> t" "0 \<le> t'" and eq: "tag_text t len = tag_text t' len'"
  have "lower_hex len = lower_hex len' \<and> lower_hex (nat t) = lower_hex (nat t')"
    using eq append_at_inject[of "CHR ''-''" "lower_hex len" "lower_hex len'"] lower_hex_digits
    by (auto simp: tag_text_def)
  then show "t = t' \<and> len = len'"
    using pos hex_value_lower_hex by (metis nat_eq_iff2)
qed simp

text \<open>A client that sends back the entity tag it was given gets a 304 exactly while the file keeps
  its size and, to the nanosecond, its modification time; whatever \<open>If-Modified-Since\<close> says.\<close>

theorem etag_roundtrip:
  assumes "0 \<le> t" "0 \<le> t'" "make_etag (Some t) len = Some tag" "make_etag (Some t') len' = Some tag'"
  shows "not_modified dates \<lparr>va_if_none_match = Some tag, va_if_modified_since = since\<rparr> tag' t' \<longleftrightarrow>
    t = t' \<and> len = len'"
proof -
  have tags: "tag = ''W/'' @ tag_text t len" "tag' = ''W/'' @ tag_text t' len'"
    using assms(3,4) by (simp_all add: make_etag_Some)
  have "CHR '','' \<notin> set tag"
    using lower_hex_digits by (auto simp: tags tag_text_def quote_def)
  then have "str_split (CHR '','') tag = [tag]"
    by (rule str_split_no_sep)
  moreover have "trim tag = tag"
    by (auto intro!: trim_plain simp: tags tag_text_def quote_def)
  moreover have "tag \<noteq> ''*''"
    by (simp add: tags)
  ultimately show ?thesis
    using assms(1,2) by (simp add: not_modified_def) (simp add: tags weak_tag_etag tag_text_inject del: append.simps)
qed

theorem etag_roundtrip_witness:
  "\<exists>tag tag'. make_etag (Some 7) 2 = Some tag \<and> make_etag (Some 8) 2 = Some tag' \<and>
     \<not> not_modified \<lparr>hd_format = (\<lambda>_. []), hd_parse = (\<lambda>_. None), hd_header_ok = (\<lambda>_. True)\<rparr>
         \<lparr>va_if_none_match = Some tag, va_if_modified_since = None\<rparr> tag' 8"
proof (intro exI conjI)
  show "make_etag (Some 7) 2 = Some (''W/'' @ tag_text 7 2)" "make_etag (Some 8) 2 = Some (''W/'' @ tag_text 8 2)"
    by (rule make_etag_Some)+
  then show "\<not> not_modified \<lparr>hd_format = (\<lambda>_. []), hd_parse = (\<lambda>_. None), hd_header_ok = (\<lambda>_. True)\<rparr>
      \<lparr>va_if_none_match = Some (''W/'' @ tag_text 7 2), va_if_modified_since = None\<rparr> (''W/'' @ tag_text 8 2) 8"
    using etag_roundtrip[of 7 8 2 _ 2] by simp
qed

end
