(* ===== verification/F64.thy ===== *)
theory F64
  imports Complex_Main
begin

text \<open>
  The binary64 arithmetic the rate limiter and the quality values compute with: a number is a
  rational, and every operation is exact and then rounded to 53 significant bits, ties to even.
  The numbers of this program stay far from the largest and the smallest exponents, so overflow and
  subnormal numbers are left out, as are the values that are not numbers.
\<close>

section \<open>Rounding\<close>

definition round_half_even :: "rat \<Rightarrow> int" where
  "round_half_even y =
     (let f = \<lfloor>y\<rfloor>; r = y - of_int f
      in if r < 1/2 then f else if 1/2 < r then f + 1 else if even f then f else f + 1)"

fun log2_floor :: "nat \<Rightarrow> nat" where
  "log2_floor n = (if n \<le> 1 then 0 else Suc (log2_floor (n div 2)))"

declare log2_floor.simps [simp del]

text \<open>The exponent of a positive number: \<open>2 powi e \<le> x < 2 powi (e + 1)\<close>.\<close>

definition f64_exponent :: "rat \<Rightarrow> int" where
  "f64_exponent x =
     (case quotient_of x of (n, d) \<Rightarrow>
        let e = int (log2_floor (nat n)) - int (log2_floor (nat d))
        in if 2 powi e \<le> x then e else e - 1)"

definition f64_round :: "rat \<Rightarrow> rat" where
  "f64_round x =
     (if x = 0 then 0
      else (let shift = 52 - f64_exponent \<bar>x\<bar>
            in sgn x * of_int (round_half_even (\<bar>x\<bar> * 2 powi shift)) / 2 powi shift))"

abbreviation epsilon :: rat where
  "epsilon \<equiv> 1 / 2 ^ 53"

lemma round_half_even_bounds: "of_int (round_half_even y) \<le> y + 1/2" "y - 1/2 \<le> of_int (round_half_even y)"
proof -
  define f :: rat where "f = of_int \<lfloor>y\<rfloor>"
  have "f \<le> y" "y < f + 1"
    by (simp_all add: f_def) linarith
  moreover have "of_int (round_half_even y) =
      (if y - f < 1/2 then f else if 1/2 < y - f then f + 1 else if even \<lfloor>y\<rfloor> then f else f + 1)"
    by (simp add: round_half_even_def Let_def f_def)
  ultimately show "of_int (round_half_even y) \<le> y + 1/2" "y - 1/2 \<le> of_int (round_half_even y)"
    by (auto split: if_splits)
qed

lemma round_half_even_int [simp]: "round_half_even (of_int i) = i"
  by (simp add: round_half_even_def)

lemma log2_floor_bounds: "0 < n \<Longrightarrow> 2 ^ log2_floor n \<le> n \<and> n < 2 ^ Suc (log2_floor n)"
proof (induction n rule: log2_floor.induct)
  case (1 n)
  show ?case
  proof (cases "n \<le> 1")
    case True
    then have "n = 1" using "1.prems" by simp
    then show ?thesis by (simp add: log2_floor.simps[of "Suc 0"])
  next
    case False
    then show ?thesis
      using "1.IH" by (subst (1 2) log2_floor.simps) auto
  qed
qed

lemma f64_exponent_lower:
  assumes "0 < x"
  shows "2 powi f64_exponent x \<le> x"
proof -
  obtain n d where q: "quotient_of x = (n, d)"
    by (cases "quotient_of x")
  have d: "0 < d" and x: "x = of_int n / of_int d"
    using quotient_of_denom_pos[OF q] quotient_of_div[OF q] by auto
  have n: "0 < n"
    using assms x d by (simp add: zero_less_divide_iff)
  define a b where "a = log2_floor (nat n)" and "b = log2_floor (nat d)"
  have "2 ^ a \<le> nat n" "nat d < 2 ^ Suc b"
    using log2_floor_bounds[of "nat n"] log2_floor_bounds[of "nat d"] n d by (simp_all add: a_def b_def)
  then have "(2 :: int) ^ a \<le> n" "d < 2 ^ Suc b"
    using n d by (simp_all add: nat_less_iff le_nat_iff)
  then have "(of_int (2 ^ a) :: rat) \<le> of_int n" "(of_int d :: rat) < of_int (2 ^ Suc b)"
    by (simp_all only: of_int_le_iff of_int_less_iff)
  then have "(2 :: rat) ^ a / 2 ^ Suc b \<le> of_int n / of_int d"
    using d n by (intro frac_le) simp_all
  then have "2 powi (int a - int b - 1) \<le> x"
    by (simp add: x power_int_diff)
  then show ?thesis
    using q by (simp add: f64_exponent_def a_def b_def Let_def)
qed

text \<open>The relative error of one operation.\<close>

lemma f64_round_upper: "0 \<le> x \<Longrightarrow> f64_round x \<le> x * (1 + epsilon)"
proof (cases "x = 0")
  case False
  assume "0 \<le> x"
  then have x: "0 < x" using False by simp
  define p :: rat where "p = 2 powi (52 - f64_exponent x)"
  have p: "0 < p" by (simp add: p_def)
  have "2 powi f64_exponent x * p \<le> x * p"
    using f64_exponent_lower[OF x] p by simp
  moreover have "2 powi f64_exponent x * p = 2 ^ 52"
    by (simp add: p_def flip: power_int_add)
  ultimately have "1 / 2 \<le> (x * p) * epsilon"
    by simp
  then have "of_int (round_half_even (x * p)) \<le> (x * p) * (1 + epsilon)"
    using round_half_even_bounds(1)[of "x * p"] by (simp add: algebra_simps)
  then have "of_int (round_half_even (x * p)) / p \<le> x * (1 + epsilon)"
    using p by (simp add: pos_divide_le_eq mult_ac)
  then show ?thesis
    using x by (simp add: f64_round_def Let_def p_def)
qed (simp add: f64_round_def)

lemma f64_round_lower: "0 \<le> x \<Longrightarrow> x * (1 - epsilon) \<le> f64_round x"
proof (cases "x = 0")
  case False
  assume "0 \<le> x"
  then have x: "0 < x" using False by simp
  define p :: rat where "p = 2 powi (52 - f64_exponent x)"
  have p: "0 < p" by (simp add: p_def)
  have "2 powi f64_exponent x * p \<le> x * p"
    using f64_exponent_lower[OF x] p by simp
  moreover have "2 powi f64_exponent x * p = 2 ^ 52"
    by (simp add: p_def flip: power_int_add)
  ultimately have "1 / 2 \<le> (x * p) * epsilon"
    by simp
  then have "(x * p) * (1 - epsilon) \<le> of_int (round_half_even (x * p))"
    using round_half_even_bounds(2)[of "x * p"] by (simp add: algebra_simps)
  then have "x * (1 - epsilon) \<le> of_int (round_half_even (x * p)) / p"
    using p by (simp add: pos_le_divide_eq mult_ac)
  then show ?thesis
    using x by (simp add: f64_round_def Let_def p_def)
qed (simp add: f64_round_def)

lemma f64_round_nonneg: "0 \<le> x \<Longrightarrow> 0 \<le> f64_round x"
proof -
  assume "0 \<le> x"
  then have "0 \<le> x * (1 - epsilon)" by simp
  then show ?thesis using f64_round_lower[OF \<open>0 \<le> x\<close>] by linarith
qed

lemma f64_round_0 [simp]: "f64_round 0 = 0"
  by (simp add: f64_round_def)

end
