(* ===== verification/Rate_Limit.thy ===== *)
theory Rate_Limit
  imports Middleware F64 "HOL-Library.AList"
begin

text \<open>
  Model of \<open>src/rate_limit.rs\<close>: token buckets, the table of buckets split into shards, and the layer.
  An \<open>Instant\<close> is its number of nanoseconds, as is a \<open>Duration\<close>; the clock never goes back, but a
  time read before a lock may be older than what the bucket holds. The hasher is a parameter (it is
  seeded at random); a table of buckets is an association list under the hashes of the keys.
\<close>

section \<open>Durations as floating point numbers\<close>

definition as_secs_f64 :: "nat \<Rightarrow> rat" where
  "as_secs_f64 ns =
     f64_round (f64_round (of_nat (ns div 1000000000)) + f64_round (of_nat (ns mod 1000000000) / 1000000000))"

definition duration_max :: nat where
  "duration_max = (2 ^ 64 - 1) * 1000000000 + 999999999"

text \<open>\<open>Duration::try_from_secs_f64\<close> of a number that is not negative.\<close>

definition try_from_secs_f64 :: "rat \<Rightarrow> nat option" where
  "try_from_secs_f64 s =
     (let ns = nat (round_half_even (s * 1000000000)) in if ns \<le> duration_max then Some ns else None)"

section \<open>The limiter\<close>

record bucket =
  bk_tokens :: rat
  bk_last :: nat

record shard =
  sh_buckets :: "(nat \<times> bucket) list"
  sh_overflow :: bucket
  sh_last_sweep :: nat
  sh_cap :: nat

record 'i limiter =
  lm_rate :: rat
  lm_burst :: rat
  lm_max_keys :: nat
  lm_key :: "'i request_body request \<Rightarrow> string option"
  lm_hasher :: "string \<Rightarrow> nat"
  lm_shards :: "shard list"

definition default_max_keys :: nat where
  "default_max_keys = 10000"

definition shard_threshold :: nat where
  "shard_threshold = 1024"

definition shard_count :: "nat \<Rightarrow> nat" where
  "shard_count max_keys = (if shard_threshold \<le> max_keys then 16 else 1)"

definition build_shards :: "nat \<Rightarrow> nat \<Rightarrow> rat \<Rightarrow> shard list" where
  "build_shards now max_keys burst =
     (let count = shard_count max_keys; base = max_keys div count; extra = max_keys mod count
      in map (\<lambda>i. \<lparr>sh_buckets = [], sh_overflow = \<lparr>bk_tokens = burst, bk_last = now\<rparr>,
                   sh_last_sweep = now, sh_cap = base + (if i < extra then 1 else 0)\<rparr>) [0..<count])"

definition rate_limit_new :: "nat \<Rightarrow> (string \<Rightarrow> nat) \<Rightarrow> nat \<Rightarrow> nat \<Rightarrow> 'i limiter outcome" where
  "rate_limit_new now hasher limit per =
     bind_outcome (assert_that (1 \<le> limit) ''the rate limit must be at least 1 request'') (\<lambda>_.
     bind_outcome (assert_that (per \<noteq> 0) ''the rate limit period must not be zero'') (\<lambda>_.
       let burst = of_nat limit
       in Ret \<lparr>lm_rate = f64_round (burst / as_secs_f64 per), lm_burst = burst,
               lm_max_keys = default_max_keys, lm_key = (\<lambda>_. None), lm_hasher = hasher,
               lm_shards = build_shards now default_max_keys burst\<rparr>))"

text \<open>\<open>edit\<close>: a new limiter with a new hasher and an empty table sized for the changed values.\<close>

definition limiter_edit ::
  "nat \<Rightarrow> (string \<Rightarrow> nat) \<Rightarrow> ('i limiter \<Rightarrow> 'i limiter) \<Rightarrow> 'i limiter \<Rightarrow> 'i limiter" where
  "limiter_edit now hasher change old =
     (let l = change (old\<lparr>lm_hasher := hasher, lm_shards := build_shards now (lm_max_keys old) (lm_burst old)\<rparr>)
      in l\<lparr>lm_shards := build_shards now (lm_max_keys l) (lm_burst l)\<rparr>)"

definition set_burst :: "nat \<Rightarrow> (string \<Rightarrow> nat) \<Rightarrow> nat \<Rightarrow> 'i limiter \<Rightarrow> 'i limiter outcome" where
  "set_burst now hasher burst l =
     bind_outcome (assert_that (1 \<le> burst) ''the burst must be at least 1 request'') (\<lambda>_.
       Ret (limiter_edit now hasher (\<lambda>l. l\<lparr>lm_burst := of_nat burst\<rparr>) l))"

definition set_key_by ::
  "nat \<Rightarrow> (string \<Rightarrow> nat) \<Rightarrow> ('i request_body request \<Rightarrow> string option) \<Rightarrow> 'i limiter \<Rightarrow> 'i limiter" where
  "set_key_by now hasher key l = limiter_edit now hasher (\<lambda>l. l\<lparr>lm_key := key\<rparr>) l"

text \<open>\<open>header_name\<close> is \<open>HeaderName::from_bytes\<close>.\<close>

definition set_key_by_header ::
  "(string \<Rightarrow> string option) \<Rightarrow> nat \<Rightarrow> (string \<Rightarrow> nat) \<Rightarrow> string \<Rightarrow> 'i limiter \<Rightarrow> 'i limiter outcome" where
  "set_key_by_header header_name now hasher header l =
     bind_outcome (expect (header_name header) ''a valid header name'') (\<lambda>name.
       Ret (set_key_by now hasher (\<lambda>request. header_text (rq_headers request) name) l))"

text \<open>\<open>IpAddr::to_canonical\<close>: an IPv4 address mapped into IPv6 is that address.\<close>

definition to_canonical :: "ip_addr \<Rightarrow> ip_addr" where
  "to_canonical ip =
     (case ip of V4 n \<Rightarrow> V4 n | V6 n \<Rightarrow> if n div 2 ^ 32 = 0xFFFF then V4 (n mod 2 ^ 32) else V6 n)"

text \<open>\<open>ip_text\<close> is \<open>IpAddr::to_string\<close>.\<close>

definition set_key_by_peer_ip ::
  "(ip_addr \<Rightarrow> string) \<Rightarrow> nat \<Rightarrow> (string \<Rightarrow> nat) \<Rightarrow> 'i limiter \<Rightarrow> 'i limiter" where
  "set_key_by_peer_ip ip_text now hasher l =
     set_key_by now hasher (\<lambda>request. map_option (\<lambda>peer. ip_text (to_canonical (sa_ip peer))) (rq_peer request)) l"

definition set_max_keys :: "nat \<Rightarrow> (string \<Rightarrow> nat) \<Rightarrow> nat \<Rightarrow> 'i limiter \<Rightarrow> 'i limiter outcome" where
  "set_max_keys now hasher max_keys l =
     bind_outcome (assert_that (1 \<le> max_keys) ''max_keys must be at least 1'') (\<lambda>_.
       Ret (limiter_edit now hasher (\<lambda>l. l\<lparr>lm_max_keys := max_keys\<rparr>) l))"

section \<open>Taking a token\<close>

definition refill :: "rat \<Rightarrow> rat \<Rightarrow> nat \<Rightarrow> bucket \<Rightarrow> bucket" where
  "refill rate burst now b =
     (let elapsed = as_secs_f64 (now - bk_last b)
      in \<lparr>bk_tokens = min (f64_round (bk_tokens b + f64_round (elapsed * rate))) burst,
          bk_last = max (bk_last b) now\<rparr>)"

text \<open>From the refill to the outcome, on the chosen bucket; \<open>Inl\<close> is how long to wait.\<close>

definition bucket_take :: "rat \<Rightarrow> rat \<Rightarrow> nat \<Rightarrow> bucket \<Rightarrow> (nat + unit) \<times> bucket" where
  "bucket_take rate burst now b =
     (let b = refill rate burst now b
      in if 1 \<le> bk_tokens b then (Inr (), b\<lparr>bk_tokens := f64_round (bk_tokens b - 1)\<rparr>)
         else (Inl (case try_from_secs_f64 (f64_round (f64_round (1 - bk_tokens b) / rate)) of
                      None \<Rightarrow> duration_max | Some d \<Rightarrow> d), b))"

definition keeps_bucket :: "rat \<Rightarrow> rat \<Rightarrow> nat \<Rightarrow> bucket \<Rightarrow> bool" where
  "keeps_bucket rate burst now b \<longleftrightarrow>
     f64_round (bk_tokens b + f64_round (as_secs_f64 (now - bk_last b) * rate)) < burst"

definition sweep :: "rat \<Rightarrow> rat \<Rightarrow> nat \<Rightarrow> bool \<Rightarrow> shard \<Rightarrow> shard" where
  "sweep rate burst now known st =
     (if \<not> known \<and> sh_cap st \<le> length (sh_buckets st) then
        (let interval = max (f64_round (1 / rate)) 1
         in if interval \<le> as_secs_f64 (now - sh_last_sweep st)
            then st\<lparr>sh_last_sweep := now,
                    sh_buckets := filter (\<lambda>(_, b). keeps_bucket rate burst now b) (sh_buckets st)\<rparr>
            else st)
      else st)"

definition shard_take :: "rat \<Rightarrow> rat \<Rightarrow> nat \<Rightarrow> nat \<Rightarrow> shard \<Rightarrow> (nat + unit) \<times> shard" where
  "shard_take rate burst now key_id st =
     (let known = (map_of (sh_buckets st) key_id \<noteq> None);
          st = sweep rate burst now known st;
          overflow = (\<not> known \<and> sh_cap st \<le> length (sh_buckets st));
          b = (if overflow then sh_overflow st
               else (case map_of (sh_buckets st) key_id of
                       Some b \<Rightarrow> b | None \<Rightarrow> \<lparr>bk_tokens = burst, bk_last = now\<rparr>));
          (outcome, b) = bucket_take rate burst now b
      in (outcome, if overflow then st\<lparr>sh_overflow := b\<rparr>
                   else st\<lparr>sh_buckets := AList.update key_id b (sh_buckets st)\<rparr>))"

definition shard_of :: "'i limiter \<Rightarrow> string \<Rightarrow> nat" where
  "shard_of l key = lm_hasher l key mod length (lm_shards l)"

definition limiter_take :: "string \<Rightarrow> nat \<Rightarrow> 'i limiter \<Rightarrow> (nat + unit) \<times> 'i limiter" where
  "limiter_take key now l =
     (let i = shard_of l key;
          (outcome, st) = shard_take (lm_rate l) (lm_burst l) now (lm_hasher l key) (lm_shards l ! i)
      in (outcome, l\<lparr>lm_shards := (lm_shards l)[i := st]\<rparr>))"

section \<open>The layer\<close>

definition retry_after :: "nat \<Rightarrow> nat" where
  "retry_after wait = min (nat (max \<lceil>as_secs_f64 wait\<rceil> 1)) (2 ^ 64 - 1)"

definition too_many_requests :: "(json \<Rightarrow> string option) \<Rightarrow> nat \<Rightarrow> response" where
  "too_many_requests to_vec wait =
     insert_header ''retry-after'' (dec (retry_after wait))
       (api_error_response to_vec
          (api_error_new 429 ''Too Many Requests'' ''rate limit exceeded; retry later''))"

text \<open>The limiter is part of the world, as is the clock.\<close>

definition rate_limit_handle ::
  "(json \<Rightarrow> string option) \<Rightarrow> ('w \<Rightarrow> nat) \<Rightarrow> ('w \<Rightarrow> 'i limiter) \<Rightarrow> ('i limiter \<Rightarrow> 'w \<Rightarrow> 'w) \<Rightarrow> ('i, 'w) layer" where
  "rate_limit_handle to_vec clock limiter_of store request run_next =
     (\<lambda>w. let l = limiter_of w;
              key = (case lm_key l request of None \<Rightarrow> [] | Some k \<Rightarrow> k);
              (outcome, l) = limiter_take key (clock w) l;
              w = store l w
          in case outcome of
               Inr _ \<Rightarrow> run_next request w
             | Inl wait \<Rightarrow> (Ret (too_many_requests to_vec wait), w))"

section \<open>One bucket\<close>

text \<open>The rate with the rounding of the elapsed time in it, per nanosecond.\<close>

definition true_rate :: "rat \<Rightarrow> rat" where
  "true_rate rate = rate * (1 + epsilon) ^ 3 / 1000000000"

definition bucket_value :: "rat \<Rightarrow> rat \<Rightarrow> nat \<Rightarrow> bucket \<Rightarrow> rat" where
  "bucket_value rate burst now b =
     min burst (bk_tokens b + true_rate rate * of_nat (now - bk_last b))"

definition wf_bucket :: "nat \<Rightarrow> bucket \<Rightarrow> bool" where
  "wf_bucket now b \<longleftrightarrow> 0 \<le> bk_tokens b \<and> bk_last b \<le> now"

lemma as_secs_f64_nonneg: "0 \<le> as_secs_f64 n"
  by (simp add: as_secs_f64_def f64_round_nonneg add_nonneg_nonneg)

lemma as_secs_f64_upper: "as_secs_f64 n \<le> of_nat n / 1000000000 * (1 + epsilon) ^ 2"
proof -
  let ?s = "of_nat (n div 1000000000) :: rat" and ?m = "of_nat (n mod 1000000000) / 1000000000 :: rat"
  have "of_nat n = (of_nat (n div 1000000000 * 1000000000 + n mod 1000000000) :: rat)"
    by simp
  then have split: "of_nat n / 1000000000 = ?s + ?m"
    by (simp only: of_nat_add of_nat_mult) simp
  have "f64_round ?s + f64_round ?m \<le> (?s + ?m) * (1 + epsilon)"
    using f64_round_upper[of ?s] f64_round_upper[of ?m] by (simp add: algebra_simps)
  then have "(f64_round ?s + f64_round ?m) * (1 + epsilon) \<le> (?s + ?m) * (1 + epsilon) * (1 + epsilon)"
    by (rule mult_right_mono) simp
  moreover have "as_secs_f64 n \<le> (f64_round ?s + f64_round ?m) * (1 + epsilon)"
    unfolding as_secs_f64_def by (rule f64_round_upper) (simp add: f64_round_nonneg add_nonneg_nonneg)
  ultimately show ?thesis
    unfolding split by (simp add: power2_eq_square mult.assoc)
qed

text \<open>What a stretch of time adds, and that adding it rounds up by at most a part of the burst.\<close>

lemma accrued_upper:
  assumes "0 \<le> rate"
  shows "0 \<le> f64_round (as_secs_f64 n * rate)" "f64_round (as_secs_f64 n * rate) \<le> true_rate rate * of_nat n"
proof -
  have pos: "0 \<le> as_secs_f64 n * rate"
    using assms as_secs_f64_nonneg by simp
  then show "0 \<le> f64_round (as_secs_f64 n * rate)"
    by (rule f64_round_nonneg)
  have "as_secs_f64 n * rate \<le> of_nat n / 1000000000 * (1 + epsilon) ^ 2 * rate"
    by (rule mult_right_mono[OF as_secs_f64_upper assms])
  then have "as_secs_f64 n * rate * (1 + epsilon) \<le> of_nat n / 1000000000 * (1 + epsilon) ^ 2 * rate * (1 + epsilon)"
    by (rule mult_right_mono) simp
  then show "f64_round (as_secs_f64 n * rate) \<le> true_rate rate * of_nat n"
    using f64_round_upper[OF pos] by (simp add: true_rate_def power2_eq_square power3_eq_cube algebra_simps)
qed

lemma rounded_sum_upper:
  assumes "0 \<le> x" "0 \<le> burst"
  shows "min (f64_round x) burst \<le> min burst x + epsilon * burst"
proof (cases "x \<le> burst")
  case True
  then have "x * epsilon \<le> burst * epsilon"
    by (rule mult_right_mono) simp
  then show ?thesis
    using f64_round_upper[OF assms(1)] True by (simp add: algebra_simps)
next
  case False
  then show ?thesis using assms(2) by simp
qed

lemma bucket_value_nonneg: "wf_bucket now b \<Longrightarrow> 0 \<le> burst \<Longrightarrow> 0 \<le> rate \<Longrightarrow> 0 \<le> bucket_value rate burst now b"
  by (simp add: bucket_value_def wf_bucket_def true_rate_def)

lemma bucket_value_time:
  assumes "bk_last b \<le> now" "now \<le> later" "0 \<le> rate"
  shows "bucket_value rate burst later b \<le> bucket_value rate burst now b + true_rate rate * of_nat (later - now)"
proof -
  define d where "d = true_rate rate * of_nat (later - now)"
  have "later - bk_last b = (now - bk_last b) + (later - now)"
    using assms by simp
  then have "true_rate rate * of_nat (later - bk_last b) = true_rate rate * of_nat (now - bk_last b) + d"
    by (simp only: of_nat_add distrib_left d_def)
  moreover have "0 \<le> d"
    using assms by (simp add: d_def true_rate_def)
  ultimately show ?thesis
    unfolding bucket_value_def d_def[symmetric] by (simp add: min_def)
qed

lemma bucket_value_new [simp]: "bucket_value rate burst now \<lparr>bk_tokens = burst, bk_last = now\<rparr> = burst"
  by (simp add: bucket_value_def)

lemma sweep_value:
  assumes "wf_bucket now b" "0 \<le> rate" "0 \<le> burst" "\<not> keeps_bucket rate burst now b"
  shows "burst \<le> bucket_value rate burst now b + epsilon * burst"
proof -
  let ?y = "f64_round (as_secs_f64 (now - bk_last b) * rate)"
  have x: "0 \<le> bk_tokens b + ?y" "bk_tokens b + ?y \<le> bk_tokens b + true_rate rate * of_nat (now - bk_last b)"
    using assms(1) accrued_upper[OF assms(2), of "now - bk_last b"] by (auto simp: wf_bucket_def)
  have "burst \<le> min (f64_round (bk_tokens b + ?y)) burst"
    using assms(4) by (simp add: keeps_bucket_def)
  also have "\<dots> \<le> min burst (bk_tokens b + ?y) + epsilon * burst"
    by (rule rounded_sum_upper[OF x(1) assms(3)])
  also have "\<dots> \<le> bucket_value rate burst now b + epsilon * burst"
    using x(2) by (simp add: bucket_value_def)
  finally show ?thesis .
qed

text \<open>Taking a token costs one, up to rounding.\<close>

lemma bucket_take_value:
  assumes "wf_bucket now b" "0 \<le> rate" "0 \<le> burst" "bucket_take rate burst now b = (outcome, b')"
  shows "wf_bucket now b'"
    "(if outcome = Inr () then 1 else 0) + bucket_value rate burst now b'
       \<le> bucket_value rate burst now b + 2 * epsilon * burst"
proof -
  let ?y = "f64_round (as_secs_f64 (now - bk_last b) * rate)"
  define t where "t = bk_tokens (refill rate burst now b)"
  have x: "0 \<le> bk_tokens b + ?y" "bk_tokens b + ?y \<le> bk_tokens b + true_rate rate * of_nat (now - bk_last b)"
    using assms(1) accrued_upper[OF assms(2), of "now - bk_last b"] by (auto simp: wf_bucket_def)
  have t: "t = min (f64_round (bk_tokens b + ?y)) burst"
    by (simp add: t_def refill_def Let_def)
  have "t \<le> min burst (bk_tokens b + ?y) + epsilon * burst"
    unfolding t by (rule rounded_sum_upper[OF x(1) assms(3)])
  then have t_le: "t \<le> bucket_value rate burst now b + epsilon * burst"
    using x(2) by (simp add: bucket_value_def)
  have t0: "0 \<le> t" "t \<le> burst"
    using x(1) assms(3) by (simp_all add: t f64_round_nonneg)
  have last: "bk_last (refill rate burst now b) = now"
    using assms(1) by (simp add: refill_def Let_def wf_bucket_def)
  have credit: "0 \<le> epsilon * burst" using assms(3) by simp
  show "wf_bucket now b'"
    using assms(4) t0 last
    by (auto simp: bucket_take_def Let_def wf_bucket_def f64_round_nonneg t_def split: if_splits)
  show "(if outcome = Inr () then 1 else 0) + bucket_value rate burst now b'
       \<le> bucket_value rate burst now b + 2 * epsilon * burst"
  proof (cases "1 \<le> t")
    case True
    have rounded: "f64_round (t - 1) \<le> (t - 1) * (1 + epsilon)"
      using True by (intro f64_round_upper) simp
    have "(t - 1) * epsilon \<le> burst * epsilon"
      using t0(2) by (intro mult_right_mono) simp_all
    then have "(t - 1) * (1 + epsilon) \<le> t - 1 + epsilon * burst"
      by (simp only: distrib_left mult_1_right) (simp add: mult.commute)
    with rounded have "f64_round (t - 1) \<le> t - 1 + epsilon * burst"
      by linarith
    then have "f64_round (t - 1) + 1 \<le> bucket_value rate burst now b + 2 * epsilon * burst"
      using t_le by simp
    moreover have "outcome = Inr ()" "bk_tokens b' = f64_round (t - 1)" "bk_last b' = now"
      using assms(4) True last by (auto simp: bucket_take_def Let_def t_def)
    ultimately show ?thesis
      by (simp add: bucket_value_def[of _ _ _ b'])
  next
    case False
    then have "outcome \<noteq> Inr ()" "b' = refill rate burst now b"
      using assms(4) by (auto simp: bucket_take_def Let_def t_def)
    then show ?thesis
      using t_le last credit by (simp add: bucket_value_def[of _ _ _ "refill rate burst now b"] t_def[symmetric])
  qed
qed

section \<open>A shard\<close>

text \<open>What a shard can still admit: its buckets, its free places and the overflow bucket. A kept
  bucket also carries the rounding that dropping it may cost.\<close>

definition shard_budget :: "rat \<Rightarrow> rat \<Rightarrow> nat \<Rightarrow> shard \<Rightarrow> rat" where
  "shard_budget rate burst now st =
     sum_list (map (\<lambda>(k, b). bucket_value rate burst now b + epsilon * burst) (sh_buckets st)) +
     of_nat (sh_cap st - length (sh_buckets st)) * burst + bucket_value rate burst now (sh_overflow st)"

definition wf_shard :: "nat \<Rightarrow> shard \<Rightarrow> bool" where
  "wf_shard now st \<longleftrightarrow>
     (\<forall>(k, b) \<in> set (sh_buckets st). wf_bucket now b) \<and> wf_bucket now (sh_overflow st) \<and>
     length (sh_buckets st) \<le> sh_cap st"

lemma wf_bucket_later: "wf_bucket now b \<Longrightarrow> now \<le> later \<Longrightarrow> wf_bucket later b"
  by (simp add: wf_bucket_def)

lemma wf_shard_later: "wf_shard now st \<Longrightarrow> now \<le> later \<Longrightarrow> wf_shard later st"
  by (auto simp: wf_shard_def wf_bucket_later)

lemma shard_budget_nonneg:
  assumes "wf_shard now st" "0 \<le> rate" "0 \<le> burst"
  shows "0 \<le> shard_budget rate burst now st"
proof -
  have "0 \<le> bucket_value rate burst now b" if "(k, b) \<in> set (sh_buckets st)" for k b
    using assms that by (intro bucket_value_nonneg) (auto simp: wf_shard_def)
  moreover have "0 \<le> bucket_value rate burst now (sh_overflow st)"
    using assms by (intro bucket_value_nonneg) (auto simp: wf_shard_def)
  ultimately show ?thesis
    using assms(3) by (auto simp: shard_budget_def intro!: add_nonneg_nonneg sum_list_nonneg)
qed

lemma shard_budget_time:
  assumes "wf_shard now st" "now \<le> later" "0 \<le> rate"
  shows "shard_budget rate burst later st \<le>
    shard_budget rate burst now st + of_nat (sh_cap st + 1) * (true_rate rate * of_nat (later - now))"
proof -
  let ?d = "true_rate rate * of_nat (later - now)"
  have d: "0 \<le> ?d" using assms(3) by (simp add: true_rate_def)
  have sums: "sum_list (map (\<lambda>(k, b). bucket_value rate burst later b + epsilon * burst) bs) \<le>
      sum_list (map (\<lambda>(k, b). bucket_value rate burst now b + epsilon * burst) bs) + of_nat (length bs) * ?d"
    if "\<forall>(k, b) \<in> set bs. wf_bucket now b" for bs :: "(nat \<times> bucket) list"
    using that
  proof (induction bs)
    case (Cons kb bs)
    then show ?case
      using bucket_value_time[of "snd kb" now later rate burst] assms(2,3)
      by (cases kb) (simp add: wf_bucket_def algebra_simps)
  qed simp
  have "bucket_value rate burst later (sh_overflow st) \<le> bucket_value rate burst now (sh_overflow st) + ?d"
    using bucket_value_time[of "sh_overflow st" now later] assms by (simp add: wf_shard_def wf_bucket_def)
  moreover have "of_nat (length (sh_buckets st)) * ?d \<le> of_nat (sh_cap st) * ?d"
    using assms(1) d by (intro mult_right_mono) (simp_all add: wf_shard_def)
  moreover have "\<forall>(k, b) \<in> set (sh_buckets st). wf_bucket now b"
    using assms(1) by (simp add: wf_shard_def)
  moreover have "of_nat (sh_cap st + 1) * ?d = of_nat (sh_cap st) * ?d + ?d"
    by (simp add: distrib_right)
  ultimately show ?thesis
    using sums[of "sh_buckets st"] unfolding shard_budget_def by linarith
qed

lemma sweep_sel [simp]:
  "sh_overflow (sweep rate burst now known st) = sh_overflow st"
  "sh_cap (sweep rate burst now known st) = sh_cap st"
  by (simp_all add: sweep_def Let_def)

lemma sweep_buckets:
  "sh_buckets (sweep rate burst now known st) = sh_buckets st \<or>
   sh_buckets (sweep rate burst now known st) =
     filter (\<lambda>(_, b). keeps_bucket rate burst now b) (sh_buckets st)"
  by (simp add: sweep_def Let_def)

lemma wf_sweep: "wf_shard now st \<Longrightarrow> wf_shard now (sweep rate burst now known st)"
  using sweep_buckets[of rate burst now known st]
  by (auto simp: wf_shard_def intro: order_trans[OF length_filter_le])

text \<open>Sweeping frees a place only for a bucket that had filled up.\<close>

lemma sweep_budget:
  assumes "wf_shard now st" "0 \<le> rate" "0 \<le> burst"
  shows "shard_budget rate burst now (sweep rate burst now known st) \<le> shard_budget rate burst now st"
proof -
  let ?f = "\<lambda>(k, b). bucket_value rate burst now b + epsilon * burst"
  let ?keep = "\<lambda>(k, b). keeps_bucket rate burst now b"
  have "sum_list (map ?f (filter ?keep bs)) + of_nat (length bs - length (filter ?keep bs)) * burst \<le>
      sum_list (map ?f bs)"
    if "\<forall>(k, b) \<in> set bs. wf_bucket now b" for bs :: "(nat \<times> bucket) list"
    using that
  proof (induction bs)
    case (Cons kb bs)
    obtain k b where kb: "kb = (k, b)" by (cases kb)
    show ?case
    proof (cases "keeps_bucket rate burst now b")
      case True
      then show ?thesis using Cons by (simp add: kb)
    next
      case False
      then have "burst \<le> bucket_value rate burst now b + epsilon * burst"
        using Cons.prems assms by (intro sweep_value) (simp_all add: kb)
      moreover have "length (kb # bs) - length (filter ?keep bs) = Suc (length bs - length (filter ?keep bs))"
        by (simp add: Suc_diff_le)
      ultimately show ?thesis
        using Cons False by (simp add: kb algebra_simps)
    qed
  qed simp
  from this[of "sh_buckets st"] have "shard_budget rate burst now
      (st\<lparr>sh_last_sweep := n, sh_buckets := filter ?keep (sh_buckets st)\<rparr>) \<le> shard_budget rate burst now st" for n
  proof -
    have "length (filter ?keep (sh_buckets st)) \<le> length (sh_buckets st)" "length (sh_buckets st) \<le> sh_cap st"
      using assms(1) by (simp_all add: wf_shard_def)
    then have "sh_cap st - length (filter ?keep (sh_buckets st)) =
        (sh_cap st - length (sh_buckets st)) + (length (sh_buckets st) - length (filter ?keep (sh_buckets st)))"
      by simp
    then have "of_nat (sh_cap st - length (filter ?keep (sh_buckets st))) * burst =
        of_nat (sh_cap st - length (sh_buckets st)) * burst +
        of_nat (length (sh_buckets st) - length (filter ?keep (sh_buckets st))) * burst"
      by (simp only: of_nat_add distrib_right)
    moreover have "\<forall>(k, b) \<in> set (sh_buckets st). wf_bucket now b"
      using assms(1) by (simp add: wf_shard_def)
    ultimately show ?thesis
      using \<open>(\<forall>(k, b) \<in> set (sh_buckets st). wf_bucket now b) \<Longrightarrow> _\<close> by (simp add: shard_budget_def)
  qed
  then show ?thesis
    by (simp add: sweep_def Let_def)
qed

lemma update_sum:
  fixes f :: "'k \<times> 'v \<Rightarrow> rat"
  shows "map_of kvs k = Some w \<Longrightarrow>
    sum_list (map f (AList.update k v kvs)) = sum_list (map f kvs) - f (k, w) + f (k, v) \<and>
    length (AList.update k v kvs) = length kvs"
  by (induction kvs) auto

lemma update_new: "map_of kvs k = None \<Longrightarrow> AList.update k v kvs = kvs @ [(k, v)]"
  by (induction kvs) auto

lemma set_update: "set (AList.update k v kvs) \<subseteq> insert (k, v) (set kvs)"
  by (induction kvs) auto

abbreviation admitted_one :: "(nat + unit) \<Rightarrow> rat" where
  "admitted_one outcome \<equiv> (if outcome = Inr () then 1 else 0)"

lemma shard_take_cap: "sh_cap (snd (shard_take rate burst now k st)) = sh_cap st"
  by (simp add: shard_take_def Let_def split: prod.split)

text \<open>The three places a token can come from: the overflow bucket, the bucket of the key, a new one.\<close>

lemma shard_take_cases:
  assumes "shard_take rate burst now k st = (outcome, st')"
  obtains (overflow) s b' where "s = sweep rate burst now False st" "map_of (sh_buckets st) k = None"
      "sh_cap s \<le> length (sh_buckets s)" "bucket_take rate burst now (sh_overflow s) = (outcome, b')"
      "st' = s\<lparr>sh_overflow := b'\<rparr>"
  | (known) b b' where "map_of (sh_buckets st) k = Some b" "bucket_take rate burst now b = (outcome, b')"
      "st' = st\<lparr>sh_buckets := AList.update k b' (sh_buckets st)\<rparr>"
  | (new) s b' where "s = sweep rate burst now False st" "map_of (sh_buckets s) k = None"
      "map_of (sh_buckets st) k = None" "length (sh_buckets s) < sh_cap s"
      "bucket_take rate burst now \<lparr>bk_tokens = burst, bk_last = now\<rparr> = (outcome, b')"
      "st' = s\<lparr>sh_buckets := sh_buckets s @ [(k, b')]\<rparr>"
proof (cases "map_of (sh_buckets st) k")
  case (Some b)
  then show ?thesis
    using assms known[of b] by (auto simp: shard_take_def sweep_def Let_def split: prod.splits)
next
  case None
  let ?s = "sweep rate burst now False st"
  have none: "map_of (sh_buckets ?s) k = None"
    using None sweep_buckets[of rate burst now False st] by (auto simp: map_of_eq_None_iff)
  show ?thesis
  proof (cases "sh_cap ?s \<le> length (sh_buckets ?s)")
    case True
    then show ?thesis
      using assms None overflow by (auto simp: shard_take_def Let_def split: prod.splits)
  next
    case False
    then show ?thesis
      using assms None none new by (auto simp: shard_take_def Let_def update_new split: prod.splits)
  qed
qed

lemma shard_take_budget:
  assumes "wf_shard now st" "0 \<le> rate" "0 \<le> burst" "shard_take rate burst now k st = (outcome, st')"
  shows "wf_shard now st'"
    "admitted_one outcome + shard_budget rate burst now st' \<le> shard_budget rate burst now st + 3 * epsilon * burst"
proof -
  have credit: "0 \<le> epsilon * burst" using assms(3) by simp
  note take = bucket_take_value[OF _ assms(2,3)]
  have "wf_shard now st' \<and>
    admitted_one outcome + shard_budget rate burst now st' \<le> shard_budget rate burst now st + 3 * epsilon * burst"
    using assms(4)
  proof (cases rule: shard_take_cases)
    case (overflow s b')
    have s: "wf_shard now s" "shard_budget rate burst now s \<le> shard_budget rate burst now st"
      using wf_sweep sweep_budget assms(1-3) by (simp_all add: overflow(1))
    then have "wf_bucket now (sh_overflow s)" by (simp add: wf_shard_def)
    from take[OF this overflow(4)] show ?thesis
      using s credit by (simp add: overflow(5) shard_budget_def wf_shard_def)
  next
    case (known b b')
    have mem: "(k, b) \<in> set (sh_buckets st)"
      using known(1) by (rule map_of_SomeD)
    then have "wf_bucket now b" using assms(1) by (auto simp: wf_shard_def)
    note b' = take[OF this known(2)]
    have "wf_shard now st'"
      using assms(1) b'(1) set_update[of k b' "sh_buckets st"] update_sum[OF known(1), of undefined b']
      by (auto simp: wf_shard_def known(3))
    moreover have "shard_budget rate burst now st' = shard_budget rate burst now st -
        bucket_value rate burst now b + bucket_value rate burst now b'"
      using update_sum[OF known(1), of "\<lambda>(k, b). bucket_value rate burst now b + epsilon * burst" b']
      by (simp add: known(3) shard_budget_def)
    ultimately show ?thesis
      using b'(2) credit by linarith
  next
    case (new s b')
    have s: "wf_shard now s" "shard_budget rate burst now s \<le> shard_budget rate burst now st"
      using wf_sweep sweep_budget assms(1-3) by (simp_all add: new(1))
    have "wf_bucket now \<lparr>bk_tokens = burst, bk_last = now\<rparr>"
      using assms(3) by (simp add: wf_bucket_def)
    note b' = take[OF this new(5)]
    have free: "sh_cap s - length (sh_buckets s) = Suc (sh_cap s - Suc (length (sh_buckets s)))"
      using new(4) by simp
    have "shard_budget rate burst now st' =
        shard_budget rate burst now s - burst + bucket_value rate burst now b' + epsilon * burst"
      by (simp add: new(6) shard_budget_def free algebra_simps)
    moreover have "wf_shard now st'"
      using s(1) b'(1) new(4) by (auto simp: wf_shard_def new(6))
    ultimately show ?thesis
      using s(2) b'(2) by simp
  qed
  then show "wf_shard now st'"
    "admitted_one outcome + shard_budget rate burst now st' \<le> shard_budget rate burst now st + 3 * epsilon * burst"
    by blast+
qed

section \<open>One key of a shard\<close>

definition key_budget :: "rat \<Rightarrow> rat \<Rightarrow> nat \<Rightarrow> nat \<Rightarrow> shard \<Rightarrow> rat" where
  "key_budget rate burst now k st =
     (case map_of (sh_buckets st) k of
        Some b \<Rightarrow> bucket_value rate burst now b + epsilon * burst | None \<Rightarrow> burst)"

text \<open>Only the given hashes are in the table, and there is room for all of them.\<close>

definition roomy :: "nat set \<Rightarrow> shard \<Rightarrow> bool" where
  "roomy ids st \<longleftrightarrow>
     finite ids \<and> distinct (map fst (sh_buckets st)) \<and> (\<forall>(k, b) \<in> set (sh_buckets st). k \<in> ids) \<and> card ids \<le> sh_cap st"

lemma map_of_filter_value:
  "distinct (map fst kvs) \<Longrightarrow>
     map_of (filter (\<lambda>(k, v). P v) kvs) k = Option.bind (map_of kvs k) (\<lambda>v. if P v then Some v else None)"
  by (induction kvs) (auto simp: bind_eq_None_conv map_of_eq_None_iff split: if_splits)

lemma roomy_sweep: "roomy ids st \<Longrightarrow> roomy ids (sweep rate burst now known st)"
  using sweep_buckets[of rate burst now known st]
  by (auto simp: roomy_def distinct_map_filter)

lemma roomy_not_full:
  assumes "roomy ids st" "map_of (sh_buckets st) k = None" "k \<in> ids"
  shows "length (sh_buckets st) < sh_cap st"
proof -
  have "fst ` set (sh_buckets st) \<subseteq> ids - {k}"
    using assms(1,2) by (auto simp: roomy_def map_of_eq_None_iff)
  then have "card (fst ` set (sh_buckets st)) \<le> card (ids - {k})"
    using assms(1) by (intro card_mono) (simp_all add: roomy_def)
  moreover have "card (fst ` set (sh_buckets st)) = length (sh_buckets st)"
    using assms(1) distinct_card[of "map fst (sh_buckets st)"] by (simp add: roomy_def)
  moreover have "card (ids - {k}) < card ids"
    using assms(1,3) by (intro psubset_card_mono) (auto simp: roomy_def)
  ultimately show ?thesis
    using assms(1) by (simp add: roomy_def)
qed

lemma key_budget_nonneg:
  "wf_shard now st \<Longrightarrow> 0 \<le> rate \<Longrightarrow> 0 \<le> burst \<Longrightarrow> 0 \<le> key_budget rate burst now k st"
  by (auto simp: key_budget_def wf_shard_def bucket_value_nonneg dest!: map_of_SomeD split: option.split
      intro!: add_nonneg_nonneg bucket_value_nonneg)

lemma key_budget_time:
  assumes "wf_shard now st" "now \<le> later" "0 \<le> rate"
  shows "key_budget rate burst later k st \<le> key_budget rate burst now k st + true_rate rate * of_nat (later - now)"
proof (cases "map_of (sh_buckets st) k")
  case None
  then show ?thesis using assms(3) by (simp add: key_budget_def true_rate_def)
next
  case (Some b)
  then have "bk_last b \<le> now"
    using assms(1) map_of_SomeD[OF Some] by (auto simp: wf_shard_def wf_bucket_def)
  then show ?thesis
    using bucket_value_time[of b now later rate burst] assms Some by (simp add: key_budget_def)
qed

lemma key_budget_sweep:
  assumes "wf_shard now st" "0 \<le> rate" "0 \<le> burst" "distinct (map fst (sh_buckets st))"
  shows "key_budget rate burst now k (sweep rate burst now known st) \<le> key_budget rate burst now k st"
  using sweep_buckets[of rate burst now known st]
proof
  assume filtered: "sh_buckets (sweep rate burst now known st) =
    filter (\<lambda>(_, b). keeps_bucket rate burst now b) (sh_buckets st)"
  show ?thesis
  proof (cases "map_of (sh_buckets st) k")
    case (Some b)
    then have "wf_bucket now b"
      using assms(1) map_of_SomeD[OF Some] by (auto simp: wf_shard_def)
    then show ?thesis
      using sweep_value[of now b rate burst] assms Some filtered
      by (simp add: key_budget_def map_of_filter_value)
  qed (use filtered assms in \<open>simp add: key_budget_def map_of_filter_value\<close>)
qed (simp add: key_budget_def)

lemma shard_take_key:
  assumes "wf_shard now st" "0 \<le> rate" "0 \<le> burst" "roomy ids st" "k \<in> ids"
    "shard_take rate burst now k st = (outcome, st')"
  shows "roomy ids st'"
    "admitted_one outcome + key_budget rate burst now k st' \<le> key_budget rate burst now k st + 3 * epsilon * burst"
    "j \<noteq> k \<Longrightarrow> key_budget rate burst now j st' \<le> key_budget rate burst now j st"
proof -
  have credit: "0 \<le> epsilon * burst" using assms(3) by simp
  have dist: "distinct (map fst (sh_buckets st))" using assms(4) by (simp add: roomy_def)
  note take = bucket_take_value[OF _ assms(2,3)]
  have "roomy ids st' \<and>
    admitted_one outcome + key_budget rate burst now k st' \<le> key_budget rate burst now k st + 3 * epsilon * burst \<and>
    (j \<noteq> k \<longrightarrow> key_budget rate burst now j st' \<le> key_budget rate burst now j st)"
    using assms(6)
  proof (cases rule: shard_take_cases)
    case (overflow s b')
    then have "map_of (sh_buckets s) k = None"
      using sweep_buckets[of rate burst now False st] by (auto simp: map_of_eq_None_iff)
    then have "length (sh_buckets s) < sh_cap s"
      using roomy_not_full[of ids s k] roomy_sweep[OF assms(4)] assms(5) by (simp add: overflow(1))
    then show ?thesis using overflow(3) by simp
  next
    case (known b b')
    have "wf_bucket now b"
      using assms(1) map_of_SomeD[OF known(1)] by (auto simp: wf_shard_def)
    note b' = take[OF this known(2)]
    have "roomy ids st'"
      using assms(4,5) distinct_update[OF dist] set_update[of k b' "sh_buckets st"]
      by (auto simp: roomy_def known(3))
    then show ?thesis
      using b'(2) known(1) credit
      by (simp add: known(3) key_budget_def update_conv')
  next
    case (new s b')
    have "wf_bucket now \<lparr>bk_tokens = burst, bk_last = now\<rparr>"
      using assms(3) by (simp add: wf_bucket_def)
    note b' = take[OF this new(5)]
    have s: "roomy ids s" "key_budget rate burst now j s \<le> key_budget rate burst now j st"
      using roomy_sweep[OF assms(4)] key_budget_sweep[OF assms(1-3) dist] by (simp_all add: new(1))
    then have "roomy ids st'"
      using new(2) assms(5) by (auto simp: roomy_def new(6) map_of_eq_None_iff)
    moreover have "key_budget rate burst now j st' = key_budget rate burst now j s" if "j \<noteq> k"
      using that by (simp add: new(6) key_budget_def map_add_def split: option.splits)
    moreover have "key_budget rate burst now k st' = bucket_value rate burst now b' + epsilon * burst"
      using new(2) by (simp add: new(6) key_budget_def map_add_def)
    ultimately show ?thesis
      using b'(2) new(3) s by (simp add: key_budget_def[of _ _ _ k st])
  qed
  then show "roomy ids st'"
    "admitted_one outcome + key_budget rate burst now k st' \<le> key_budget rate burst now k st + 3 * epsilon * burst"
    "j \<noteq> k \<Longrightarrow> key_budget rate burst now j st' \<le> key_budget rate burst now j st"
    by blast+
qed

section \<open>A run of the limiter\<close>

fun limiter_run :: "(string \<times> nat) list \<Rightarrow> 'i limiter \<Rightarrow> 'i limiter" where
  "limiter_run [] l = l"
| "limiter_run ((key, now) # reqs) l = limiter_run reqs (snd (limiter_take key now l))"

text \<open>How many of the requests whose hash is wanted were let through.\<close>

fun admitted :: "(nat \<Rightarrow> bool) \<Rightarrow> (string \<times> nat) list \<Rightarrow> 'i limiter \<Rightarrow> nat" where
  "admitted wanted [] l = 0"
| "admitted wanted ((key, now) # reqs) l =
     (case limiter_take key now l of
        (outcome, l') \<Rightarrow>
          (if wanted (lm_hasher l key) \<and> outcome = Inr () then 1 else 0) + admitted wanted reqs l')"

definition wf_limiter :: "nat \<Rightarrow> 'i limiter \<Rightarrow> bool" where
  "wf_limiter now l \<longleftrightarrow>
     0 \<le> lm_rate l \<and> 0 \<le> lm_burst l \<and> lm_shards l \<noteq> [] \<and> (\<forall>st \<in> set (lm_shards l). wf_shard now st)"

definition limiter_budget :: "nat \<Rightarrow> 'i limiter \<Rightarrow> rat" where
  "limiter_budget now l = sum_list (map (shard_budget (lm_rate l) (lm_burst l) now) (lm_shards l))"

definition places :: "'i limiter \<Rightarrow> nat" where
  "places l = sum_list (map (\<lambda>st. sh_cap st + 1) (lm_shards l))"

lemma wf_limiter_later: "wf_limiter now l \<Longrightarrow> now \<le> later \<Longrightarrow> wf_limiter later l"
  using wf_shard_later by (auto simp: wf_limiter_def)

lemma shard_of_less: "wf_limiter now l \<Longrightarrow> shard_of l key < length (lm_shards l)"
  by (simp add: wf_limiter_def shard_of_def)

text \<open>One request changes one shard.\<close>

lemma limiter_takeE:
  assumes "wf_limiter now l" "limiter_take key now l = (outcome, l')"
  obtains st st' where "st = lm_shards l ! shard_of l key" "shard_of l key < length (lm_shards l)"
    "shard_take (lm_rate l) (lm_burst l) now (lm_hasher l key) st = (outcome, st')"
    "l' = l\<lparr>lm_shards := (lm_shards l)[shard_of l key := st']\<rparr>" "wf_shard now st" "wf_limiter now l'"
    "sh_cap st' = sh_cap st"
proof -
  define st where "st = lm_shards l ! shard_of l key"
  obtain o' st' where t: "shard_take (lm_rate l) (lm_burst l) now (lm_hasher l key) st = (o', st')"
    by (cases "shard_take (lm_rate l) (lm_burst l) now (lm_hasher l key) st")
  have i: "shard_of l key < length (lm_shards l)" by (rule shard_of_less[OF assms(1)])
  have wf: "wf_shard now st" using assms(1) i by (simp add: wf_limiter_def st_def)
  have o': "o' = outcome" and l': "l' = l\<lparr>lm_shards := (lm_shards l)[shard_of l key := st']\<rparr>"
    using assms(2) t by (auto simp: limiter_take_def Let_def st_def)
  have "wf_shard now st'"
    using shard_take_budget(1)[OF wf _ _ t] assms(1) by (simp add: wf_limiter_def)
  then have "wf_limiter now l'"
    using assms(1) set_update_subset_insert[of "lm_shards l" "shard_of l key" st'] by (auto simp: wf_limiter_def l')
  moreover have "sh_cap st' = sh_cap st"
    using shard_take_cap[of "lm_rate l" "lm_burst l" now "lm_hasher l key" st] t by simp
  ultimately show ?thesis
    using that st_def i t[unfolded o'] l' wf by blast
qed

lemma limiter_take_same:
  "wf_limiter now l \<Longrightarrow> limiter_take key now l = (outcome, l') \<Longrightarrow>
     lm_rate l' = lm_rate l \<and> lm_burst l' = lm_burst l \<and> lm_hasher l' = lm_hasher l \<and>
     length (lm_shards l') = length (lm_shards l) \<and> map sh_cap (lm_shards l') = map sh_cap (lm_shards l)"
  by (erule (1) limiter_takeE) (simp add: map_update list_update_same_conv[THEN iffD2])

lemma limiter_budget_time:
  assumes "wf_limiter now l" "now \<le> later"
  shows "limiter_budget later l \<le> limiter_budget now l + of_nat (places l) * (true_rate (lm_rate l) * of_nat (later - now))"
proof -
  have "sum_list (map (shard_budget (lm_rate l) (lm_burst l) later) sts) \<le>
      sum_list (map (shard_budget (lm_rate l) (lm_burst l) now) sts) +
      of_nat (sum_list (map (\<lambda>st. sh_cap st + 1) sts)) * (true_rate (lm_rate l) * of_nat (later - now))"
    if "\<forall>st \<in> set sts. wf_shard now st" for sts
    using that
  proof (induction sts)
    case (Cons st sts)
    then show ?case
      using shard_budget_time[of now st later "lm_rate l" "lm_burst l"] assms
      by (simp add: wf_limiter_def algebra_simps)
  qed simp
  then show ?thesis
    using assms(1) by (simp add: limiter_budget_def places_def wf_limiter_def)
qed

lemma sum_list_replace:
  fixes f :: "'a \<Rightarrow> rat"
  shows "i < length xs \<Longrightarrow> sum_list (map f (xs[i := x])) = sum_list (map f xs) + f x - f (xs ! i)"
  by (induction xs arbitrary: i) (auto split: nat.split)

lemma places_caps: "places l = sum_list (map (\<lambda>c. c + 1) (map sh_cap (lm_shards l)))"
  by (simp add: places_def comp_def)

lemma limiter_take_budget:
  assumes "wf_limiter now l" "limiter_take key now l = (outcome, l')"
  shows "admitted_one outcome + limiter_budget now l' \<le> limiter_budget now l + 3 * epsilon * lm_burst l"
  using assms
proof (rule limiter_takeE)
  fix st st'
  assume st: "st = lm_shards l ! shard_of l key" "shard_of l key < length (lm_shards l)"
    "shard_take (lm_rate l) (lm_burst l) now (lm_hasher l key) st = (outcome, st')"
    "l' = l\<lparr>lm_shards := (lm_shards l)[shard_of l key := st']\<rparr>" "wf_shard now st"
  have "limiter_budget now l' = limiter_budget now l +
      shard_budget (lm_rate l) (lm_burst l) now st' - shard_budget (lm_rate l) (lm_burst l) now st"
    using st(1) sum_list_replace[OF st(2), of "shard_budget (lm_rate l) (lm_burst l) now" st']
    by (simp add: limiter_budget_def st(4))
  then show ?thesis
    using shard_take_budget(2)[OF st(5) _ _ st(3)] assms(1) by (simp add: wf_limiter_def)
qed

lemma limiter_budget_nonneg: "wf_limiter now l \<Longrightarrow> 0 \<le> limiter_budget now l"
  by (auto simp: limiter_budget_def wf_limiter_def shard_budget_nonneg intro!: sum_list_nonneg)

lemma admitted_budget:
  assumes "wf_limiter t l" "sorted (t # map snd reqs @ [stop])"
  shows "of_nat (admitted (\<lambda>_. True) reqs l) \<le> limiter_budget t l +
    of_nat (places l) * (true_rate (lm_rate l) * of_nat (stop - t)) + of_nat (length reqs) * (3 * epsilon * lm_burst l)"
  using assms
proof (induction reqs arbitrary: t l)
  case Nil
  then have "0 \<le> true_rate (lm_rate l)" by (simp add: wf_limiter_def true_rate_def)
  then show ?case using limiter_budget_nonneg[OF Nil.prems(1)] by simp
next
  case (Cons req reqs)
  obtain key now where req: "req = (key, now)" by (cases req)
  obtain outcome l' where t: "limiter_take key now l = (outcome, l')" by (cases "limiter_take key now l")
  have times: "t \<le> now" "now \<le> stop" "sorted (now # map snd reqs @ [stop])"
    using Cons.prems(2) by (auto simp: req)
  have wf: "wf_limiter now l" by (rule wf_limiter_later[OF Cons.prems(1) times(1)])
  have wf': "wf_limiter now l'" using wf t by (rule limiter_takeE)
  note same = limiter_take_same[OF wf t]
  then have "places l' = places l"
    by (simp only: places_caps)
  define d c where "d = true_rate (lm_rate l)" and "c = 3 * epsilon * lm_burst l"
  have rec: "of_nat (admitted (\<lambda>_. True) reqs l') \<le>
      limiter_budget now l' + of_nat (places l) * (d * of_nat (stop - now)) + of_nat (length reqs) * c"
    using Cons.IH[OF wf' times(3)] same \<open>places l' = places l\<close> by (simp only: d_def c_def)
  have "stop - t = (now - t) + (stop - now)"
    using times by simp
  then have "of_nat (places l) * (d * of_nat (stop - t)) =
      of_nat (places l) * (d * of_nat (now - t)) + of_nat (places l) * (d * of_nat (stop - now))"
    by (simp only: of_nat_add distrib_left)
  moreover have "of_nat (length (req # reqs)) * c = of_nat (length reqs) * c + c"
    by (simp add: algebra_simps)
  moreover have "of_nat (admitted (\<lambda>_. True) (req # reqs) l) =
      admitted_one outcome + of_nat (admitted (\<lambda>_. True) reqs l')"
    by (simp add: req t)
  moreover have "admitted_one outcome + limiter_budget now l' \<le> limiter_budget now l + c"
    unfolding c_def by (rule limiter_take_budget[OF wf t])
  moreover have "limiter_budget now l \<le> limiter_budget t l + of_nat (places l) * (d * of_nat (now - t))"
    unfolding d_def by (rule limiter_budget_time[OF Cons.prems(1) times(1)])
  ultimately show ?case
    using rec unfolding d_def[symmetric] c_def[symmetric] by linarith
qed

section \<open>Fresh limiters\<close>

text \<open>What the constructor and every setter return.\<close>

definition fresh_limiter :: "nat \<Rightarrow> 'i limiter \<Rightarrow> bool" where
  "fresh_limiter now l \<longleftrightarrow>
     0 \<le> lm_rate l \<and> 0 \<le> lm_burst l \<and> lm_shards l = build_shards now (lm_max_keys l) (lm_burst l)"

lemma fresh_new: "rate_limit_new now hasher limit per = Ret l \<Longrightarrow> fresh_limiter now l"
  by (auto simp: rate_limit_new_def fresh_limiter_def Let_def outcome_simps as_secs_f64_nonneg
      intro!: f64_round_nonneg divide_nonneg_nonneg)

lemma fresh_setters:
  assumes "fresh_limiter t l"
  shows "set_burst now hasher b l = Ret l' \<Longrightarrow> fresh_limiter now l'"
    "set_max_keys now hasher m l = Ret l' \<Longrightarrow> fresh_limiter now l'"
    "fresh_limiter now (set_key_by now hasher key l)"
    "set_key_by_header header_name now hasher header l = Ret l' \<Longrightarrow> fresh_limiter now l'"
    "fresh_limiter now (set_key_by_peer_ip ip_text now hasher l)"
  using assms
  by (auto simp: fresh_limiter_def set_burst_def set_max_keys_def set_key_by_def set_key_by_header_def
      set_key_by_peer_ip_def limiter_edit_def Let_def outcome_simps)

lemma shard_count_pos [simp]: "0 < shard_count m"
  by (simp add: shard_count_def)

lemma length_build_shards [simp]: "length (build_shards now m burst) = shard_count m"
  by (simp add: build_shards_def Let_def)

lemma sum_caps: "sum_list (map (\<lambda>i. b + (if i < e then 1 else 0)) [0..<c]) = c * b + min e c" for b e c :: nat
  by (induction c) (auto simp: min_def)

lemma build_shards_caps: "sum_list (map sh_cap (build_shards now m burst)) = m"
proof -
  let ?c = "shard_count m"
  have "min (m mod ?c) ?c = m mod ?c"
    by (simp add: less_imp_le)
  then show ?thesis
    by (simp add: build_shards_def Let_def comp_def sum_caps)
qed

lemma sum_list_Suc: "sum_list (map (\<lambda>x. f x + 1) xs) = sum_list (map f xs) + length xs" for f :: "'a \<Rightarrow> nat"
  by (induction xs) auto

lemma fresh_places: "fresh_limiter t l \<Longrightarrow> places l = lm_max_keys l + shard_count (lm_max_keys l)"
  unfolding places_def sum_list_Suc by (simp add: fresh_limiter_def build_shards_caps)

lemma fresh_shard:
  "fresh_limiter t l \<Longrightarrow> st \<in> set (lm_shards l) \<Longrightarrow>
     sh_buckets st = [] \<and> sh_overflow st = \<lparr>bk_tokens = lm_burst l, bk_last = t\<rparr> \<and>
     lm_max_keys l div shard_count (lm_max_keys l) \<le> sh_cap st"
  by (auto simp: fresh_limiter_def build_shards_def Let_def)

lemma fresh_wf: "fresh_limiter t l \<Longrightarrow> wf_limiter t l"
proof -
  assume fresh: "fresh_limiter t l"
  have "wf_shard t st" if "st \<in> set (lm_shards l)" for st
    using fresh_shard[OF fresh that] fresh by (simp add: wf_shard_def wf_bucket_def fresh_limiter_def)
  moreover have "length (lm_shards l) \<noteq> 0"
    using fresh by (simp add: fresh_limiter_def)
  ultimately show ?thesis
    using fresh by (simp add: wf_limiter_def fresh_limiter_def)
qed

lemma fresh_budget: "fresh_limiter t l \<Longrightarrow> limiter_budget t l = of_nat (places l) * lm_burst l"
proof -
  assume fresh: "fresh_limiter t l"
  have "sum_list (map (shard_budget (lm_rate l) (lm_burst l) t) sts) =
      of_nat (sum_list (map (\<lambda>st. sh_cap st + 1) sts)) * lm_burst l"
    if "set sts \<subseteq> set (lm_shards l)" for sts
    using that
  proof (induction sts)
    case (Cons st sts)
    then show ?case
      using fresh_shard[OF fresh, of st] by (simp add: shard_budget_def algebra_simps)
  qed simp
  then show ?thesis
    by (simp add: limiter_budget_def places_def)
qed

lemma run_kept:
  assumes "wf_limiter t l" "sorted (t # map snd reqs)"
  shows "sum_list (map (\<lambda>st. length (sh_buckets st)) (lm_shards (limiter_run reqs l))) \<le> sum_list (map sh_cap (lm_shards l))"
  using assms
proof (induction reqs arbitrary: t l)
  case Nil
  have "sum_list (map (\<lambda>st. length (sh_buckets st)) sts) \<le> sum_list (map sh_cap sts)"
    if "\<forall>st \<in> set sts. wf_shard t st" for sts
    using that by (induction sts) (auto simp: wf_shard_def intro: add_mono)
  then show ?case using Nil by (simp add: wf_limiter_def)
next
  case (Cons req reqs)
  obtain key now where req: "req = (key, now)" by (cases req)
  obtain outcome l' where t: "limiter_take key now l = (outcome, l')" by (cases "limiter_take key now l")
  have wf: "wf_limiter now l" using Cons.prems wf_limiter_later by (auto simp: req)
  then have "wf_limiter now l'" using t by (rule limiter_takeE)
  moreover have "sorted (now # map snd reqs)" using Cons.prems(2) by (simp add: req)
  ultimately have "sum_list (map (\<lambda>st. length (sh_buckets st)) (lm_shards (limiter_run reqs l'))) \<le>
      sum_list (map sh_cap (lm_shards l'))"
    by (rule Cons.IH)
  moreover have "map sh_cap (lm_shards l') = map sh_cap (lm_shards l)"
    using limiter_take_same[OF wf t] by blast
  ultimately show ?case
    by (simp add: req t)
qed


definition demo_limiter :: "unit limiter" where
  "demo_limiter = \<lparr>lm_rate = 1, lm_burst = 2, lm_max_keys = 3, lm_key = (\<lambda>_. None), lm_hasher = length,
     lm_shards = build_shards 0 3 2\<rparr>"

lemma demo_limiter_fresh: "fresh_limiter 0 demo_limiter"
  by (simp add: fresh_limiter_def demo_limiter_def)


section \<open>One client\<close>

definition client_budget :: "nat \<Rightarrow> nat \<Rightarrow> 'i limiter \<Rightarrow> rat" where
  "client_budget now h l = key_budget (lm_rate l) (lm_burst l) now h (lm_shards l ! (h mod length (lm_shards l)))"

definition roomy_limiter :: "nat set \<Rightarrow> 'i limiter \<Rightarrow> bool" where
  "roomy_limiter ids l \<longleftrightarrow> (\<forall>st \<in> set (lm_shards l). roomy ids st)"

lemma client_budget_nonneg: "wf_limiter now l \<Longrightarrow> 0 \<le> client_budget now h l"
  by (simp add: client_budget_def wf_limiter_def key_budget_nonneg)

lemma client_budget_time:
  "wf_limiter now l \<Longrightarrow> now \<le> later \<Longrightarrow>
     client_budget later h l \<le> client_budget now h l + true_rate (lm_rate l) * of_nat (later - now)"
  unfolding client_budget_def by (rule key_budget_time) (simp_all add: wf_limiter_def)

lemma client_take:
  assumes "wf_limiter now l" "roomy_limiter ids l" "lm_hasher l key \<in> ids"
    "limiter_take key now l = (outcome, l')"
  shows "roomy_limiter ids l'"
    "(if h = lm_hasher l key then admitted_one outcome else 0) + client_budget now h l' \<le>
       client_budget now h l + (if h = lm_hasher l key then 3 * epsilon * lm_burst l else 0)"
proof -
  have "roomy_limiter ids l' \<and> (if h = lm_hasher l key then admitted_one outcome else 0) + client_budget now h l' \<le>
       client_budget now h l + (if h = lm_hasher l key then 3 * epsilon * lm_burst l else 0)"
    using assms(1,4)
  proof (rule limiter_takeE)
    fix st st'
    assume st: "st = lm_shards l ! shard_of l key" "shard_of l key < length (lm_shards l)"
      "shard_take (lm_rate l) (lm_burst l) now (lm_hasher l key) st = (outcome, st')"
      "l' = l\<lparr>lm_shards := (lm_shards l)[shard_of l key := st']\<rparr>" "wf_shard now st"
    have "roomy ids st"
      using assms(2) st(1,2) by (simp add: roomy_limiter_def)
    note key = shard_take_key[OF st(5) _ _ this assms(3) st(3)]
    have pos: "0 \<le> lm_rate l" "0 \<le> lm_burst l"
      using assms(1) by (simp_all add: wf_limiter_def)
    have "roomy_limiter ids l'"
      using assms(2) key(1)[OF pos] set_update_subset_insert[of "lm_shards l" "shard_of l key" st']
      by (auto simp: roomy_limiter_def st(4))
    moreover have "(if h = lm_hasher l key then admitted_one outcome else 0) + client_budget now h l' \<le>
       client_budget now h l + (if h = lm_hasher l key then 3 * epsilon * lm_burst l else 0)"
    proof (cases "h mod length (lm_shards l) = shard_of l key")
      case False
      then have "h \<noteq> lm_hasher l key" by (auto simp: shard_of_def)
      then show ?thesis using False by (simp add: client_budget_def st(4))
    next
      case same: True
      then have budgets: "client_budget now h l' = key_budget (lm_rate l) (lm_burst l) now h st'"
        "client_budget now h l = key_budget (lm_rate l) (lm_burst l) now h st"
        using st(1,2) by (simp_all add: client_budget_def st(4))
      show ?thesis
        unfolding budgets using key(2,3)[OF pos] by auto
    qed
    ultimately show ?thesis by blast
  qed
  then show "roomy_limiter ids l'"
    "(if h = lm_hasher l key then admitted_one outcome else 0) + client_budget now h l' \<le>
       client_budget now h l + (if h = lm_hasher l key then 3 * epsilon * lm_burst l else 0)"
    by blast+
qed

lemma admitted_client:
  assumes "wf_limiter t l" "sorted (t # map snd reqs @ [stop])" "roomy_limiter ids l"
    "\<forall>req \<in> set reqs. lm_hasher l (fst req) \<in> ids"
  shows "of_nat (admitted ((=) h) reqs l) \<le> client_budget t h l + true_rate (lm_rate l) * of_nat (stop - t) +
    of_nat (length (filter (\<lambda>req. lm_hasher l (fst req) = h) reqs)) * (3 * epsilon * lm_burst l)"
  using assms
proof (induction reqs arbitrary: t l)
  case Nil
  then have "0 \<le> true_rate (lm_rate l)" by (simp add: wf_limiter_def true_rate_def)
  then show ?case using client_budget_nonneg[OF Nil.prems(1), of h] by simp
next
  case (Cons req reqs)
  obtain key now where req: "req = (key, now)" by (cases req)
  obtain outcome l' where t: "limiter_take key now l = (outcome, l')" by (cases "limiter_take key now l")
  have times: "t \<le> now" "now \<le> stop" "sorted (now # map snd reqs @ [stop])"
    using Cons.prems(2) by (auto simp: req)
  have wf: "wf_limiter now l" by (rule wf_limiter_later[OF Cons.prems(1) times(1)])
  have wf': "wf_limiter now l'" using wf t by (rule limiter_takeE)
  note same = limiter_take_same[OF wf t]
  have "lm_hasher l key \<in> ids" using Cons.prems(4) by (simp add: req)
  note client = client_take[OF wf Cons.prems(3) this t]
  define d c where "d = true_rate (lm_rate l)" and "c = 3 * epsilon * lm_burst l"
  let ?mine = "\<lambda>reqs. of_nat (length (filter (\<lambda>req. lm_hasher l (fst req) = h) reqs)) :: rat"
  have "of_nat (admitted ((=) h) reqs l') \<le> client_budget now h l' + true_rate (lm_rate l') * of_nat (stop - now) +
      of_nat (length (filter (\<lambda>req. lm_hasher l' (fst req) = h) reqs)) * (3 * epsilon * lm_burst l')"
    using Cons.IH[OF wf' times(3) client(1)] Cons.prems(4) same by simp
  then have rec: "of_nat (admitted ((=) h) reqs l') \<le> client_budget now h l' + d * of_nat (stop - now) + ?mine reqs * c"
    using same by (simp only: d_def c_def)
  have "stop - t = (now - t) + (stop - now)"
    using times by simp
  then have "d * of_nat (stop - t) = d * of_nat (now - t) + d * of_nat (stop - now)"
    by (simp only: of_nat_add distrib_left)
  moreover have "?mine (req # reqs) * c = ?mine reqs * c + (if h = lm_hasher l key then c else 0)"
    by (auto simp: req algebra_simps)
  moreover have "of_nat (admitted ((=) h) (req # reqs) l) =
      (if h = lm_hasher l key then admitted_one outcome else 0) + of_nat (admitted ((=) h) reqs l')"
    by (simp add: req t)
  moreover have "client_budget now h l \<le> client_budget t h l + d * of_nat (now - t)"
    unfolding d_def by (rule client_budget_time[OF Cons.prems(1) times(1)])
  moreover have "(if h = lm_hasher l key then admitted_one outcome else 0) + client_budget now h l' \<le>
      client_budget now h l + (if h = lm_hasher l key then c else 0)"
    unfolding c_def by (rule client(2))
  ultimately show ?case
    using rec unfolding d_def[symmetric] c_def[symmetric] by linarith
qed



end
