(* ===== verification/Cors.thy ===== *)
theory Cors
  imports Middleware
begin

text \<open>
  Model of \<open>src/cors.rs\<close>: the configuration of \<open>Cors\<close> with its checks, the answer to a preflight and
  the headers added to other responses. Header names and methods are tokens, so joining them gives a
  valid header value, and a value that can be read as text can be sent again. \<open>header_name\<close> is
  \<open>HeaderName::from_bytes\<close>, a parameter.
\<close>

section \<open>Configuration\<close>

datatype allowed_headers = Header_List "string list" | Mirror

record cors_config =
  co_any_origin :: bool
  co_origins :: "string list"
  co_methods :: "http_method list"
  co_headers :: allowed_headers
  co_credentials :: bool
  co_expose :: "string list"
  co_max_age :: "nat option"

definition cors_new :: cors_config where
  "cors_new = \<lparr>co_any_origin = False, co_origins = [], co_methods = [GET, HEAD, POST],
     co_headers = Header_List [''content-type''], co_credentials = False, co_expose = [], co_max_age = None\<rparr>"

text \<open>\<open>s.split_once(pattern)\<close> for a string pattern.\<close>

fun split_at_str :: "string \<Rightarrow> string \<Rightarrow> (string \<times> string) option" where
  "split_at_str pat [] = (if pat = [] then Some ([], []) else None)"
| "split_at_str pat (c # s) =
     (if starts_with (c # s) pat then Some ([], drop (length pat) (c # s))
      else map_option (\<lambda>(a, b). (c # a, b)) (split_at_str pat s))"

definition valid_origin :: "string \<Rightarrow> bool" where
  "valid_origin origin \<longleftrightarrow>
     origin = ''null'' \<or>
     (case split_at_str ''://'' origin of
        None \<Rightarrow> False
      | Some (scheme, authority) \<Rightarrow>
          scheme \<noteq> [] \<and> authority \<noteq> [] \<and>
          \<not> list_ex (\<lambda>c. c \<in> {CHR ''/'', CHR ''*'', CHR '' '', CHR ''?'', CHR ''#''}) authority)"

definition allow_origin :: "string \<Rightarrow> cors_config \<Rightarrow> cors_config outcome" where
  "allow_origin origin c =
     bind_outcome (assert_that (valid_origin origin) ''invalid CORS origin'') (\<lambda>_.
       Ret (c\<lparr>co_origins := co_origins c @ [origin]\<rparr>))"

definition allow_any_origin :: "cors_config \<Rightarrow> cors_config outcome" where
  "allow_any_origin c =
     bind_outcome (assert_that (\<not> co_credentials c) ''allow_any_origin cannot be combined with credentials'') (\<lambda>_.
       Ret (c\<lparr>co_any_origin := True\<rparr>))"

definition allow_methods :: "http_method list \<Rightarrow> cors_config \<Rightarrow> cors_config" where
  "allow_methods methods c = c\<lparr>co_methods := methods\<rparr>"

fun header_names :: "(string \<Rightarrow> string option) \<Rightarrow> string list \<Rightarrow> string list outcome" where
  "header_names header_name [] = Ret []"
| "header_names header_name (n # ns) =
     bind_outcome (expect (header_name n) ''a valid header name'') (\<lambda>h.
       map_outcome ((#) h) (header_names header_name ns))"

definition allow_headers ::
  "(string \<Rightarrow> string option) \<Rightarrow> string list \<Rightarrow> cors_config \<Rightarrow> cors_config outcome" where
  "allow_headers header_name hs c =
     map_outcome (\<lambda>hs. c\<lparr>co_headers := Header_List hs\<rparr>) (header_names header_name hs)"

definition allow_any_header :: "cors_config \<Rightarrow> cors_config" where
  "allow_any_header c = c\<lparr>co_headers := Mirror\<rparr>"

definition allow_credentials :: "bool \<Rightarrow> cors_config \<Rightarrow> cors_config outcome" where
  "allow_credentials allow c =
     bind_outcome (assert_that (\<not> (allow \<and> co_any_origin c)) ''credentials cannot be combined with allow_any_origin'')
       (\<lambda>_. Ret (c\<lparr>co_credentials := allow\<rparr>))"

definition expose_headers ::
  "(string \<Rightarrow> string option) \<Rightarrow> string list \<Rightarrow> cors_config \<Rightarrow> cors_config outcome" where
  "expose_headers header_name hs c =
     map_outcome (\<lambda>hs. c\<lparr>co_expose := hs\<rparr>) (header_names header_name hs)"

text \<open>In milliseconds.\<close>

definition set_max_age :: "nat \<Rightarrow> cors_config \<Rightarrow> cors_config" where
  "set_max_age max_age c = c\<lparr>co_max_age := Some max_age\<rparr>"

section \<open>Answers\<close>

definition join_names :: "string list \<Rightarrow> header_value" where
  "join_names names = text_value (str_join '', '' names)"

definition allows_origin :: "cors_config \<Rightarrow> header_value \<Rightarrow> bool" where
  "allows_origin c origin \<longleftrightarrow>
     co_any_origin c \<or> (case hv_text origin of None \<Rightarrow> False | Some o' \<Rightarrow> list_ex (\<lambda>allowed. allowed = o') (co_origins c))"

definition origin_value :: "cors_config \<Rightarrow> header_value \<Rightarrow> header_value" where
  "origin_value c origin = (if co_any_origin c then text_value ''*'' else origin)"

definition allowed_request_headers :: "cors_config \<Rightarrow> header_value option \<Rightarrow> header_value option option" where
  "allowed_request_headers c requested =
     (case Option.bind requested hv_text of
        None \<Rightarrow> Some None
      | Some asked \<Rightarrow>
          if asked = [] then Some None
          else (case co_headers c of
                  Mirror \<Rightarrow> Some (Some (text_value asked))
                | Header_List allowed \<Rightarrow>
                    if list_all (\<lambda>name. list_ex (\<lambda>a. eq_ignore_ascii_case a name) allowed)
                         (map trim (str_split (CHR '','') asked))
                    then Some (Some (join_names allowed)) else None))"

definition vary_present :: "headers \<Rightarrow> string \<Rightarrow> bool" where
  "vary_present h name \<longleftrightarrow>
     list_ex (\<lambda>token. eq_ignore_ascii_case (trim token) name \<or> trim token = ''*'')
       (concat (map (str_split (CHR '','')) (List.map_filter hv_text (hm_get_all h ''vary''))))"

definition add_vary :: "cors_config \<Rightarrow> string list \<Rightarrow> headers \<Rightarrow> headers" where
  "add_vary c extra h =
     (if co_any_origin c \<and> extra = [] then h
      else fold (\<lambda>name h. if vary_present h name then h else hm_append ''vary'' (text_value name) h)
             ((if co_any_origin c then [] else [''Origin'']) @ extra) h)"

abbreviation acao :: string where "acao \<equiv> ''access-control-allow-origin''"
abbreviation acac :: string where "acac \<equiv> ''access-control-allow-credentials''"
abbreviation acrm :: string where "acrm \<equiv> ''access-control-request-method''"
abbreviation acrh :: string where "acrh \<equiv> ''access-control-request-headers''"

definition method_allowed :: "cors_config \<Rightarrow> 'i request_body request \<Rightarrow> bool" where
  "method_allowed c request \<longleftrightarrow>
     (case header_text (rq_headers request) acrm of
        None \<Rightarrow> False | Some m \<Rightarrow> list_ex (\<lambda>allowed. allowed = m) (co_methods c))"

definition granted :: "cors_config \<Rightarrow> header_value \<Rightarrow> header_value option \<Rightarrow> headers \<Rightarrow> headers" where
  "granted c origin allowed h =
     (let h = hm_insert acao (origin_value c origin) h;
          h = hm_insert ''access-control-allow-methods'' (join_names (co_methods c)) h;
          h = (case allowed of None \<Rightarrow> h | Some v \<Rightarrow> hm_insert ''access-control-allow-headers'' v h);
          h = (if co_credentials c then hm_insert acac (text_value ''true'') h else h)
      in case co_max_age c of
           None \<Rightarrow> h
         | Some ms \<Rightarrow> hm_insert ''access-control-max-age'' (text_value (dec (ms div 1000))) h)"

definition preflight :: "cors_config \<Rightarrow> header_value \<Rightarrow> 'i request_body request \<Rightarrow> response" where
  "preflight c origin request =
     (let r = (new_response 204 (Full (Some [])))\<lparr>resp_headers :=
                 hm_append ''content-length'' (text_value ''0'') no_headers\<rparr>;
          h = resp_headers r;
          h = (case allowed_request_headers c (hm_get (rq_headers request) acrh) of
                 Some allowed \<Rightarrow>
                   if allows_origin c origin \<and> method_allowed c request then granted c origin allowed h else h
               | None \<Rightarrow> h)
      in r\<lparr>resp_headers :=
           add_vary c [''Access-Control-Request-Method'', ''Access-Control-Request-Headers''] h\<rparr>)"

definition decorate :: "cors_config \<Rightarrow> header_value option \<Rightarrow> response \<Rightarrow> response" where
  "decorate c origin r =
     (let h = resp_headers r;
          star = (if co_any_origin c then hm_insert acao (text_value ''*'') h else h);
          h = (case origin of
                 Some origin \<Rightarrow>
                   if allows_origin c origin then
                     (let h = hm_insert acao (origin_value c origin) h;
                          h = (if co_credentials c then hm_insert acac (text_value ''true'') h else h)
                      in if co_expose c \<noteq> []
                         then hm_insert ''access-control-expose-headers'' (join_names (co_expose c)) h else h)
                   else star
               | None \<Rightarrow> star)
      in r\<lparr>resp_headers := add_vary c [] h\<rparr>)"

definition cors_handle :: "cors_config \<Rightarrow> ('i, 'w) layer" where
  "cors_handle c request run_next =
     (case (hm_get (rq_headers request) ''origin'',
            rq_method request = OPTIONS \<and> hm_contains (rq_headers request) acrm) of
        (Some origin, True) \<Rightarrow> respond (preflight c origin request)
      | (origin, _) \<Rightarrow> map_response (decorate c origin) (run_next request))"

section \<open>Configurations that can be built\<close>

inductive cors_built :: "cors_config \<Rightarrow> bool" where
  built_new: "cors_built cors_new"
| built_origin: "cors_built c \<Longrightarrow> allow_origin origin c = Ret c' \<Longrightarrow> cors_built c'"
| built_any: "cors_built c \<Longrightarrow> allow_any_origin c = Ret c' \<Longrightarrow> cors_built c'"
| built_methods: "cors_built c \<Longrightarrow> cors_built (allow_methods ms c)"
| built_headers: "cors_built c \<Longrightarrow> allow_headers header_name hs c = Ret c' \<Longrightarrow> cors_built c'"
| built_mirror: "cors_built c \<Longrightarrow> cors_built (allow_any_header c)"
| built_credentials: "cors_built c \<Longrightarrow> allow_credentials allow c = Ret c' \<Longrightarrow> cors_built c'"
| built_expose: "cors_built c \<Longrightarrow> expose_headers header_name hs c = Ret c' \<Longrightarrow> cors_built c'"
| built_max_age: "cors_built c \<Longrightarrow> cors_built (set_max_age ms c)"

lemma cors_built_sound: "cors_built c \<Longrightarrow> \<not> (co_any_origin c \<and> co_credentials c) \<and> (\<forall>origin \<in> set (co_origins c). valid_origin origin)"
  by (induction rule: cors_built.induct)
    (auto simp: cors_new_def allow_origin_def allow_any_origin_def allow_methods_def allow_headers_def
      allow_any_header_def allow_credentials_def expose_headers_def set_max_age_def outcome_simps)

lemma star_not_valid: "\<not> valid_origin ''*''"
  by (simp add: valid_origin_def starts_with_def)

section \<open>Vary\<close>

lemma vary_present_append [simp]:
  "vary_present (hm_append ''vary'' v h) name \<longleftrightarrow>
     vary_present h name \<or>
     (\<exists>s. hv_text v = Some s \<and> (\<exists>token \<in> set (str_split (CHR '','') s). eq_ignore_ascii_case (trim token) name \<or> trim token = ''*''))"
  by (auto simp: vary_present_def hm_get_all_def hm_append_def map_filter_def list_ex_iff split: option.splits)

lemma vary_fold_keeps:
  "vary_present h name \<Longrightarrow>
     vary_present (fold (\<lambda>n h. if vary_present h n then h else hm_append ''vary'' (text_value n) h) ns h) name"
  by (induction ns arbitrary: h) auto

lemma vary_fold_adds:
  "n \<in> set ns \<Longrightarrow> CHR '','' \<notin> set n \<Longrightarrow> trim n = n \<Longrightarrow>
     vary_present (fold (\<lambda>n h. if vary_present h n then h else hm_append ''vary'' (text_value n) h) ns h) n"
proof (induction ns arbitrary: h)
  case (Cons m ns)
  show ?case
  proof (cases "n = m")
    case True
    have "vary_present (hm_append ''vary'' (text_value n) h) n"
      using Cons.prems by (simp add: str_split_no_sep eq_ignore_ascii_case_def)
    then show ?thesis
      using True by (auto intro!: vary_fold_keeps)
  qed (use Cons in auto)
qed simp

lemma vary_fold_other:
  "k \<noteq> ''vary'' \<Longrightarrow>
     hm_get (fold (\<lambda>n h. if vary_present h n then h else hm_append ''vary'' (text_value n) h) ns h) k = hm_get h k"
  by (induction ns arbitrary: h) auto

lemma add_vary_other [simp]: "k \<noteq> ''vary'' \<Longrightarrow> hm_get (add_vary c extra h) k = hm_get h k"
  by (simp add: add_vary_def vary_fold_other)

lemma trim_names [simp]:
  "trim ''Origin'' = ''Origin''"
  "trim ''Access-Control-Request-Method'' = ''Access-Control-Request-Method''"
  "trim ''Access-Control-Request-Headers'' = ''Access-Control-Request-Headers''"
  by (simp_all add: trim_plain)

section \<open>Properties\<close>

definition origin_listed :: "cors_config \<Rightarrow> header_value \<Rightarrow> bool" where
  "origin_listed c origin \<longleftrightarrow> (\<exists>o' \<in> set (co_origins c). hv_text origin = Some o' \<and> valid_origin o')"

lemma allowed_listed:
  "cors_built c \<Longrightarrow> allows_origin c origin \<Longrightarrow> \<not> co_any_origin c \<Longrightarrow> origin_listed c origin"
  using cors_built_sound[of c] by (auto simp: allows_origin_def origin_listed_def list_ex_iff split: option.splits)

lemma preflight_get:
  assumes "k \<noteq> ''vary''"
  shows "hm_get (resp_headers (preflight c origin request)) k =
    (case allowed_request_headers c (hm_get (rq_headers request) acrh) of
       Some allowed \<Rightarrow>
         if allows_origin c origin \<and> method_allowed c request
         then hm_get (granted c origin allowed (hm_append ''content-length'' (text_value ''0'') no_headers)) k
         else hm_get (hm_append ''content-length'' (text_value ''0'') no_headers) k
     | None \<Rightarrow> hm_get (hm_append ''content-length'' (text_value ''0'') no_headers) k)"
  using assms
  by (cases "allowed_request_headers c (hm_get (rq_headers request) acrh)") (simp_all add: preflight_def Let_def)

lemma granted_get [simp]:
  "hm_get (granted c origin allowed h) acao = Some (origin_value c origin)"
  "hm_get (granted c origin allowed h) acac = (if co_credentials c then Some (text_value ''true'') else hm_get h acac)"
  by (simp_all add: granted_def Let_def split: option.split)

lemma decorate_get:
  "k \<notin> {''vary'', acao, acac, ''access-control-expose-headers''} \<Longrightarrow>
     hm_get (resp_headers (decorate c origin r)) k = hm_get (resp_headers r) k"
  "hm_get (resp_headers (decorate c origin r)) acao =
     (case origin of
        Some origin' \<Rightarrow> if allows_origin c origin' then Some (origin_value c origin')
          else if co_any_origin c then Some (text_value ''*'') else hm_get (resp_headers r) acao
      | None \<Rightarrow> if co_any_origin c then Some (text_value ''*'') else hm_get (resp_headers r) acao)"
  "hm_get (resp_headers (decorate c origin r)) acac =
     (if co_credentials c \<and> (\<exists>origin'. origin = Some origin' \<and> allows_origin c origin')
      then Some (text_value ''true'') else hm_get (resp_headers r) acac)"
  by (auto simp: decorate_def Let_def split: option.split)

lemma add_vary_adds:
  "n \<in> set ((if co_any_origin c then [] else [''Origin'']) @ extra) \<Longrightarrow> CHR '','' \<notin> set n \<Longrightarrow> trim n = n \<Longrightarrow>
     vary_present (add_vary c extra h) n"
proof -
  assume n: "n \<in> set ((if co_any_origin c then [] else [''Origin'']) @ extra)" "CHR '','' \<notin> set n" "trim n = n"
  then have "\<not> (co_any_origin c \<and> extra = [])" by auto
  then show ?thesis
    unfolding add_vary_def using vary_fold_adds[OF n] by (simp only: if_False)
qed

lemma add_vary_covers:
  "co_any_origin c \<or> vary_present (add_vary c extra h) ''Origin''"
  "vary_present (add_vary c [''Access-Control-Request-Method'', ''Access-Control-Request-Headers''] h)
     ''Access-Control-Request-Method''"
  "vary_present (add_vary c [''Access-Control-Request-Method'', ''Access-Control-Request-Headers''] h)
     ''Access-Control-Request-Headers''"
  by (cases "co_any_origin c"; simp add: add_vary_adds)+

lemma vary_covers:
  "co_any_origin c \<or> vary_present (resp_headers (decorate c origin r)) ''Origin''"
  "co_any_origin c \<or> vary_present (resp_headers (preflight c o' request)) ''Origin''"
  "vary_present (resp_headers (preflight c o' request)) ''Access-Control-Request-Method''"
  "vary_present (resp_headers (preflight c o' request)) ''Access-Control-Request-Headers''"
  using add_vary_covers by (simp_all add: decorate_def preflight_def Let_def)


definition demo_cors :: cors_config where
  "demo_cors = cors_new\<lparr>co_origins := [''https://a.b''], co_credentials := True\<rparr>"

lemma demo_cors_built: "cors_built demo_cors"
proof -
  have "allow_origin ''https://a.b'' cors_new = Ret (cors_new\<lparr>co_origins := [''https://a.b'']\<rparr>)"
    by (simp add: allow_origin_def valid_origin_def starts_with_def cors_new_def)
  from built_credentials[OF built_origin[OF built_new this], of True] show ?thesis
    by (simp add: allow_credentials_def demo_cors_def cors_new_def)
qed


text \<open>With any origin allowed, the answer to a request without \<open>Origin\<close> lacks the exposed headers the
  answer to the others carries, and nothing in \<open>Vary\<close> keeps a shared cache from mixing them up.\<close>

lemma any_origin_expose_depends_on_origin:
  assumes "co_any_origin c" "co_expose c \<noteq> []" "hm_get (resp_headers r) ''access-control-expose-headers'' = None"
  shows "hm_get (resp_headers (decorate c (Some origin) r)) ''access-control-expose-headers'' =
      Some (join_names (co_expose c))"
    "hm_get (resp_headers (decorate c None r)) ''access-control-expose-headers'' = None"
    "hm_get_all (resp_headers (decorate c None r)) ''vary'' = hm_get_all (resp_headers r) ''vary''"
  using assms by (auto simp: decorate_def Let_def add_vary_def allows_origin_def hm_get_all_def hm_insert_def hm_get_def)

end
