(* ===== verification/Compress.thy ===== *)
theory Compress
  imports Middleware
begin

text \<open>
  Model of \<open>src/compress.rs\<close>: which encoding a client prefers, which responses are compressed, and what
  becomes of their headers. The encoders (\<open>flate2\<close>, \<open>brotli\<close>), the parsing of a quality and the fate of a
  task on the blocking pool are parameters; whether brotli is built in is a flag of the build.
\<close>

section \<open>Configuration and build\<close>

record compress_config =
  cc_min_size :: nat
  cc_level :: nat
  cc_brotli_quality :: nat

definition compress_new :: compress_config where
  "compress_new = \<lparr>cc_min_size = 1024, cc_level = 6, cc_brotli_quality = 4\<rparr>"

definition set_min_size :: "nat \<Rightarrow> compress_config \<Rightarrow> compress_config" where
  "set_min_size bytes c = c\<lparr>cc_min_size := bytes\<rparr>"

definition set_brotli_quality :: "nat \<Rightarrow> compress_config \<Rightarrow> compress_config outcome" where
  "set_brotli_quality quality c =
     bind_outcome (assert_that (quality \<le> 11) ''the brotli quality must be 0 to 11'')
       (\<lambda>_. Ret (c\<lparr>cc_brotli_quality := quality\<rparr>))"

definition set_level :: "nat \<Rightarrow> compress_config \<Rightarrow> compress_config outcome" where
  "set_level level c =
     bind_outcome (assert_that (level \<le> 9) ''the gzip level must be 0 to 9'') (\<lambda>_. Ret (c\<lparr>cc_level := level\<rparr>))"

text \<open>A quality as an \<open>f32\<close>: it may be infinite or not a number.\<close>

datatype quality = Quality rat | Infinite | Minus_Infinite | Not_A_Number

definition quality_positive :: "quality \<Rightarrow> bool" where
  "quality_positive q = (case q of Quality x \<Rightarrow> 0 < x | Infinite \<Rightarrow> True | _ \<Rightarrow> False)"

text \<open>\<open>a > b\<close>\<close>

definition quality_above :: "quality \<Rightarrow> quality \<Rightarrow> bool" where
  "quality_above a b =
     (case (a, b) of
        (Quality x, Quality y) \<Rightarrow> y < x
      | (Quality _, Minus_Infinite) \<Rightarrow> True
      | (Infinite, Quality _) \<Rightarrow> True
      | (Infinite, Minus_Infinite) \<Rightarrow> True
      | _ \<Rightarrow> False)"

record compress_env =
  ce_brotli_built :: bool
  ce_parse_f32 :: "string \<Rightarrow> quality option"
  ce_gzip :: "string \<Rightarrow> nat \<Rightarrow> string"
  ce_brotli :: "string \<Rightarrow> nat \<Rightarrow> string"
  ce_pool_works :: bool

section \<open>Negotiation\<close>

datatype encoding = Gzip | Brotli

definition encoding_token :: "encoding \<Rightarrow> string" where
  "encoding_token e = (case e of Gzip \<Rightarrow> ''gzip'' | Brotli \<Rightarrow> ''br'')"

definition quality_param :: "(string \<Rightarrow> quality option) \<Rightarrow> string \<Rightarrow> quality option" where
  "quality_param parse param =
     Option.bind (split_once (CHR ''='') param) (\<lambda>(name, v).
       if eq_ignore_ascii_case (trim name) ''q'' then parse (trim v) else None)"

text \<open>\<open>find_map\<close>\<close>

fun find_map :: "('a \<Rightarrow> 'b option) \<Rightarrow> 'a list \<Rightarrow> 'b option" where
  "find_map f [] = None"
| "find_map f (x # xs) = (case f x of Some y \<Rightarrow> Some y | None \<Rightarrow> find_map f xs)"

definition accept_entry :: "(string \<Rightarrow> quality option) \<Rightarrow> string \<Rightarrow> string \<times> quality" where
  "accept_entry parse entry =
     (let parts = str_split (CHR '';'') entry
      in (to_ascii_lowercase (trim (hd parts)),
          case find_map (quality_param parse) (tl parts) of None \<Rightarrow> Quality 1 | Some q \<Rightarrow> q))"

definition quality_of :: "(string \<times> quality) list \<Rightarrow> string list \<Rightarrow> quality option" where
  "quality_of entries names =
     (case find (\<lambda>(coding, _). coding \<in> set names) (rev entries) of
        Some e \<Rightarrow> Some (snd e)
      | None \<Rightarrow> map_option snd (find (\<lambda>(coding, _). coding = ''*'') (rev entries)))"

definition consider_encoding ::
  "encoding \<Rightarrow> quality option \<Rightarrow> (encoding \<times> quality) option \<Rightarrow> (encoding \<times> quality) option" where
  "consider_encoding e q best =
     (case q of
        Some q \<Rightarrow>
          if quality_positive q \<and> (case best of None \<Rightarrow> True | Some (_, current) \<Rightarrow> quality_above q current)
          then Some (e, q) else best
      | None \<Rightarrow> best)"

definition negotiate :: "compress_env \<Rightarrow> string \<Rightarrow> encoding option" where
  "negotiate env v =
     (let entries = map (accept_entry (ce_parse_f32 env)) (str_split (CHR '','') v);
          best = (if ce_brotli_built env then consider_encoding Brotli (quality_of entries [''br'']) None else None)
      in map_option fst (consider_encoding Gzip (quality_of entries [''gzip'', ''x-gzip'']) best))"

section \<open>Which responses\<close>

definition compressible :: "string \<Rightarrow> bool" where
  "compressible content_type \<longleftrightarrow>
     (let media_type = to_ascii_lowercase (trim (hd (str_split (CHR '';'') content_type)))
      in starts_with media_type ''text/'' \<or>
         media_type \<in> {''application/json'', ''application/xml'', ''application/javascript'',
                       ''application/x-javascript'', ''image/svg+xml''} \<or>
         ends_with media_type ''+json'' \<or> ends_with media_type ''+xml'')"

definition header_tokens :: "headers \<Rightarrow> string \<Rightarrow> string list" where
  "header_tokens h k = concat (map (str_split (CHR '','')) (List.map_filter hv_text (hm_get_all h k)))"

definition vary_accept_encoding :: "headers \<Rightarrow> headers" where
  "vary_accept_encoding h =
     (if list_ex (\<lambda>token. trim token = ''*'' \<or> eq_ignore_ascii_case (trim token) ''accept-encoding'')
           (header_tokens h ''vary'')
      then h else hm_append ''vary'' (text_value ''Accept-Encoding'') h)"

definition min_compressible :: nat where
  "min_compressible = 32"

definition blocking_threshold :: nat where
  "blocking_threshold = 16 * 1024"

text \<open>A longer value of the same kind is a valid value.\<close>

definition weaken_etag :: "headers \<Rightarrow> headers" where
  "weaken_etag h =
     (case hm_get h ''etag'' of
        Some etag \<Rightarrow>
          if \<not> starts_with (hv_bytes etag) ''W/''
          then hm_insert ''etag'' \<lparr>hv_bytes = ''W/'' @ hv_bytes etag, hv_text = map_option ((@) ''W/'') (hv_text etag)\<rparr> h
          else h
      | None \<Rightarrow> h)"

definition is_compressible :: "response \<Rightarrow> bool" where
  "is_compressible r \<longleftrightarrow>
     \<not> hm_contains (resp_headers r) ''content-encoding'' \<and>
     (case header_text (resp_headers r) ''content-type'' of None \<Rightarrow> False | Some t \<Rightarrow> compressible t)"

definition keeps_form :: "response \<Rightarrow> bool" where
  "keeps_form r \<longleftrightarrow>
     list_ex (\<lambda>d. eq_ignore_ascii_case (trim d) ''no-transform'') (header_tokens (resp_headers r) ''cache-control'') \<or>
     100 \<le> resp_status r \<and> resp_status r < 200 \<or> resp_status r \<in> {204, 304, 206} \<or>
     hm_contains (resp_headers r) ''content-range''"

definition describe_head :: "compress_config \<Rightarrow> encoding \<Rightarrow> response \<Rightarrow> response" where
  "describe_head c e r =
     (case Option.bind (header_text (resp_headers r) ''content-length'') (parse_unsigned usize_max) of
        Some len \<Rightarrow>
          if max (cc_min_size c) min_compressible \<le> len
          then r\<lparr>resp_headers :=
                 weaken_etag (hm_insert ''content-encoding'' (text_value (encoding_token e))
                   (hm_remove ''content-length'' (resp_headers r)))\<rparr>
          else r
      | None \<Rightarrow> r)"

definition compress_bytes :: "compress_env \<Rightarrow> compress_config \<Rightarrow> encoding \<Rightarrow> string \<Rightarrow> string" where
  "compress_bytes env c e bytes =
     (case e of Gzip \<Rightarrow> ce_gzip env bytes (cc_level c) | Brotli \<Rightarrow> ce_brotli env bytes (cc_brotli_quality c))"

definition compress_body :: "compress_env \<Rightarrow> compress_config \<Rightarrow> encoding \<Rightarrow> response \<Rightarrow> response" where
  "compress_body env c e r =
     (case resp_body r of
        Full (Some body) \<Rightarrow>
          if length body < max (cc_min_size c) min_compressible then r
          else if blocking_threshold < length body \<and> \<not> ce_pool_works env then r
          else (let compressed = compress_bytes env c e body
                in if compressed = [] then r
                   else (let h = hm_insert ''content-encoding'' (text_value (encoding_token e)) (resp_headers r);
                             h = (if hm_contains h ''content-length''
                                  then hm_insert ''content-length'' (text_value (dec (length compressed))) h else h)
                         in r\<lparr>resp_body := Full (Some compressed), resp_headers := weaken_etag h\<rparr>))
      | _ \<Rightarrow> r)"

definition compress_response ::
  "compress_env \<Rightarrow> compress_config \<Rightarrow> encoding option \<Rightarrow> bool \<Rightarrow> response \<Rightarrow> response" where
  "compress_response env c accepted is_head r =
     (if \<not> is_compressible r then r
      else (let r = r\<lparr>resp_headers := vary_accept_encoding (resp_headers r)\<rparr>
            in case accepted of
                 None \<Rightarrow> r
               | Some e \<Rightarrow>
                   if keeps_form r then r
                   else if is_head then describe_head c e r
                   else compress_body env c e r))"

definition compress_handle :: "compress_env \<Rightarrow> compress_config \<Rightarrow> ('i, 'w) layer" where
  "compress_handle env c request run_next =
     (let accept = str_join '','' (List.map_filter hv_text (hm_get_all (rq_headers request) ''accept-encoding''))
      in map_response (compress_response env c (negotiate env accept) (rq_method request = HEAD)) (run_next request))"

section \<open>The negotiated encoding\<close>

definition built_encodings :: "compress_env \<Rightarrow> encoding set" where
  "built_encodings env = (if ce_brotli_built env then {Gzip, Brotli} else {Gzip})"

text \<open>The quality a header gives an encoding: its last entry by name, else that of \<open>*\<close>.\<close>

definition offered :: "compress_env \<Rightarrow> string \<Rightarrow> encoding \<Rightarrow> quality option" where
  "offered env v e =
     quality_of (map (accept_entry (ce_parse_f32 env)) (str_split (CHR '','') v))
       (case e of Gzip \<Rightarrow> [''gzip'', ''x-gzip''] | Brotli \<Rightarrow> [''br''])"

definition acceptable :: "compress_env \<Rightarrow> string \<Rightarrow> encoding \<Rightarrow> bool" where
  "acceptable env v e \<longleftrightarrow>
     e \<in> built_encodings env \<and> (\<exists>q. offered env v e = Some q \<and> quality_positive q)"

lemma quality_above_irrefl [simp]: "\<not> quality_above q q"
  by (cases q) (simp_all add: quality_above_def)

lemma quality_above_asym: "quality_above a b \<Longrightarrow> \<not> quality_above b a"
  by (cases a; cases b) (simp_all add: quality_above_def)

lemma negotiate_Some:
  "negotiate env v = Some e \<Longrightarrow>
     acceptable env v e \<and>
     (\<forall>e'. acceptable env v e' \<longrightarrow> \<not> quality_above (the (offered env v e')) (the (offered env v e)))"
  using quality_above_asym
  by (cases e; cases "offered env v Gzip"; cases "offered env v Brotli"; cases "ce_brotli_built env")
    (auto simp: negotiate_def Let_def consider_encoding_def acceptable_def built_encodings_def offered_def
      split: if_splits encoding.splits)

lemma negotiate_None: "negotiate env v = None \<Longrightarrow> \<not> acceptable env v e"
  by (cases e; cases "offered env v Gzip"; cases "offered env v Brotli"; cases "ce_brotli_built env")
    (auto simp: negotiate_def Let_def consider_encoding_def acceptable_def built_encodings_def offered_def
      split: if_splits)

section \<open>What the client decodes\<close>

definition decoded ::
  "(string \<Rightarrow> string) \<Rightarrow> (string \<Rightarrow> string) \<Rightarrow> response \<Rightarrow> string option" where
  "decoded gunzip unbrotli r =
     (case header_text (resp_headers r) ''content-encoding'' of
        None \<Rightarrow> if hm_contains (resp_headers r) ''content-encoding'' then None else Some (body_bytes (resp_body r))
      | Some t \<Rightarrow>
          if t = ''gzip'' then Some (gunzip (body_bytes (resp_body r)))
          else if t = ''br'' then Some (unbrotli (body_bytes (resp_body r))) else None)"

lemma vary_accept_encoding_get [simp]: "k \<noteq> ''vary'' \<Longrightarrow> hm_get (vary_accept_encoding h) k = hm_get h k"
  by (simp add: vary_accept_encoding_def)

lemma weaken_etag_get [simp]: "k \<noteq> ''etag'' \<Longrightarrow> hm_get (weaken_etag h) k = hm_get h k"
  by (simp add: weaken_etag_def split: option.split)

abbreviation rewritten :: "string set" where
  "rewritten \<equiv> {''vary'', ''content-encoding'', ''content-length'', ''etag''}"

lemma compress_body_get:
  "k \<notin> {''content-encoding'', ''content-length'', ''etag''} \<Longrightarrow>
     hm_get (resp_headers (compress_body env c e r)) k = hm_get (resp_headers r) k"
  by (simp add: compress_body_def Let_def split: response_body.split option.split)

lemma compress_body_cases:
  obtains "compress_body env c e r = r"
  | body where "resp_body r = Full (Some body)" "compress_bytes env c e body \<noteq> []"
      "resp_body (compress_body env c e r) = Full (Some (compress_bytes env c e body))"
      "hm_get (resp_headers (compress_body env c e r)) ''content-encoding'' = Some (text_value (encoding_token e))"
      "hm_get (resp_headers (compress_body env c e r)) ''content-length'' =
         (if hm_contains (resp_headers r) ''content-length''
          then Some (text_value (dec (length (compress_bytes env c e body)))) else None)"
proof (cases "resp_body r")
  case (Full slot)
  show ?thesis
  proof (cases slot)
    case None
    then show ?thesis using Full that(1) by (simp add: compress_body_def)
  next
    case (Some body)
    show ?thesis
    proof (cases "compress_body env c e r = r")
      case False
      then show ?thesis
        using Full Some by (intro that(2)[of body])
          (auto simp: compress_body_def Let_def hm_contains_get split: if_splits)
    qed (rule that(1))
  qed
next
  case (Stream cs)
  then show ?thesis using that(1) by (simp add: compress_body_def)
qed

lemma compress_body_same [simp]:
  "resp_status (compress_body env c e r) = resp_status r" "resp_error (compress_body env c e r) = resp_error r"
  by (simp_all add: compress_body_def Let_def split: response_body.split option.split)

lemma compress_body_decoded:
  assumes "\<not> hm_contains (resp_headers r) ''content-encoding''"
    "\<And>b l. gunzip (ce_gzip env b l) = b" "\<And>b q. unbrotli (ce_brotli env b q) = b"
  shows "decoded gunzip unbrotli (compress_body env c e r) = Some (body_bytes (resp_body r))"
    "well_framed r \<Longrightarrow> well_framed (compress_body env c e r)"
proof -
  show "decoded gunzip unbrotli (compress_body env c e r) = Some (body_bytes (resp_body r))"
  proof (cases rule: compress_body_cases[of env c e r])
    case 1
    then show ?thesis
      using assms(1) by (simp add: decoded_def header_text_def hm_contains_get)
  next
    case (2 body)
    then show ?thesis
      using assms(2,3) by (cases e) (simp_all add: decoded_def header_text_def encoding_token_def compress_bytes_def)
  qed
  show "well_framed (compress_body env c e r)" if "well_framed r"
  proof (cases rule: compress_body_cases[of env c e r])
    case 1
    then show ?thesis using that by simp
  next
    case (2 body)
    then show ?thesis
      by (simp add: well_framed_def states_length_def header_text_def hm_contains_get)
  qed
qed

lemma compress_response_cases:
  obtains (same) "compress_response env c accepted is_head r = r" "\<not> is_compressible r"
  | (varied) r1 where "compress_response env c accepted is_head r = r1" "is_compressible r"
      "r1 = r\<lparr>resp_headers := vary_accept_encoding (resp_headers r)\<rparr>"
  | (encoded) r1 e where "compress_response env c accepted is_head r =
        (if is_head then describe_head c e r1 else compress_body env c e r1)" "is_compressible r"
      "r1 = r\<lparr>resp_headers := vary_accept_encoding (resp_headers r)\<rparr>" "accepted = Some e" "\<not> keeps_form r1"
  using that
  by (cases accepted; cases "is_compressible r"; cases is_head;
      cases "keeps_form (r\<lparr>resp_headers := vary_accept_encoding (resp_headers r)\<rparr>)")
    (simp_all add: compress_response_def Let_def)


definition demo_env :: compress_env where
  "demo_env = \<lparr>ce_brotli_built = True, ce_parse_f32 = (\<lambda>s. if s = ''0'' then Some (Quality 0) else None),
     ce_gzip = (\<lambda>b _. b @ ''z''), ce_brotli = (\<lambda>b _. b @ ''b''), ce_pool_works = True\<rparr>"


section \<open>\<open>HEAD\<close>\<close>

text \<open>A buffered response whose length is stated: the \<open>HEAD\<close> answer describes what the \<open>GET\<close> sends.\<close>

lemma head_describes_get:
  assumes "resp_body r = Full (Some body)" "states_length r (length body)" "length body \<le> usize_max"
    "ce_pool_works env" "\<And>e. compress_bytes env c e body \<noteq> []" "k \<noteq> ''content-length''"
  shows "hm_get (resp_headers (compress_response env c accepted True (r\<lparr>resp_body := Full (Some [])\<rparr>))) k =
    hm_get (resp_headers (compress_response env c accepted False r)) k"
proof -
  define h where "h = vary_accept_encoding (resp_headers r)"
  define large where "large \<longleftrightarrow> max (cc_min_size c) min_compressible \<le> length body"
  have len: "Option.bind (header_text h ''content-length'') (parse_unsigned usize_max) = Some (length body)"
    using assms(2,3) by (simp add: h_def states_length_def header_text_def parse_unsigned_dec)
  have stated: "hm_contains h ''content-length''"
    using assms(2) by (auto simp: h_def states_length_def header_text_def hm_contains_get bind_eq_Some_conv)
  have etag: "hm_get (weaken_etag h1) k' = hm_get (weaken_etag h2) k'"
    if "\<And>k. k \<noteq> ''content-length'' \<Longrightarrow> hm_get h1 k = hm_get h2 k" "k' \<noteq> ''content-length''" for h1 h2 k'
    using that by (cases "hm_get h1 ''etag''") (auto simp: weaken_etag_def split: option.split)
  have head: "resp_headers (describe_head c e (r\<lparr>resp_body := Full (Some []), resp_headers := h\<rparr>)) =
      (if large then weaken_etag (hm_insert ''content-encoding'' (text_value (encoding_token e)) (hm_remove ''content-length'' h))
       else h)" for e
    by (simp add: describe_head_def len large_def)
  have get: "resp_headers (compress_body env c e (r\<lparr>resp_headers := h\<rparr>)) =
      (if large then weaken_etag (hm_insert ''content-length'' (text_value (dec (length (compress_bytes env c e body))))
         (hm_insert ''content-encoding'' (text_value (encoding_token e)) h)) else h)" for e
    using assms(1,4,5) stated by (auto simp: compress_body_def Let_def large_def hm_contains_get)
  have describes: "hm_get (resp_headers (describe_head c e (r\<lparr>resp_body := Full (Some []), resp_headers := h\<rparr>))) k =
      hm_get (resp_headers (compress_body env c e (r\<lparr>resp_headers := h\<rparr>))) k" for e
    unfolding head get using assms(6) by (auto intro!: etag)
  have shape: "is_compressible (r\<lparr>resp_body := Full (Some [])\<rparr>) = is_compressible r"
    "keeps_form (r\<lparr>resp_body := Full (Some []), resp_headers := h\<rparr>) = keeps_form (r\<lparr>resp_headers := h\<rparr>)"
    by (simp_all add: is_compressible_def keeps_form_def)
  show ?thesis
    using describes shape by (simp add: compress_response_def Let_def h_def[symmetric] split: option.split)
qed

text \<open>A streamed response that states its length is sent as it is, yet its \<open>HEAD\<close> answer announces an
  encoding and drops the length.\<close>

lemma stream_head_disagrees:
  "\<exists>r env c cs. resp_body r = Stream cs \<and> well_framed r \<and>
     hm_get (resp_headers (compress_response env c (Some Gzip) False r)) ''content-encoding'' = None \<and>
     hm_get (resp_headers (compress_response env c (Some Gzip) True (r\<lparr>resp_body := Full (Some [])\<rparr>)))
       ''content-encoding'' = Some (text_value ''gzip'')"
proof (intro exI conjI)
  let ?cs = "[replicate 40000 CHR ''x'']" and ?c = "compress_new\<lparr>cc_min_size := 0\<rparr>"
  let ?r = "insert_header ''content-length'' (dec 40000) (insert_header ''content-type'' ''text/plain'' (new_response 200 (Stream ?cs)))"
  have len: "parse_unsigned usize_max (dec 40000) = Some 40000"
    by (rule parse_unsigned_dec) (simp add: usize_max_def)
  have plain: "is_compressible ?r" "is_compressible (?r\<lparr>resp_body := Full (Some [])\<rparr>)"
    by (simp_all add: is_compressible_def hm_contains_get compressible_def trim_plain to_ascii_lowercase_def
        ascii_lower_def starts_with_def Let_def)
  have form: "\<not> keeps_form (r\<lparr>resp_headers := vary_accept_encoding (resp_headers r)\<rparr>)"
    if "r = ?r \<or> r = ?r\<lparr>resp_body := Full (Some [])\<rparr>" for r
    using that by (auto simp: keeps_form_def header_tokens_def hm_get_all_def vary_accept_encoding_def hm_append_def
        hm_insert_def no_headers_def map_filter_def hm_contains_def)
  show "resp_body ?r = Stream ?cs" by simp
  show "well_framed ?r" by (simp add: well_framed_def states_length_def)
  show "hm_get (resp_headers (compress_response demo_env ?c (Some Gzip) False ?r)) ''content-encoding'' = None"
    using plain(1) form[of ?r] by (simp add: compress_response_def Let_def compress_body_def)
  show "hm_get (resp_headers (compress_response demo_env ?c (Some Gzip) True (?r\<lparr>resp_body := Full (Some [])\<rparr>)))
       ''content-encoding'' = Some (text_value ''gzip'')"
    using plain(2) form[of "?r\<lparr>resp_body := Full (Some [])\<rparr>"] len
    by (simp add: compress_response_def Let_def describe_head_def header_text_def compress_new_def min_compressible_def
        encoding_token_def)
qed

end
