(* ===== verification/Multipart.thy ===== *)
theory Multipart
  imports App_Builder
begin

text \<open>
  Model of \<open>src/multipart.rs\<close>: the guard that keeps a parser from piling up a body it cannot make
  sense of, the search for the delimiter that ends a skipped part, the errors, and the documented
  form fields. The parser is \<open>multer\<close>, code that is not in the repository: what a call of it answers
  is an argument of the operation that makes the call. Counters are atomics of 64 bits in the code,
  far above the length of any body, and natural numbers here.
\<close>

section \<open>Progress of the parser\<close>

definition max_unproductive :: nat where
  "max_unproductive = 256 * 1024"

record progress =
  pr_unproductive :: nat
  pr_draining :: bool

definition progress_new :: progress where
  "progress_new = \<lparr>pr_unproductive = 0, pr_draining = False\<rparr>"

definition progress_made :: "progress \<Rightarrow> progress" where
  "progress_made p = \<lparr>pr_unproductive = 0, pr_draining = False\<rparr>"

text \<open>Dropping a \<open>SkipGuard\<close>; there is no progress to mark for a buffered body.\<close>

definition skip_guard_drop :: "bool \<Rightarrow> progress option \<Rightarrow> progress option" where
  "skip_guard_drop finished p =
     (if finished then p else map_option (\<lambda>p. p\<lparr>pr_draining := True\<rparr>) p)"

section \<open>The delimiter\<close>

record delimiter_scan =
  ds_delimiter :: string
  ds_carry :: string

definition crlf_dashes :: string where
  "crlf_dashes = [CHR 0x0D, CHR 0x0A] @ ''--''"

definition scan_new :: "string \<Rightarrow> delimiter_scan" where
  "scan_new boundary = \<lparr>ds_delimiter = crlf_dashes @ boundary, ds_carry = []\<rparr>"

text \<open>\<open>slice.windows(n)\<close>\<close>

definition windows :: "nat \<Rightarrow> 'a list \<Rightarrow> 'a list list" where
  "windows n xs = map (\<lambda>i. take n (drop i xs)) [0..<Suc (length xs) - n]"

definition scan_feed :: "delimiter_scan \<Rightarrow> string \<Rightarrow> nat option \<times> delimiter_scan" where
  "scan_feed s chunk =
     (let window = ds_carry s @ chunk; n = length (ds_delimiter s)
      in case position (\<lambda>candidate. candidate = ds_delimiter s) (windows n window) of
           Some p \<Rightarrow> (Some (length window - p - n), s\<lparr>ds_carry := []\<rparr>)
         | None \<Rightarrow> (None, s\<lparr>ds_carry := drop (length window - min (n - 1) (length window)) window\<rparr>))"

section \<open>The guarded body\<close>

record guarded =
  gb_progress :: progress
  gb_scan :: delimiter_scan

text \<open>\<open>poll_next\<close>, given what the body yields: a chunk, an error of the connection, or its end.\<close>

definition body_pull :: "(string + string) option \<Rightarrow> guarded \<Rightarrow> (string + string) option \<times> guarded" where
  "body_pull item g =
     (case item of
        Some (Inr bytes) \<Rightarrow>
          (let p = gb_progress g
           in if pr_draining p then
                (case scan_feed (gb_scan g) bytes of
                   (Some rest, scan) \<Rightarrow>
                     (Some (Inr bytes), \<lparr>gb_progress = \<lparr>pr_unproductive = rest, pr_draining = False\<rparr>, gb_scan = scan\<rparr>)
                 | (None, scan) \<Rightarrow>
                     (Some (Inr bytes), \<lparr>gb_progress = p\<lparr>pr_unproductive := 0\<rparr>, gb_scan = scan\<rparr>))
              else
                (let before = pr_unproductive p;
                     g = g\<lparr>gb_progress := p\<lparr>pr_unproductive := before + length bytes\<rparr>\<rparr>
                 in if max_unproductive < before
                    then (Some (Inl ''multipart preamble or part headers too large''), g)
                    else (Some (Inr bytes), g)))
      | Some (Inl error) \<Rightarrow> (Some (Inl error), g)
      | None \<Rightarrow> (None, g))"

text \<open>\<open>OnceBody::poll_next\<close>\<close>

definition once_body_poll :: "string option \<Rightarrow> string option \<times> string option" where
  "once_body_poll b = ((case b of None \<Rightarrow> None | Some bytes \<Rightarrow> if bytes \<noteq> [] then Some bytes else None), None)"

section \<open>Errors and the boundary\<close>

text \<open>The errors of \<open>multer\<close> the code tells apart, each with the text its \<open>Display\<close> prints where
  the code prints it.\<close>

datatype multer_error =
    Lock_Failure
  | Field_Size_Exceeded string
  | Stream_Size_Exceeded string
  | No_Boundary string
  | Other_Multer string

definition map_error :: "multer_error \<Rightarrow> api_error" where
  "map_error e =
     (case e of
        Lock_Failure \<Rightarrow>
          api_error_new 500 ''Internal Server Error''
            ''drop the previous multipart Field before requesting the next one''
      | Field_Size_Exceeded t \<Rightarrow> api_error_new 413 ''Payload Too Large'' t
      | Stream_Size_Exceeded t \<Rightarrow> api_error_new 413 ''Payload Too Large'' t
      | No_Boundary t \<Rightarrow> bad_request (''invalid multipart body: '' @ t)
      | Other_Multer t \<Rightarrow> bad_request (''invalid multipart body: '' @ t))"

definition boundary_of :: "(string \<Rightarrow> multer_error + string) \<Rightarrow> headers \<Rightarrow> api_error + string" where
  "boundary_of parse_boundary h =
     (case parse_boundary (case header_text h ''content-type'' of None \<Rightarrow> [] | Some t \<Rightarrow> t) of
        Inr b \<Rightarrow> Inr b
      | Inl (No_Boundary t) \<Rightarrow> Inl (bad_request ''multipart Content-Type has no boundary'')
      | Inl _ \<Rightarrow> Inl (api_error_new 415 ''Unsupported Media Type'' ''expected multipart/form-data''))"

section \<open>\<open>Multipart\<close> and its fields\<close>

text \<open>The guarded body with the boundary and the limit the parser is given.\<close>

definition from_stream ::
  "(string \<Rightarrow> multer_error + string) \<Rightarrow> 'b request \<Rightarrow> nat \<Rightarrow> api_error + (guarded \<times> string \<times> nat)" where
  "from_stream parse_boundary request limit =
     (let declared = Option.bind (header_text (rq_headers request) ''content-length'') (parse_unsigned usize_max)
      in if (case declared of None \<Rightarrow> False | Some d \<Rightarrow> limit < d)
         then Inl (api_error_new 413 ''Payload Too Large'' ''request body exceeds the configured limit'')
         else bind_result (boundary_of parse_boundary (rq_headers request)) (\<lambda>boundary.
           Inr (\<lparr>gb_progress = progress_new, gb_scan = scan_new boundary\<rparr>, boundary, limit)))"

text \<open>What a call of the parser answered, and the progress after it: \<open>Multipart::next_field\<close>.\<close>

definition next_field ::
  "multer_error + 'f option \<Rightarrow> progress option \<Rightarrow> (api_error + ('f \<times> bool) option) \<times> progress option" where
  "next_field answer p =
     (case answer of
        Inl e \<Rightarrow> (Inl (map_error e), p)
      | Inr field \<Rightarrow> (Inr (map_option (\<lambda>f. (f, False)) field), map_option progress_made p))"

text \<open>\<open>Field::chunk\<close>; the flag is \<open>finished\<close> of its guard.\<close>

definition field_chunk ::
  "multer_error + string option \<Rightarrow> bool \<Rightarrow> progress option
     \<Rightarrow> (api_error + string option) \<times> bool \<times> progress option" where
  "field_chunk answer finished p =
     (case answer of
        Inl e \<Rightarrow> (Inl (map_error e), finished, p)
      | Inr chunk \<Rightarrow> (Inr chunk, finished \<or> chunk = None, map_option progress_made p))"

text \<open>\<open>Field::bytes\<close> of a streamed upload, given what each call of \<open>chunk\<close> gets from the parser; the
  field is dropped at the end. \<open>None\<close>: the answers ran out and the call is still waiting.\<close>

fun field_bytes ::
  "(multer_error + string option) list \<Rightarrow> string \<Rightarrow> progress option
     \<Rightarrow> (api_error + string) option \<times> progress option" where
  "field_bytes [] buffer p = (None, p)"
| "field_bytes (answer # rest) buffer p =
     (case field_chunk answer False p of
        (Inl e, finished, p) \<Rightarrow> (Some (Inl e), skip_guard_drop finished p)
      | (Inr None, finished, p) \<Rightarrow> (Some (Inr buffer), skip_guard_drop finished p)
      | (Inr (Some chunk), finished, p) \<Rightarrow> field_bytes rest (buffer @ chunk) p)"

text \<open>\<open>Field::bytes\<close> and \<open>Field::text\<close>: an upload in memory is left to the parser (\<open>all\<close>, \<open>all_text\<close>, which
  minds the part's \<open>charset\<close>); a streamed one is collected, and read as UTF-8 with replacements.\<close>

definition field_bytes_of ::
  "(multer_error + string) \<Rightarrow> (multer_error + string option) list \<Rightarrow> progress option
     \<Rightarrow> (api_error + string) option \<times> progress option" where
  "field_bytes_of all answers p =
     (case p of
        None \<Rightarrow> (Some (map_sum map_error id all), None)
      | Some _ \<Rightarrow> field_bytes answers [] p)"

definition field_text ::
  "(multer_error + string) \<Rightarrow> (multer_error + string option) list \<Rightarrow> progress option
     \<Rightarrow> (api_error + string) option \<times> progress option" where
  "field_text all_text answers p =
     (case p of
        None \<Rightarrow> (Some (map_sum map_error id all_text), None)
      | Some _ \<Rightarrow> (case field_bytes answers [] p of
                     (result, p) \<Rightarrow> (map_option (map_sum id from_utf8_lossy) result, p)))"

text \<open>As an extractor: the boundary and the buffered body the parser is given.\<close>

definition multipart_extractor ::
  "(string \<Rightarrow> multer_error + string) \<Rightarrow> ('s, string \<times> string) extractor" where
  "multipart_extractor parse_boundary =
     (plain_extractor (\<lambda>request params s. Ret (bind_result (boundary_of parse_boundary (rq_headers request))
        (\<lambda>boundary. Inr (boundary, rq_body request)))))
       \<lparr>ex_needs_body := True,
        ex_openapi := (\<lambda>r. (empty_openapi_request\<lparr>or_body := Some
          (JObj (obj_of [(''required'', JBool True),
             (''content'', JObj [(''multipart/form-data'', JObj [(''schema'',
                JObj (obj_of [(''type'', JStr ''object''),
                  (''additionalProperties'',
                     JObj (obj_of [(''type'', JStr ''string''), (''format'', JStr ''binary'')]))]))])])]))\<rparr>, r))\<rparr>"

section \<open>Documented form fields\<close>

record multipart_field =
  mf_name :: string
  mf_file :: bool
  mf_required :: bool
  mf_content_type :: "string option"
  mf_description :: "string option"

definition multipart_field_new :: "string \<Rightarrow> bool \<Rightarrow> multipart_field" where
  "multipart_field_new name file =
     \<lparr>mf_name = name, mf_file = file, mf_required = False, mf_content_type = None, mf_description = None\<rparr>"

definition multipart_field_text :: "string \<Rightarrow> multipart_field" where
  "multipart_field_text name = multipart_field_new name False"

definition multipart_field_file :: "string \<Rightarrow> multipart_field" where
  "multipart_field_file name = multipart_field_new name True"

definition mf_set_required :: "multipart_field \<Rightarrow> multipart_field" where
  "mf_set_required f = f\<lparr>mf_required := True\<rparr>"

definition mf_set_content_type :: "string \<Rightarrow> multipart_field \<Rightarrow> multipart_field" where
  "mf_set_content_type t f = f\<lparr>mf_content_type := Some t\<rparr>"

definition mf_set_description :: "string \<Rightarrow> multipart_field \<Rightarrow> multipart_field" where
  "mf_set_description d f = f\<lparr>mf_description := Some d\<rparr>"

definition field_schema :: "multipart_field \<Rightarrow> json" where
  "field_schema f =
     (let s = [(''type'', JStr ''string'')];
          s = (if mf_file f then obj_insert ''format'' (JStr ''binary'') s else s)
      in JObj (case mf_description f of None \<Rightarrow> s | Some d \<Rightarrow> obj_insert ''description'' (JStr d) s))"

text \<open>The loop over the fields: properties, required names, encodings.\<close>

fun collect_fields ::
  "multipart_field list \<Rightarrow> (string \<times> json) list \<Rightarrow> json list \<Rightarrow> (string \<times> json) list
     \<Rightarrow> ((string \<times> json) list \<times> json list \<times> (string \<times> json) list) outcome" where
  "collect_fields [] properties required encoding = Ret (properties, required, encoding)"
| "collect_fields (f # fs) properties required encoding =
     bind_outcome (assert_that (map_of properties (mf_name f) = None) ''multipart field is documented twice'') (\<lambda>_.
       collect_fields fs (obj_insert (mf_name f) (field_schema f) properties)
         (if mf_required f then required @ [JStr (mf_name f)] else required)
         (case mf_content_type f of
            None \<Rightarrow> encoding
          | Some t \<Rightarrow> obj_insert (mf_name f) (JObj [(''contentType'', JStr t)]) encoding))"

definition multipart_media :: "multipart_field list \<Rightarrow> json outcome" where
  "multipart_media fs =
     bind_outcome (collect_fields fs [] [] []) (\<lambda>(properties, required, encoding).
       let schema = obj_of ([(''type'', JStr ''object''), (''properties'', JObj properties)] @
                            (if required \<noteq> [] then [(''required'', JArr required)] else []));
           media = obj_of ([(''schema'', JObj schema)] @
                           (if encoding \<noteq> [] then [(''encoding'', JObj encoding)] else []))
       in Ret (JObj (obj_of [(''required'', JBool True),
            (''content'', JObj [(''multipart/form-data'', JObj media)])])))"

definition app_multipart_fields ::
  "multipart_field list \<Rightarrow> ('s, 'i, 'w) app \<Rightarrow> ('s, 'i, 'w) app outcome" where
  "app_multipart_fields fs a =
     (if app_last a = None then Ret a
      else bind_outcome (multipart_media fs) (\<lambda>body.
        update_last (\<lambda>op. op\<lparr>op_request := (op_request op)\<lparr>or_body := Some body\<rparr>\<rparr>) a))"

section \<open>Collecting a field\<close>

text \<open>A field whose pieces all arrive is their concatenation, and leaves the guard on.\<close>

lemma field_bytes_collects:
  "field_bytes (map (\<lambda>c. Inr (Some c)) chunks @ [Inr None]) buffer (Some p) =
     (Some (Inr (buffer @ concat chunks)), Some progress_new)"
  by (induction chunks arbitrary: buffer p)
     (simp_all add: field_chunk_def skip_guard_drop_def progress_made_def progress_new_def)

text \<open>A field that fails while it is read is drained: the guard is off until the next delimiter.\<close>

lemma field_bytes_fails:
  "field_bytes (map (\<lambda>c. Inr (Some c)) chunks @ [Inl e]) buffer (Some p) =
     (Some (Inl (map_error e)),
      Some (\<lparr>pr_unproductive = if chunks = [] then pr_unproductive p else 0, pr_draining = True\<rparr>))"
  by (induction chunks arbitrary: buffer p)
     (auto simp: field_chunk_def skip_guard_drop_def progress_made_def)

section \<open>The first occurrence\<close>

definition occurs_at :: "string \<Rightarrow> string \<Rightarrow> nat \<Rightarrow> bool" where
  "occurs_at d w i \<longleftrightarrow> i + length d \<le> length w \<and> take (length d) (drop i w) = d"

definition first_at :: "string \<Rightarrow> string \<Rightarrow> nat \<Rightarrow> bool" where
  "first_at d w i \<longleftrightarrow> occurs_at d w i \<and> (\<forall>j < i. \<not> occurs_at d w j)"

lemma position_spec:
  "position P xs = Some n \<longleftrightarrow> n < length xs \<and> P (xs ! n) \<and> (\<forall>i < n. \<not> P (xs ! i))"
proof (induction xs arbitrary: n)
  case (Cons x xs)
  show ?case
    using Cons.IH by (cases n) (auto simp: All_less_Suc2)
qed simp

lemma windows_first: "position (\<lambda>c. c = d) (windows (length d) w) = Some p \<longleftrightarrow> first_at d w p"
  unfolding position_spec by (auto simp: windows_def first_at_def occurs_at_def)

lemma windows_none: "position (\<lambda>c. c = d) (windows (length d) w) = None \<longleftrightarrow> (\<forall>i. \<not> occurs_at d w i)"
proof
  assume "position (\<lambda>c. c = d) (windows (length d) w) = None"
  then have "\<forall>x \<in> set (windows (length d) w). x \<noteq> d"
    by (rule position_None)
  then show "\<forall>i. \<not> occurs_at d w i"
    by (auto simp: windows_def occurs_at_def)
next
  assume "\<forall>i. \<not> occurs_at d w i"
  then show "position (\<lambda>c. c = d) (windows (length d) w) = None"
    using windows_first[of d w] by (cases "position (\<lambda>c. c = d) (windows (length d) w)") (auto simp: first_at_def)
qed

section \<open>Scanning chunk by chunk\<close>

text \<open>What follows the delimiter in all the chunks, once it is found.\<close>

fun scan_chunks :: "delimiter_scan \<Rightarrow> string list \<Rightarrow> nat option" where
  "scan_chunks s [] = None"
| "scan_chunks s (c # cs) =
     (case scan_feed s c of
        (Some rest, _) \<Rightarrow> Some (rest + length (concat cs))
      | (None, s) \<Rightarrow> scan_chunks s cs)"

text \<open>After \<open>seen\<close> without a delimiter, the scan carries the end of it that may begin one.\<close>

definition scan_after :: "string \<Rightarrow> string \<Rightarrow> delimiter_scan" where
  "scan_after d seen = \<lparr>ds_delimiter = d, ds_carry = drop (length seen - (length d - 1)) seen\<rparr>"

lemma occurs_shift:
  "length pre \<le> i \<Longrightarrow> occurs_at d (pre @ w) i \<longleftrightarrow> occurs_at d w (i - length pre)"
  by (auto simp: occurs_at_def)

lemma occurs_before: "i + length d \<le> length w \<Longrightarrow> occurs_at d (w @ x) i \<longleftrightarrow> occurs_at d w i"
  by (auto simp: occurs_at_def)

text \<open>With no delimiter in \<open>seen\<close>, the first one of what is seen then lies in the carry and the chunk.\<close>

lemma carry_first:
  assumes "d \<noteq> []" "\<forall>i. \<not> occurs_at d seen i"
  defines "k \<equiv> length seen - (length d - 1)"
  shows "occurs_at d (seen @ c) i \<longleftrightarrow> k \<le> i \<and> occurs_at d (drop k seen @ c) (i - k)"
proof -
  have split: "seen @ c = take k seen @ (drop k seen @ c)" and len: "length (take k seen) = k"
    by (simp_all add: k_def)
  show ?thesis
  proof (cases "k \<le> i")
    case True
    then show ?thesis
      using occurs_shift[of "take k seen" i d "drop k seen @ c", unfolded len split[symmetric]] by simp
  next
    case False
    then have "i + length d \<le> length seen"
      using assms(1) by (cases d) (auto simp: k_def)
    then show ?thesis
      using occurs_before[of i d seen c] assms(2) False by simp
  qed
qed

lemma scan_feed_after:
  assumes "d \<noteq> []" "\<forall>i. \<not> occurs_at d seen i"
  shows "scan_feed (scan_after d seen) c =
    (case position (\<lambda>x. x = d) (windows (length d) (seen @ c)) of
       Some p \<Rightarrow> (Some (length (seen @ c) - p - length d), \<lparr>ds_delimiter = d, ds_carry = []\<rparr>)
     | None \<Rightarrow> (None, scan_after d (seen @ c)))"
proof -
  define k where "k = length seen - (length d - 1)"
  note first = carry_first[OF assms, of c, folded k_def]
  define w where "w = drop k seen @ c"
  have k: "k \<le> length seen" and w: "length w = length seen - k + length c"
    by (simp_all add: k_def w_def)
  note first = first[folded w_def]
  have start: "scan_after d seen = \<lparr>ds_delimiter = d, ds_carry = drop k seen\<rparr>"
    by (simp add: scan_after_def k_def)
  show ?thesis
  proof (cases "position (\<lambda>x. x = d) (windows (length d) (seen @ c))")
    case None
    then have none: "\<forall>i. \<not> occurs_at d (seen @ c) i"
      by (simp add: windows_none)
    have "\<not> occurs_at d w i" for i
      using none first[of "i + k"] by simp
    then have "position (\<lambda>x. x = d) (windows (length d) w) = None"
      by (simp add: windows_none)
    moreover have "drop (length w - min (length d - 1) (length w)) w = drop (length (seen @ c) - (length d - 1)) (seen @ c)"
    proof -
      have "drop n (seen @ c) = drop (n - k) w" if "k \<le> n" for n
        using that k by (simp add: w_def)
      moreover have "k \<le> length (seen @ c) - (length d - 1)"
        by (simp add: k_def)
      moreover have "length (seen @ c) - (length d - 1) - k = length w - min (length d - 1) (length w)"
        using k w by (simp add: min_def add.commute)
      ultimately show ?thesis by metis
    qed
    ultimately have "scan_feed (scan_after d seen) c = (None, scan_after d (seen @ c))"
      unfolding start by (simp add: scan_feed_def Let_def w_def[symmetric] scan_after_def)
    then show ?thesis
      using None by simp
  next
    case (Some p)
    then have p: "first_at d (seen @ c) p"
      by (simp add: windows_first)
    then have kp: "k \<le> p" and "occurs_at d w (p - k)"
      using first by (auto simp: first_at_def)
    moreover have "\<not> occurs_at d w j" if "j < p - k" for j
      using p that first[of "j + k"] by (auto simp: first_at_def less_diff_conv)
    ultimately have "position (\<lambda>x. x = d) (windows (length d) w) = Some (p - k)"
      by (simp add: windows_first first_at_def)
    moreover have "length w - (p - k) - length d = length (seen @ c) - p - length d"
      using kp k w by simp
    ultimately have "scan_feed (scan_after d seen) c =
        (Some (length (seen @ c) - p - length d), \<lparr>ds_delimiter = d, ds_carry = []\<rparr>)"
      unfolding start by (simp add: scan_feed_def Let_def w_def[symmetric])
    then show ?thesis
      using Some by simp
  qed
qed

lemma first_at_append: "first_at d w p \<Longrightarrow> first_at d (w @ x) p"
  using occurs_before[of _ d w x] by (auto simp: first_at_def occurs_at_def)

lemma first_at_unique: "first_at d w p \<Longrightarrow> first_at d w q \<Longrightarrow> p = q"
  by (meson first_at_def linorder_neqE_nat)

lemma scan_chunks_after:
  "d \<noteq> [] \<Longrightarrow> \<forall>i. \<not> occurs_at d seen i \<Longrightarrow>
     (\<forall>p. first_at d (seen @ concat cs) p \<longrightarrow>
        scan_chunks (scan_after d seen) cs = Some (length (seen @ concat cs) - p - length d)) \<and>
     ((\<forall>i. \<not> occurs_at d (seen @ concat cs) i) \<longrightarrow> scan_chunks (scan_after d seen) cs = None)"
proof (induction cs arbitrary: seen)
  case Nil
  then show ?case by (auto simp: first_at_def)
next
  case (Cons c cs)
  note feed = scan_feed_after[OF Cons.prems, of c]
  show ?case
  proof (cases "position (\<lambda>x. x = d) (windows (length d) (seen @ c))")
    case None
    then have "\<forall>i. \<not> occurs_at d (seen @ c) i"
      by (simp add: windows_none)
    from Cons.IH[OF Cons.prems(1) this] show ?thesis
      using feed None by simp
  next
    case (Some p)
    then have p: "first_at d (seen @ c) p"
      by (simp add: windows_first)
    then have first: "first_at d (seen @ concat (c # cs)) p"
      using first_at_append[OF p, of "concat cs"] by simp
    have inside: "p + length d \<le> length (seen @ c)"
      using p by (simp add: first_at_def occurs_at_def)
    have found: "scan_chunks (scan_after d seen) (c # cs) = Some (length (seen @ concat (c # cs)) - p - length d)"
      using feed Some inside by simp
    show ?thesis
    proof (intro conjI allI impI)
      fix q
      assume "first_at d (seen @ concat (c # cs)) q"
      then have "q = p" using first_at_unique first by blast
      then show "scan_chunks (scan_after d seen) (c # cs) = Some (length (seen @ concat (c # cs)) - q - length d)"
        using found by simp
    next
      assume "\<forall>i. \<not> occurs_at d (seen @ concat (c # cs)) i"
      then show "scan_chunks (scan_after d seen) (c # cs) = None"
        using first unfolding first_at_def by blast
    qed
  qed
qed

lemma scan_new_after: "scan_new b = scan_after (crlf_dashes @ b) []"
  by (simp add: scan_new_def scan_after_def)

text \<open>C22: The delimiter that ends a skipped part is found however the body is cut into chunks: the scan
  reports it exactly when the bytes fed to it contain it, at its first occurrence, and counts exactly
  the bytes that follow it.\<close>

theorem delimiter_found_any_chunking:
  "scan_chunks (scan_new b) cs =
     map_option (\<lambda>p. length (concat cs) - p - length (crlf_dashes @ b))
       (position (\<lambda>w. w = crlf_dashes @ b) (windows (length (crlf_dashes @ b)) (concat cs)))"
proof -
  define d where "d = crlf_dashes @ b"
  have d: "d \<noteq> []" "\<forall>i. \<not> occurs_at d [] i"
    by (simp_all add: d_def crlf_dashes_def occurs_at_def)
  have new: "scan_new b = scan_after d []"
    by (simp add: scan_new_after d_def)
  note chunks = scan_chunks_after[OF d, of cs]
  have "scan_chunks (scan_new b) cs =
     map_option (\<lambda>p. length (concat cs) - p - length d) (position (\<lambda>w. w = d) (windows (length d) (concat cs)))"
  proof (cases "position (\<lambda>w. w = d) (windows (length d) (concat cs))")
    case None
    then show ?thesis using chunks by (simp add: windows_none new)
  next
    case (Some p)
    then have "first_at d (concat cs) p" by (simp add: windows_first)
    then show ?thesis using chunks Some by (simp add: new)
  qed
  then show ?thesis
    by (simp only: d_def)
qed

section \<open>The guard\<close>

text \<open>The parser pulls chunk after chunk; the flag tells whether all of them were let through.\<close>

fun pull_all :: "guarded \<Rightarrow> string list \<Rightarrow> bool \<times> guarded" where
  "pull_all g [] = (True, g)"
| "pull_all g (c # cs) =
     (case body_pull (Some (Inr c)) g of
        (Some (Inr _), g) \<Rightarrow> pull_all g cs
      | (_, g) \<Rightarrow> (False, g))"

lemma pull_counted:
  "\<not> pr_draining (gb_progress g) \<Longrightarrow>
     fst (pull_all g cs) \<longleftrightarrow> cs = [] \<or> pr_unproductive (gb_progress g) + length (concat (butlast cs)) \<le> max_unproductive"
proof (induction cs arbitrary: g)
  case (Cons c cs)
  show ?case
  proof (cases "max_unproductive < pr_unproductive (gb_progress g)")
    case True
    then show ?thesis
      using Cons.prems by (simp add: body_pull_def Let_def)
  next
    case False
    then show ?thesis
      using Cons by (auto simp: body_pull_def Let_def)
  qed
qed simp

lemma pull_draining_step:
  assumes "pr_draining (gb_progress g)"
  shows "body_pull (Some (Inr c)) g =
    (case scan_feed (gb_scan g) c of
       (Some rest, scan) \<Rightarrow>
         (Some (Inr c), \<lparr>gb_progress = \<lparr>pr_unproductive = rest, pr_draining = False\<rparr>, gb_scan = scan\<rparr>)
     | (None, scan) \<Rightarrow>
         (Some (Inr c), \<lparr>gb_progress = \<lparr>pr_unproductive = 0, pr_draining = True\<rparr>, gb_scan = scan\<rparr>))"
  using assms by (cases "gb_progress g") (simp add: body_pull_def Let_def split: option.split prod.split)

text \<open>A skipped part: nothing counts before its delimiter, everything after it does.\<close>

lemma pull_draining:
  assumes "d \<noteq> []" "\<forall>i. \<not> occurs_at d seen i" "gb_scan g = scan_after d seen" "pr_draining (gb_progress g)"
  shows "((\<forall>i. \<not> occurs_at d (seen @ concat cs) i) \<longrightarrow> fst (pull_all g cs)) \<and>
    (\<forall>p. first_at d (seen @ concat cs) p \<longrightarrow> fst (pull_all g (cs @ later)) \<longrightarrow>
       later = [] \<or> length (seen @ concat cs) - p - length d + length (concat (butlast later)) \<le> max_unproductive)"
  using assms(2-)
proof (induction cs arbitrary: seen g)
  case Nil
  then show ?case by (auto simp: first_at_def)
next
  case (Cons c cs)
  note feed = scan_feed_after[OF assms(1) Cons.prems(1), of c]
  show ?case
  proof (cases "position (\<lambda>x. x = d) (windows (length d) (seen @ c))")
    case None
    then have none: "\<forall>i. \<not> occurs_at d (seen @ c) i"
      by (simp add: windows_none)
    define g' where "g' = \<lparr>gb_progress = \<lparr>pr_unproductive = 0, pr_draining = True\<rparr>, gb_scan = scan_after d (seen @ c)\<rparr>"
    have step: "body_pull (Some (Inr c)) g = (Some (Inr c), g')"
      using pull_draining_step[OF Cons.prems(3), of c] feed None Cons.prems(2) by (simp add: g'_def)
    note IH = Cons.IH[OF none, of g']
    show ?thesis
      using IH step by (simp add: g'_def)
  next
    case (Some p)
    then have p: "first_at d (seen @ c) p"
      by (simp add: windows_first)
    have first: "first_at d (seen @ concat (c # cs)) p"
      using first_at_append[OF p, of "concat cs"] by simp
    have inside: "p + length d \<le> length (seen @ c)"
      using p by (simp add: first_at_def occurs_at_def)
    define g' where "g' = \<lparr>gb_progress = \<lparr>pr_unproductive = length (seen @ c) - p - length d, pr_draining = False\<rparr>,
        gb_scan = \<lparr>ds_delimiter = d, ds_carry = []\<rparr>\<rparr>"
    have step: "body_pull (Some (Inr c)) g = (Some (Inr c), g')"
      using pull_draining_step[OF Cons.prems(3), of c] feed Some Cons.prems(2) by (simp add: g'_def)
    have counted: "later = [] \<or> length (seen @ concat (c # cs)) - p - length d + length (concat (butlast later)) \<le> max_unproductive"
      if pulled: "fst (pull_all g ((c # cs) @ later))"
    proof -
      have "fst (pull_all g' (cs @ later))"
        using pulled step by simp
      then have "cs @ later = [] \<or> length (seen @ c) - p - length d + length (concat (butlast (cs @ later))) \<le> max_unproductive"
        using pull_counted[of g' "cs @ later"] by (simp add: g'_def)
      then show ?thesis
        using inside by (cases "later = []") (auto simp: butlast_append)
    qed
    show ?thesis
    proof (intro conjI allI impI)
      assume "\<forall>i. \<not> occurs_at d (seen @ concat (c # cs)) i"
      then show "fst (pull_all g (c # cs))"
        using first unfolding first_at_def by blast
    next
      fix q
      assume q: "first_at d (seen @ concat (c # cs)) q" "fst (pull_all g ((c # cs) @ later))"
      then have "q = p" using first_at_unique first by blast
      then show "later = [] \<or> length (seen @ concat (c # cs)) - q - length d + length (concat (butlast later)) \<le> max_unproductive"
        using counted[OF q(2)] by simp
    qed
  qed
qed



text \<open>The scan sees only what is pulled after the part was dropped. A delimiter whose first bytes were
  already pulled is missed: the guard then lets any amount of bytes through until the parser makes
  progress, however long the headers of the next part are.\<close>

lemma straddled_delimiter_missed:
  defines "before \<equiv> ''data'' @ [CHR 0x0D, CHR 0x0A] @ ''--X''" and "rest \<equiv> ''B'' @ [CHR 0x0D, CHR 0x0A] @ ''A: ''"
  defines "g \<equiv> snd (body_pull (Some (Inr before)) \<lparr>gb_progress = progress_new, gb_scan = scan_new ''XB''\<rparr>)"
  defines "dropped \<equiv> g\<lparr>gb_progress := the (skip_guard_drop False (Some (gb_progress g)))\<rparr>"
  shows "occurs_at (crlf_dashes @ ''XB'') (before @ rest) 4"
    "fst (pull_all dropped (rest # replicate k (replicate n CHR ''x'')))"
proof -
  show "occurs_at (crlf_dashes @ ''XB'') (before @ rest) 4"
    by (simp add: occurs_at_def before_def rest_def crlf_dashes_def)
  let ?d = "crlf_dashes @ ''XB''"
  have scan: "gb_scan dropped = scan_after ?d []" and draining: "pr_draining (gb_progress dropped)"
    by (simp_all add: dropped_def g_def body_pull_def Let_def progress_new_def max_unproductive_def scan_new_after
        skip_guard_drop_def)
  have "\<not> occurs_at ?d (concat (rest # replicate k (replicate n CHR ''x''))) i" for i
  proof
    assume occ: "occurs_at ?d (concat (rest # replicate k (replicate n CHR ''x''))) i"
    let ?w = "concat (rest # replicate k (replicate n CHR ''x''))"
    have "set ?d \<subseteq> set ?w"
      using occ by (metis occurs_at_def set_drop_subset set_take_subset subset_trans)
    moreover have "CHR ''-'' \<notin> set ?w"
      by (auto simp: rest_def)
    ultimately show False
      by (simp add: crlf_dashes_def)
  qed
  moreover have "?d \<noteq> []" "\<forall>i. \<not> occurs_at ?d [] i"
    by (simp_all add: crlf_dashes_def occurs_at_def)
  ultimately show "fst (pull_all dropped (rest # replicate k (replicate n CHR ''x'')))"
    using pull_draining[of ?d "[]" dropped "rest # replicate k (replicate n CHR ''x'')" "[]"] scan draining by simp
qed

end
