(* ===== verification/Bearer.thy ===== *)
theory Bearer
  imports Middleware
begin

text \<open>
  Model of \<open>src/bearer.rs\<close>: the layer that asks for a bearer token, its exempt paths and the
  comparison in constant time. A validator is a function of the token and the world, since it may
  ask a database; it answers, or panics like any handler.
\<close>

section \<open>\<open>constant_time_eq\<close>\<close>

unbundle bit_operations_syntax

definition byte_at :: "string \<Rightarrow> nat \<Rightarrow> u8" where
  "byte_at s i = (case get_at s i of None \<Rightarrow> 0 | Some c \<Rightarrow> of_nat (byte c))"

definition constant_time_eq :: "string \<Rightarrow> string \<Rightarrow> bool" where
  "constant_time_eq a b =
     (let diff = (of_nat (length a) XOR of_nat (length b) :: u64);
          diff = fold (\<lambda>i diff. diff OR ucast (byte_at a i XOR byte_at b i)) [0..<max (length a) (length b)] diff
      in diff = 0)"

lemma word_or_zero: "(a OR b :: 'a::len word) = 0 \<longleftrightarrow> a = 0 \<and> b = 0"
  by (rule or_eq_0_iff)

lemma word_xor_zero: "(a XOR b :: 'a::len word) = 0 \<longleftrightarrow> a = b"
  by (metis xor_self_eq xor.left_neutral xor.assoc xor.right_neutral)

lemma fold_or_zero: "fold (\<lambda>i d. d OR f i) is d = (0 :: 'a::len word) \<longleftrightarrow> d = 0 \<and> (\<forall>i \<in> set is. f i = 0)"
  by (induction "is" arbitrary: d) (auto simp: word_or_zero)

lemma ucast_u8_zero: "(ucast (w :: u8) :: u64) = 0 \<longleftrightarrow> w = 0"
proof
  assume "(ucast w :: u64) = 0"
  then have "\<not> bit w n" if "n < 8" for n
    using that bit_ucast_iff[of w n, where 'a = 64] by simp
  then show "w = 0"
    by (intro bit_eqI) (auto dest: bit_imp_le_length)
qed simp

lemma byte_at_eq: "i < length a \<Longrightarrow> i < length b \<Longrightarrow> byte_at a i = byte_at b i \<longleftrightarrow> a ! i = b ! i"
proof
  assume i: "i < length a" "i < length b" and eq: "byte_at a i = byte_at b i"
  then have "(of_nat (byte (a ! i)) :: u8) = of_nat (byte (b ! i))"
    by (simp add: byte_at_def get_at_def)
  then have "unat (of_nat (byte (a ! i)) :: u8) = unat (of_nat (byte (b ! i)) :: u8)"
    by simp
  then have "byte (a ! i) = byte (b ! i)"
    by (simp add: unat_of_nat_u8)
  then show "a ! i = b ! i"
    by (metis char_of_byte)
qed (simp add: byte_at_def get_at_def)

lemma constant_time_eq_iff:
  assumes "length a \<le> usize_max" "length b \<le> usize_max"
  shows "constant_time_eq a b \<longleftrightarrow> a = b"
proof -
  have len: "(of_nat (length a) XOR of_nat (length b) :: u64) = 0 \<longleftrightarrow> length a = length b"
  proof
    assume "(of_nat (length a) XOR of_nat (length b) :: u64) = 0"
    then have "unat (of_nat (length a) :: u64) = unat (of_nat (length b) :: u64)"
      by (simp add: word_xor_zero)
    then show "length a = length b"
      using assms by (simp add: unat_of_nat_u64 usize_max_def)
  qed (simp add: word_xor_zero)
  have "constant_time_eq a b \<longleftrightarrow>
      length a = length b \<and> (\<forall>i \<in> set [0..<max (length a) (length b)]. byte_at a i = byte_at b i)"
    unfolding constant_time_eq_def Let_def fold_or_zero len ucast_u8_zero by (simp only: word_xor_zero)
  also have "\<dots> \<longleftrightarrow> length a = length b \<and> (\<forall>i < length a. a ! i = b ! i)"
    using byte_at_eq[of _ a b] by auto
  finally show ?thesis
    by (simp add: list_eq_iff_nth_eq)
qed

section \<open>The layer\<close>

type_synonym 'w validator = "string \<Rightarrow> 'w \<Rightarrow> (api_error + unit) outcome \<times> 'w"

record 'w bearer_auth =
  ba_validator :: "'w validator"
  ba_exempt :: "string list"

definition bearer_new :: "'w validator \<Rightarrow> 'w bearer_auth" where
  "bearer_new validator = \<lparr>ba_validator = validator, ba_exempt = []\<rparr>"

definition token_required :: api_error where
  "token_required = api_error_new 401 ''Unauthorized'' ''a valid bearer token is required''"

definition static_token :: "string \<Rightarrow> 'w bearer_auth" where
  "static_token expected =
     bearer_new (\<lambda>presented w. (Ret (if constant_time_eq presented expected then Inr () else Inl token_required), w))"

definition exempt_paths :: "string list \<Rightarrow> 'w bearer_auth \<Rightarrow> 'w bearer_auth" where
  "exempt_paths paths b = b\<lparr>ba_exempt := map normalize_path paths\<rparr>"

definition unauthorized :: "(json \<Rightarrow> string option) \<Rightarrow> response" where
  "unauthorized to_vec = insert_header ''www-authenticate'' ''Bearer'' (api_error_response to_vec token_required)"

definition bearer_token :: "header_value \<Rightarrow> string option" where
  "bearer_token v =
     Option.bind (hv_text v) (\<lambda>v. Option.bind (split_once (CHR '' '') v) (\<lambda>(scheme, token).
       let token = trim token
       in if eq_ignore_ascii_case scheme ''bearer'' \<and> token \<noteq> [] then Some token else None))"

definition bearer_handle :: "(json \<Rightarrow> string option) \<Rightarrow> 'w bearer_auth \<Rightarrow> ('i, 'w) layer" where
  "bearer_handle to_vec b request run_next =
     (let path = normalize_request_path (rq_path request)
      in if list_ex (\<lambda>exempt. exempt = path) (ba_exempt b) then run_next request
         else (case Option.bind (hm_get (rq_headers request) ''authorization'') bearer_token of
                 None \<Rightarrow> respond (unauthorized to_vec)
               | Some token \<Rightarrow> (\<lambda>w.
                   case ba_validator b token w of
                     (Ret (Inr _), w) \<Rightarrow> run_next request w
                   | (Ret (Inl error), w) \<Rightarrow> (Ret (api_error_response to_vec error), w)
                   | (Panic m, w) \<Rightarrow> (Panic m, w))))"

section \<open>Who gets past the layer\<close>

definition exempted :: "'w bearer_auth \<Rightarrow> 'i request_body request \<Rightarrow> bool" where
  "exempted b request \<longleftrightarrow> normalize_request_path (rq_path request) \<in> set (ba_exempt b)"

definition presented_token :: "'i request_body request \<Rightarrow> string option" where
  "presented_token request = Option.bind (hm_get (rq_headers request) ''authorization'') bearer_token"

text \<open>The request may pass, in the given world.\<close>

definition may_pass :: "'w bearer_auth \<Rightarrow> 'i request_body request \<Rightarrow> 'w \<Rightarrow> bool" where
  "may_pass b request w \<longleftrightarrow>
     exempted b request \<or>
     (\<exists>token. presented_token request = Some token \<and> fst (ba_validator b token w) = Ret (Inr ()))"

definition refusal :: "(json \<Rightarrow> string option) \<Rightarrow> 'w bearer_auth \<Rightarrow> 'i request_body request \<Rightarrow> 'w service" where
  "refusal to_vec b request w =
     (case presented_token request of
        None \<Rightarrow> (Ret (unauthorized to_vec), w)
      | Some token \<Rightarrow>
          (map_outcome (case_sum (api_error_response to_vec) (\<lambda>_. unauthorized to_vec)) (fst (ba_validator b token w)),
           snd (ba_validator b token w)))"

lemma bearer_handle_cases:
  "bearer_handle to_vec b request run_next w =
     (if exempted b request then run_next request w
      else (case presented_token request of
              None \<Rightarrow> (Ret (unauthorized to_vec), w)
            | Some token \<Rightarrow>
                (case ba_validator b token w of
                   (Ret (Inr _), w) \<Rightarrow> run_next request w
                 | (Ret (Inl error), w) \<Rightarrow> (Ret (api_error_response to_vec error), w)
                 | (Panic m, w) \<Rightarrow> (Panic m, w))))"
  by (cases "presented_token request")
     (auto simp: bearer_handle_def Let_def exempted_def presented_token_def respond_def list_ex_iff)

lemma bearer_refuses:
  assumes "\<not> may_pass b request w"
  shows "bearer_handle to_vec b request run_next w = refusal to_vec b request w"
proof (cases "presented_token request")
  case None
  then show ?thesis
    using assms by (simp add: bearer_handle_cases may_pass_def refusal_def)
next
  case (Some token)
  obtain answer w' where v: "ba_validator b token w = (answer, w')" by (cases "ba_validator b token w")
  show ?thesis
  proof (cases answer)
    case (Ret r)
    then show ?thesis
      using assms Some v by (cases r) (simp_all add: bearer_handle_cases may_pass_def refusal_def)
  next
    case (Panic m)
    then show ?thesis
      using assms Some v by (simp add: bearer_handle_cases may_pass_def refusal_def)
  qed
qed

lemma bearer_admits:
  assumes "may_pass b request w"
  shows "bearer_handle to_vec b request run_next w =
    run_next request (if exempted b request then w else snd (ba_validator b (the (presented_token request)) w))"
proof (cases "exempted b request")
  case True
  then show ?thesis by (simp add: bearer_handle_cases)
next
  case False
  then obtain token where t: "presented_token request = Some token" "fst (ba_validator b token w) = Ret (Inr ())"
    using assms by (auto simp: may_pass_def)
  then obtain w' where "ba_validator b token w = (Ret (Inr ()), w')"
    by (cases "ba_validator b token w") simp
  then show ?thesis
    using False t by (simp add: bearer_handle_cases)
qed

lemma bearer_token_Some:
  "bearer_token v = Some t \<Longrightarrow>
     \<exists>scheme rest. hv_text v = Some (scheme @ CHR '' '' # rest) \<and> eq_ignore_ascii_case scheme ''bearer'' \<and> t = trim rest \<and> t \<noteq> []"
  by (clarsimp simp: bearer_token_def Let_def split_once_Some split: Option.bind_splits if_splits) blast

lemma static_may_pass:
  assumes "\<forall>t. presented_token request = Some t \<longrightarrow> length t \<le> usize_max" "length expected \<le> usize_max"
  shows "may_pass (exempt_paths paths (static_token expected)) request w \<longleftrightarrow>
    normalize_request_path (rq_path request) \<in> normalize_path ` set paths \<or> presented_token request = Some expected"
  using assms constant_time_eq_iff[of _ expected]
  by (auto simp: may_pass_def exempted_def exempt_paths_def static_token_def bearer_new_def)

section \<open>Properties\<close>

text \<open>C24: A request covered by a registered \<open>BearerAuth\<close> gets past it exactly when its path is exempt or
  the validator accepts the token it presents; otherwise nothing behind the layer, no further layer,
  no extractor and no handler, runs, and the answer is the refusal. With \<open>static_token\<close> only a
  request that presents the very token passes, and any other is answered \<open>401\<close> leaving the world as
  it was.\<close>

theorem token_guards_the_chain:
  assumes "i < length layers" "scope_matches (sl_scope (layers ! i)) (rq_method request) (rq_path request)"
    and "sl_layer (layers ! i) = bearer_handle to_vec b"
  shows "next_run layers dispatch i request w =
      (if may_pass b request w
       then foldr apply_layer (drop (Suc i) layers) dispatch request
              (if exempted b request then w else snd (ba_validator b (the (presented_token request)) w))
       else refusal to_vec b request w) \<and>
    (\<forall>paths expected. b = exempt_paths paths (static_token expected) \<and> length expected \<le> usize_max \<and>
       (\<forall>t. presented_token request = Some t \<longrightarrow> length t \<le> usize_max) \<longrightarrow>
         (may_pass b request w \<longleftrightarrow>
            normalize_request_path (rq_path request) \<in> normalize_path ` set paths \<or> presented_token request = Some expected) \<and>
         (\<exists>r. refusal to_vec b request w = (Ret r, w) \<and> resp_status r = 401))"
proof (intro conjI allI impI)
  have run: "next_run layers dispatch i request = bearer_handle to_vec b request (\<lambda>request. next_run layers dispatch (Suc i) request)"
    using assms by (simp add: next_run.simps[of layers dispatch i])
  show "next_run layers dispatch i request w =
      (if may_pass b request w
       then foldr apply_layer (drop (Suc i) layers) dispatch request
              (if exempted b request then w else snd (ba_validator b (the (presented_token request)) w))
       else refusal to_vec b request w)"
    using bearer_admits[of b request w] bearer_refuses[of b request w]
    unfolding run by (cases "may_pass b request w") (simp_all add: next_run_fold)
next
  fix paths expected
  assume b: "b = exempt_paths paths (static_token expected) \<and> length expected \<le> usize_max \<and>
    (\<forall>t. presented_token request = Some t \<longrightarrow> length t \<le> usize_max)"
  then show "may_pass b request w \<longleftrightarrow>
      normalize_request_path (rq_path request) \<in> normalize_path ` set paths \<or> presented_token request = Some expected"
    by (auto simp: static_may_pass)
  have "resp_status (api_error_response to_vec token_required) = 401" "resp_status (unauthorized to_vec) = 401"
    by (simp_all add: unauthorized_def api_error_response_def token_required_def api_error_new_def response_json_def
        response_json_bytes_def)
  then show "\<exists>r. refusal to_vec b request w = (Ret r, w) \<and> resp_status r = 401"
    using b by (auto simp: refusal_def exempt_paths_def static_token_def bearer_new_def split: option.split)
qed

definition demo_bearer :: "unit bearer_auth" where
  "demo_bearer = exempt_paths [''/health/''] (static_token ''s3'')"

definition demo_bearer_request :: "header_value list \<Rightarrow> unit request_body request" where
  "demo_bearer_request auth =
     \<lparr>rq_method = GET, rq_path = ''/x'', rq_query = None, rq_version = 11,
      rq_headers = no_headers(''authorization'' := auth), rq_peer = None, rq_body = FullBody (Some [])\<rparr>"

definition demo_bearer_layers :: "(unit, unit) scoped_layer list" where
  "demo_bearer_layers = [\<lparr>sl_scope = Scope_All, sl_layer = bearer_handle (\<lambda>_. Some []) demo_bearer\<rparr>]"

lemma demo_bearer_token:
  "presented_token (demo_bearer_request [text_value ''bearer s3'']) = Some ''s3''"
  "presented_token (demo_bearer_request [text_value ''Bearer s4'']) = Some ''s4''"
proof -
  have "trim ''s3'' = ''s3''" "trim ''s4'' = ''s4''"
    by (simp_all add: trim_plain)
  then show "presented_token (demo_bearer_request [text_value ''bearer s3'']) = Some ''s3''"
    "presented_token (demo_bearer_request [text_value ''Bearer s4'']) = Some ''s4''"
    by (simp_all add: presented_token_def demo_bearer_request_def hm_get_def bearer_token_def eq_ignore_ascii_case_def
        to_ascii_lowercase_def ascii_lower_def char_of_def bit_iff_odd)
qed

theorem token_guards_the_chain_witness:
  "next_run demo_bearer_layers (\<lambda>_. respond unit_response) 0 (demo_bearer_request [text_value ''bearer s3'']) () =
     (Ret unit_response, ()) \<and>
   resp_status (case fst (next_run demo_bearer_layers (\<lambda>_. respond unit_response) 0 (demo_bearer_request [text_value ''Bearer s4'']) ())
     of Ret r \<Rightarrow> r | Panic _ \<Rightarrow> unit_response) = 401"
proof
  let ?good = "demo_bearer_request [text_value ''bearer s3'']" and ?bad = "demo_bearer_request [text_value ''Bearer s4'']"
  have small: "length ''s3'' \<le> usize_max" "length ''s4'' \<le> usize_max"
    by (simp_all add: usize_max_def)
  have norm: "normalize_path ''/health/'' = ''/health''" "normalize_request_path ''/x'' = ''/x''"
    by (simp_all add: normalize_path_def normalize_request_path_def trim_end_char_def)
  have here: "0 < length demo_bearer_layers"
    "\<And>r. scope_matches (sl_scope (demo_bearer_layers ! 0)) (rq_method r) (rq_path r)"
    "sl_layer (demo_bearer_layers ! 0) = bearer_handle (\<lambda>_. Some []) demo_bearer"
    by (simp_all add: demo_bearer_layers_def scope_matches_def)
  note guard = token_guards_the_chain[OF here, where dispatch = "\<lambda>_. respond unit_response" and w = "()"]
  have passes: "may_pass demo_bearer r () \<longleftrightarrow>
      normalize_request_path (rq_path r) \<in> normalize_path ` set [''/health/''] \<or> presented_token r = Some ''s3''"
    if "r = ?good \<or> r = ?bad" for r
    using guard[THEN conjunct2, rule_format, of "[''/health/'']" "''s3''" r] that small
    by (elim disjE) (simp_all only: demo_bearer_def demo_bearer_token option.inject simp_thms)
  have adm: "may_pass demo_bearer ?good ()" "\<not> may_pass demo_bearer ?bad ()"
    using passes[of ?good] passes[of ?bad]
    by (simp_all add: demo_bearer_token norm) (simp_all add: demo_bearer_request_def norm)
  show "next_run demo_bearer_layers (\<lambda>_. respond unit_response) 0 ?good () = (Ret unit_response, ())"
    using guard[of ?good] adm
    by (simp add: demo_bearer_layers_def respond_def)
  have "\<exists>r. refusal (\<lambda>_. Some []) demo_bearer ?bad () = (Ret r, ()) \<and> resp_status r = 401"
    using guard[THEN conjunct2, rule_format, of "[''/health/'']" "''s3''" ?bad] small
    by (simp only: demo_bearer_def demo_bearer_token option.inject) simp
  then obtain r where "refusal (\<lambda>_. Some []) demo_bearer ?bad () = (Ret r, ())" "resp_status r = 401"
    by blast
  then show "resp_status (case fst (next_run demo_bearer_layers (\<lambda>_. respond unit_response) 0 ?bad ())
      of Ret r \<Rightarrow> r | Panic _ \<Rightarrow> unit_response) = 401"
    using guard[of ?bad] adm by simp
qed

end
