(* ===== verification/Layers.thy ===== *)
theory Layers
  imports Middleware
begin

text \<open>
  Models of the small layers: \<open>CatchPanic\<close> (\<open>src/catch_panic.rs\<close>), \<open>ErrorFormat\<close>
  (\<open>src/error_format.rs\<close>), \<open>RequestId\<close> (\<open>src/request_id.rs\<close>) and \<open>Trace\<close> (\<open>src/trace.rs\<close>). A
  callback of the application is a function of its argument and the world that may panic; clocks and
  counters are parts of the world.
\<close>

section \<open>\<open>CatchPanic\<close>\<close>

text \<open>What a panic carries is any value; the text of a panic in this model stands for one, and
  \<open>payload_of\<close> says which.\<close>

datatype payload = Static_Str string | Owned_String string | Other_Payload

type_synonym 'w panic_hook = "string \<Rightarrow> 'w \<Rightarrow> unit outcome \<times> 'w"

definition panic_message :: "payload \<Rightarrow> string" where
  "panic_message p =
     (case p of Static_Str m \<Rightarrow> m | Owned_String m \<Rightarrow> m | Other_Payload \<Rightarrow> ''panic with a non-string payload'')"

definition internal_error :: "(json \<Rightarrow> string option) \<Rightarrow> response" where
  "internal_error to_vec =
     api_error_response to_vec
       (api_error_new 500 ''Internal Server Error'' ''the request could not be completed'')"

definition catch_panic_handle ::
  "(json \<Rightarrow> string option) \<Rightarrow> (string \<Rightarrow> payload) \<Rightarrow> 'w panic_hook option \<Rightarrow> ('i, 'w) layer" where
  "catch_panic_handle to_vec payload_of hook request run_next =
     (\<lambda>w. case run_next request w of
        (Ret response, w) \<Rightarrow> (Ret response, w)
      | (Panic m, w) \<Rightarrow>
          (case hook of
             None \<Rightarrow> (Ret (internal_error to_vec), w)
           | Some hook \<Rightarrow>
               (case hook (panic_message (payload_of m)) w of
                  (Ret _, w) \<Rightarrow> (Ret (internal_error to_vec), w)
                | (Panic m, w) \<Rightarrow> (Panic m, w))))"

section \<open>\<open>ErrorFormat\<close>\<close>

definition carried_headers :: "string list" where
  "carried_headers = [''allow'', ''www-authenticate'', ''retry-after'', ''connection'', ''sec-websocket-version'']"

definition carry_header :: "response \<Rightarrow> string \<Rightarrow> response \<Rightarrow> response" where
  "carry_header response name mapped =
     (case hm_get (resp_headers response) name of
        Some value \<Rightarrow>
          if \<not> hm_contains (resp_headers mapped) name
          then mapped\<lparr>resp_headers := hm_insert name value (resp_headers mapped)\<rparr> else mapped
      | None \<Rightarrow> mapped)"

definition finish_error :: "bool \<Rightarrow> response \<Rightarrow> response \<Rightarrow> response" where
  "finish_error is_head response mapped =
     (let mapped = fold (carry_header response) carried_headers mapped
      in if is_head then
           (let mapped = (if \<not> hm_contains (resp_headers mapped) ''content-length''
                          then (case size_exact (resp_body mapped) of
                                  Some n \<Rightarrow> insert_header ''content-length'' (dec n) mapped
                                | None \<Rightarrow> mapped)
                          else mapped)
            in mapped\<lparr>resp_body := Full (Some [])\<rparr>)
         else mapped)"

text \<open>The hook may panic.\<close>

definition error_format_handle :: "(error_info \<Rightarrow> response outcome) \<Rightarrow> ('i, 'w) layer" where
  "error_format_handle hook request run_next =
     after (run_next request) (\<lambda>response w.
       (case resp_error response of
          None \<Rightarrow> Ret response
        | Some info \<Rightarrow> map_outcome (finish_error (rq_method request = HEAD) response) (hook info), w))"

section \<open>\<open>RequestId\<close>\<close>

record request_ids =
  ri_name :: string
  ri_prefix :: u64
  ri_counter :: u64

definition request_id_new :: "u64 \<Rightarrow> u64 \<Rightarrow> request_ids" where
  "request_id_new nanos pid =
     \<lparr>ri_name = ''x-request-id'', ri_prefix = xor nanos (push_bit 40 pid), ri_counter = 0\<rparr>"

definition ri_header_name :: "(string \<Rightarrow> string option) \<Rightarrow> string \<Rightarrow> request_ids \<Rightarrow> request_ids outcome" where
  "ri_header_name header_name name r =
     map_outcome (\<lambda>n. r\<lparr>ri_name := n\<rparr>) (expect (header_name name) ''a valid header name'')"

definition id_text :: "u64 \<Rightarrow> u64 \<Rightarrow> string" where
  "id_text prefix_part sequence = lower_hex (unat prefix_part) @ ''-'' @ lower_hex (unat sequence)"

definition generate :: "request_ids \<Rightarrow> header_value \<times> request_ids" where
  "generate r = (text_value (id_text (ri_prefix r) (ri_counter r)), r\<lparr>ri_counter := ri_counter r + 1\<rparr>)"

definition max_id_len :: nat where
  "max_id_len = 128"

definition usable :: "header_value \<Rightarrow> bool" where
  "usable v \<longleftrightarrow>
     1 \<le> length (hv_bytes v) \<and> length (hv_bytes v) \<le> max_id_len \<and>
     list_all (\<lambda>b. is_ascii_alphanumeric b \<or> b \<in> {CHR ''-'', CHR ''_'', CHR ''.'', CHR '':''}) (hv_bytes v)"

definition request_id_handle :: "('w \<Rightarrow> request_ids) \<Rightarrow> (request_ids \<Rightarrow> 'w \<Rightarrow> 'w) \<Rightarrow> ('i, 'w) layer" where
  "request_id_handle ids_of store request run_next =
     (\<lambda>w. let r = ids_of w;
              (ident, r) = (case hm_get (rq_headers request) (ri_name r) of
                              Some v \<Rightarrow> if usable v then (v, r) else generate r
                            | None \<Rightarrow> generate r);
              request = request\<lparr>rq_headers := hm_insert (ri_name r) ident (rq_headers request)\<rparr>
          in map_response (\<lambda>response. response\<lparr>resp_headers := hm_insert (ri_name r) ident (resp_headers response)\<rparr>)
               (run_next request) (store r w))"

section \<open>\<open>Trace\<close>\<close>

record trace_record =
  tr_method :: http_method
  tr_path :: string
  tr_status :: nat
  tr_elapsed :: nat

definition trace_handle :: "('w \<Rightarrow> nat) \<Rightarrow> (trace_record \<Rightarrow> 'w \<Rightarrow> unit outcome \<times> 'w) \<Rightarrow> ('i, 'w) layer" where
  "trace_handle clock sink request run_next =
     (\<lambda>w. let started = clock w
          in after (run_next request) (\<lambda>response w.
               (case sink \<lparr>tr_method = rq_method request, tr_path = rq_path request,
                     tr_status = resp_status response, tr_elapsed = clock w - started\<rparr> w of
                  (Ret _, w) \<Rightarrow> (Ret response, w)
                | (Panic m, w) \<Rightarrow> (Panic m, w))) w)"

section \<open>Panics are contained\<close>

definition hook_returns :: "'w panic_hook option \<Rightarrow> bool" where
  "hook_returns hook \<longleftrightarrow> (\<forall>h m w. hook = Some h \<longrightarrow> no_panic (fst (h m w)))"

definition after_hook :: "(string \<Rightarrow> payload) \<Rightarrow> 'w panic_hook option \<Rightarrow> string \<Rightarrow> 'w \<Rightarrow> 'w" where
  "after_hook payload_of hook m w =
     (case hook of None \<Rightarrow> w | Some h \<Rightarrow> snd (h (panic_message (payload_of m)) w))"

lemma catch_panic_panicked:
  assumes "hook_returns hook" "run_next request w = (Panic m, w')"
  shows "catch_panic_handle to_vec payload_of hook request run_next w =
    (Ret (internal_error to_vec), after_hook payload_of hook m w')"
proof (cases hook)
  case None
  then show ?thesis using assms by (simp add: catch_panic_handle_def after_hook_def)
next
  case (Some h)
  obtain answer w'' where h: "h (panic_message (payload_of m)) w' = (answer, w'')"
    by (cases "h (panic_message (payload_of m)) w'")
  then have "no_panic answer"
    using assms(1) Some by (metis hook_returns_def fst_conv)
  then show ?thesis
    using assms(2) Some h by (cases answer) (simp_all add: catch_panic_handle_def after_hook_def)
qed


definition demo_catch_layers :: "(unit, string list) scoped_layer list" where
  "demo_catch_layers =
     [\<lparr>sl_scope = Scope_All,
       sl_layer = catch_panic_handle (\<lambda>_. Some []) Owned_String (Some (\<lambda>m log. (Ret (), log @ [m])))\<rparr>]"


section \<open>Reformatted errors\<close>

lemma carry_header_sel [simp]:
  "resp_status (carry_header r n m) = resp_status m" "resp_body (carry_header r n m) = resp_body m"
  "resp_error (carry_header r n m) = resp_error m"
  by (simp_all add: carry_header_def split: option.split)

lemma carry_header_get:
  "hm_get (resp_headers (carry_header r n m)) k =
     (if k = n \<and> hm_get (resp_headers m) n = None then hm_get (resp_headers r) n else hm_get (resp_headers m) k)"
  by (auto simp: carry_header_def hm_contains_get split: option.split)

lemma carried_get:
  "hm_get (resp_headers (fold (carry_header r) names m)) k =
     (if k \<in> set names \<and> hm_get (resp_headers m) k = None then hm_get (resp_headers r) k else hm_get (resp_headers m) k)"
  by (induction names arbitrary: m) (auto simp: carry_header_get)

lemma carried_sel [simp]:
  "resp_status (fold (carry_header r) names m) = resp_status m"
  "resp_body (fold (carry_header r) names m) = resp_body m"
  by (induction names arbitrary: m) simp_all

text \<open>What the hook answered keeps its status and headers; a header the protocol needs is taken from
  the error it replaces; and to \<open>HEAD\<close> the length is stated and nothing is sent.\<close>

lemma finish_error_spec:
  "resp_status (finish_error is_head r m) = resp_status m"
  "k \<noteq> ''content-length'' \<Longrightarrow>
     hm_get (resp_headers (finish_error is_head r m)) k =
       (if k \<in> set carried_headers \<and> hm_get (resp_headers m) k = None
        then hm_get (resp_headers r) k else hm_get (resp_headers m) k)"
  "resp_body (finish_error is_head r m) = (if is_head then Full (Some []) else resp_body m)"
  by (simp_all add: finish_error_def Let_def carried_get split: option.split)

lemma finish_error_head_length:
  assumes "well_framed m" "size_exact (resp_body m) = Some n"
  shows "header_text (resp_headers (finish_error True r m)) ''content-length'' = Some (dec n)"
proof -
  have "hm_get (resp_headers (fold (carry_header r) carried_headers m)) ''content-length'' =
      hm_get (resp_headers m) ''content-length''"
    unfolding carried_get by (simp add: carried_headers_def)
  then show ?thesis
    using assms size_exact_bytes[OF assms(2)]
    by (auto simp: finish_error_def Let_def hm_contains_get well_framed_def states_length_def header_text_def)
qed

section \<open>Request identifiers\<close>

lemma byte_hex_digit: "d < 16 \<Longrightarrow> byte (hex_digit d) = (if d < 10 then 48 + d else 87 + d)"
  by (simp add: hex_digit_def)

lemma hex_digit_inject: "a < 16 \<Longrightarrow> b < 16 \<Longrightarrow> hex_digit a = hex_digit b \<Longrightarrow> a = b"
  by (drule arg_cong[where f = byte]) (auto simp: byte_hex_digit split: if_splits)

lemma hex_digit_alnum: "d < 16 \<Longrightarrow> is_ascii_alphanumeric (hex_digit d) \<and> hex_digit d \<noteq> CHR ''-''"
proof -
  assume d: "d < 16"
  have "byte (hex_digit d) \<noteq> byte (CHR ''-'')"
    using byte_hex_digit[OF d] by simp
  then have "hex_digit d \<noteq> CHR ''-''"
    by metis
  then show ?thesis
    using byte_hex_digit[OF d] d by (auto simp: is_ascii_alphanumeric_def is_ascii_alphabetic_def is_ascii_digit_def)
qed

lemma lower_hex_inject: "lower_hex m = lower_hex n \<Longrightarrow> m = n"
proof (induction m arbitrary: n rule: lower_hex.induct)
  case (1 m)
  have nonempty: "lower_hex k \<noteq> []" for k
    by (subst lower_hex.simps) simp
  show ?case
  proof (cases "m < 16 \<or> n < 16")
    case True
    then have "m < 16 \<and> n < 16"
      using "1.prems" nonempty[of "m div 16"] nonempty[of "n div 16"]
      by (subst (asm) (1 2) lower_hex.simps) (auto split: if_splits)
    then show ?thesis
      using "1.prems" hex_digit_inject by (subst (asm) (1 2) lower_hex.simps) simp
  next
    case False
    then have "lower_hex (m div 16) = lower_hex (n div 16)" "hex_digit (m mod 16) = hex_digit (n mod 16)"
      using "1.prems" by (subst (asm) (1 2) lower_hex.simps, simp)+
    then have "m div 16 = n div 16" "m mod 16 = n mod 16"
      using "1.IH" False hex_digit_inject[of "m mod 16" "n mod 16"] by auto
    then show ?thesis by (metis div_mult_mod_eq)
  qed
qed

lemma lower_hex_chars: "c \<in> set (lower_hex n) \<Longrightarrow> is_ascii_alphanumeric c \<and> c \<noteq> CHR ''-''"
proof (induction n rule: lower_hex.induct)
  case (1 n)
  show ?case
  proof (cases "n < 16")
    case True
    then show ?thesis using "1.prems" hex_digit_alnum[of n] by (subst (asm) lower_hex.simps) auto
  next
    case False
    then show ?thesis
      using "1.prems" "1.IH" hex_digit_alnum[of "n mod 16"] by (subst (asm) lower_hex.simps) auto
  qed
qed

lemma lower_hex_length: "n < 16 ^ k \<Longrightarrow> 0 < k \<Longrightarrow> length (lower_hex n) \<le> k"
proof (induction k arbitrary: n)
  case (Suc k)
  show ?case
  proof (cases "n < 16")
    case True
    then show ?thesis by (subst lower_hex.simps) simp
  next
    case False
    then have "0 < k" using Suc.prems by (cases k) auto
    moreover have "n div 16 < 16 ^ k" using Suc.prems by (simp add: less_mult_imp_div_less)
    ultimately have "length (lower_hex (n div 16)) \<le> k" using Suc.IH by blast
    then show ?thesis using False by (subst lower_hex.simps) simp
  qed
qed simp

lemma id_text_inject: "id_text p m = id_text q n \<Longrightarrow> p = q \<and> m = n"
proof -
  assume "id_text p m = id_text q n"
  then have "lower_hex (unat p) @ CHR ''-'' # lower_hex (unat m) = lower_hex (unat q) @ CHR ''-'' # lower_hex (unat n)"
    by (simp add: id_text_def)
  moreover have "CHR ''-'' \<notin> set (lower_hex k)" for k
    using lower_hex_chars by blast
  ultimately have "lower_hex (unat p) = lower_hex (unat q)" "lower_hex (unat m) = lower_hex (unat n)"
    by (simp_all add: append_Cons_eq_iff)
  then show ?thesis
    using lower_hex_inject by (meson unsigned_word_eqI)
qed

lemma id_text_usable: "usable (text_value (id_text p n))"
proof -
  have len: "length (lower_hex (unat w)) \<le> 16" for w :: u64
    using unsigned_less[where 'a = nat and w = w] by (intro lower_hex_length) simp_all
  have "lower_hex (unat p) \<noteq> []"
    by (subst lower_hex.simps) simp
  then show ?thesis
    using len[of p] len[of n] lower_hex_chars
    by (auto simp: usable_def max_id_len_def id_text_def list_all_iff Suc_le_eq)
qed

text \<open>The identifiers of a run of requests that bring none of their own.\<close>

fun generated :: "nat \<Rightarrow> request_ids \<Rightarrow> header_value list" where
  "generated 0 r = []"
| "generated (Suc n) r = (case generate r of (v, r) \<Rightarrow> v # generated n r)"

lemma generated_eq:
  "generated n r = map (\<lambda>i. text_value (id_text (ri_prefix r) (ri_counter r + of_nat i))) [0..<n]"
proof (induction n arbitrary: r)
  case (Suc n)
  show ?case
    by (simp add: generate_def Suc map_upt_Suc add.assoc del: upt_Suc)
qed simp

text \<open>All of them are usable, and no two are equal before the counter has gone through its 64 bits.\<close>

lemma generated_distinct:
  assumes "n \<le> 2 ^ 64"
  shows "distinct (generated n r) \<and> list_all usable (generated n r)"
proof -
  have "inj_on (\<lambda>i. text_value (id_text (ri_prefix r) (ri_counter r + of_nat i))) (set [0..<n])"
  proof (rule inj_onI)
    fix i j
    assume ij: "i \<in> set [0..<n]" "j \<in> set [0..<n]"
      and "text_value (id_text (ri_prefix r) (ri_counter r + of_nat i)) =
        text_value (id_text (ri_prefix r) (ri_counter r + of_nat j))"
    then have "(of_nat i :: u64) = of_nat j"
      using id_text_inject by fastforce
    then have "unat (of_nat i :: u64) = unat (of_nat j :: u64)"
      by simp
    then show "i = j"
      using ij assms by (simp add: unat_of_nat_u64)
  qed
  then show ?thesis
    unfolding generated_eq by (simp add: distinct_map list_all_iff id_text_usable)
qed

text \<open>The handler and the client see the same identifier: the one the client sent when it is usable,
  and a generated one otherwise.\<close>

lemma request_id_shared:
  "\<exists>ident r'. usable ident \<and>
     request_id_handle ids_of store request run_next w =
       map_response (\<lambda>response. response\<lparr>resp_headers := hm_insert (ri_name r') ident (resp_headers response)\<rparr>)
         (run_next (request\<lparr>rq_headers := hm_insert (ri_name r') ident (rq_headers request)\<rparr>)) (store r' w) \<and>
     (hm_get (rq_headers request) (ri_name (ids_of w)) = Some ident \<and> r' = ids_of w \<or> (ident, r') = generate (ids_of w))"
proof (cases "\<exists>v. hm_get (rq_headers request) (ri_name (ids_of w)) = Some v \<and> usable v")
  case True
  then obtain v where "hm_get (rq_headers request) (ri_name (ids_of w)) = Some v" "usable v" by blast
  then show ?thesis
    by (intro exI[of _ v] exI[of _ "ids_of w"]) (simp add: request_id_handle_def Let_def)
next
  case False
  obtain v r' where g: "generate (ids_of w) = (v, r')" by (cases "generate (ids_of w)")
  then have "usable v" by (auto simp: generate_def id_text_usable)
  moreover have "request_id_handle ids_of store request run_next w =
      map_response (\<lambda>response. response\<lparr>resp_headers := hm_insert (ri_name r') v (resp_headers response)\<rparr>)
        (run_next (request\<lparr>rq_headers := hm_insert (ri_name r') v (rq_headers request)\<rparr>)) (store r' w)"
    using False g by (cases "hm_get (rq_headers request) (ri_name (ids_of w))") (simp_all add: request_id_handle_def Let_def)
  ultimately show ?thesis
    using g by (intro exI[of _ v] exI[of _ r']) simp
qed

end
