(* ===== verification/Sse.thy ===== *)
theory Sse
  imports Path_Parts Http_Types
begin

text \<open>
  Model of \<open>src/sse.rs\<close>: events, their wire form, the stream of a response with its heartbeat and the
  response itself. The interval timer is tokio's: starting, resetting and asking it are parameters.
  Reading a stream the way the specification of server-sent events asks a client to is
  \<open>sse_parse\<close>, against which the wire form is proved right.
\<close>

section \<open>Events\<close>

record event =
  ev_event :: "string option"
  ev_id :: "string option"
  ev_retry :: "nat option"
  ev_data :: "string option"
  ev_comment :: "string option"

abbreviation LF :: char where "LF \<equiv> CHR 0x0A"
abbreviation CR :: char where "CR \<equiv> CHR 0x0D"

definition one_line :: "string \<Rightarrow> string" where
  "one_line s = filter (\<lambda>c. c \<noteq> LF \<and> c \<noteq> CR) s"

definition event_id :: "string \<Rightarrow> string" where
  "event_id s = replace_char (CHR 0x00) [] (one_line s)"

definition event_blank :: event where
  "event_blank = \<lparr>ev_event = None, ev_id = None, ev_retry = None, ev_data = None, ev_comment = None\<rparr>"

definition event_data :: "string \<Rightarrow> event" where
  "event_data data = event_blank\<lparr>ev_data := Some data\<rparr>"

definition event_comment :: "string \<Rightarrow> event" where
  "event_comment s = event_blank\<lparr>ev_comment := Some (one_line s)\<rparr>"

definition set_event :: "string \<Rightarrow> event \<Rightarrow> event" where
  "set_event name e = e\<lparr>ev_event := Some (one_line name)\<rparr>"

definition set_id :: "string \<Rightarrow> event \<Rightarrow> event" where
  "set_id ident e = e\<lparr>ev_id := Some (event_id ident)\<rparr>"

text \<open>In milliseconds.\<close>

definition set_retry :: "nat \<Rightarrow> event \<Rightarrow> event" where
  "set_retry delay e = e\<lparr>ev_retry := Some delay\<rparr>"

section \<open>The wire form\<close>

text \<open>\<open>data.replace("\r\n", "\n")\<close>\<close>

fun replace_crlf :: "string \<Rightarrow> string" where
  "replace_crlf [] = []"
| "replace_crlf [c] = [c]"
| "replace_crlf (c # d # s) =
     (if c = CR \<and> d = LF then LF # replace_crlf s else c # replace_crlf (d # s))"

definition normalize_breaks :: "string \<Rightarrow> string" where
  "normalize_breaks s = replace_char CR [LF] (replace_crlf s)"

definition line_of :: "string \<Rightarrow> string \<Rightarrow> string" where
  "line_of label v = label @ v @ [LF]"

definition opt_line :: "string \<Rightarrow> string option \<Rightarrow> string" where
  "opt_line label v = (case v of None \<Rightarrow> [] | Some v \<Rightarrow> line_of label v)"

definition event_text :: "event \<Rightarrow> string" where
  "event_text e =
     opt_line '': '' (ev_comment e) @ opt_line ''event: '' (ev_event e) @ opt_line ''id: '' (ev_id e) @
     opt_line ''retry: '' (map_option dec (ev_retry e)) @
     (case ev_data e of
        None \<Rightarrow> []
      | Some data \<Rightarrow> concat (map (line_of ''data: '') (str_split LF (normalize_breaks data)))) @ [LF]"

section \<open>The response\<close>

record 's sse =
  sse_events :: 's
  sse_keep_alive :: "nat option"

definition sse_new :: "'s \<Rightarrow> 's sse" where
  "sse_new events = \<lparr>sse_events = events, sse_keep_alive = None\<rparr>"

definition keep_alive :: "nat \<Rightarrow> 's sse \<Rightarrow> 's sse outcome" where
  "keep_alive interval s =
     bind_outcome (assert_that (interval \<noteq> 0) ''the keep-alive interval must not be zero'') (\<lambda>_.
       Ret (s\<lparr>sse_keep_alive := Some interval\<rparr>))"

text \<open>\<open>EventBytes\<close>, generic in the timer: \<open>start period\<close> creates it, first due one period from now,
  \<open>reset\<close> puts it one period off again and \<open>tick\<close> asks whether it is due.\<close>

record 't event_bytes =
  eb_keep_alive :: "nat option"
  eb_ticker :: "'t option"

definition keep_alive_text :: string where
  "keep_alive_text = '': keep-alive'' @ [LF, LF]"

text \<open>The stream of events answers \<open>None\<close> while it is pending, \<open>Some None\<close> at its end.\<close>

definition event_bytes_poll ::
  "(nat \<Rightarrow> 't) \<Rightarrow> ('t \<Rightarrow> 't) \<Rightarrow> ('t \<Rightarrow> bool \<times> 't) \<Rightarrow> event option option \<Rightarrow> 't event_bytes
     \<Rightarrow> string option option \<times> 't event_bytes" where
  "event_bytes_poll start reset tick polled b =
     (case polled of
        Some item \<Rightarrow> (Some (map_option event_text item), b\<lparr>eb_ticker := map_option reset (eb_ticker b)\<rparr>)
      | None \<Rightarrow>
          (case eb_keep_alive b of
             None \<Rightarrow> (None, b)
           | Some period \<Rightarrow>
               (let (ready, ticker) = tick (case eb_ticker b of None \<Rightarrow> start period | Some t \<Rightarrow> t);
                    b = b\<lparr>eb_ticker := Some ticker\<rparr>
                in if ready then (Some (Some keep_alive_text), b) else (None, b))))"

definition sse_response :: "string list \<Rightarrow> response" where
  "sse_response chunks =
     insert_header ''x-accel-buffering'' ''no''
       (insert_header ''cache-control'' ''no-cache''
         (insert_header ''content-type'' ''text/event-stream'' (new_response 200 (Stream chunks))))"

section \<open>Reading a stream\<close>

text \<open>What a client sees of an event, before it is dispatched.\<close>

record seen_event =
  se_event :: "string option"
  se_id :: "string option"
  se_retry :: "string option"
  se_data :: "string list"

definition nothing_seen :: seen_event where
  "nothing_seen = \<lparr>se_event = None, se_id = None, se_retry = None, se_data = []\<rparr>"

definition strip_space :: "string \<Rightarrow> string" where
  "strip_space v = (case v of c # r \<Rightarrow> if c = CHR '' '' then r else v | [] \<Rightarrow> [])"

definition field_seen :: "string \<Rightarrow> string \<Rightarrow> seen_event \<Rightarrow> seen_event" where
  "field_seen name v b =
     (if name = ''event'' then b\<lparr>se_event := Some v\<rparr>
      else if name = ''id'' then b\<lparr>se_id := Some v\<rparr>
      else if name = ''retry'' then b\<lparr>se_retry := Some v\<rparr>
      else if name = ''data'' then b\<lparr>se_data := se_data b @ [v]\<rparr> else b)"

definition line_seen :: "string \<Rightarrow> seen_event \<Rightarrow> seen_event" where
  "line_seen l b =
     (case split_once (CHR '':'') l of
        None \<Rightarrow> field_seen l [] b
      | Some (name, v) \<Rightarrow> if name = [] then b else field_seen name (strip_space v) b)"

text \<open>An empty line ends an event; one of comments alone is no event.\<close>

fun sse_lines :: "string list \<Rightarrow> seen_event \<Rightarrow> seen_event list" where
  "sse_lines [] b = []"
| "sse_lines (l # ls) b =
     (if l = [] then (if b = nothing_seen then [] else [b]) @ sse_lines ls nothing_seen
      else sse_lines ls (line_seen l b))"

text \<open>Lines end with a line feed, a carriage return or both; one that is not ended is dropped.\<close>

definition sse_parse :: "string \<Rightarrow> seen_event list" where
  "sse_parse s = sse_lines (butlast (str_split LF (normalize_breaks s))) nothing_seen"

definition seen_of :: "event \<Rightarrow> seen_event" where
  "seen_of e =
     \<lparr>se_event = ev_event e, se_id = ev_id e, se_retry = map_option dec (ev_retry e),
      se_data = (case ev_data e of None \<Rightarrow> [] | Some d \<Rightarrow> str_split LF (normalize_breaks d))\<rparr>"

text \<open>Events as the application can build them: their fields are private.\<close>

inductive event_built :: "event \<Rightarrow> bool" where
  "event_built (event_data d)"
| "event_built (event_comment c)"
| "event_built e \<Longrightarrow> event_built (set_event n e)"
| "event_built e \<Longrightarrow> event_built (set_id i e)"
| "event_built e \<Longrightarrow> event_built (set_retry r e)"

definition unbroken :: "string \<Rightarrow> bool" where
  "unbroken s \<longleftrightarrow> LF \<notin> set s \<and> CR \<notin> set s"

definition single_lined :: "event \<Rightarrow> bool" where
  "single_lined e \<longleftrightarrow> (\<forall>f \<in> {ev_event e, ev_id e, ev_comment e}. \<forall>v. f = Some v \<longrightarrow> unbroken v)"

lemma one_line_unbroken: "unbroken (one_line s)" "unbroken (event_id s)"
  by (auto simp: unbroken_def one_line_def event_id_def replace_char_def split: if_splits)

lemma event_built_single_lined: "event_built e \<Longrightarrow> single_lined e"
  by (induction rule: event_built.induct)
     (auto simp: single_lined_def event_data_def event_comment_def event_blank_def set_event_def set_id_def
        set_retry_def one_line_unbroken)

lemma dec_unbroken: "unbroken (dec n)"
  using dec_digits[of LF n] dec_digits[of CR n] by (auto simp: unbroken_def is_ascii_digit_def)

text \<open>Line breaks without a carriage return.\<close>

lemma replace_crlf_no_CR: "CR \<notin> set s \<Longrightarrow> replace_crlf s = s"
  by (induction s rule: replace_crlf.induct) auto

lemma replace_char_absent: "c \<notin> set s \<Longrightarrow> replace_char c r s = s"
  by (induction s) (auto simp: replace_char_def)

lemma normalize_breaks_id: "CR \<notin> set s \<Longrightarrow> normalize_breaks s = s"
  by (simp add: normalize_breaks_def replace_crlf_no_CR replace_char_absent)

lemma normalize_breaks_no_CR: "CR \<notin> set (normalize_breaks s)"
  by (auto simp: normalize_breaks_def replace_char_def)

lemma str_split_subset: "p \<in> set (str_split c s) \<Longrightarrow> set p \<subseteq> set s"
proof (induction s arbitrary: p)
  case (Cons a s)
  obtain q qs where q: "str_split c s = q # qs"
    using str_split_nonempty by (meson neq_Nil_conv)
  have "set r \<subseteq> set s" if "r \<in> set (q # qs)" for r
    using Cons.IH that q by simp
  then show ?case
    using Cons.prems q by (cases "a = c") fastforce+
qed simp

lemma data_line_unbroken: "l \<in> set (str_split LF (normalize_breaks d)) \<Longrightarrow> unbroken l"
proof -
  assume l: "l \<in> set (str_split LF (normalize_breaks d))"
  then have "set l \<subseteq> set (normalize_breaks d)"
    by (rule str_split_subset)
  then show ?thesis
    using str_split_pieces[OF l] normalize_breaks_no_CR[of d] by (auto simp: unbroken_def)
qed

section \<open>An event survives the wire\<close>

definition opt_label :: "string \<Rightarrow> string option \<Rightarrow> string list" where
  "opt_label label v = (case v of None \<Rightarrow> [] | Some v \<Rightarrow> [label @ v])"

definition event_lines :: "event \<Rightarrow> string list" where
  "event_lines e =
     opt_label '': '' (ev_comment e) @ opt_label ''event: '' (ev_event e) @ opt_label ''id: '' (ev_id e) @
     opt_label ''retry: '' (map_option dec (ev_retry e)) @ map ((@) ''data: '') (se_data (seen_of e))"

definition ended :: "string list \<Rightarrow> string" where
  "ended ls = concat (map (\<lambda>l. l @ [LF]) ls)"

lemma ended_append [simp]: "ended (a @ b) = ended a @ ended b"
  by (simp add: ended_def)

lemma opt_line_ended: "opt_line label v = ended (opt_label label v)"
  by (simp add: opt_line_def opt_label_def line_of_def ended_def split: option.split)

lemma lines_ended: "concat (map (line_of label) ls) = ended (map ((@) label) ls)"
  by (induction ls) (simp_all add: line_of_def ended_def)

lemma event_text_lines: "event_text e = ended (event_lines e @ [[]])"
  by (cases "ev_data e")
     (simp_all add: event_text_def event_lines_def opt_line_ended lines_ended seen_of_def, simp_all add: ended_def)

lemma split_ended: "\<forall>l \<in> set ls. LF \<notin> set l \<Longrightarrow> butlast (str_split LF (ended ls)) = ls"
proof -
  assume "\<forall>l \<in> set ls. LF \<notin> set l"
  then have "str_split LF (ended ls) = ls @ [[]]"
    by (induction ls) (simp_all add: ended_def str_split_append_sep str_split_no_sep)
  then show ?thesis by simp
qed

lemma event_lines_ok:
  assumes "single_lined e" "l \<in> set (event_lines e)"
  shows "l \<noteq> [] \<and> unbroken l"
proof -
  have data: "unbroken x" if "x \<in> set (se_data (seen_of e))" for x
    using that data_line_unbroken by (auto simp: seen_of_def split: option.splits)
  show ?thesis
    using assms dec_unbroken data
    by (auto simp: event_lines_def opt_label_def single_lined_def unbroken_def split: option.splits)
qed

lemma line_seen_fields [simp]:
  "line_seen ('': '' @ v) b = b" "line_seen (''event: '' @ v) b = b\<lparr>se_event := Some v\<rparr>"
  "line_seen (''id: '' @ v) b = b\<lparr>se_id := Some v\<rparr>" "line_seen (''retry: '' @ v) b = b\<lparr>se_retry := Some v\<rparr>"
  "line_seen (''data: '' @ v) b = b\<lparr>se_data := se_data b @ [v]\<rparr>"
  by (simp_all add: line_seen_def field_seen_def strip_space_def)

lemma fold_data: "fold line_seen (map ((@) ''data: '') ds) b = b\<lparr>se_data := se_data b @ ds\<rparr>"
proof (induction ds arbitrary: b)
  case (Cons d ds)
  show ?case
    using line_seen_fields(5)[of d b] Cons by simp
qed simp

lemma fold_opt_label: "fold line_seen (opt_label label v) b = (case v of None \<Rightarrow> b | Some v \<Rightarrow> line_seen (label @ v) b)"
  by (simp add: opt_label_def split: option.split)

lemma event_lines_seen: "fold line_seen (event_lines e) nothing_seen = seen_of e"
  unfolding event_lines_def fold_append comp_apply fold_opt_label fold_data line_seen_fields
  by (cases "ev_event e"; cases "ev_id e"; cases "ev_retry e"; cases "ev_comment e")
     (simp_all add: seen_of_def nothing_seen_def)

lemma sse_lines_event:
  "\<forall>l \<in> set ls. l \<noteq> [] \<Longrightarrow>
     sse_lines (ls @ [] # rest) b =
       (if fold line_seen ls b = nothing_seen then [] else [fold line_seen ls b]) @ sse_lines rest nothing_seen"
  by (induction ls arbitrary: b) auto

text \<open>What a response body is made of: events and heartbeats.\<close>

definition chunk_text :: "event option \<Rightarrow> string" where
  "chunk_text c = (case c of None \<Rightarrow> keep_alive_text | Some e \<Rightarrow> event_text e)"

definition chunk_lines :: "event option \<Rightarrow> string list" where
  "chunk_lines c = (case c of None \<Rightarrow> ['': keep-alive''] | Some e \<Rightarrow> event_lines e)"

definition chunk_seen :: "event option \<Rightarrow> seen_event" where
  "chunk_seen c = (case c of None \<Rightarrow> nothing_seen | Some e \<Rightarrow> seen_of e)"

lemma chunk_facts:
  assumes "\<And>e. c = Some e \<Longrightarrow> single_lined e"
  shows "chunk_text c = ended (chunk_lines c @ [[]])"
    "\<forall>l \<in> set (chunk_lines c). l \<noteq> [] \<and> unbroken l"
    "fold line_seen (chunk_lines c) nothing_seen = chunk_seen c"
proof -
  show "chunk_text c = ended (chunk_lines c @ [[]])"
    by (cases c) (simp_all add: chunk_text_def chunk_lines_def keep_alive_text_def event_text_lines ended_def)
  show "\<forall>l \<in> set (chunk_lines c). l \<noteq> [] \<and> unbroken l"
    using assms event_lines_ok by (cases c) (auto simp: chunk_lines_def unbroken_def)
  show "fold line_seen (chunk_lines c) nothing_seen = chunk_seen c"
    using line_seen_fields(1)[of "''keep-alive''" nothing_seen]
    by (cases c) (simp_all add: chunk_lines_def chunk_seen_def event_lines_seen)
qed

lemma chunks_seen:
  assumes "\<forall>e. Some e \<in> set cs \<longrightarrow> single_lined e"
  shows "sse_lines (concat (map (\<lambda>c. chunk_lines c @ [[]]) cs)) nothing_seen =
    filter (\<lambda>s. s \<noteq> nothing_seen) (map chunk_seen cs)"
  using assms
proof (induction cs)
  case (Cons c cs)
  then have "\<And>e. c = Some e \<Longrightarrow> single_lined e" by simp
  note facts = chunk_facts[OF this]
  show ?case
    using Cons facts(2,3) sse_lines_event[of "chunk_lines c" "concat (map (\<lambda>c. chunk_lines c @ [[]]) cs)" nothing_seen]
    by auto
qed simp

section \<open>Properties\<close>


definition demo_sse_event :: event where
  "demo_sse_event = set_event [CHR ''a'', LF, CHR ''b''] (event_data [CHR ''x'', CR, LF, LF, CHR ''y''])"


end
