(* ===== verification/Api_Schema.thy ===== *)
theory Api_Schema
  imports Schema
begin

text \<open>
  The schemas \<open>src/schema.rs\<close> gives the types of the standard library, and what they promise: the JSON
  that \<open>serde\<close> writes for a value of the type is accepted by the schema, and for the types whose
  range the schema states nothing else is. A type is a value of \<open>api_type\<close>, the methods of the trait
  \<open>ApiSchema\<close> are functions on it; a type of the application is given by its implementation (or by
  its name, where implementations are still to be looked up).
\<close>

section \<open>The implementations of \<open>ApiSchema\<close>\<close>

record api_impl =
  ai_schema :: json
  ai_schema_with :: builder
  ai_request_schema_with :: builder

datatype 'n api_type =
    T_Int bool nat
  | T_Isize
  | T_Usize
  | T_F32
  | T_F64
  | T_String
  | T_Bool
  | T_Uuid
  | T_Value
  | T_Option "'n api_type"
  | T_Vec "'n api_type"
  | T_Boxed "'n api_type"
  | T_Map "'n api_type"
  | T_Named 'n

text \<open>\<open>MIN\<close> and \<open>MAX\<close> of a sized integer type.\<close>

definition int_min :: "bool \<Rightarrow> nat \<Rightarrow> int" where
  "int_min negs w = (if negs then - (2 ^ (w - 1)) else 0)"

definition int_max :: "bool \<Rightarrow> nat \<Rightarrow> int" where
  "int_max negs w = (if negs then 2 ^ (w - 1) - 1 else 2 ^ w - 1)"

definition int_format :: "bool \<Rightarrow> nat \<Rightarrow> string" where
  "int_format negs w = (if negs then (if w = 64 then ''int64'' else ''int32'')
                          else (if w = 64 then ''uint64'' else ''uint32''))"

definition integer_schema :: "bool \<Rightarrow> nat \<Rightarrow> json" where
  "integer_schema negs w =
     JObj (obj_of [(''type'', JStr ''integer''), (''format'', JStr (int_format negs w)),
       (''minimum'', JInt (int_min negs w)), (''maximum'', JInt (int_max negs w))])"

definition isize_schema :: json where
  "isize_schema = JObj (obj_of [(''type'', JStr ''integer''), (''format'', JStr ''int64'')])"

definition usize_schema :: json where
  "usize_schema = JObj (obj_of [(''type'', JStr ''integer''), (''format'', JStr ''uint64''), (''minimum'', JInt 0)])"

definition f32_schema :: json where
  "f32_schema = JObj (obj_of [(''type'', JStr ''number''), (''format'', JStr ''float'')])"

definition f64_schema :: json where
  "f64_schema = JObj (obj_of [(''type'', JStr ''number''), (''format'', JStr ''double'')])"

definition string_schema :: json where
  "string_schema = JObj [(''type'', JStr ''string'')]"

definition bool_schema :: json where
  "bool_schema = JObj [(''type'', JStr ''boolean'')]"

definition uuid_schema :: json where
  "uuid_schema = JObj (obj_of [(''type'', JStr ''string''), (''format'', JStr ''uuid'')])"

definition value_schema :: json where
  "value_schema = JObj []"

definition nullable_schema :: "json \<Rightarrow> json" where
  "nullable_schema s = JObj [(''anyOf'', JArr [s, JObj [(''type'', JStr ''null'')]])]"

definition array_schema :: "json \<Rightarrow> json" where
  "array_schema s = JObj (obj_of [(''type'', JStr ''array''), (''items'', s)])"

definition map_schema :: "json \<Rightarrow> json" where
  "map_schema s = JObj (obj_of [(''type'', JStr ''object''), (''additionalProperties'', s)])"

fun api_schema :: "api_impl api_type \<Rightarrow> json" where
  "api_schema (T_Int negs w) = integer_schema negs w"
| "api_schema T_Isize = isize_schema"
| "api_schema T_Usize = usize_schema"
| "api_schema T_F32 = f32_schema"
| "api_schema T_F64 = f64_schema"
| "api_schema T_String = string_schema"
| "api_schema T_Bool = bool_schema"
| "api_schema T_Uuid = uuid_schema"
| "api_schema T_Value = value_schema"
| "api_schema (T_Option t) = nullable_schema (api_schema t)"
| "api_schema (T_Vec t) = array_schema (api_schema t)"
| "api_schema (T_Boxed t) = api_schema t"
| "api_schema (T_Map t) = map_schema (api_schema t)"
| "api_schema (T_Named i) = ai_schema i"

definition map_built :: "(json \<Rightarrow> json) \<Rightarrow> builder \<Rightarrow> builder" where
  "map_built f build r = (let (s, r) = build r in (f s, r))"

fun api_schema_with :: "api_impl api_type \<Rightarrow> builder" where
  "api_schema_with (T_Option t) = map_built nullable_schema (api_schema_with t)"
| "api_schema_with (T_Vec t) = map_built array_schema (api_schema_with t)"
| "api_schema_with (T_Boxed t) = api_schema_with t"
| "api_schema_with (T_Map t) = map_built map_schema (api_schema_with t)"
| "api_schema_with (T_Named i) = ai_schema_with i"
| "api_schema_with t = (\<lambda>r. (api_schema t, r))"

fun api_request_schema_with :: "api_impl api_type \<Rightarrow> builder" where
  "api_request_schema_with (T_Option t) = map_built nullable_schema (api_request_schema_with t)"
| "api_request_schema_with (T_Vec t) = map_built array_schema (api_request_schema_with t)"
| "api_request_schema_with (T_Boxed t) = api_request_schema_with t"
| "api_request_schema_with (T_Map t) = map_built map_schema (api_request_schema_with t)"
| "api_request_schema_with (T_Named i) = ai_request_schema_with i"
| "api_request_schema_with t = api_schema_with t"

text \<open>\<open>integer_schema!\<close> is used at these widths.\<close>

definition sized_integers :: "(bool \<times> nat) list" where
  "sized_integers =
     [(True, 8), (True, 16), (True, 32), (True, 64), (False, 8), (False, 16), (False, 32), (False, 64)]"

section \<open>What the schemas accept\<close>

text \<open>The keywords of JSON Schema the implementations use. Fuel bounds the depth of the schema.\<close>

definition type_accepts :: "string \<Rightarrow> json \<Rightarrow> bool" where
  "type_accepts t j =
     (case j of
        JNull \<Rightarrow> t = ''null''
      | JBool _ \<Rightarrow> t = ''boolean''
      | JInt _ \<Rightarrow> t = ''integer'' \<or> t = ''number''
      | JFloat _ \<Rightarrow> t = ''number''
      | JStr _ \<Rightarrow> t = ''string''
      | JArr _ \<Rightarrow> t = ''array''
      | JObj _ \<Rightarrow> t = ''object'')"

fun as_int :: "json \<Rightarrow> int option" where
  "as_int (JInt i) = Some i"
| "as_int _ = None"

fun elements_of :: "json \<Rightarrow> json list" where
  "elements_of (JArr xs) = xs"
| "elements_of _ = []"

fun members_of :: "json \<Rightarrow> (string \<times> json) list" where
  "members_of (JObj kvs) = kvs"
| "members_of _ = []"

definition member_names :: "json option \<Rightarrow> string list" where
  "member_names s = (case s of Some j \<Rightarrow> map fst (members_of j) | None \<Rightarrow> [])"

fun accepts :: "nat \<Rightarrow> json \<Rightarrow> json \<Rightarrow> bool" where
  "accepts 0 s j = False"
| "accepts (Suc n) s j \<longleftrightarrow>
     (case as_object s of
        None \<Rightarrow> False
      | Some kvs \<Rightarrow>
          (case map_of kvs ''type'' of Some (JStr t) \<Rightarrow> type_accepts t j | _ \<Rightarrow> True) \<and>
          (case map_of kvs ''minimum'' of Some (JInt m) \<Rightarrow> (case as_int j of Some i \<Rightarrow> m \<le> i | None \<Rightarrow> True) | _ \<Rightarrow> True) \<and>
          (case map_of kvs ''maximum'' of Some (JInt m) \<Rightarrow> (case as_int j of Some i \<Rightarrow> i \<le> m | None \<Rightarrow> True) | _ \<Rightarrow> True) \<and>
          (case map_of kvs ''enum'' of Some (JArr vs) \<Rightarrow> j \<in> set vs | _ \<Rightarrow> True) \<and>
          (case map_of kvs ''items'' of Some s \<Rightarrow> list_all (accepts n s) (elements_of j) | None \<Rightarrow> True) \<and>
          (case map_of kvs ''properties'' of
             Some (JObj ps) \<Rightarrow>
               list_all (\<lambda>(k, s). case map_of (members_of j) k of None \<Rightarrow> True | Some v \<Rightarrow> accepts n s v) ps
           | _ \<Rightarrow> True) \<and>
          (case map_of kvs ''required'' of
             Some (JArr ks) \<Rightarrow>
               (case j of JObj m \<Rightarrow> list_all (\<lambda>k. case k of JStr k \<Rightarrow> map_of m k \<noteq> None | _ \<Rightarrow> True) ks | _ \<Rightarrow> True)
           | _ \<Rightarrow> True) \<and>
          (case map_of kvs ''additionalProperties'' of
             Some s \<Rightarrow>
               list_all (\<lambda>(k, v). k \<in> set (member_names (map_of kvs ''properties'')) \<or> accepts n s v) (members_of j)
           | None \<Rightarrow> True) \<and>
          (case map_of kvs ''allOf'' of Some (JArr ss) \<Rightarrow> list_all (\<lambda>s. accepts n s j) ss | _ \<Rightarrow> True) \<and>
          (case map_of kvs ''anyOf'' of Some (JArr ss) \<Rightarrow> list_ex (\<lambda>s. accepts n s j) ss | _ \<Rightarrow> True) \<and>
          (case map_of kvs ''oneOf'' of
             Some (JArr ss) \<Rightarrow> length (filter (\<lambda>s. accepts n s j) ss) = 1 | _ \<Rightarrow> True))"

text \<open>The JSON of a value of a type of the standard library, as \<open>serde_json\<close> documents it; \<open>NaN\<close> and the infinities have none of
  their type, they become \<open>null\<close>.\<close>

fun encodes :: "'n api_type \<Rightarrow> json \<Rightarrow> bool" where
  "encodes (T_Int negs w) j = (case j of JInt i \<Rightarrow> int_min negs w \<le> i \<and> i \<le> int_max negs w | _ \<Rightarrow> False)"
| "encodes T_Isize j = (case j of JInt i \<Rightarrow> int_min True 64 \<le> i \<and> i \<le> int_max True 64 | _ \<Rightarrow> False)"
| "encodes T_Usize j = (case j of JInt i \<Rightarrow> 0 \<le> i \<and> i \<le> int_max False 64 | _ \<Rightarrow> False)"
| "encodes T_F32 j = (case j of JFloat _ \<Rightarrow> True | JInt _ \<Rightarrow> True | _ \<Rightarrow> False)"
| "encodes T_F64 j = (case j of JFloat _ \<Rightarrow> True | JInt _ \<Rightarrow> True | _ \<Rightarrow> False)"
| "encodes T_String j = (case j of JStr _ \<Rightarrow> True | _ \<Rightarrow> False)"
| "encodes T_Bool j = (case j of JBool _ \<Rightarrow> True | _ \<Rightarrow> False)"
| "encodes T_Uuid j = (case j of JStr _ \<Rightarrow> True | _ \<Rightarrow> False)"
| "encodes T_Value j = True"
| "encodes (T_Option t) j \<longleftrightarrow> j = JNull \<or> encodes t j"
| "encodes (T_Vec t) j = (case j of JArr xs \<Rightarrow> list_all (encodes t) xs | _ \<Rightarrow> False)"
| "encodes (T_Boxed t) j = encodes t j"
| "encodes (T_Map t) j = (case j of JObj kvs \<Rightarrow> list_all (encodes t) (map snd kvs) | _ \<Rightarrow> False)"
| "encodes (T_Named i) j = False"

section \<open>Properties\<close>

fun std_type :: "'n api_type \<Rightarrow> bool" where
  "std_type (T_Named i) = False"
| "std_type (T_Int negs w) \<longleftrightarrow> (negs, w) \<in> set sized_integers"
| "std_type (T_Option t) = std_type t"
| "std_type (T_Vec t) = std_type t"
| "std_type (T_Boxed t) = std_type t"
| "std_type (T_Map t) = std_type t"
| "std_type t = True"

text \<open>The types whose schema states their whole range.\<close>

fun exact_type :: "'n api_type \<Rightarrow> bool" where
  "exact_type T_Isize = False"
| "exact_type T_Usize = False"
| "exact_type (T_Option t) = exact_type t"
| "exact_type (T_Vec t) = exact_type t"
| "exact_type (T_Boxed t) = exact_type t"
| "exact_type (T_Map t) = exact_type t"
| "exact_type t = True"

fun levels :: "'n api_type \<Rightarrow> nat" where
  "levels (T_Option t) = Suc (levels t)"
| "levels (T_Vec t) = Suc (levels t)"
| "levels (T_Boxed t) = levels t"
| "levels (T_Map t) = Suc (levels t)"
| "levels t = 1"

lemma map_of_obj_of: "map_of (obj_of kvs) = map_of (rev kvs)"
proof -
  have "map_of (fold (\<lambda>(k, v) m. obj_insert k v m) kvs m) = map_of m ++ map_of (rev kvs)" for m
    by (induction kvs arbitrary: m) (auto simp: fun_eq_iff map_add_def split: option.splits)
  then show ?thesis by (simp add: obj_of_def)
qed

lemma levels_pos: "0 < levels t"
  by (induction t) auto

lemma accepts_leaf:
  "accepts (Suc n) (integer_schema negs w) j \<longleftrightarrow> (\<exists>i. j = JInt i \<and> int_min negs w \<le> i \<and> i \<le> int_max negs w)"
  "accepts (Suc n) isize_schema j \<longleftrightarrow> (\<exists>i. j = JInt i)"
  "accepts (Suc n) usize_schema j \<longleftrightarrow> (\<exists>i. j = JInt i \<and> 0 \<le> i)"
  "accepts (Suc n) f32_schema j \<longleftrightarrow> (\<exists>i. j = JInt i) \<or> (\<exists>q. j = JFloat q)"
  "accepts (Suc n) f64_schema j \<longleftrightarrow> (\<exists>i. j = JInt i) \<or> (\<exists>q. j = JFloat q)"
  "accepts (Suc n) string_schema j \<longleftrightarrow> (\<exists>s. j = JStr s)"
  "accepts (Suc n) bool_schema j \<longleftrightarrow> (\<exists>b. j = JBool b)"
  "accepts (Suc n) uuid_schema j \<longleftrightarrow> (\<exists>s. j = JStr s)"
  "accepts (Suc n) value_schema j"
  by (cases j; simp add: integer_schema_def isize_schema_def usize_schema_def f32_schema_def f64_schema_def
      string_schema_def bool_schema_def uuid_schema_def value_schema_def map_of_obj_of type_accepts_def)+

lemma list_all_members [simp]: "list_all (\<lambda>(k, v). P v) kvs = list_all P (map snd kvs)"
  by (induction kvs) auto

lemma accepts_compound:
  "accepts (Suc (Suc n)) (nullable_schema s) j \<longleftrightarrow> accepts (Suc n) s j \<or> j = JNull"
  "accepts (Suc n) (array_schema s) j \<longleftrightarrow> (\<exists>xs. j = JArr xs \<and> list_all (accepts n s) xs)"
  "accepts (Suc n) (map_schema s) j \<longleftrightarrow> (\<exists>kvs. j = JObj kvs \<and> list_all (accepts n s) (map snd kvs))"
  by (cases j; simp add: nullable_schema_def array_schema_def map_schema_def map_of_obj_of type_accepts_def member_names_def del: map_map)+

declare accepts.simps [simp del]

lemma encodes_accepted:
  "std_type t \<Longrightarrow> encodes t j \<Longrightarrow> levels t \<le> n \<Longrightarrow> accepts n (api_schema t) j"
proof (induction t arbitrary: n j)
  case (T_Option t)
  then obtain m where "n = Suc (Suc m)"
    using levels_pos[of t] by (cases n; cases "n - 1") auto
  then show ?case using T_Option by (auto simp: accepts_compound)
next
  case (T_Vec t)
  then obtain m where "n = Suc m" by (cases n) auto
  then show ?case using T_Vec by (auto simp: accepts_compound list_all_iff split: json.splits)
next
  case (T_Map t)
  then obtain m where "n = Suc m" by (cases n) auto
  then show ?case using T_Map by (auto simp: accepts_compound list_all_iff split: json.splits)
qed (use levels_pos in \<open>auto simp: accepts_leaf Suc_le_eq gr0_conv_Suc split: json.splits\<close>)

lemma accepted_encodes:
  "std_type t \<Longrightarrow> exact_type t \<Longrightarrow> levels t \<le> n \<Longrightarrow> accepts n (api_schema t) j \<Longrightarrow> encodes t j"
proof (induction t arbitrary: n j)
  case (T_Option t)
  then obtain m where "n = Suc (Suc m)"
    using levels_pos[of t] by (cases n; cases "n - 1") auto
  then show ?case using T_Option by (auto simp: accepts_compound)
next
  case (T_Vec t)
  then obtain m where "n = Suc m" by (cases n) auto
  then show ?case using T_Vec by (auto simp: accepts_compound list_all_iff)
next
  case (T_Map t)
  then obtain m where "n = Suc m" by (cases n) auto
  then show ?case using T_Map by (auto simp: accepts_compound list_all_iff)
qed (use levels_pos in \<open>auto simp: accepts_leaf Suc_le_eq gr0_conv_Suc\<close>)

text \<open>None of these types has a name, so each is inlined wherever it is used.\<close>

lemma std_type_inlined:
  "std_type t \<Longrightarrow> api_schema_with t r = (api_schema t, r) \<and> api_request_schema_with t r = (api_schema t, r)"
  by (induction t) (auto simp: map_built_def)

text \<open>The schema the framework documents for a standard type, in a response and in a request alike,
  accepts the JSON of every value of the type; and unless the type is pointer-sized, whose range
  depends on the platform, it accepts no other JSON: a number out of the range of its integer type, a
  \<open>null\<close> where no \<open>Option\<close> is, an element of the wrong type.\<close>

theorem schema_describes_type:
  assumes "std_type t" "levels t \<le> n"
  shows "api_schema_with t r = (api_schema t, r) \<and> api_request_schema_with t r = (api_schema t, r) \<and>
    (encodes t j \<longrightarrow> accepts n (api_schema t) j) \<and>
    (exact_type t \<longrightarrow> accepts n (api_schema t) j \<longrightarrow> encodes t j)"
  using std_type_inlined[OF assms(1)] encodes_accepted[OF assms(1) _ assms(2)] accepted_encodes[OF assms(1) _ assms(2)]
  by blast

theorem schema_describes_type_witness:
  "accepts 2 (api_schema (T_Vec (T_Int False 8))) (JArr [JInt 0, JInt 255]) \<and>
   \<not> accepts 2 (api_schema (T_Vec (T_Int False 8))) (JArr [JInt 256])"
  using schema_describes_type[of "T_Vec (T_Int False 8)" 2 registry_document "JArr [JInt 0, JInt 255]"]
    schema_describes_type[of "T_Vec (T_Int False 8)" 2 registry_document "JArr [JInt 256]"]
  by (simp add: sized_integers_def int_min_def int_max_def)

end
