(* ===== verification/Group.thy ===== *)
theory Group
  imports Dispatch_Properties Multipart
begin

text \<open>
  Model of \<open>src/group.rs\<close> and of \<open>App::group\<close>: routes registered under a shared prefix. A group is a
  prefix and the application it borrows; the closure that fills it is a function of the group, and
  what it leaves is the application again.
\<close>

section \<open>The prefix\<close>

definition group_join :: "string \<Rightarrow> string \<Rightarrow> string" where
  "group_join pfx path =
     (let pfx = trim_char slash pfx; path = trim_char slash path
      in (if pfx = [] then (if path = [] then [slash] else slash # path)
          else (if path = [] then slash # pfx else slash # pfx @ slash # path)))"

record ('s, 'i, 'w) group =
  gr_prefix :: string
  gr_app :: "('s, 'i, 'w) app"

definition app_group ::
  "string \<Rightarrow> (('s, 'i, 'w) group \<Rightarrow> ('s, 'i, 'w) group outcome) \<Rightarrow> ('s, 'i, 'w) app \<Rightarrow> ('s, 'i, 'w) app outcome" where
  "app_group pfx f a = map_outcome gr_app (f \<lparr>gr_prefix = pfx, gr_app = a\<rparr>)"

definition group_nested ::
  "string \<Rightarrow> (('s, 'i, 'w) group \<Rightarrow> ('s, 'i, 'w) group outcome) \<Rightarrow> ('s, 'i, 'w) group \<Rightarrow> ('s, 'i, 'w) group outcome" where
  "group_nested pfx f g =
     map_outcome (\<lambda>nested. g\<lparr>gr_app := gr_app nested\<rparr>)
       (f \<lparr>gr_prefix = group_join (gr_prefix g) pfx, gr_app = gr_app g\<rparr>)"

section \<open>Forwarding\<close>

text \<open>Every other method acts on the application and returns the group.\<close>

definition group_does ::
  "(('s, 'i, 'w) app \<Rightarrow> ('s, 'i, 'w) app outcome) \<Rightarrow> ('s, 'i, 'w) group \<Rightarrow> ('s, 'i, 'w) group outcome" where
  "group_does f g = map_outcome (\<lambda>a. g\<lparr>gr_app := a\<rparr>) (f (gr_app g))"

definition group_get where "group_get path h g = group_does (app_get (group_join (gr_prefix g) path) h) g"
definition group_post where "group_post path h g = group_does (app_post (group_join (gr_prefix g) path) h) g"
definition group_put where "group_put path h g = group_does (app_put (group_join (gr_prefix g) path) h) g"
definition group_patch where "group_patch path h g = group_does (app_patch (group_join (gr_prefix g) path) h) g"
definition group_delete where "group_delete path h g = group_does (app_delete (group_join (gr_prefix g) path) h) g"
definition group_head where "group_head path h g = group_does (app_head (group_join (gr_prefix g) path) h) g"
definition group_options where "group_options path h g = group_does (app_options (group_join (gr_prefix g) path) h) g"
definition group_raw where "group_raw m path h g = group_does (app_raw m (group_join (gr_prefix g) path) h) g"
definition group_raw_get where "group_raw_get path h g = group_does (app_raw_get (group_join (gr_prefix g) path) h) g"

definition group_static_text where
  "group_static_text path body g = group_does (app_static_text (group_join (gr_prefix g) path) body) g"

definition group_static_json where
  "group_static_json path body g = group_does (app_static_json (group_join (gr_prefix g) path) body) g"

definition group_layer where "group_layer l g = group_does (app_layer_for (gr_prefix g) l) g"

definition group_layer_for where
  "group_layer_for pfx l g = group_does (app_layer_for (group_join (gr_prefix g) pfx) l) g"

definition group_tag where "group_tag tag g = group_does (app_tag tag) g"
definition group_problem_responses where "group_problem_responses ss g = group_does (app_problem_responses ss) g"
definition group_summary where "group_summary summary g = group_does (app_summary summary) g"
definition group_operation_id where "group_operation_id oid g = group_does (app_operation_id oid) g"
definition group_security where "group_security schemes g = group_does (app_security schemes) g"
definition group_public where "group_public g = group_does app_public g"
definition group_body_limit where "group_body_limit n g = group_does (app_body_limit n) g"
definition group_route_layer where "group_route_layer l g = group_does (app_route_layer l) g"
definition group_multipart_fields where "group_multipart_fields fs g = group_does (app_multipart_fields fs) g"

lemmas group_registrations =
  group_get_def group_post_def group_put_def group_patch_def group_delete_def group_head_def group_options_def
  app_get_def app_post_def app_put_def app_patch_def app_delete_def app_head_def app_options_def

section \<open>Where a joined path leads\<close>

lemma trim_start_char_append: "\<exists>t. s = t @ trim_start_char c s \<and> set t \<subseteq> {c}"
proof -
  have "s = takeWhile (\<lambda>x. x = c) s @ trim_start_char c s"
    by (simp add: trim_start_char_def)
  moreover have "set (takeWhile (\<lambda>x. x = c) s) \<subseteq> {c}"
    by (auto dest: set_takeWhileD)
  ultimately show ?thesis by blast
qed

lemma pieces_trim_char: "pieces (trim_char slash s) = pieces s"
proof -
  obtain t where t: "s = t @ trim_start_char slash s" "set t \<subseteq> {slash}"
    using trim_start_char_append by blast
  then have "pieces s = pieces (trim_start_char slash s)"
    using pieces_slashes by metis
  then show ?thesis
    by (simp add: trim_char_def pieces_trim_end)
qed

lemma pieces_append_slash: "pieces (p @ slash # q) = pieces p @ pieces q"
proof -
  have "str_split c (p @ c # q) = str_split c p @ str_split c q" for c :: char
    by (induction p) (auto split: list.splits)
  then show ?thesis by (simp add: pieces_def)
qed

lemma group_join_split: "split_path (group_join pfx path) = split_path pfx @ split_path path"
proof -
  have "pieces (group_join pfx path) = pieces (trim_char slash pfx) @ pieces (trim_char slash path)"
    by (simp add: group_join_def Let_def pieces_append_slash)
  then show ?thesis by (simp add: split_path_pieces pieces_trim_char)
qed

lemma group_join_slash: "starts_with (group_join pfx path) [slash]"
  by (simp add: group_join_def Let_def starts_with_def)

lemma group_join_assoc: "split_path (group_join (group_join a b) c) = split_path (group_join a (group_join b c))"
  by (simp add: group_join_split)

section \<open>Properties\<close>

text \<open>A pattern covers a path below it: the pattern of a prefix decides on the segments alone.\<close>

lemma prefix_layer_scope:
  assumes "app_layer_for pfx l a = Ret a'" "scope_parse pfx = Ret segs"
  shows "app_middleware a' = app_middleware a @ [\<lparr>sl_scope = Scope_Prefix segs, sl_layer = l\<rparr>]"
    "scope_matches (Scope_Prefix segs) m p \<longleftrightarrow> scope_covers segs (split_path p) False"
  using assms by (auto simp: app_layer_for_def scope_matches_def segments_match_covers)

lemma nested_prefix_split: "split_path (foldl group_join pfx ps) = split_path pfx @ concat (map split_path ps)"
  by (induction ps arbitrary: pfx) (simp_all add: group_join_split)

text \<open>A layer of a group covers every request the router serves on a route registered through the
  group, or through any group nested in it, whatever slashes the prefixes and the path were written
  with; and it covers no request whose path does not lie below the prefix.\<close>

theorem group_layers_cover_group_routes:
  assumes "wf_app b" "length path \<le> u32_max" "route_request (inner_of_app b) m path = Ret (Routed r caps)"
    and "rm_template (app_metadata b ! route_id_index r) = normalize_path (group_join (foldl group_join (gr_prefix g) nested) p)"
    and "group_layer l g = Ret g'"
  shows "\<exists>entry segs. app_middleware (gr_app g') = app_middleware (gr_app g) @ [entry] \<and> sl_layer entry = l \<and>
    scope_matches (sl_scope entry) m path \<and>
    scope_parse (gr_prefix g) = Ret segs \<and>
    (\<forall>m' path'. scope_matches (sl_scope entry) m' path' = scope_covers segs (split_path path') False)"
proof -
  obtain a' where a': "app_layer_for (gr_prefix g) l (gr_app g) = Ret a'" "g' = g\<lparr>gr_app := a'\<rparr>"
    using assms(5) unfolding group_layer_def group_does_def map_outcome_Ret by blast
  then obtain segs where segs: "scope_parse (gr_prefix g) = Ret segs"
    unfolding app_layer_for_def map_outcome_Ret by blast
  have "split_path (rm_template (app_metadata b ! route_id_index r)) =
      split_path (gr_prefix g) @ concat (map split_path nested) @ split_path p"
    unfolding assms(4) by (simp add: normalize_path_split group_join_split nested_prefix_split)
  from prefix_layer_covers[OF assms(1-3) a'(1) this] obtain entry where
    entry: "app_middleware a' = app_middleware (gr_app g) @ [entry]" "sl_layer entry = l"
      "scope_matches (sl_scope entry) m path"
    by blast
  moreover have "entry = \<lparr>sl_scope = Scope_Prefix segs, sl_layer = l\<rparr>"
    using entry(1) prefix_layer_scope(1)[OF a'(1) segs] by simp
  ultimately show ?thesis
    using segs a'(2) prefix_layer_scope(2)[OF a'(1) segs]
    by (intro exI[of _ entry] exI[of _ segs]) simp
qed

theorem group_layers_cover_group_routes_witness:
  "\<exists>a g' entry. demo_app = Ret a \<and>
     group_layer (\<lambda>request k. k request) \<lparr>gr_prefix = ''items/'', gr_app = a\<rparr> = Ret g' \<and>
     app_middleware (gr_app g') = app_middleware a @ [entry] \<and>
     scope_matches (sl_scope entry) GET ''/items/7'' \<and> \<not> scope_matches (sl_scope entry) GET ''/other/7''"
proof -
  obtain a where a: "demo_app = Ret a" "wf_app a" "length (app_metadata a) = 2" "app_last a = Some 1"
      "serves (app_metadata a ! 1) ''/items/7''" "\<not> serves (app_metadata a ! 0) ''/items/7''"
      "rm_method (app_metadata a ! 1) = GET" "rm_template (app_metadata a ! 1) = ''/items/{id}''"
    using demo_routing by blast
  have "outranks (app_metadata a ! 1) (app_metadata a ! 1)"
    by (auto simp: outranks_def)
  then have "\<forall>md' \<in> set (app_metadata a). serves md' ''/items/7'' \<longrightarrow> outranks (app_metadata a ! 1) md'"
    using a(3,6) by (auto simp: in_set_conv_nth less_2_cases_iff)
  then obtain caps where routed: "route_request (inner_of_app a) GET ''/items/7'' = Ret (Routed 1 caps)"
    using route_request_complete[OF a(2) demo_short(2), of 1] a(3,5,7) by auto
  have one: "route_id_index 1 = 1"
    by (simp add: route_id_index_def)
  let ?g = "\<lparr>gr_prefix = ''items/'', gr_app = a\<rparr>" and ?l = "\<lambda>request k. k request"
  have parts: "split_path ''items/'' = [''items'']" "split_path ''/other/7'' = [''other'', ''7'']"
    by (simp_all add: split_path_pieces pieces_def)
  have scope: "scope_parse ''items/'' = Ret [Seg_Literal ''items'']"
    by (simp add: scope_parse_def parts parse_scope_segment_def starts_with_def contains_char_def)
  then obtain g' where g': "group_layer ?l ?g = Ret g'"
    by (simp add: group_layer_def group_does_def app_layer_for_def)
  have template: "rm_template (app_metadata a ! route_id_index 1) =
      normalize_path (group_join (foldl group_join (gr_prefix ?g) []) ''{id}'')"
    unfolding one a(8) by (simp add: group_join_def trim_char_def trim_start_char_def trim_end_char_def normalize_path_def)
  obtain entry segs where e: "app_middleware (gr_app g') = app_middleware a @ [entry]"
      "scope_matches (sl_scope entry) GET ''/items/7''" "scope_parse ''items/'' = Ret segs"
      "\<forall>m' path'. scope_matches (sl_scope entry) m' path' = scope_covers segs (split_path path') False"
    using group_layers_cover_group_routes[OF a(2) demo_short(2) routed template g'] by auto
  have segs: "segs = [Seg_Literal ''items'']"
    using scope e(3) by simp
  have "\<not> scope_matches (sl_scope entry) GET ''/other/7''"
    unfolding e(4)[rule_format] segs by (simp add: parts segment_ok_def decoded_equals_def contains_char_def)
  then show ?thesis
    using a(1) g' e by blast
qed

text \<open>A path without a leading slash is refused by the application and taken by a group.\<close>

lemma group_takes_bare_path: "group_join ''/a'' ''users'' = ''/a/users'' \<and> \<not> starts_with ''users'' [slash]"
  by (simp add: group_join_def trim_char_def trim_start_char_def trim_end_char_def starts_with_def)

end
