(* ===== verification/Web.thy ===== *)
theory Web
  imports Handlers Path_Parts
begin

text \<open>
  Model of \<open>src/web.rs\<close>: responses with extra headers, redirects, HTML, cookies in both directions and
  form bodies. \<open>header_from_str\<close> is \<open>HeaderValue::from_str\<close> of the \<open>http\<close> crate, a parameter; a value of
  a type with \<open>IntoResponse\<close> is the response it becomes, and \<open>T::parse\<close> of a form is a function.
\<close>

section \<open>Cookies to the client\<close>

datatype same_site = SameSite_Strict | SameSite_Lax | SameSite_None

record set_cookie =
  sc_name :: string
  sc_value :: string
  sc_path :: "string option"
  sc_domain :: "string option"
  sc_max_age :: "(u64 \<times> nat) option"
  sc_http_only :: bool
  sc_secure :: bool
  sc_same_site :: "same_site option"

definition is_token :: "string \<Rightarrow> bool" where
  "is_token name \<longleftrightarrow>
     name \<noteq> [] \<and>
     list_all (\<lambda>b. is_ascii_alphanumeric b \<or> b \<in> set (''!#$%&'' @ [CHR 0x27] @ ''*+-.^_`|~'')) name"

definition is_cookie_octet :: "char \<Rightarrow> bool" where
  "is_cookie_octet b \<longleftrightarrow>
     byte b = 0x21 \<or> 0x23 \<le> byte b \<and> byte b \<le> 0x2B \<or> 0x2D \<le> byte b \<and> byte b \<le> 0x3A \<or>
     0x3C \<le> byte b \<and> byte b \<le> 0x5B \<or> 0x5D \<le> byte b \<and> byte b \<le> 0x7E"

definition is_attribute_value :: "string \<Rightarrow> bool" where
  "is_attribute_value v \<longleftrightarrow>
     v \<noteq> [] \<and> list_all (\<lambda>b. byte b < 128) v \<and>
     list_all (\<lambda>b. 0x20 \<le> byte b \<and> byte b \<noteq> 0x7F \<and> b \<noteq> CHR '';'') v"

definition set_cookie_new :: "string \<Rightarrow> string \<Rightarrow> set_cookie outcome" where
  "set_cookie_new name v =
     bind_outcome (assert_that (is_token name) ''invalid cookie name'') (\<lambda>_.
     bind_outcome (assert_that (list_all is_cookie_octet v) ''invalid cookie value'') (\<lambda>_.
       Ret \<lparr>sc_name = name, sc_value = v, sc_path = None, sc_domain = None, sc_max_age = None,
            sc_http_only = False, sc_secure = False, sc_same_site = None\<rparr>))"

definition cookie_path :: "string \<Rightarrow> set_cookie \<Rightarrow> set_cookie outcome" where
  "cookie_path p c =
     bind_outcome (assert_that (is_attribute_value p) ''invalid cookie Path'') (\<lambda>_. Ret (c\<lparr>sc_path := Some p\<rparr>))"

definition cookie_domain :: "string \<Rightarrow> set_cookie \<Rightarrow> set_cookie outcome" where
  "cookie_domain d c =
     bind_outcome (assert_that (is_attribute_value d) ''invalid cookie Domain'') (\<lambda>_. Ret (c\<lparr>sc_domain := Some d\<rparr>))"

text \<open>A \<open>Duration\<close> is its whole seconds and the nanoseconds below one.\<close>

definition cookie_max_age :: "u64 \<times> nat \<Rightarrow> set_cookie \<Rightarrow> set_cookie" where
  "cookie_max_age d c = c\<lparr>sc_max_age := Some d\<rparr>"

definition cookie_http_only :: "set_cookie \<Rightarrow> set_cookie" where
  "cookie_http_only c = c\<lparr>sc_http_only := True\<rparr>"

definition cookie_secure :: "set_cookie \<Rightarrow> set_cookie" where
  "cookie_secure c = c\<lparr>sc_secure := True\<rparr>"

definition cookie_same_site :: "same_site \<Rightarrow> set_cookie \<Rightarrow> set_cookie" where
  "cookie_same_site s c = c\<lparr>sc_same_site := Some s\<rparr>"

text \<open>The addition wraps at 64 bits, as it does where overflow is not checked.\<close>

definition max_age_seconds :: "u64 \<times> nat \<Rightarrow> u64" where
  "max_age_seconds d = fst d + (if 0 < snd d then 1 else 0)"

definition same_site_text :: "same_site \<Rightarrow> string" where
  "same_site_text s =
     (case s of SameSite_Strict \<Rightarrow> ''; SameSite=Strict'' | SameSite_Lax \<Rightarrow> ''; SameSite=Lax''
      | SameSite_None \<Rightarrow> ''; SameSite=None'')"

definition set_cookie_text :: "set_cookie \<Rightarrow> string" where
  "set_cookie_text c =
     sc_name c @ ''='' @ sc_value c @
     (case sc_path c of None \<Rightarrow> [] | Some p \<Rightarrow> ''; Path='' @ p) @
     (case sc_domain c of None \<Rightarrow> [] | Some d \<Rightarrow> ''; Domain='' @ d) @
     (case sc_max_age c of None \<Rightarrow> [] | Some d \<Rightarrow> ''; Max-Age='' @ dec (unat (max_age_seconds d))) @
     (if sc_http_only c then ''; HttpOnly'' else []) @
     (if sc_secure c then ''; Secure'' else []) @
     (case sc_same_site c of None \<Rightarrow> [] | Some s \<Rightarrow> same_site_text s)"

section \<open>Responses\<close>

record headered =
  hd_inner :: response
  hd_status :: "nat option"
  hd_headers :: "(string \<times> header_value) list"

definition ext_with_header :: "string \<Rightarrow> header_value \<Rightarrow> response \<Rightarrow> headered" where
  "ext_with_header name v r = \<lparr>hd_inner = r, hd_status = None, hd_headers = [(name, v)]\<rparr>"

definition ext_with_status :: "nat \<Rightarrow> response \<Rightarrow> headered" where
  "ext_with_status status r = \<lparr>hd_inner = r, hd_status = Some status, hd_headers = []\<rparr>"

definition cookie_value :: "(string \<Rightarrow> header_value option) \<Rightarrow> set_cookie \<Rightarrow> header_value outcome" where
  "cookie_value header_from_str c = expect (header_from_str (set_cookie_text c)) ''a valid Set-Cookie value''"

definition ext_with_cookie ::
  "(string \<Rightarrow> header_value option) \<Rightarrow> set_cookie \<Rightarrow> response \<Rightarrow> headered outcome" where
  "ext_with_cookie header_from_str c r =
     bind_outcome (cookie_value header_from_str c) (\<lambda>v. Ret (ext_with_header ''set-cookie'' v r))"

definition with_header :: "string \<Rightarrow> header_value \<Rightarrow> headered \<Rightarrow> headered" where
  "with_header name v h = h\<lparr>hd_headers := hd_headers h @ [(name, v)]\<rparr>"

definition with_status :: "nat \<Rightarrow> headered \<Rightarrow> headered" where
  "with_status status h = h\<lparr>hd_status := Some status\<rparr>"

definition with_cookie ::
  "(string \<Rightarrow> header_value option) \<Rightarrow> set_cookie \<Rightarrow> headered \<Rightarrow> headered outcome" where
  "with_cookie header_from_str c h =
     bind_outcome (cookie_value header_from_str c) (\<lambda>v. Ret (with_header ''set-cookie'' v h))"

definition put_header :: "string \<times> header_value \<Rightarrow> headers \<Rightarrow> headers" where
  "put_header kv h =
     (if fst kv = ''set-cookie'' then hm_append (fst kv) (snd kv) h else hm_insert (fst kv) (snd kv) h)"

definition headered_response :: "headered \<Rightarrow> response" where
  "headered_response h =
     (let r = hd_inner h;
          r = (case hd_status h of None \<Rightarrow> r | Some s \<Rightarrow> r\<lparr>resp_status := s\<rparr>)
      in r\<lparr>resp_headers := fold put_header (hd_headers h) (resp_headers r)\<rparr>)"

record redirect_answer =
  rd_status :: nat
  rd_location :: header_value

definition redirect_new :: "(string \<Rightarrow> header_value option) \<Rightarrow> nat \<Rightarrow> string \<Rightarrow> redirect_answer outcome" where
  "redirect_new header_from_str status location =
     bind_outcome (expect (header_from_str location) ''a valid redirect location'') (\<lambda>v.
       Ret \<lparr>rd_status = status, rd_location = v\<rparr>)"

definition redirect_found :: "(string \<Rightarrow> header_value option) \<Rightarrow> string \<Rightarrow> redirect_answer outcome" where
  "redirect_found header_from_str location = redirect_new header_from_str 302 location"

definition redirect_see_other :: "(string \<Rightarrow> header_value option) \<Rightarrow> string \<Rightarrow> redirect_answer outcome" where
  "redirect_see_other header_from_str location = redirect_new header_from_str 303 location"

definition redirect_temporary :: "(string \<Rightarrow> header_value option) \<Rightarrow> string \<Rightarrow> redirect_answer outcome" where
  "redirect_temporary header_from_str location = redirect_new header_from_str 307 location"

definition redirect_permanent :: "(string \<Rightarrow> header_value option) \<Rightarrow> string \<Rightarrow> redirect_answer outcome" where
  "redirect_permanent header_from_str location = redirect_new header_from_str 308 location"

definition redirect_response :: "redirect_answer \<Rightarrow> response" where
  "redirect_response rd =
     (new_response (rd_status rd) (Full (Some [])))\<lparr>resp_headers :=
        hm_append ''content-length'' (text_value ''0'') (hm_append ''location'' (rd_location rd) no_headers)\<rparr>"

definition html_response :: "string \<Rightarrow> response" where
  "html_response body =
     insert_header ''content-length'' (dec (length body))
       (insert_header ''content-type'' ''text/html; charset=utf-8'' (new_response 200 (Full (Some body))))"

section \<open>Cookies from the client\<close>

definition unquote :: "string \<Rightarrow> string" where
  "unquote v =
     (case Option.bind (strip_prefix v [CHR 0x22]) (\<lambda>inner. strip_suffix inner [CHR 0x22]) of
        None \<Rightarrow> v | Some inner \<Rightarrow> inner)"

definition cookie_pair :: "string \<Rightarrow> (string \<times> string) option" where
  "cookie_pair pair =
     (case split_once (CHR ''='') (from_utf8_lossy pair) of
        None \<Rightarrow> None
      | Some (name, v) \<Rightarrow>
          if trim name = [] then None else Some (trim name, unquote (trim v)))"

definition cookies_of :: "headers \<Rightarrow> (string \<times> string) list" where
  "cookies_of h =
     List.map_filter cookie_pair (concat (map (\<lambda>v. str_split (CHR '';'') (hv_bytes v)) (hm_get_all h ''cookie'')))"

definition cookies_get :: "(string \<times> string) list \<Rightarrow> string \<Rightarrow> string option" where
  "cookies_get cookies name = map_option snd (find (\<lambda>(candidate, _). candidate = name) cookies)"

definition cookies_extractor :: "('s, (string \<times> string) list) extractor" where
  "cookies_extractor = plain_extractor (\<lambda>request params s. Ret (Inr (cookies_of (rq_headers request))))"

section \<open>Forms\<close>

definition is_form_media_type :: "string \<Rightarrow> bool" where
  "is_form_media_type content_type \<longleftrightarrow>
     eq_ignore_ascii_case (trim (case str_split (CHR '';'') content_type of [] \<Rightarrow> [] | p # _ \<Rightarrow> p))
       ''application/x-www-form-urlencoded''"

fun form_properties :: "json list \<Rightarrow> (string \<times> json) list \<Rightarrow> json list \<Rightarrow> (string \<times> json) list \<times> json list" where
  "form_properties [] properties required = (properties, required)"
| "form_properties (p # ps) properties required =
     (case as_str (json_index p ''name'') of
        None \<Rightarrow> form_properties ps properties required
      | Some name \<Rightarrow>
          form_properties ps (obj_insert name (json_index p ''schema'') properties)
            (if json_index p ''required'' = JBool True then required @ [JStr name] else required))"

definition form_body :: "json list \<Rightarrow> json" where
  "form_body parameters =
     (let (properties, required) = form_properties parameters [] [];
          schema = obj_of ([(''type'', JStr ''object''), (''properties'', JObj properties)] @
                           (if required \<noteq> [] then [(''required'', JArr required)] else []))
      in JObj (obj_of [(''required'', JBool True),
           (''content'', JObj [(''application/x-www-form-urlencoded'', JObj [(''schema'', JObj schema)])])]))"

definition form_from_request :: "(string \<Rightarrow> api_error + 'v) \<Rightarrow> ('s, 'v) from_request" where
  "form_from_request parse request params s =
     Ret (let content_type = (case header_text (rq_headers request) ''content-type'' of None \<Rightarrow> [] | Some t \<Rightarrow> t)
          in if content_type = [] \<and> rq_body request = [] then Inl (missing ''missing form body'')
             else if \<not> is_form_media_type content_type
             then Inl (api_error_new 415 ''Unsupported Media Type'' ''expected application/x-www-form-urlencoded'')
             else if \<not> utf8_valid (rq_body request) then Inl (bad_request ''form body is not valid UTF-8'')
             else parse (replace_char (CHR ''+'') ''%20'' (rq_body request)))"

definition form_extractor :: "json list \<Rightarrow> (string \<Rightarrow> api_error + 'v) \<Rightarrow> ('s, 'v) extractor" where
  "form_extractor parameters parse =
     (plain_extractor (form_from_request parse))
       \<lparr>ex_needs_body := True,
        ex_openapi := (\<lambda>r. (empty_openapi_request\<lparr>or_body := Some (form_body parameters)\<rparr>, r))\<rparr>"

section \<open>What is in a cookie\<close>

definition printable :: "char \<Rightarrow> bool" where
  "printable b \<longleftrightarrow> 32 < byte b \<and> byte b < 127"

text \<open>A cookie as the application can build it.\<close>

inductive cookie_built :: "set_cookie \<Rightarrow> bool" where
  "set_cookie_new n v = Ret c \<Longrightarrow> cookie_built c"
| "cookie_built c \<Longrightarrow> cookie_path p c = Ret c' \<Longrightarrow> cookie_built c'"
| "cookie_built c \<Longrightarrow> cookie_domain d c = Ret c' \<Longrightarrow> cookie_built c'"
| "cookie_built c \<Longrightarrow> cookie_built (cookie_max_age a c)"
| "cookie_built c \<Longrightarrow> cookie_built (cookie_http_only c)"
| "cookie_built c \<Longrightarrow> cookie_built (cookie_secure c)"
| "cookie_built c \<Longrightarrow> cookie_built (cookie_same_site s c)"

definition wf_cookie :: "set_cookie \<Rightarrow> bool" where
  "wf_cookie c \<longleftrightarrow>
     is_token (sc_name c) \<and> list_all is_cookie_octet (sc_value c) \<and>
     (\<forall>p. sc_path c = Some p \<longrightarrow> is_attribute_value p) \<and> (\<forall>d. sc_domain c = Some d \<longrightarrow> is_attribute_value d)"

lemma cookie_built_wf: "cookie_built c \<Longrightarrow> wf_cookie c"
  by (induction rule: cookie_built.induct)
     (auto simp: wf_cookie_def set_cookie_new_def cookie_path_def cookie_domain_def cookie_max_age_def
        cookie_http_only_def cookie_secure_def cookie_same_site_def outcome_simps)

lemma token_char: "is_token s \<Longrightarrow> b \<in> set s \<Longrightarrow> printable b \<and> b \<noteq> CHR '';'' \<and> b \<noteq> CHR ''=''"
  by (auto simp: is_token_def list_all_iff printable_def is_ascii_alphanumeric_def is_ascii_alphabetic_def
      is_ascii_digit_def)

lemma octet_char: "is_cookie_octet b \<Longrightarrow> printable b \<and> b \<noteq> CHR '';'' \<and> b \<noteq> CHR 0x22"
  by (auto simp: is_cookie_octet_def printable_def)

definition cookie_pair_text :: "set_cookie \<Rightarrow> string" where
  "cookie_pair_text c = sc_name c @ ''='' @ sc_value c"

text \<open>The attributes a cookie was given, as a client reads them.\<close>

definition cookie_attributes :: "set_cookie \<Rightarrow> string list" where
  "cookie_attributes c =
     (case sc_path c of None \<Rightarrow> [] | Some p \<Rightarrow> [''Path='' @ p]) @
     (case sc_domain c of None \<Rightarrow> [] | Some d \<Rightarrow> [''Domain='' @ d]) @
     (case sc_max_age c of None \<Rightarrow> [] | Some d \<Rightarrow> [''Max-Age='' @ dec (unat (max_age_seconds d))]) @
     (if sc_http_only c then [''HttpOnly''] else []) @
     (if sc_secure c then [''Secure''] else []) @
     (case sc_same_site c of None \<Rightarrow> [] | Some s \<Rightarrow> [drop 2 (same_site_text s)])"

definition semi :: "string list \<Rightarrow> string" where
  "semi ps = concat (map ((@) ''; '') ps)"

lemma semi_simps [simp]: "semi [] = []" "semi (p # ps) = ''; '' @ p @ semi ps" "semi (ps @ qs) = semi ps @ semi qs"
  by (simp_all add: semi_def)

lemma set_cookie_text_attributes: "set_cookie_text c = cookie_pair_text c @ semi (cookie_attributes c)"
  by (cases "sc_path c"; cases "sc_domain c"; cases "sc_max_age c"; cases "sc_same_site c";
      simp add: set_cookie_text_def cookie_pair_text_def cookie_attributes_def same_site_text_def split: same_site.split)

lemma split_semi:
  "CHR '';'' \<notin> set p \<Longrightarrow> \<forall>a \<in> set ps. CHR '';'' \<notin> set a \<Longrightarrow>
     str_split (CHR '';'') (p @ semi ps) = p # map ((#) (CHR '' '')) ps"
proof (induction ps arbitrary: p)
  case Nil
  then show ?case by (simp add: str_split_no_sep)
next
  case (Cons a ps)
  have "str_split (CHR '';'') (p @ semi (a # ps)) = p # str_split (CHR '';'') ((CHR '' '' # a) @ semi ps)"
    using Cons.prems str_split_append_sep[of "CHR '';''" p "CHR '' '' # a @ semi ps"] by simp
  then show ?case
    using Cons.prems Cons.IH[of "CHR '' '' # a"] by simp
qed

lemma pair_text_no_semi: "wf_cookie c \<Longrightarrow> CHR '';'' \<notin> set (cookie_pair_text c)"
  using token_char octet_char by (auto simp: cookie_pair_text_def wf_cookie_def list_all_iff)

lemma attributes_no_semi: "wf_cookie c \<Longrightarrow> a \<in> set (cookie_attributes c) \<Longrightarrow> CHR '';'' \<notin> set a"
proof -
  have "CHR '';'' \<notin> set (dec n)" for n
    using dec_digits[of "CHR '';''" n] by (auto simp: is_ascii_digit_def)
  moreover have "CHR '';'' \<notin> set (drop 2 (same_site_text s))" for s
    by (cases s) (simp_all add: same_site_text_def)
  moreover have "is_attribute_value v \<Longrightarrow> CHR '';'' \<notin> set v" for v
    by (auto simp: is_attribute_value_def list_all_iff)
  ultimately show "wf_cookie c \<Longrightarrow> a \<in> set (cookie_attributes c) \<Longrightarrow> CHR '';'' \<notin> set a"
    by (cases "sc_path c"; cases "sc_domain c"; cases "sc_max_age c"; cases "sc_same_site c")
       (auto simp: cookie_attributes_def wf_cookie_def split: if_splits)
qed

lemma trim_space: "trim (CHR '' '' # s) = trim s"
proof -
  have "trim_start (CHR '' '' # s) = trim_start s"
    by (subst trim_start.simps) (simp add: white_space_def starts_with_def char_of_def bit_iff_odd)
  then show ?thesis by (simp add: trim_def)
qed

lemma trim_printable: "\<forall>b \<in> set s. printable b \<Longrightarrow> trim s = s"
proof (cases "s = []")
  case True
  have "trim_start [] = []" "trim_end [] = []"
    by (subst trim_start.simps, simp add: white_space_def starts_with_def)
       (subst trim_end.simps, simp add: white_space_def ends_with_def)
  then show ?thesis using True by (simp add: trim_def)
next
  case False
  assume "\<forall>b \<in> set s. printable b"
  then show ?thesis
    using False by (intro trim_plain) (auto simp: printable_def)
qed

lemma cookie_pair_read:
  assumes "wf_cookie c" "pad = [] \<or> pad = '' ''"
  shows "cookie_pair (pad @ cookie_pair_text c) = Some (sc_name c, sc_value c)"
proof -
  have name: "\<forall>b \<in> set (sc_name c). printable b" "sc_name c \<noteq> []" "CHR ''='' \<notin> set (sc_name c)"
    and val: "\<forall>b \<in> set (sc_value c). printable b \<and> b \<noteq> CHR 0x22"
  proof -
    have tok: "is_token (sc_name c)" and oct: "\<forall>b \<in> set (sc_value c). is_cookie_octet b"
      using assms(1) by (simp_all add: wf_cookie_def list_all_iff)
    show "\<forall>b \<in> set (sc_name c). printable b" "CHR ''='' \<notin> set (sc_name c)"
      using token_char[OF tok] by blast+
    show "sc_name c \<noteq> []"
      using tok by (simp add: is_token_def)
    show "\<forall>b \<in> set (sc_value c). printable b \<and> b \<noteq> CHR 0x22"
      using oct octet_char by blast
  qed
  have "\<forall>b \<in> set (pad @ cookie_pair_text c). byte b < 128"
  proof
    fix b
    assume "b \<in> set (pad @ cookie_pair_text c)"
    then have "b = CHR '' '' \<or> b = CHR ''='' \<or> b \<in> set (sc_name c) \<or> b \<in> set (sc_value c)"
      using assms(2) unfolding cookie_pair_text_def by (elim disjE) simp_all
    then have "b = CHR '' '' \<or> b = CHR ''='' \<or> printable b"
      using name(1) val by blast
    then show "byte b < 128"
      unfolding printable_def by (elim disjE) simp_all
  qed
  then have "from_utf8_lossy (pad @ cookie_pair_text c) = pad @ cookie_pair_text c"
    by (intro from_utf8_lossy_valid utf8_valid_all_ascii)
  moreover have "split_once (CHR ''='') (pad @ cookie_pair_text c) = Some (pad @ sc_name c, sc_value c)"
    using name(3) assms(2) unfolding split_once_Some cookie_pair_text_def by (elim disjE) simp_all
  moreover have "trim (pad @ sc_name c) = sc_name c"
    using assms(2) trim_printable[OF name(1)] by (elim disjE) (simp_all add: trim_space)
  moreover have "trim (sc_value c) = sc_value c"
    using val by (intro trim_printable) blast
  moreover have "unquote (sc_value c) = sc_value c"
    using val by (cases "sc_value c") (auto simp: unquote_def strip_prefix_def starts_with_def)
  ultimately show ?thesis
    using name(2) by (simp add: cookie_pair_def)
qed

lemma str_join_semi: "str_join ''; '' (p # ps) = p @ semi ps"
  by (induction ps arbitrary: p) simp_all

section \<open>Properties\<close>


definition demo_cookie :: set_cookie where
  "demo_cookie = \<lparr>sc_name = ''sid'', sc_value = ''a=b'', sc_path = None, sc_domain = None, sc_max_age = None,
     sc_http_only = True, sc_secure = False, sc_same_site = None\<rparr>"


section \<open>The longest lifetime\<close>

text \<open>\<open>Duration::MAX\<close> asks for the longest lifetime there is; rounding it up wraps around and the client
  is told to delete the cookie.\<close>

lemma longest_max_age_deletes:
  "cookie_attributes (cookie_max_age (- 1, 999999999) demo_cookie) = [''Max-Age=0'', ''HttpOnly'']"
  by (simp add: cookie_attributes_def cookie_max_age_def demo_cookie_def max_age_seconds_def)

end
