(* ===== verification/Server.thy ===== *)
theory Server
  imports Connection
begin

text \<open>
  Model of the server loop of \<open>src/runtime.rs\<close> and \<open>src/tls.rs\<close> (\<open>serve_runtime\<close>, \<open>serve_tls\<close>): the slots
  of \<open>max_connections\<close> and who holds them, what a connection task becomes after the first bytes or the
  TLS handshake, and how the connections are drained at shutdown. A slot is an \<open>Arc\<close>: it goes back to
  the semaphore when its last holder, the connection's task, one of its requests or an upgraded
  session, is gone. Times are milliseconds; rustls, its PEM parser and hyper's connections are
  parameters.
\<close>

section \<open>Slots\<close>

text \<open>\<open>sv_held\<close>: the accept loop has a slot and waits for a connection to give it to.\<close>

record server =
  sv_limit :: "nat option"
  sv_free :: nat
  sv_held :: bool
  sv_running :: bool
  sv_tasks :: "nat list"
  sv_requests :: "nat list"
  sv_sessions :: "nat list"
  sv_next :: nat

definition server_new :: "nat \<Rightarrow> nat option \<Rightarrow> server" where
  "server_new max_permits limit =
     (let l = connection_limit max_permits limit
      in \<lparr>sv_limit = l, sv_free = (case l of None \<Rightarrow> 0 | Some n \<Rightarrow> n), sv_held = False, sv_running = True,
          sv_tasks = [], sv_requests = [], sv_sessions = [], sv_next = 0\<rparr>)"

definition slot_holders :: "server \<Rightarrow> nat set" where
  "slot_holders s = set (sv_tasks s) \<union> set (sv_requests s) \<union> set (sv_sessions s)"

text \<open>After a holder of the slot of connection \<open>c\<close> is gone.\<close>

definition slot_dropped :: "nat \<Rightarrow> server \<Rightarrow> server" where
  "slot_dropped c s =
     (if sv_limit s \<noteq> None \<and> c \<notin> slot_holders s then s\<lparr>sv_free := sv_free s + 1\<rparr> else s)"

definition slot_taken :: "server \<Rightarrow> server" where
  "slot_taken s = s\<lparr>sv_free := sv_free s - 1, sv_held := True\<rparr>"

definition connection_accepted :: "server \<Rightarrow> server" where
  "connection_accepted s = s\<lparr>sv_held := False, sv_tasks := sv_tasks s @ [sv_next s], sv_next := Suc (sv_next s)\<rparr>"

text \<open>\<open>ConnectionRuntime::prepare\<close> puts a clone of the slot into the request, and \<open>on_upgrade\<close> takes one
  from there for the session.\<close>

definition request_prepared :: "nat \<Rightarrow> server \<Rightarrow> server" where
  "request_prepared c s = s\<lparr>sv_requests := c # sv_requests s\<rparr>"

definition session_opened :: "nat \<Rightarrow> server \<Rightarrow> server" where
  "session_opened c s = s\<lparr>sv_sessions := c # sv_sessions s\<rparr>"

definition request_dropped :: "nat \<Rightarrow> server \<Rightarrow> server" where
  "request_dropped c s = slot_dropped c (s\<lparr>sv_requests := remove1 c (sv_requests s)\<rparr>)"

definition session_released :: "nat \<Rightarrow> server \<Rightarrow> server" where
  "session_released c s = slot_dropped c (s\<lparr>sv_sessions := remove1 c (sv_sessions s)\<rparr>)"

definition task_ended :: "nat \<Rightarrow> server \<Rightarrow> server" where
  "task_ended c s = slot_dropped c (s\<lparr>sv_tasks := remove1 c (sv_tasks s)\<rparr>)"

text \<open>The loop is left: a slot it held is dropped.\<close>

definition accept_stopped :: "server \<Rightarrow> server" where
  "accept_stopped s =
     s\<lparr>sv_running := False, sv_held := False, sv_free := (if sv_held s then sv_free s + 1 else sv_free s)\<rparr>"

inductive server_step :: "server \<Rightarrow> server \<Rightarrow> bool" where
  take: "sv_running s \<Longrightarrow> \<not> sv_held s \<Longrightarrow> sv_limit s \<noteq> None \<Longrightarrow> 0 < sv_free s \<Longrightarrow> server_step s (slot_taken s)"
| accept: "sv_running s \<Longrightarrow> sv_limit s = None \<or> sv_held s \<Longrightarrow> server_step s (connection_accepted s)"
| request: "c \<in> set (sv_tasks s) \<Longrightarrow> server_step s (request_prepared c s)"
| upgrade: "c \<in> set (sv_requests s) \<Longrightarrow> server_step s (session_opened c s)"
| answered: "c \<in> set (sv_requests s) \<Longrightarrow> server_step s (request_dropped c s)"
| session_over: "c \<in> set (sv_sessions s) \<Longrightarrow> server_step s (session_released c s)"
| task_over: "c \<in> set (sv_tasks s) \<Longrightarrow> server_step s (task_ended c s)"
| stop: "sv_running s \<Longrightarrow> server_step s (accept_stopped s)"

inductive server_reachable :: "nat \<Rightarrow> nat option \<Rightarrow> server \<Rightarrow> bool" for max_permits limit where
  started: "server_reachable max_permits limit (server_new max_permits limit)"
| stepped: "server_reachable max_permits limit s \<Longrightarrow> server_step s s' \<Longrightarrow> server_reachable max_permits limit s'"

section \<open>Connection tasks\<close>

datatype 'e task_plan = Closed "'e option" | Serve_H1 | Serve_H2

text \<open>Detecting h2c under \<open>header_read_timeout\<close>: what it answers and when. \<open>None\<close>: never.\<close>

definition first_bytes :: "'e \<Rightarrow> nat option \<Rightarrow> (nat \<times> ('e + bool)) option \<Rightarrow> (nat \<times> ('e + bool)) option" where
  "first_bytes timed_out limit detection =
     (case limit of
        None \<Rightarrow> detection
      | Some l \<Rightarrow>
          (case detection of
             Some (t, r) \<Rightarrow> if t \<le> l then Some (t, r) else Some (l, Inl timed_out)
           | None \<Rightarrow> Some (l, Inl timed_out)))"

text \<open>Raced with the shutdown signal; an error is reported.\<close>

definition h2c_plan :: "nat option \<Rightarrow> (nat \<times> ('e + bool)) option \<Rightarrow> 'e task_plan option" where
  "h2c_plan stop outcome =
     (case (stop, outcome) of
        (Some s, None) \<Rightarrow> Some (Closed None)
      | (None, None) \<Rightarrow> None
      | (_, Some (t, r)) \<Rightarrow>
          if (case stop of Some s \<Rightarrow> s < t | None \<Rightarrow> False) then Some (Closed None)
          else Some (case r of Inl e \<Rightarrow> Closed (Some e) | Inr is_h2 \<Rightarrow> if is_h2 then Serve_H2 else Serve_H1))"

definition serve_task_plan ::
  "'e \<Rightarrow> bool \<Rightarrow> nat option \<Rightarrow> nat option \<Rightarrow> (nat \<times> ('e + bool)) option \<Rightarrow> 'e task_plan option" where
  "serve_task_plan timed_out h2c limit stop detection =
     (if h2c then h2c_plan stop (first_bytes timed_out limit detection) else Some Serve_H1)"

subsection \<open>TLS\<close>

definition alpn_protocols :: "bool \<Rightarrow> string list" where
  "alpn_protocols http2 = (if http2 then [''h2'', ''http/1.1''] else [''http/1.1''])"

text \<open>The handshake, timed and raced with the signal; its value is the protocol ALPN settled on.\<close>

definition tls_task_plan ::
  "'e \<Rightarrow> nat \<Rightarrow> nat option \<Rightarrow> (nat \<times> ('e + string option)) option \<Rightarrow> 'e task_plan" where
  "tls_task_plan timed_out handshake_timeout stop handshake =
     (let (t, r) = (case handshake of
                      Some (t, r) \<Rightarrow> if t \<le> handshake_timeout then (t, r) else (handshake_timeout, Inl timed_out)
                    | None \<Rightarrow> (handshake_timeout, Inl timed_out))
      in if (case stop of Some s \<Rightarrow> s < t | None \<Rightarrow> False) then Closed None
         else (case r of Inl e \<Rightarrow> Closed (Some e)
               | Inr alpn \<Rightarrow> if alpn = Some ''h2'' then Serve_H2 else Serve_H1))"

record ('k, 'c) tls_config =
  tc_certs :: "'c list"
  tc_key :: 'k
  tc_alpn :: "string list"

text \<open>\<open>from_pem\<close>: the parsers of certificates and of the key, and rustls' check that they belong
  together, are parameters. An error names what was being done.\<close>

definition tls_from_pem ::
  "(string \<Rightarrow> string + 'c list) \<Rightarrow> (string \<Rightarrow> string + 'k) \<Rightarrow> ('c list \<Rightarrow> 'k \<Rightarrow> string option) \<Rightarrow> bool
     \<Rightarrow> string \<Rightarrow> string \<Rightarrow> (string \<times> string) + ('k, 'c) tls_config" where
  "tls_from_pem parse_certs parse_key single_cert http2 cert key =
     (case parse_certs cert of
        Inl e \<Rightarrow> Inl (''parsing the certificate PEM'', e)
      | Inr certs \<Rightarrow>
          if certs = [] then Inl (''parsing the certificate PEM'', ''no certificate found'')
          else (case parse_key key of
                  Inl e \<Rightarrow> Inl (''parsing the private key PEM'', e)
                | Inr k \<Rightarrow>
                    (case single_cert certs k of
                       Some e \<Rightarrow> Inl (''using the certificate and key'', e)
                     | None \<Rightarrow> Inr \<lparr>tc_certs = certs, tc_key = k, tc_alpn = alpn_protocols http2\<rparr>)))"

definition tls_from_pem_files ::
  "(string \<Rightarrow> string + 'c list) \<Rightarrow> (string \<Rightarrow> string + 'k) \<Rightarrow> ('c list \<Rightarrow> 'k \<Rightarrow> string option) \<Rightarrow> bool
     \<Rightarrow> string + string \<Rightarrow> string + string \<Rightarrow> (string \<times> string) + ('k, 'c) tls_config" where
  "tls_from_pem_files parse_certs parse_key single_cert http2 read_cert read_key =
     (case read_cert of
        Inl e \<Rightarrow> Inl (''reading the certificate file'', e)
      | Inr cert \<Rightarrow>
          (case read_key of
             Inl e \<Rightarrow> Inl (''reading the private key file'', e)
           | Inr key \<Rightarrow> tls_from_pem parse_certs parse_key single_cert http2 cert key))"

definition enable_http2 :: "bool \<Rightarrow> ('k, 'c) tls_config \<Rightarrow> ('k, 'c) tls_config" where
  "enable_http2 enabled c = c\<lparr>tc_alpn := alpn_protocols enabled\<rparr>"

section \<open>Draining\<close>

definition abort_grace :: nat where
  "abort_grace = 1000"

text \<open>A task left at shutdown: when it ends by itself, and how long it takes to be cancelled; \<open>None\<close> for
  never (a handler that does not yield).\<close>

record task_left =
  tl_ends :: "nat option"
  tl_cancels :: "nat option"

definition in_time :: "nat \<Rightarrow> nat option \<Rightarrow> bool" where
  "in_time limit t \<longleftrightarrow> (case t of None \<Rightarrow> False | Some t \<Rightarrow> t \<le> limit)"

text \<open>Waiting for all of some times, but no longer than the limit.\<close>

definition wait_all :: "nat \<Rightarrow> nat option list \<Rightarrow> nat" where
  "wait_all limit ts =
     (if list_all (in_time limit) ts then fold max (List.map_filter (\<lambda>t. t) ts) 0 else limit)"

text \<open>How long draining takes, the tasks that are aborted and those that are left behind.\<close>

definition drain_connections :: "nat \<Rightarrow> task_left list \<Rightarrow> nat \<times> task_left list \<times> task_left list" where
  "drain_connections timeout tasks =
     (let aborted = filter (\<lambda>t. \<not> in_time timeout (tl_ends t)) tasks;
          left = filter (\<lambda>t. \<not> in_time abort_grace (tl_cancels t)) aborted
      in (wait_all timeout (map tl_ends tasks) + wait_all abort_grace (map tl_cancels aborted), aborted, left))"

section \<open>No slot is lost or made up\<close>

definition server_inv :: "nat \<Rightarrow> server \<Rightarrow> bool" where
  "server_inv n s \<longleftrightarrow>
     sv_limit s = Some n \<and>
     sv_free s + (if sv_held s then 1 else 0) + card (slot_holders s) = n \<and>
     distinct (sv_tasks s) \<and> (\<forall>c \<in> slot_holders s. c < sv_next s) \<and> (sv_running s \<or> \<not> sv_held s)"

lemma finite_holders [simp]: "finite (slot_holders s)"
  by (simp add: slot_holders_def)

lemma slot_dropped_sel [simp]:
  "sv_limit (slot_dropped c s) = sv_limit s" "sv_held (slot_dropped c s) = sv_held s"
  "sv_running (slot_dropped c s) = sv_running s" "sv_tasks (slot_dropped c s) = sv_tasks s"
  "sv_next (slot_dropped c s) = sv_next s" "slot_holders (slot_dropped c s) = slot_holders s"
  by (simp_all add: slot_dropped_def slot_holders_def)

text \<open>The step all three ways of dropping a holder share.\<close>

lemma slot_dropped_inv:
  assumes inv: "server_inv n s" and c: "c \<in> slot_holders s"
    and t: "slot_holders t \<subseteq> slot_holders s" "slot_holders s - {c} \<subseteq> slot_holders t"
    and same: "sv_limit t = sv_limit s" "sv_free t = sv_free s" "sv_held t = sv_held s" "sv_running t = sv_running s"
      "sv_next t = sv_next s" "distinct (sv_tasks t)"
  shows "server_inv n (slot_dropped c t)"
proof -
  have "sv_free (slot_dropped c t) + card (slot_holders t) = sv_free s + card (slot_holders s)"
  proof (cases "c \<in> slot_holders t")
    case True
    then have "slot_holders t = slot_holders s" using t by blast
    then show ?thesis using True same by (simp add: slot_dropped_def)
  next
    case False
    then have eq: "slot_holders t = slot_holders s - {c}" using t by blast
    have "sv_limit t \<noteq> None" using inv same by (simp add: server_inv_def)
    moreover have "0 < card (slot_holders s)" using c card_gt_0_iff finite_holders by blast
    moreover have "card (slot_holders t) = card (slot_holders s) - 1"
      unfolding eq using c by (simp add: card_Diff_singleton)
    ultimately show ?thesis
      using False same by (simp add: slot_dropped_def)
  qed
  then show ?thesis
    using inv t same by (auto simp: server_inv_def)
qed

lemma remove1_around:
  fixes xs :: "'a list"
  shows "set (remove1 c xs) \<subseteq> set xs" "set xs - {c} \<subseteq> set (remove1 c xs)"
  by (auto dest: in_set_remove1[THEN iffD2, rotated] set_remove1_subset[THEN subsetD])

lemma server_step_inv:
  assumes "server_step s s'" "server_inv n s"
  shows "server_inv n s'"
  using assms
proof (induction rule: server_step.induct)
  case (take s)
  then show ?case by (auto simp: server_inv_def slot_taken_def slot_holders_def)
next
  case (accept s)
  have "slot_holders (connection_accepted s) = insert (sv_next s) (slot_holders s)"
    by (auto simp: connection_accepted_def slot_holders_def)
  moreover have "sv_next s \<notin> slot_holders s" "sv_next s \<notin> set (sv_tasks s)"
    using accept.prems by (auto simp: server_inv_def slot_holders_def)
  ultimately show ?case
    using accept by (auto simp: server_inv_def connection_accepted_def less_Suc_eq)
next
  case (request c s)
  then have "slot_holders (request_prepared c s) = slot_holders s"
    by (auto simp: request_prepared_def slot_holders_def)
  then show ?case using request by (simp add: server_inv_def request_prepared_def)
next
  case (upgrade c s)
  then have "slot_holders (session_opened c s) = slot_holders s"
    by (auto simp: session_opened_def slot_holders_def)
  then show ?case using upgrade by (simp add: server_inv_def session_opened_def)
next
  case (answered c s)
  have "c \<in> slot_holders s" "distinct (sv_tasks s)"
    using answered by (simp_all add: slot_holders_def server_inv_def)
  then show ?case
    using answered.prems remove1_around[where c = c and xs = "sv_requests s"] unfolding request_dropped_def
    by (intro slot_dropped_inv[where s = s]) (auto simp: slot_holders_def)
next
  case (session_over c s)
  have "c \<in> slot_holders s" "distinct (sv_tasks s)"
    using session_over by (simp_all add: slot_holders_def server_inv_def)
  then show ?case
    using session_over.prems remove1_around[where c = c and xs = "sv_sessions s"] unfolding session_released_def
    by (intro slot_dropped_inv[where s = s]) (auto simp: slot_holders_def)
next
  case (task_over c s)
  have "c \<in> slot_holders s" "distinct (sv_tasks s)"
    using task_over by (simp_all add: slot_holders_def server_inv_def)
  then show ?case
    using task_over.prems remove1_around[where c = c and xs = "sv_tasks s"] unfolding task_ended_def
    by (intro slot_dropped_inv[where s = s]) (auto simp: slot_holders_def)
next
  case (stop s)
  then show ?case by (auto simp: server_inv_def accept_stopped_def slot_holders_def)
qed

lemma server_reachable_inv: "server_reachable mp (Some l) s \<Longrightarrow> server_inv (min l mp) s"
proof (induction rule: server_reachable.induct)
  case started
  then show ?case by (simp add: server_inv_def server_new_def connection_limit_def Let_def slot_holders_def)
next
  case (stepped s s')
  then show ?case using server_step_inv by blast
qed

section \<open>Waiting\<close>

lemma fold_max_ge: "x \<in> set xs \<or> x = a \<Longrightarrow> x \<le> fold max xs (a :: nat)"
  unfolding Max.set_eq_fold[symmetric] by (intro Max_ge) auto

lemma fold_max_le: "\<forall>x \<in> set xs. x \<le> n \<Longrightarrow> a \<le> n \<Longrightarrow> fold max xs a \<le> (n :: nat)"
  by (induction xs arbitrary: a) auto

lemma in_time_Some: "in_time l t \<longleftrightarrow> (\<exists>x. t = Some x \<and> x \<le> l)"
  by (cases t) (simp_all add: in_time_def)

lemma set_some: "x \<in> set (List.map_filter (\<lambda>t. t) ts) \<longleftrightarrow> Some x \<in> set ts"
  by (induction ts) (auto simp: map_filter_simps split: option.splits)

lemma wait_all_le: "wait_all l ts \<le> l"
proof (cases "list_all (in_time l) ts")
  case True
  then have "\<forall>x \<in> set (List.map_filter (\<lambda>t. t) ts). x \<le> l"
    by (fastforce simp: set_some list_all_iff in_time_Some)
  then show ?thesis
    unfolding wait_all_def using fold_max_le by simp
qed (simp add: wait_all_def)

lemma wait_all_ge: "Some x \<in> set ts \<Longrightarrow> x \<le> l \<Longrightarrow> x \<le> wait_all l ts"
  unfolding wait_all_def using fold_max_ge[of x "List.map_filter (\<lambda>t. t) ts" 0] by (auto simp: set_some)

section \<open>Properties\<close>

text \<open>C28: With \<open>max_connections\<close> set, at every moment of every run the connections served and the
  upgraded sessions that outlive theirs together never exceed the limit; every slot is free, held by
  the accept loop or held by a connection; and when the connections, requests and sessions are gone
  and the loop is not holding one, all slots are free again: none is lost and none is made up.\<close>

theorem slots_conserved:
  assumes "server_reachable max_permits (Some limit) s"
  shows "card (set (sv_tasks s) \<union> set (sv_sessions s)) \<le> limit \<and> length (sv_tasks s) \<le> limit \<and>
    sv_free s + (if sv_held s then 1 else 0) + card (slot_holders s) = min limit max_permits \<and>
    (slot_holders s = {} \<and> \<not> sv_held s \<longrightarrow> sv_free s = min limit max_permits)"
proof -
  have inv: "server_inv (min limit max_permits) s"
    using server_reachable_inv[OF assms] .
  have "card (set (sv_tasks s) \<union> set (sv_sessions s)) \<le> card (slot_holders s)"
    "card (set (sv_tasks s)) \<le> card (slot_holders s)"
    by (rule card_mono; auto simp: slot_holders_def)+
  moreover have "length (sv_tasks s) = card (set (sv_tasks s))"
    using inv by (simp add: server_inv_def distinct_card)
  ultimately show ?thesis
    using inv by (auto simp: server_inv_def)
qed

definition demo_server :: server where
  "demo_server =
     task_ended 0 (session_opened 0 (request_prepared 0 (connection_accepted (slot_taken (server_new 100 (Some 1))))))"

theorem slots_conserved_witness:
  "sv_tasks demo_server = [] \<and> sv_sessions demo_server = [0] \<and> sv_free demo_server = 0 \<and>
   card (set (sv_tasks demo_server) \<union> set (sv_sessions demo_server)) \<le> 1"
proof -
  let ?s0 = "server_new 100 (Some 1)"
  have "server_reachable 100 (Some 1) (slot_taken ?s0)"
    by (rule stepped[OF started take]) (simp_all add: server_new_def connection_limit_def Let_def)
  then have "server_reachable 100 (Some 1) (connection_accepted (slot_taken ?s0))"
    by (rule stepped[OF _ accept]) (simp_all add: server_new_def connection_limit_def Let_def slot_taken_def)
  then have "server_reachable 100 (Some 1) (request_prepared 0 (connection_accepted (slot_taken ?s0)))"
    by (rule stepped[OF _ request]) (simp add: server_new_def Let_def slot_taken_def connection_accepted_def)
  then have "server_reachable 100 (Some 1) (session_opened 0 (request_prepared 0 (connection_accepted (slot_taken ?s0))))"
    by (rule stepped[OF _ upgrade]) (simp add: request_prepared_def)
  then have "server_reachable 100 (Some 1) demo_server"
    unfolding demo_server_def
    by (rule stepped[OF _ task_over])
       (simp add: server_new_def Let_def slot_taken_def connection_accepted_def request_prepared_def session_opened_def)
  from slots_conserved[OF this] show ?thesis
    by (simp add: demo_server_def server_new_def connection_limit_def Let_def slot_taken_def connection_accepted_def
        request_prepared_def session_opened_def task_ended_def slot_dropped_def slot_holders_def)
qed

text \<open>Shutting down ends. Draining returns within \<open>shutdown_timeout\<close> and one second, whatever the
  connections do; a connection that finishes by itself within the timeout is waited for and never
  cut; and what is left behind neither finished in time nor could be cancelled.\<close>

theorem drain_ends:
  "case drain_connections timeout tasks of
     (duration, aborted, left) \<Rightarrow>
       duration \<le> timeout + abort_grace \<and>
       set left \<subseteq> set aborted \<and> set aborted \<subseteq> set tasks \<and>
       (\<forall>t \<in> set tasks. in_time timeout (tl_ends t) = (t \<notin> set aborted)) \<and>
       (\<forall>t \<in> set tasks. t \<in> set aborted \<or> the (tl_ends t) \<le> duration) \<and>
       (\<forall>t \<in> set aborted. t \<in> set left \<or> in_time abort_grace (tl_cancels t))"
proof -
  let ?a = "filter (\<lambda>t. \<not> in_time timeout (tl_ends t)) tasks"
  have "wait_all timeout (map tl_ends tasks) + wait_all abort_grace (map tl_cancels ?a) \<le> timeout + abort_grace"
    using wait_all_le add_mono by blast
  moreover have "the (tl_ends t) \<le> wait_all timeout (map tl_ends tasks) + n"
    if t: "t \<in> set tasks" "in_time timeout (tl_ends t)" for t n
  proof -
    obtain x where x: "tl_ends t = Some x" "x \<le> timeout"
      using t(2) unfolding in_time_Some by blast
    then have "Some x \<in> set (map tl_ends tasks)"
      using t(1) by force
    then show ?thesis
      using wait_all_ge[of x _ timeout] x by (simp add: trans_le_add1)
  qed
  ultimately show ?thesis
    by (auto simp: drain_connections_def Let_def)
qed

theorem drain_ends_witness:
  "drain_connections 30 [\<lparr>tl_ends = Some 10, tl_cancels = None\<rparr>, \<lparr>tl_ends = None, tl_cancels = Some 5\<rparr>,
       \<lparr>tl_ends = Some 70, tl_cancels = None\<rparr>] =
     (30 + abort_grace, [\<lparr>tl_ends = None, tl_cancels = Some 5\<rparr>, \<lparr>tl_ends = Some 70, tl_cancels = None\<rparr>],
      [\<lparr>tl_ends = Some 70, tl_cancels = None\<rparr>]) \<and>
   30 + abort_grace \<le> 30 + abort_grace \<and> in_time abort_grace (Some 5)"
proof -
  let ?ts = "[\<lparr>tl_ends = Some 10, tl_cancels = None\<rparr>, \<lparr>tl_ends = None, tl_cancels = Some 5\<rparr>,
       \<lparr>tl_ends = Some 70, tl_cancels = None\<rparr>]"
  have eq: "drain_connections 30 ?ts =
     (30 + abort_grace, [\<lparr>tl_ends = None, tl_cancels = Some 5\<rparr>, \<lparr>tl_ends = Some 70, tl_cancels = None\<rparr>],
      [\<lparr>tl_ends = Some 70, tl_cancels = None\<rparr>])"
    by (simp add: drain_connections_def Let_def in_time_def abort_grace_def wait_all_def)
  from drain_ends[of 30 ?ts] show ?thesis
    unfolding eq by simp
qed

text \<open>With a header timeout, a client that sends nothing cannot keep a connection undecided.\<close>

lemma h2c_plan_decided:
  "h2c_plan stop (first_bytes timed_out (Some l) detection) \<noteq> None \<and>
   (\<forall>t r. first_bytes timed_out (Some l) detection = Some (t, r) \<longrightarrow> t \<le> l)"
  by (auto simp: h2c_plan_def first_bytes_def split: option.splits prod.splits if_splits)

end
