(* ===== verification/Web_Socket.thy ===== *)
theory Web_Socket
  imports Web Server
begin

text \<open>
  Model of \<open>src/websocket.rs\<close>: the server's side of the handshake and an open session. The framing is
  \<open>tungstenite\<close>'s and the upgrade hyper's, so a transport is a parameter: when it answers a read and
  with what, and what it answers to a write. The key's digest (\<open>derive_accept_key\<close>) and the type of
  close codes are parameters too. HTTP versions are numbers, \<open>11\<close> for HTTP/1.1. Times are
  milliseconds.
\<close>

section \<open>Messages\<close>

type_synonym u16 = "16 word"

record close_frame =
  cf_code :: u16
  cf_reason :: string

definition close_frame_new :: "u16 \<Rightarrow> string \<Rightarrow> close_frame" where
  "close_frame_new code reason = \<lparr>cf_code = code, cf_reason = reason\<rparr>"

datatype message =
    Text_Message string | Binary_Message string | Ping string | Pong string | Close "close_frame option"

datatype 'c wire_message =
    Wire_Text string | Wire_Binary string | Wire_Ping string | Wire_Pong string
  | Wire_Close "('c \<times> string) option" | Wire_Frame

definition from_wire :: "('c \<Rightarrow> u16) \<Rightarrow> 'c wire_message \<Rightarrow> message outcome" where
  "from_wire u16_of m =
     (case m of
        Wire_Text t \<Rightarrow> Ret (Text_Message t)
      | Wire_Binary b \<Rightarrow> Ret (Binary_Message b)
      | Wire_Ping b \<Rightarrow> Ret (Ping b)
      | Wire_Pong b \<Rightarrow> Ret (Pong b)
      | Wire_Close f \<Rightarrow> Ret (Close (map_option (\<lambda>(code, reason). \<lparr>cf_code = u16_of code, cf_reason = reason\<rparr>) f))
      | Wire_Frame \<Rightarrow> Panic ''raw frames are not produced when reading'')"

definition to_wire :: "(u16 \<Rightarrow> 'c) \<Rightarrow> message \<Rightarrow> 'c wire_message" where
  "to_wire code_of m =
     (case m of
        Text_Message t \<Rightarrow> Wire_Text t
      | Binary_Message b \<Rightarrow> Wire_Binary b
      | Ping b \<Rightarrow> Wire_Ping b
      | Pong b \<Rightarrow> Wire_Pong b
      | Close f \<Rightarrow> Wire_Close (map_option (\<lambda>f. (code_of (cf_code f), cf_reason f)) f))"

text \<open>A message sent is the message received, when a code survives its conversion.\<close>

lemma message_roundtrip: "(\<And>n. u16_of (code_of n) = n) \<Longrightarrow> from_wire u16_of (to_wire code_of m) = Ret m"
proof -
  assume "\<And>n. u16_of (code_of n) = n"
  moreover have "map_option (\<lambda>x :: close_frame. \<lparr>cf_code = cf_code x, cf_reason = cf_reason x\<rparr>) f = f" for f
    by (cases f) simp_all
  ultimately show "from_wire u16_of (to_wire code_of m) = Ret m"
    by (cases m) (simp_all add: from_wire_def to_wire_def option.map_comp comp_def)
qed

section \<open>A session\<close>

datatype ws_error = Io_Timed_Out | Connection_Closed_Error | Already_Closed | Other_Ws string

definition is_timeout :: "ws_error \<Rightarrow> bool" where
  "is_timeout e \<longleftrightarrow> e = Io_Timed_Out"

definition is_closed :: "ws_error \<Rightarrow> bool" where
  "is_closed e \<longleftrightarrow> e \<in> {Connection_Closed_Error, Already_Closed}"

text \<open>\<open>tp_next\<close>: after how long the next message comes (never for \<open>None\<close>) and what it is; at the end
  none. \<open>tp_closing\<close>: how long sending a close frame takes.\<close>

record ('t, 'c) transport_ops =
  tp_next :: "'t \<Rightarrow> nat option \<times> (ws_error + 'c wire_message) option \<times> 't"
  tp_send :: "'c wire_message \<Rightarrow> 't \<Rightarrow> (ws_error + unit) \<times> 't"
  tp_close :: "('c \<times> string) option \<Rightarrow> 't \<Rightarrow> (ws_error + unit) \<times> 't"
  tp_closing :: "'t \<Rightarrow> nat option"
  tp_u16 :: "'c \<Rightarrow> u16"
  tp_code :: "u16 \<Rightarrow> 'c"

record 't web_socket =
  ws_inner :: "'t option"
  ws_idle :: "nat option"
  ws_permit :: bool

definition ws_item :: "('t, 'c) transport_ops \<Rightarrow> (ws_error + 'c wire_message) option \<Rightarrow> (ws_error + message) option outcome" where
  "ws_item tp item =
     (case item of
        None \<Rightarrow> Ret None
      | Some (Inl e) \<Rightarrow> Ret (Some (Inl e))
      | Some (Inr m) \<Rightarrow> map_outcome (\<lambda>m. Some (Inr m)) (from_wire (tp_u16 tp) m))"

definition close_limit :: nat where
  "close_limit = 1000"

text \<open>How long \<open>recv\<close> took, what it answered and the session after it; \<open>None\<close> when it never returns.\<close>

definition recv ::
  "('t, 'c) transport_ops \<Rightarrow> 't web_socket \<Rightarrow> (nat \<times> (ws_error + message) option outcome \<times> 't web_socket) option" where
  "recv tp ws =
     (case ws_inner ws of
        None \<Rightarrow> Some (0, Ret None, ws)
      | Some t \<Rightarrow>
          (let (delay, item, t') = tp_next tp t;
               answered = (\<lambda>d. Some (d, ws_item tp item, ws\<lparr>ws_inner := Some t'\<rparr>))
           in case ws_idle ws of
                Some idle \<Rightarrow>
                  (let timed_out =
                         Some (idle + (case tp_closing tp t of None \<Rightarrow> close_limit | Some c \<Rightarrow> min c close_limit),
                               Ret (Some (Inl Io_Timed_Out)), ws\<lparr>ws_inner := None, ws_permit := False\<rparr>)
                   in case delay of None \<Rightarrow> timed_out | Some d \<Rightarrow> if d \<le> idle then answered d else timed_out)
              | None \<Rightarrow> (case delay of None \<Rightarrow> None | Some d \<Rightarrow> answered d)))"

definition send :: "('t, 'c) transport_ops \<Rightarrow> message \<Rightarrow> 't web_socket \<Rightarrow> (ws_error + unit) \<times> 't web_socket" where
  "send tp m ws =
     (case ws_inner ws of
        None \<Rightarrow> (Inl Already_Closed, ws)
      | Some t \<Rightarrow> (case tp_send tp (to_wire (tp_code tp) m) t of (r, t) \<Rightarrow> (r, ws\<lparr>ws_inner := Some t\<rparr>)))"

definition ws_close ::
  "('t, 'c) transport_ops \<Rightarrow> close_frame option \<Rightarrow> 't web_socket \<Rightarrow> (ws_error + unit) \<times> 't web_socket" where
  "ws_close tp frame ws =
     (case ws_inner ws of
        None \<Rightarrow> (Inl Already_Closed, ws)
      | Some t \<Rightarrow>
          (case tp_close tp (map_option (\<lambda>f. (tp_code tp (cf_code f), cf_reason f)) frame) t of
             (r, t) \<Rightarrow> (r, ws\<lparr>ws_inner := Some t\<rparr>)))"

section \<open>The handshake\<close>

record 'i web_socket_upgrade =
  wu_request :: "'i request"
  wu_protocols :: "string list"
  wu_origins :: "string list"
  wu_max_message_size :: nat
  wu_idle_timeout :: "nat option"

definition default_max_message :: nat where
  "default_max_message = 1024 * 1024"

definition upgrade_new :: "'i request \<Rightarrow> 'i web_socket_upgrade" where
  "upgrade_new request =
     \<lparr>wu_request = request, wu_protocols = [], wu_origins = [], wu_max_message_size = default_max_message,
      wu_idle_timeout = None\<rparr>"

definition wu_allow_origin :: "string \<Rightarrow> 'i web_socket_upgrade \<Rightarrow> 'i web_socket_upgrade" where
  "wu_allow_origin origin u = u\<lparr>wu_origins := wu_origins u @ [origin]\<rparr>"

definition tchar :: "char \<Rightarrow> bool" where
  "tchar b \<longleftrightarrow> is_ascii_alphanumeric b \<or> b \<in> set (''!#$%&'' @ [CHR 0x27] @ ''*+-.^_`|~'')"

definition validate_protocol :: "string \<Rightarrow> unit outcome" where
  "validate_protocol protocol =
     assert_that (protocol \<noteq> [] \<and> list_all tchar protocol) ''invalid WebSocket subprotocol name''"

fun validate_protocols :: "string list \<Rightarrow> unit outcome" where
  "validate_protocols [] = Ret ()"
| "validate_protocols (p # ps) = bind_outcome (validate_protocol p) (\<lambda>_. validate_protocols ps)"

definition wu_set_protocols :: "string list \<Rightarrow> 'i web_socket_upgrade \<Rightarrow> 'i web_socket_upgrade outcome" where
  "wu_set_protocols ps u = bind_outcome (validate_protocols ps) (\<lambda>_. Ret (u\<lparr>wu_protocols := ps\<rparr>))"

definition wu_set_idle_timeout :: "nat \<Rightarrow> 'i web_socket_upgrade \<Rightarrow> 'i web_socket_upgrade" where
  "wu_set_idle_timeout t u = u\<lparr>wu_idle_timeout := Some t\<rparr>"

definition wu_set_max_message_size :: "nat \<Rightarrow> 'i web_socket_upgrade \<Rightarrow> 'i web_socket_upgrade" where
  "wu_set_max_message_size n u = u\<lparr>wu_max_message_size := n\<rparr>"

definition valid_key :: "header_value \<Rightarrow> bool" where
  "valid_key key \<longleftrightarrow>
     length (hv_bytes key) = 24 \<and> ends_with (hv_bytes key) ''=='' \<and>
     list_all (\<lambda>b. is_ascii_alphanumeric b \<or> b = CHR ''+'' \<or> b = CHR ''/'') (take 22 (hv_bytes key))"

definition header_tokens :: "headers \<Rightarrow> string \<Rightarrow> string list" where
  "header_tokens h name =
     map trim (concat (map (str_split (CHR '','')) (List.map_filter hv_text (hm_get_all h name))))"

definition contains_token :: "headers \<Rightarrow> string \<Rightarrow> string \<Rightarrow> bool" where
  "contains_token h name token \<longleftrightarrow> list_ex (\<lambda>part. eq_ignore_ascii_case part token) (header_tokens h name)"

text \<open>What the spawned task starts with: the limits of the session and its slot.\<close>

record session =
  se_max_message :: nat
  se_idle :: "nat option"
  se_permit :: bool

definition rejection :: "(json \<Rightarrow> string option) \<Rightarrow> api_error \<Rightarrow> response" where
  "rejection to_vec e = api_error_response to_vec e"

definition origin_refused :: "string list \<Rightarrow> headers \<Rightarrow> bool" where
  "origin_refused origins h \<longleftrightarrow>
     origins \<noteq> [] \<and>
     (case hm_get h ''origin'' of
        None \<Rightarrow> False
      | Some origin \<Rightarrow> \<not> (case hv_text origin of None \<Rightarrow> False | Some o' \<Rightarrow> list_ex (\<lambda>allowed. allowed = o') origins))"

definition handshake_response :: "string \<Rightarrow> string option \<Rightarrow> response" where
  "handshake_response accept protocol =
     (let h = hm_append ''connection'' (text_value ''Upgrade'') no_headers;
          h = hm_append ''upgrade'' (text_value ''websocket'') h;
          h = hm_append ''sec-websocket-accept'' (text_value accept) h;
          h = (case protocol of None \<Rightarrow> h | Some p \<Rightarrow> hm_append ''sec-websocket-protocol'' (text_value p) h)
      in (new_response 101 (Full (Some [])))\<lparr>resp_headers := h\<rparr>)"

text \<open>\<open>on_upgrade\<close>: the response, and the session the handler is given once hyper has upgraded the
  connection. \<open>permit\<close> says whether the connection has a slot.\<close>

definition on_upgrade ::
  "(json \<Rightarrow> string option) \<Rightarrow> (string \<Rightarrow> string) \<Rightarrow> bool \<Rightarrow> 'i web_socket_upgrade \<Rightarrow> response \<times> session option" where
  "on_upgrade to_vec derive_accept_key permit u =
     (let h = rq_headers (wu_request u)
      in if rq_method (wu_request u) \<noteq> GET \<or> rq_version (wu_request u) \<noteq> 11 \<or>
            \<not> contains_token h ''connection'' ''upgrade'' \<or> \<not> contains_token h ''upgrade'' ''websocket''
         then (rejection to_vec (bad_request ''expected a WebSocket handshake''), None)
         else if map_option trim (header_text h ''sec-websocket-version'') \<noteq> Some ''13''
         then (insert_header ''sec-websocket-version'' ''13''
                 (api_error_response to_vec (api_error_new 426 ''Upgrade Required'' ''WebSocket version 13 is required'')), None)
         else (case hm_get h ''sec-websocket-key'' of
                 None \<Rightarrow> (rejection to_vec (bad_request ''missing or invalid Sec-WebSocket-Key''), None)
               | Some key \<Rightarrow>
                   if \<not> valid_key key
                   then (rejection to_vec (bad_request ''missing or invalid Sec-WebSocket-Key''), None)
                   else if origin_refused (wu_origins u) h
                   then (rejection to_vec (api_error_new 403 ''Forbidden'' ''this origin may not open a WebSocket here''), None)
                   else (let offered = header_tokens h ''sec-websocket-protocol'';
                             chosen = find (\<lambda>ours. ours \<in> set offered) (wu_protocols u)
                         in (handshake_response (derive_accept_key (hv_bytes key)) chosen,
                             Some \<lparr>se_max_message = wu_max_message_size u, se_idle = wu_idle_timeout u, se_permit = permit\<rparr>))))"

definition session_socket :: "session \<Rightarrow> 't \<Rightarrow> 't web_socket" where
  "session_socket s t = \<lparr>ws_inner = Some t, ws_idle = se_idle s, ws_permit = se_permit s\<rparr>"

section \<open>Properties\<close>

definition asks_upgrade :: "'i request \<Rightarrow> bool" where
  "asks_upgrade request \<longleftrightarrow>
     rq_method request = GET \<and> rq_version request = 11 \<and>
     contains_token (rq_headers request) ''connection'' ''upgrade'' \<and>
     contains_token (rq_headers request) ''upgrade'' ''websocket''"

definition speaks_13 :: "'i request \<Rightarrow> bool" where
  "speaks_13 request \<longleftrightarrow> map_option trim (header_text (rq_headers request) ''sec-websocket-version'') = Some ''13''"

definition good_key :: "'i request \<Rightarrow> bool" where
  "good_key request \<longleftrightarrow> (\<exists>k. hm_get (rq_headers request) ''sec-websocket-key'' = Some k \<and> valid_key k)"

text \<open>The origin is absent, none is listed, or it is one of those listed.\<close>

definition origin_admitted :: "'i web_socket_upgrade \<Rightarrow> bool" where
  "origin_admitted u \<longleftrightarrow>
     wu_origins u = [] \<or> hm_get (rq_headers (wu_request u)) ''origin'' = None \<or>
     (\<exists>v. hm_get (rq_headers (wu_request u)) ''origin'' = Some v \<and> hv_text v \<in> Some ` set (wu_origins u))"

lemma origin_refused_iff: "origin_refused (wu_origins u) (rq_headers (wu_request u)) \<longleftrightarrow> \<not> origin_admitted u"
  by (auto simp: origin_refused_def origin_admitted_def list_ex_iff split: option.splits)

lemma error_status [simp]: "resp_status (api_error_response tv e) = ae_status e"
  by (simp add: api_error_response_def response_json_def response_json_bytes_def)

lemma api_error_new_status [simp]: "ae_status (api_error_new st t d) = st" "ae_status (bad_request d) = 400"
  by (simp_all add: api_error_new_def bad_request_def)

lemma on_upgrade_cases:
  "on_upgrade tv derive permit u =
     (if \<not> asks_upgrade (wu_request u) then (rejection tv (bad_request ''expected a WebSocket handshake''), None)
      else if \<not> speaks_13 (wu_request u) then
        (insert_header ''sec-websocket-version'' ''13''
           (api_error_response tv (api_error_new 426 ''Upgrade Required'' ''WebSocket version 13 is required'')), None)
      else if \<not> good_key (wu_request u) then (rejection tv (bad_request ''missing or invalid Sec-WebSocket-Key''), None)
      else if \<not> origin_admitted u then
        (rejection tv (api_error_new 403 ''Forbidden'' ''this origin may not open a WebSocket here''), None)
      else (handshake_response (derive (hv_bytes (the (hm_get (rq_headers (wu_request u)) ''sec-websocket-key''))))
              (find (\<lambda>ours. ours \<in> set (header_tokens (rq_headers (wu_request u)) ''sec-websocket-protocol'')) (wu_protocols u)),
            Some \<lparr>se_max_message = wu_max_message_size u, se_idle = wu_idle_timeout u, se_permit = permit\<rparr>))"
proof (cases "hm_get (rq_headers (wu_request u)) ''sec-websocket-key''")
  case None
  then show ?thesis
    unfolding on_upgrade_def Let_def speaks_13_def[symmetric]
    by (simp add: asks_upgrade_def good_key_def)
next
  case (Some key)
  then show ?thesis
    unfolding on_upgrade_def Let_def origin_refused_iff speaks_13_def[symmetric]
    by (simp add: asks_upgrade_def good_key_def)
qed

lemma handshake_headers:
  "resp_status (handshake_response a p) = 101"
  "hm_get (resp_headers (handshake_response a p)) ''sec-websocket-accept'' = Some (text_value a)"
  "hm_get (resp_headers (handshake_response a p)) ''sec-websocket-protocol'' = map_option text_value p"
  by (cases p; simp add: handshake_response_def Let_def no_headers_def hm_append_def hm_get_def)+

text \<open>A session is opened exactly for a handshake of RFC 6455: an HTTP/1.1 \<open>GET\<close> that asks to upgrade
  to a WebSocket in version 13 with a well-formed key, from a listed origin when any is listed and
  the browser names one. Then the answer is \<open>101\<close> with the digest of the very key, and the
  subprotocol is the first of the server's that the client offered, or none. Every other request
  gets \<open>400\<close>, \<open>403\<close> or \<open>426\<close>, and the handler never runs.\<close>

theorem handshake_exact:
  "case on_upgrade tv derive permit u of
     (r, None) \<Rightarrow>
       \<not> (asks_upgrade (wu_request u) \<and> speaks_13 (wu_request u) \<and> good_key (wu_request u) \<and> origin_admitted u) \<and>
       resp_status r = (if \<not> asks_upgrade (wu_request u) then 400 else if \<not> speaks_13 (wu_request u) then 426
                        else if \<not> good_key (wu_request u) then 400 else 403)
   | (r, Some s) \<Rightarrow>
       asks_upgrade (wu_request u) \<and> speaks_13 (wu_request u) \<and> origin_admitted u \<and> resp_status r = 101 \<and>
       (\<exists>key. hm_get (rq_headers (wu_request u)) ''sec-websocket-key'' = Some key \<and> valid_key key \<and>
          hm_get (resp_headers r) ''sec-websocket-accept'' = Some (text_value (derive (hv_bytes key)))) \<and>
       hm_get (resp_headers r) ''sec-websocket-protocol'' =
         map_option text_value
           (find (\<lambda>ours. ours \<in> set (header_tokens (rq_headers (wu_request u)) ''sec-websocket-protocol'')) (wu_protocols u)) \<and>
       se_idle s = wu_idle_timeout u \<and> se_max_message s = wu_max_message_size u \<and> se_permit s = permit"
  unfolding on_upgrade_cases by (auto simp: handshake_headers rejection_def good_key_def)

text \<open>A session that has ended stays ended.\<close>

definition session_ended :: "('t, 'c) transport_ops \<Rightarrow> 't web_socket \<Rightarrow> bool" where
  "session_ended tp ws \<longleftrightarrow>
     recv tp ws = Some (0, Ret None, ws) \<and>
     (\<forall>m. \<exists>e. send tp m ws = (Inl e, ws) \<and> is_closed e) \<and> (\<forall>f. \<exists>e. ws_close tp f ws = (Inl e, ws) \<and> is_closed e)"

lemma no_transport_ended: "ws_inner ws = None \<Longrightarrow> session_ended tp ws"
  by (simp add: session_ended_def recv_def send_def ws_close_def is_closed_def)

text \<open>C29: With an idle timeout, \<open>recv\<close> always returns, within the timeout and one more second however the
  peer behaves. When the timeout has expired it reports so, the transport is gone and the slot given
  back at once, every further \<open>recv\<close> answers \<open>None\<close> and every \<open>send\<close> or \<open>close\<close> fails as closed; as
  long as it has not, the answer is the peer's next message and the session keeps its slot.\<close>

theorem idle_session_ends:
  assumes "ws_idle ws = Some idle"
  shows "\<exists>d r ws'. recv tp ws = Some (d, r, ws') \<and> d \<le> idle + close_limit \<and>
    (case ws_inner ws of
       None \<Rightarrow> session_ended tp ws \<and> ws' = ws
     | Some t \<Rightarrow>
         (if \<exists>n \<le> idle. fst (tp_next tp t) = Some n
          then r = ws_item tp (fst (snd (tp_next tp t))) \<and> ws_inner ws' \<noteq> None \<and> ws_permit ws' = ws_permit ws
          else r = Ret (Some (Inl Io_Timed_Out)) \<and> ws_inner ws' = None \<and> \<not> ws_permit ws' \<and> session_ended tp ws'))"
proof (cases "ws_inner ws")
  case None
  then show ?thesis
    using no_transport_ended by (simp add: recv_def)
next
  case (Some t)
  obtain delay item t' where nx: "tp_next tp t = (delay, item, t')" by (cases "tp_next tp t")
  have closing: "(case tp_closing tp t of None \<Rightarrow> close_limit | Some c \<Rightarrow> min c close_limit) \<le> close_limit"
    by (simp split: option.split)
  show ?thesis
  proof (cases "\<exists>n \<le> idle. delay = Some n")
    case True
    then obtain n where "delay = Some n" "n \<le> idle" by blast
    then show ?thesis
      using assms Some nx by (simp add: recv_def)
  next
    case False
    let ?ws = "ws\<lparr>ws_inner := None, ws_permit := False\<rparr>"
    have "recv tp ws =
        Some (idle + (case tp_closing tp t of None \<Rightarrow> close_limit | Some c \<Rightarrow> min c close_limit),
              Ret (Some (Inl Io_Timed_Out)), ?ws)"
      using assms Some nx False by (cases delay) (auto simp: recv_def)
    then show ?thesis
      using Some nx False closing no_transport_ended[of ?ws tp] by simp
  qed
qed

definition demo_transport :: "(unit, u16) transport_ops" where
  "demo_transport =
     \<lparr>tp_next = (\<lambda>_. (None, None, ())), tp_send = (\<lambda>_ _. (Inr (), ())), tp_close = (\<lambda>_ _. (Inr (), ())),
      tp_closing = (\<lambda>_. None), tp_u16 = (\<lambda>c. c), tp_code = (\<lambda>c. c)\<rparr>"

theorem idle_session_ends_witness:
  "\<exists>d r ws'. recv demo_transport \<lparr>ws_inner = Some (), ws_idle = Some 30, ws_permit = True\<rparr> = Some (d, r, ws') \<and>
     r = Ret (Some (Inl Io_Timed_Out)) \<and> \<not> ws_permit ws' \<and> recv demo_transport ws' = Some (0, Ret None, ws')"
  using idle_session_ends[of "\<lparr>ws_inner = Some (), ws_idle = Some 30, ws_permit = True\<rparr>" 30 demo_transport]
  by (auto simp: demo_transport_def session_ended_def)

end
