(* ===== verification/Serde_Attrs.thy ===== *)
theory Serde_Attrs
  imports Http_Types
begin

text \<open>
  Model of \<open>oas-rs-macros/src/serde_attrs.rs\<close>: the reader of \<open>#[serde(..)]\<close> attributes and serde's
  renaming rules. An attribute is the tree \<open>syn\<close> parses it into: a path and nothing, an expression
  after \<open>=\<close>, or a list of further items in parentheses. The text of an error \<open>syn\<close> makes itself is
  not modelled, only that there is one. \<open>wide_upper\<close> is the Unicode property of being upper case of
  a character outside ASCII, given by its bytes.
\<close>

section \<open>Attributes\<close>

datatype literal = Lit_Str string | Other_Expr json

datatype meta = Meta string meta_arg
     and meta_arg = Bare | Eq_Expr literal | Paren "meta list"

type_synonym attribute = meta

datatype macro_error = Syn_Error | Macro_Error string

type_synonym 'a macro_result = "macro_error + 'a"

fun attr_path :: "attribute \<Rightarrow> string" where
  "attr_path (Meta p _) = p"

definition is_ident :: "string \<Rightarrow> attribute \<Rightarrow> bool" where
  "is_ident name a \<longleftrightarrow> attr_path a = name"

text \<open>\<open>meta.value()?.parse::<LitStr>()?.value()\<close>, and \<open>parse_nested_meta\<close> on an attribute.\<close>

fun lit_str :: "meta_arg \<Rightarrow> string macro_result" where
  "lit_str (Eq_Expr (Lit_Str s)) = Inr s"
| "lit_str _ = Inl Syn_Error"

fun nested_metas :: "attribute \<Rightarrow> meta list macro_result" where
  "nested_metas (Meta p (Paren ms)) = Inr ms"
| "nested_metas _ = Inl Syn_Error"

text \<open>A flag leaves its argument unread, and \<open>syn\<close> rejects what is not a comma.\<close>

fun flag_end :: "meta_arg \<Rightarrow> unit macro_result" where
  "flag_end Bare = Inr ()"
| "flag_end _ = Inl Syn_Error"

fun skip_meta :: "meta_arg \<Rightarrow> unit macro_result"
  and skip_metas :: "meta list \<Rightarrow> unit macro_result" where
  "skip_meta Bare = Inr ()"
| "skip_meta (Eq_Expr e) = Inr ()"
| "skip_meta (Paren ms) = skip_metas ms"
| "skip_metas [] = Inr ()"
| "skip_metas (Meta p a # ms) = bind_result (skip_meta a) (\<lambda>_. skip_metas ms)"

section \<open>\<open>SerdeAttrs\<close>\<close>

record serde_attrs =
  sa_rename :: "string option"
  sa_rename_all :: "string option"
  sa_skip_serializing :: bool
  sa_skip_deserializing :: bool
  sa_default :: bool
  sa_skip_serializing_if :: bool
  sa_flatten :: bool
  sa_tag :: "string option"
  sa_content :: "string option"
  sa_untagged :: bool
  sa_transparent :: bool
  sa_deny_unknown_fields :: bool
  sa_rename_all_fields :: "string option"
  sa_custom_decode :: bool

definition serde_default :: serde_attrs where
  "serde_default =
     \<lparr>sa_rename = None, sa_rename_all = None, sa_skip_serializing = False, sa_skip_deserializing = False,
      sa_default = False, sa_skip_serializing_if = False, sa_flatten = False, sa_tag = None,
      sa_content = None, sa_untagged = False, sa_transparent = False, sa_deny_unknown_fields = False,
      sa_rename_all_fields = None, sa_custom_decode = False\<rparr>"

definition serde_skipped :: "serde_attrs \<Rightarrow> bool" where
  "serde_skipped s \<longleftrightarrow> sa_skip_serializing s \<and> sa_skip_deserializing s"

text \<open>\<open>rename(serialize = "a", deserialize = "b")\<close>: only an equal pair is accepted.\<close>

fun rename_pair ::
  "meta list \<Rightarrow> string option \<times> string option \<Rightarrow> (string option \<times> string option) macro_result" where
  "rename_pair [] found = Inr found"
| "rename_pair (Meta p a # ms) (serialize, deserialize) =
     bind_result (lit_str a)
       (\<lambda>v. rename_pair ms
              (if p = ''serialize'' then (Some v, deserialize)
               else if p = ''deserialize'' then (serialize, Some v)
               else (serialize, deserialize)))"

definition different_names :: macro_error where
  "different_names = Macro_Error
     (''ApiSchema cannot describe different serialize and deserialize names '' @
      ''(one schema serves requests and responses): use a single name, or '' @
      ''implement ApiSchema by hand'')"

fun is_paren :: "meta_arg \<Rightarrow> bool" where
  "is_paren (Paren _) = True"
| "is_paren _ = False"

fun has_value :: "meta_arg \<Rightarrow> bool" where
  "has_value (Eq_Expr _) = True"
| "has_value _ = False"

fun paren_metas :: "meta_arg \<Rightarrow> meta list" where
  "paren_metas (Paren ms) = ms"
| "paren_metas _ = []"

fun serde_meta :: "meta \<Rightarrow> serde_attrs \<Rightarrow> serde_attrs macro_result" where
  "serde_meta (Meta p a) found =
     (if (p = ''rename'' \<or> p = ''rename_all'') \<and> is_paren a then
        bind_result (rename_pair (paren_metas a) (None, None))
          (\<lambda>names. case names of
             (Some x, Some y) \<Rightarrow>
               if x = y then Inr (if p = ''rename'' then found\<lparr>sa_rename := Some x\<rparr>
                                  else found\<lparr>sa_rename_all := Some x\<rparr>)
               else Inl different_names
           | _ \<Rightarrow> Inl different_names)
      else if p = ''rename'' \<and> has_value a then
        bind_result (lit_str a) (\<lambda>v. Inr (found\<lparr>sa_rename := Some v\<rparr>))
      else if p = ''rename_all'' \<and> has_value a then
        bind_result (lit_str a) (\<lambda>v. Inr (found\<lparr>sa_rename_all := Some v\<rparr>))
      else if p = ''rename_all_fields'' \<and> has_value a then
        bind_result (lit_str a) (\<lambda>v. Inr (found\<lparr>sa_rename_all_fields := Some v\<rparr>))
      else if p = ''transparent'' then
        bind_result (flag_end a) (\<lambda>_. Inr (found\<lparr>sa_transparent := True\<rparr>))
      else if p = ''deny_unknown_fields'' then
        bind_result (flag_end a) (\<lambda>_. Inr (found\<lparr>sa_deny_unknown_fields := True\<rparr>))
      else if p = ''tag'' \<and> has_value a then
        bind_result (lit_str a) (\<lambda>v. Inr (found\<lparr>sa_tag := Some v\<rparr>))
      else if p = ''content'' \<and> has_value a then
        bind_result (lit_str a) (\<lambda>v. Inr (found\<lparr>sa_content := Some v\<rparr>))
      else if p = ''untagged'' then
        bind_result (flag_end a) (\<lambda>_. Inr (found\<lparr>sa_untagged := True\<rparr>))
      else if p = ''skip'' then
        bind_result (flag_end a)
          (\<lambda>_. Inr (found\<lparr>sa_skip_serializing := True, sa_skip_deserializing := True\<rparr>))
      else if p = ''skip_serializing'' then
        bind_result (flag_end a) (\<lambda>_. Inr (found\<lparr>sa_skip_serializing := True\<rparr>))
      else if p = ''skip_deserializing'' then
        bind_result (flag_end a) (\<lambda>_. Inr (found\<lparr>sa_skip_deserializing := True\<rparr>))
      else if p = ''flatten'' then
        bind_result (flag_end a) (\<lambda>_. Inr (found\<lparr>sa_flatten := True\<rparr>))
      else if p = ''default'' then
        bind_result (skip_meta a) (\<lambda>_. Inr (found\<lparr>sa_default := True\<rparr>))
      else if p = ''alias'' \<or> p = ''with'' \<or> p = ''deserialize_with'' then
        bind_result (skip_meta a) (\<lambda>_. Inr (found\<lparr>sa_custom_decode := True\<rparr>))
      else if p = ''skip_serializing_if'' then
        bind_result (skip_meta a) (\<lambda>_. Inr (found\<lparr>sa_skip_serializing_if := True\<rparr>))
      else bind_result (skip_meta a) (\<lambda>_. Inr found))"

fun serde_metas :: "meta list \<Rightarrow> serde_attrs \<Rightarrow> serde_attrs macro_result" where
  "serde_metas [] found = Inr found"
| "serde_metas (m # ms) found = bind_result (serde_meta m found) (serde_metas ms)"

fun serde_loop :: "attribute list \<Rightarrow> serde_attrs \<Rightarrow> serde_attrs macro_result" where
  "serde_loop [] found = Inr found"
| "serde_loop (a # attrs) found =
     bind_result (nested_metas a) (\<lambda>ms. bind_result (serde_metas ms found) (serde_loop attrs))"

definition serde_parse :: "attribute list \<Rightarrow> serde_attrs macro_result" where
  "serde_parse attrs = serde_loop (filter (is_ident ''serde'') attrs) serde_default"

section \<open>Wire names\<close>

datatype name_base = Snake | Pascal

fun pascal_loop :: "bool \<Rightarrow> string \<Rightarrow> string" where
  "pascal_loop capitalize [] = []"
| "pascal_loop capitalize (c # cs) =
     (if c = CHR ''_'' then pascal_loop True cs
      else if capitalize then ascii_upper c # pascal_loop False cs
      else c # pascal_loop False cs)"

definition pascal_from_snake :: "string \<Rightarrow> string" where
  "pascal_from_snake original = pascal_loop True original"

text \<open>Whether the text begins with an upper case character.\<close>

definition starts_upper :: "(string \<Rightarrow> bool) \<Rightarrow> string \<Rightarrow> bool" where
  "starts_upper wide_upper s =
     (case s of
        [] \<Rightarrow> False
      | c # _ \<Rightarrow>
          if byte c < 128 then 65 \<le> byte c \<and> byte c \<le> 90
          else (case utf8_head s of None \<Rightarrow> False | Some n \<Rightarrow> wide_upper (take n s)))"

text \<open>The bytes of a character after its first are passed on as they are: none of them starts one.\<close>

fun snake_loop :: "(string \<Rightarrow> bool) \<Rightarrow> bool \<Rightarrow> string \<Rightarrow> string" where
  "snake_loop wide_upper first [] = []"
| "snake_loop wide_upper first (c # cs) =
     (if \<not> first \<and> starts_upper wide_upper (c # cs) then [CHR ''_''] else []) @
     ascii_lower c # snake_loop wide_upper False cs"

definition lower_first :: "string \<Rightarrow> string" where
  "lower_first s = (case s of [] \<Rightarrow> [] | c # cs \<Rightarrow> ascii_lower c # cs)"

definition apply_rename_all ::
  "(string \<Rightarrow> bool) \<Rightarrow> string \<Rightarrow> string \<Rightarrow> name_base \<Rightarrow> string option" where
  "apply_rename_all wide_upper rule original base =
     (case base of
        Snake \<Rightarrow>
          if rule = ''lowercase'' \<or> rule = ''snake_case'' then Some original
          else if rule = ''UPPERCASE'' \<or> rule = ''SCREAMING_SNAKE_CASE'' then Some (to_ascii_uppercase original)
          else if rule = ''PascalCase'' then Some (pascal_from_snake original)
          else if rule = ''camelCase'' then Some (lower_first (pascal_from_snake original))
          else if rule = ''kebab-case'' then Some (replace_char CHR ''_'' ''-'' original)
          else if rule = ''SCREAMING-KEBAB-CASE'' then
            Some (replace_char CHR ''_'' ''-'' (to_ascii_uppercase original))
          else None
      | Pascal \<Rightarrow>
          (let snake = snake_loop wide_upper True original in
           if rule = ''PascalCase'' then Some original
           else if rule = ''lowercase'' then Some (to_ascii_lowercase original)
           else if rule = ''UPPERCASE'' then Some (to_ascii_uppercase original)
           else if rule = ''camelCase'' then Some (lower_first original)
           else if rule = ''snake_case'' then Some snake
           else if rule = ''SCREAMING_SNAKE_CASE'' then Some (to_ascii_uppercase snake)
           else if rule = ''kebab-case'' then Some (replace_char CHR ''_'' ''-'' snake)
           else if rule = ''SCREAMING-KEBAB-CASE'' then
             Some (replace_char CHR ''_'' ''-'' (to_ascii_uppercase snake))
           else None))"

text \<open>\<open>Ident::unraw\<close>: a keyword used as an identifier is written \<open>r#type\<close>.\<close>

definition unraw :: "string \<Rightarrow> string" where
  "unraw ident = (case strip_prefix ident ''r#'' of None \<Rightarrow> ident | Some rest \<Rightarrow> rest)"

definition wire_name ::
  "(string \<Rightarrow> bool) \<Rightarrow> attribute list \<Rightarrow> string \<Rightarrow> string option \<Rightarrow> name_base \<Rightarrow> string macro_result" where
  "wire_name wide_upper attrs ident rename_all base =
     bind_result (serde_parse attrs)
       (\<lambda>found. case sa_rename found of
          Some rename \<Rightarrow> Inr rename
        | None \<Rightarrow>
            (let original = unraw ident in
             case rename_all of
               None \<Rightarrow> Inr original
             | Some rule \<Rightarrow>
                 ok_or (Macro_Error (''unknown serde rename_all rule `'' @ rule @ ''`''))
                   (apply_rename_all wide_upper rule original base)))"

section \<open>The rules and the casings they produce\<close>

lemma skip_meta_ok: "skip_meta a = Inr ()" "skip_metas ms = Inr ()"
  by (induction a and ms rule: skip_meta_skip_metas.induct) auto

text \<open>An identifier in \<open>PascalCase\<close>: ASCII letters and digits, the first an upper case letter.\<close>

definition pascal_ident :: "string \<Rightarrow> bool" where
  "pascal_ident s \<longleftrightarrow>
     (case s of [] \<Rightarrow> False | c # _ \<Rightarrow> 65 \<le> byte c \<and> byte c \<le> 90) \<and> list_all is_ascii_alphanumeric s"

lemma ascii_case [simp]:
  "65 \<le> byte c \<Longrightarrow> byte c \<le> 90 \<Longrightarrow> ascii_upper (ascii_lower c) = c"
  "is_ascii_digit c \<Longrightarrow> ascii_lower c = c"
  "\<not> (65 \<le> byte c \<and> byte c \<le> 90) \<Longrightarrow> ascii_lower c = c"
  by (auto simp: ascii_upper_def ascii_lower_def is_ascii_digit_def)

lemma alnum_no_underscore:
  assumes "is_ascii_alphanumeric c"
  shows "c \<noteq> CHR ''_''" "ascii_lower c \<noteq> CHR ''_''" "ascii_lower c \<noteq> CHR ''-''" "byte c < 128"
proof -
  have "byte (CHR ''_'') = 95" "byte (CHR ''-'') = 45" by simp_all
  moreover have "byte (ascii_lower c) = (if 65 \<le> byte c \<and> byte c \<le> 90 then byte c + 32 else byte c)"
    by (simp add: ascii_lower_def)
  ultimately show "c \<noteq> CHR ''_''" "ascii_lower c \<noteq> CHR ''_''" "ascii_lower c \<noteq> CHR ''-''" "byte c < 128"
    using assms by (auto simp: is_ascii_alphanumeric_def is_ascii_alphabetic_def is_ascii_digit_def split: if_splits)
qed

lemma starts_upper_ascii:
  "byte c < 128 \<Longrightarrow> starts_upper u (c # cs) \<longleftrightarrow> 65 \<le> byte c \<and> byte c \<le> 90"
  by (simp add: starts_upper_def)

lemma pascal_snake_loop:
  "list_all is_ascii_alphanumeric s \<Longrightarrow> pascal_loop False (snake_loop u False s) = s"
  by (induction s) (auto simp: starts_upper_ascii alnum_no_underscore)

lemma pascal_of_snake: "pascal_ident s \<Longrightarrow> pascal_from_snake (snake_loop u True s) = s"
  by (cases s) (auto simp: pascal_ident_def pascal_from_snake_def pascal_snake_loop alnum_no_underscore)

text \<open>Reading a renamed variant back.\<close>

definition upper_first :: "string \<Rightarrow> string" where
  "upper_first s = (case s of [] \<Rightarrow> [] | c # cs \<Rightarrow> ascii_upper c # cs)"

definition pascal_of :: "string \<Rightarrow> string \<Rightarrow> string" where
  "pascal_of rule w =
     (if rule = ''camelCase'' then upper_first w
      else if rule = ''snake_case'' \<or> rule = ''SCREAMING_SNAKE_CASE'' \<or> rule = ''kebab-case'' \<or>
              rule = ''SCREAMING-KEBAB-CASE'' then
        pascal_from_snake (replace_char CHR ''-'' ''_'' (to_ascii_lowercase w))
      else w)"

lemma snake_loop_chars:
  assumes "list_all is_ascii_alphanumeric s" "c \<in> set (snake_loop u b s)"
  shows "c = CHR ''_'' \<or> (is_ascii_alphanumeric c \<and> \<not> (65 \<le> byte c \<and> byte c \<le> 90))"
  using assms
  by (induction s arbitrary: b)
     (auto simp: ascii_lower_def is_ascii_alphanumeric_def is_ascii_alphabetic_def is_ascii_digit_def split: if_splits)

lemma lower_upper_id:
  assumes "\<forall>c \<in> set w. \<not> (65 \<le> byte c \<and> byte c \<le> 90)"
  shows "to_ascii_lowercase (to_ascii_uppercase w) = w" "to_ascii_lowercase w = w"
proof -
  have "ascii_lower (ascii_upper c) = c" if c: "c \<in> set w" for c
    using c assms by (auto simp: ascii_lower_def ascii_upper_def)
  then show "to_ascii_lowercase (to_ascii_uppercase w) = w" "to_ascii_lowercase w = w"
    using assms by (auto simp: to_ascii_lowercase_def to_ascii_uppercase_def intro: map_idI)
qed

lemma ascii_lower_underscore: "ascii_lower c = CHR ''_'' \<longleftrightarrow> c = CHR ''_''"
proof
  assume "ascii_lower c = CHR ''_''"
  then have "byte (ascii_lower c) = 95" by simp
  then have "byte c = byte (CHR ''_'')"
    by (simp add: ascii_lower_def split: if_splits)
  then show "c = CHR ''_''" by (simp only: of_char_eq_iff)
qed (simp add: ascii_lower_def)

lemma lower_replace:
  "to_ascii_lowercase (replace_char CHR ''_'' ''-'' w) = replace_char CHR ''_'' ''-'' (to_ascii_lowercase w)"
proof -
  have "ascii_lower (CHR ''-'') = CHR ''-''" "ascii_lower (CHR ''_'') = CHR ''_''" by code_simp+
  then show ?thesis
    by (induction w) (auto simp: to_ascii_lowercase_def replace_char_def ascii_lower_underscore)
qed

lemma replace_back:
  "CHR ''-'' \<notin> set w \<Longrightarrow> replace_char CHR ''-'' ''_'' (replace_char CHR ''_'' ''-'' w) = w"
  "CHR ''-'' \<notin> set w \<Longrightarrow> replace_char CHR ''-'' ''_'' w = w"
  by (induction w) (auto simp: replace_char_def)

text \<open>C35: The casing rules of enum variants lose nothing: from the wire name a rule other than
  \<open>lowercase\<close> and \<open>UPPERCASE\<close> gives a variant in \<open>PascalCase\<close>, the variant can be read back. So two
  variants of an enum never get the same name from one of these rules.\<close>

theorem rename_rule_reversible:
  assumes "pascal_ident s" "rule \<noteq> ''lowercase''" "rule \<noteq> ''UPPERCASE''"
    and "apply_rename_all wide_upper rule s Pascal = Some w"
  shows "pascal_of rule w = s"
proof -
  let ?sn = "snake_loop wide_upper True s"
  have alnum: "list_all is_ascii_alphanumeric s"
    using assms(1) by (auto simp: pascal_ident_def split: list.splits)
  have low: "\<forall>c \<in> set ?sn. \<not> (65 \<le> byte c \<and> byte c \<le> 90)" and dash: "CHR ''-'' \<notin> set ?sn"
    using snake_loop_chars[OF alnum]
    by (fastforce, fastforce simp: is_ascii_alphanumeric_def is_ascii_alphabetic_def is_ascii_digit_def)
  have undo: "pascal_from_snake (replace_char CHR ''-'' ''_'' (to_ascii_lowercase v)) = s"
    if v: "v \<in> {?sn, to_ascii_uppercase ?sn, replace_char CHR ''_'' ''-'' ?sn,
                 replace_char CHR ''_'' ''-'' (to_ascii_uppercase ?sn)}" for v
    using v pascal_of_snake[OF assms(1)]
    by (elim insertE emptyE) (simp_all only: lower_replace lower_upper_id[OF low] replace_back[OF dash])
  have camel: "upper_first (lower_first s) = s"
    using assms(1) by (cases s) (auto simp: pascal_ident_def upper_first_def lower_first_def)
  show ?thesis
    using assms(2-4) undo camel
    by (simp add: apply_rename_all_def Let_def pascal_of_def split: if_splits)
qed

theorem rename_rule_reversible_witness:
  "apply_rename_all (\<lambda>_. False) ''kebab-case'' ''HttpOk2'' Pascal = Some ''http-ok2'' \<and>
   pascal_of ''kebab-case'' ''http-ok2'' = ''HttpOk2''"
proof -
  have r: "apply_rename_all (\<lambda>_. False) ''kebab-case'' ''HttpOk2'' Pascal = Some ''http-ok2''"
    by code_simp
  moreover have "pascal_ident ''HttpOk2''"
    by (simp add: pascal_ident_def is_ascii_alphanumeric_def is_ascii_alphabetic_def is_ascii_digit_def)
  ultimately show ?thesis
    using rename_rule_reversible[of "''HttpOk2''" "''kebab-case''" "\<lambda>_. False"] by simp
qed

end
