(* ===== verification/Derive_Macro.thy ===== *)
theory Derive_Macro
  imports Serde_Attrs Api_Schema
begin

text \<open>
  Model of the derive macro's expansion: \<open>oas-rs-macros/src/schema_attrs.rs\<close> and the compile-time
  half of \<open>oas-rs-macros/src/lib.rs\<close>. The macro maps the syntax of a type to code or to a compile
  error; here the code it generates is a value of the datatypes below, one constructor for each
  \<open>quote!\<close>, and \<open>Derived_Schema\<close> and \<open>Derived_Query\<close> say what that code does when it runs.
\<close>

section \<open>Doc comments and \<open>#[api_schema(..)]\<close> on fields\<close>

text \<open>\<open>str::lines\<close>: a line ends at a line feed, a carriage return before it is dropped too.\<close>

definition str_lines :: "string \<Rightarrow> string list" where
  "str_lines s =
     (let ps = str_split CHR 0x0A s
      in map (\<lambda>l. case strip_suffix l [CHR 0x0D] of None \<Rightarrow> l | Some l \<Rightarrow> l) (butlast ps) @
         (if last ps = [] then [] else [last ps]))"

definition strip_one :: "string \<Rightarrow> char \<Rightarrow> string" where
  "strip_one s c = (case strip_prefix s [c] of None \<Rightarrow> s | Some rest \<Rightarrow> rest)"

definition block_line :: "string \<Rightarrow> string" where
  "block_line l = trim_end (strip_one (strip_one (trim_start l) CHR ''*'') CHR '' '')"

fun doc_lines :: "attribute \<Rightarrow> string list" where
  "doc_lines (Meta p (Eq_Expr (Lit_Str v))) =
     (if contains_char v CHR 0x0A then map block_line (str_lines v) else [trim_end (strip_one v CHR '' '')])"
| "doc_lines _ = []"

definition doc_comment :: "attribute list \<Rightarrow> string option" where
  "doc_comment attrs =
     (let t = trim (str_join [CHR 0x0A] (concat (map doc_lines (filter (is_ident ''doc'') attrs))))
      in if t = [] then None else Some t)"

definition valued :: "(string \<times> string) list" where
  "valued =
     [(''example'', ''example''), (''minimum'', ''minimum''), (''maximum'', ''maximum''),
      (''min_length'', ''minLength''), (''max_length'', ''maxLength''), (''pattern'', ''pattern''),
      (''min_items'', ''minItems''), (''max_items'', ''maxItems''), (''format'', ''format'')]"

text \<open>An entry holds the JSON its expression has when the generated code evaluates it.\<close>

record field_doc =
  fd_description :: "string option"
  fd_entries :: "(string \<times> json) list"
  fd_deprecated :: bool

fun literal_json :: "literal \<Rightarrow> json" where
  "literal_json (Lit_Str s) = JStr s"
| "literal_json (Other_Expr j) = j"

fun parse_expr :: "meta_arg \<Rightarrow> json macro_result" where
  "parse_expr (Eq_Expr e) = Inr (literal_json e)"
| "parse_expr _ = Inl Syn_Error"

definition unsupported_field_attr :: macro_error where
  "unsupported_field_attr = Macro_Error
     (''unsupported api_schema attribute; expected one of description, example, '' @
      ''minimum, maximum, min_length, max_length, pattern, min_items, max_items, '' @
      ''format, deprecated'')"

fun field_doc_meta :: "meta \<Rightarrow> field_doc \<Rightarrow> field_doc macro_result" where
  "field_doc_meta (Meta p a) found =
     (if p = ''deprecated'' then
        bind_result (flag_end a) (\<lambda>_. Inr (found\<lparr>fd_deprecated := True\<rparr>))
      else if p = ''description'' then
        bind_result (lit_str a) (\<lambda>v. Inr (found\<lparr>fd_description := Some v\<rparr>))
      else (case map_of valued p of
              Some keyword \<Rightarrow>
                bind_result (parse_expr a) (\<lambda>j. Inr (found\<lparr>fd_entries := fd_entries found @ [(keyword, j)]\<rparr>))
            | None \<Rightarrow> Inl unsupported_field_attr))"

fun field_doc_metas :: "meta list \<Rightarrow> field_doc \<Rightarrow> field_doc macro_result" where
  "field_doc_metas [] found = Inr found"
| "field_doc_metas (m # ms) found = bind_result (field_doc_meta m found) (field_doc_metas ms)"

fun field_doc_loop :: "attribute list \<Rightarrow> field_doc \<Rightarrow> field_doc macro_result" where
  "field_doc_loop [] found = Inr found"
| "field_doc_loop (a # attrs) found =
     bind_result (nested_metas a) (\<lambda>ms. bind_result (field_doc_metas ms found) (field_doc_loop attrs))"

definition field_doc_of :: "attribute list \<Rightarrow> field_doc macro_result" where
  "field_doc_of attrs =
     field_doc_loop (filter (is_ident ''api_schema'') attrs)
       \<lparr>fd_description = doc_comment attrs, fd_entries = [], fd_deprecated = False\<rparr>"

section \<open>The syntax of the input\<close>

text \<open>
  A type as the macro sees it, the last segment of its path and the first type argument of that
  segment, together with the type the compiler takes it for: a name of the application's or of the
  standard library's.
\<close>

datatype rust_type =
    Path_Type (ty_segment: string) (ty_argument: "rust_type option") (ty_meaning: "string api_type")
  | Other_Type (ty_meaning: "string api_type")

record field =
  fl_ident :: string
  fl_attrs :: "attribute list"
  fl_type :: rust_type

datatype fields = Named_Fields "field list" | Unnamed_Fields "field list" | Unit_Fields

record variant =
  va_ident :: string
  va_attrs :: "attribute list"
  va_fields :: fields

datatype data = Data_Struct fields | Data_Enum "variant list" | Data_Union

record derive_input =
  di_ident :: string
  di_attrs :: "attribute list"
  di_generics :: nat
  di_data :: data

fun option_inner :: "rust_type \<Rightarrow> rust_type \<times> bool" where
  "option_inner (Path_Type segment (Some inner) m) =
     (if segment = ''Option'' then (inner, True) else (Path_Type segment (Some inner) m, False))"
| "option_inner ty = (ty, False)"

definition query_types :: "string list" where
  "query_types = [''String'', ''bool'', ''u32'', ''u64'', ''i32'', ''i64'', ''f32'', ''f64'', ''Uuid'']"

fun supports_query_value :: "rust_type \<Rightarrow> bool" where
  "supports_query_value (Path_Type segment a m) \<longleftrightarrow> segment \<in> set query_types"
| "supports_query_value (Other_Type m) \<longleftrightarrow> False"

section \<open>The generated code\<close>

datatype direction = Both_Ways | Write_Only | Read_Only

datatype requirement = Not_Required | Required_In_Requests | Always_Required

record property =
  pr_wire :: string
  pr_type :: rust_type
  pr_doc :: field_doc
  pr_direction :: direction
  pr_require :: requirement

datatype statement =
    Tag_Property string string
  | Flatten_Into rust_type bool
  | Add_Property property

datatype schema_expr =
    Object_Expr "statement list" "string option" bool
  | Type_Expr rust_type
  | Tuple_Expr "rust_type list"

datatype alternative =
    Alt_External_Unit string
  | Alt_External string schema_expr
  | Alt_Tag_Only string string
  | Alt_Internal_Newtype string string rust_type
  | Alt_Adjacent string string string schema_expr
  | Alt_Null
  | Alt_Plain schema_expr

datatype schema_body =
    Struct_Body schema_expr
  | String_Enum "string option" "string list"
  | Any_Of "string option" "alternative list"
  | One_Of "string option" "alternative list"

datatype parameter_code = Push_Parameter string bool rust_type | Extend_Parameters rust_type bool

record query_field =
  qf_ident :: string
  qf_wire :: string
  qf_type :: rust_type
  qf_optional :: bool

datatype query_parser = Direct_Parser "query_field list" | Guided_Parser | Default_Parser

datatype derived =
    Derived_Struct string schema_body "parameter_code list" query_parser
  | Derived_Enum string schema_body
  | Derived_Transparent rust_type

section \<open>Container attributes\<close>

definition unsupported_name_attr :: macro_error where
  "unsupported_name_attr = Macro_Error
     (''unsupported api_schema attribute; expected `name = '' @ [CHR 0x22] @ ''...'' @ [CHR 0x22] @ ''`'')"

fun schema_name_metas :: "meta list \<Rightarrow> string \<Rightarrow> string macro_result" where
  "schema_name_metas [] n = Inr n"
| "schema_name_metas (Meta p a # ms) n =
     (if p = ''name'' then bind_result (lit_str a) (schema_name_metas ms) else Inl unsupported_name_attr)"

fun schema_name_loop :: "attribute list \<Rightarrow> string \<Rightarrow> string macro_result" where
  "schema_name_loop [] n = Inr n"
| "schema_name_loop (a # attrs) n =
     bind_result (nested_metas a) (\<lambda>ms. bind_result (schema_name_metas ms n) (schema_name_loop attrs))"

definition component_char :: "char \<Rightarrow> bool" where
  "component_char c \<longleftrightarrow> is_ascii_alphanumeric c \<or> c = CHR ''.'' \<or> c = CHR ''-'' \<or> c = CHR ''_''"

definition invalid_component_name :: macro_error where
  "invalid_component_name = Macro_Error
     (''an OpenAPI component name may only contain letters, digits, '' @
      [CHR 0x27, CHR ''.'', CHR 0x27] @ '', '' @ [CHR 0x27, CHR ''-'', CHR 0x27] @ '' and '' @
      [CHR 0x27, CHR ''_'', CHR 0x27])"

definition schema_name :: "attribute list \<Rightarrow> string \<Rightarrow> string macro_result" where
  "schema_name attrs ident =
     bind_result (schema_name_loop (filter (is_ident ''api_schema'') attrs) ident)
       (\<lambda>n. if n \<noteq> [] \<and> list_all component_char n then Inr n else Inl invalid_component_name)"

section \<open>\<open>object_schema\<close>\<close>

definition field_property ::
  "(string \<Rightarrow> bool) \<Rightarrow> string option \<Rightarrow> bool \<Rightarrow> field \<Rightarrow> serde_attrs \<Rightarrow> property macro_result" where
  "field_property up rename_all container_default f serde =
     bind_result (wire_name up (fl_attrs f) (fl_ident f) rename_all Snake)
       (\<lambda>wire. bind_result (field_doc_of (fl_attrs f))
          (\<lambda>doc.
             let is_required = \<not> (snd (option_inner (fl_type f)) \<or> sa_default serde \<or> container_default \<or>
                                   sa_skip_deserializing serde)
             in Inr \<lparr>pr_wire = wire, pr_type = fl_type f, pr_doc = doc,
                     pr_direction = (if sa_skip_serializing serde then Write_Only
                                     else if sa_skip_deserializing serde then Read_Only else Both_Ways),
                     pr_require = (if \<not> is_required then Not_Required
                                   else if sa_skip_serializing_if serde then Required_In_Requests
                                   else Always_Required)\<rparr>))"

fun object_statements ::
  "(string \<Rightarrow> bool) \<Rightarrow> string option \<Rightarrow> bool \<Rightarrow> field list \<Rightarrow> statement list macro_result" where
  "object_statements up rename_all container_default [] = Inr []"
| "object_statements up rename_all container_default (f # fs) =
     bind_result (serde_parse (fl_attrs f))
       (\<lambda>serde.
          if serde_skipped serde then object_statements up rename_all container_default fs
          else bind_result
            (if sa_flatten serde then
               (let (t, opt) = option_inner (fl_type f) in Inr (Flatten_Into t opt))
             else bind_result (field_property up rename_all container_default f serde)
                    (\<lambda>p. Inr (Add_Property p)))
            (\<lambda>st. bind_result (object_statements up rename_all container_default fs)
                    (\<lambda>sts. Inr (st # sts))))"

fun is_flatten :: "statement \<Rightarrow> bool" where
  "is_flatten (Flatten_Into t opt) = True"
| "is_flatten _ = False"

definition object_schema ::
  "(string \<Rightarrow> bool) \<Rightarrow> field list \<Rightarrow> string option \<Rightarrow> (string \<times> string) option \<Rightarrow> string option \<Rightarrow>
     bool \<Rightarrow> bool \<Rightarrow> schema_expr macro_result" where
  "object_schema up fs rename_all tag description container_default deny_unknown =
     bind_result (object_statements up rename_all container_default fs)
       (\<lambda>sts. Inr (Object_Expr ((case tag of None \<Rightarrow> [] | Some (key, v) \<Rightarrow> [Tag_Property key v]) @ sts)
                description (deny_unknown \<and> \<not> list_ex is_flatten sts)))"

section \<open>Structs\<close>

fun kept_fields :: "field list \<Rightarrow> field list macro_result" where
  "kept_fields [] = Inr []"
| "kept_fields (f # fs) =
     bind_result (serde_parse (fl_attrs f))
       (\<lambda>serde. bind_result (kept_fields fs)
          (\<lambda>rest. Inr (if serde_skipped serde then rest else f # rest)))"

definition derive_transparent :: "field list \<Rightarrow> derived macro_result" where
  "derive_transparent fs =
     bind_result (kept_fields fs)
       (\<lambda>kept. case kept of
          [f] \<Rightarrow> Inr (Derived_Transparent (fl_type f))
        | _ \<Rightarrow> Inl (Macro_Error ''#[serde(transparent)] needs exactly one field that is not skipped''))"

record struct_query =
  sq_parameters :: "parameter_code list"
  sq_fields :: "query_field list"
  sq_direct :: bool
  sq_flatten :: bool

fun query_loop ::
  "(string \<Rightarrow> bool) \<Rightarrow> serde_attrs \<Rightarrow> field list \<Rightarrow> struct_query \<Rightarrow> struct_query macro_result" where
  "query_loop up container [] q = Inr q"
| "query_loop up container (f # fs) q =
     bind_result (serde_parse (fl_attrs f))
       (\<lambda>serde.
          let q = (if sa_flatten serde \<and> \<not> serde_skipped serde
                   then (let (t, opt) = option_inner (fl_type f)
                         in q\<lparr>sq_flatten := True, sq_parameters := sq_parameters q @ [Extend_Parameters t opt]\<rparr>)
                   else q)
          in if serde_skipped serde \<or> sa_flatten serde \<or> sa_skip_deserializing serde
             then query_loop up container fs (q\<lparr>sq_direct := False\<rparr>)
             else bind_result (wire_name up (fl_attrs f) (fl_ident f) (sa_rename_all container) Snake)
               (\<lambda>wire.
                  let (t, opt) = option_inner (fl_type f);
                      required = (\<not> opt \<and> \<not> sa_default serde \<and> \<not> sa_default container);
                      filled = (sa_default serde \<or> sa_default container \<or> sa_custom_decode serde)
                  in query_loop up container fs
                       (q\<lparr>sq_parameters := sq_parameters q @ [Push_Parameter wire required t],
                          sq_direct := sq_direct q \<and> \<not> filled \<and> supports_query_value t,
                          sq_fields := sq_fields q @
                            [\<lparr>qf_ident = fl_ident f, qf_wire = wire, qf_type = t, qf_optional = opt\<rparr>]\<rparr>)))"

definition derive_struct ::
  "(string \<Rightarrow> bool) \<Rightarrow> string \<Rightarrow> field list \<Rightarrow> serde_attrs \<Rightarrow> string option \<Rightarrow> derived macro_result" where
  "derive_struct up component fs container description =
     (if sa_transparent container then derive_transparent fs
      else bind_result
        (object_schema up fs (sa_rename_all container) None description (sa_default container)
           (sa_deny_unknown_fields container))
        (\<lambda>schema. bind_result
           (query_loop up container fs
              \<lparr>sq_parameters = [], sq_fields = [], sq_direct = \<not> sa_deny_unknown_fields container,
               sq_flatten = False\<rparr>)
           (\<lambda>q. Inr (Derived_Struct component (Struct_Body schema) (sq_parameters q)
                   (if sq_direct q then Direct_Parser (sq_fields q)
                    else if sq_flatten q then Guided_Parser
                    else Default_Parser)))))"

section \<open>Enums\<close>

datatype tagging = External | Internal string | Adjacent string string | Untagged

definition tagging_of :: "serde_attrs \<Rightarrow> tagging" where
  "tagging_of container =
     (if sa_untagged container then Untagged
      else (case (sa_tag container, sa_content container) of
              (Some tag, Some content) \<Rightarrow> Adjacent tag content
            | (Some tag, None) \<Rightarrow> Internal tag
            | (None, _) \<Rightarrow> External))"

fun parse_variants :: "variant list \<Rightarrow> (variant \<times> serde_attrs) list macro_result" where
  "parse_variants [] = Inr []"
| "parse_variants (v # vs) =
     bind_result (serde_parse (va_attrs v))
       (\<lambda>serde. bind_result (parse_variants vs) (\<lambda>rest. Inr ((v, serde) # rest)))"

definition payload_of ::
  "(string \<Rightarrow> bool) \<Rightarrow> string option \<Rightarrow> bool \<Rightarrow> fields \<Rightarrow> schema_expr option macro_result" where
  "payload_of up rename_all variant_default fs =
     (case fs of
        Unit_Fields \<Rightarrow> Inr None
      | Unnamed_Fields [f] \<Rightarrow> Inr (Some (Type_Expr (fl_type f)))
      | Unnamed_Fields fs \<Rightarrow> Inr (Some (Tuple_Expr (map fl_type fs)))
      | Named_Fields fs \<Rightarrow>
          bind_result (object_schema up fs rename_all None None variant_default False) (\<lambda>e. Inr (Some e)))"

definition alternative_of ::
  "(string \<Rightarrow> bool) \<Rightarrow> string option \<Rightarrow> bool \<Rightarrow> tagging \<Rightarrow> string \<Rightarrow> fields \<Rightarrow> schema_expr option \<Rightarrow>
     alternative macro_result" where
  "alternative_of up rename_all variant_default tagging wire fs payload =
     (case (tagging, payload) of
        (External, None) \<Rightarrow> Inr (Alt_External_Unit wire)
      | (External, Some p) \<Rightarrow> Inr (Alt_External wire p)
      | (Internal tag, None) \<Rightarrow> Inr (Alt_Tag_Only tag wire)
      | (Internal tag, Some _) \<Rightarrow>
          (case fs of
             Named_Fields fs \<Rightarrow>
               bind_result (object_schema up fs rename_all (Some (tag, wire)) None variant_default False)
                 (\<lambda>e. Inr (Alt_Plain e))
           | Unnamed_Fields [f] \<Rightarrow> Inr (Alt_Internal_Newtype tag wire (fst (option_inner (fl_type f))))
           | _ \<Rightarrow> Inl (Macro_Error ''internally tagged enums cannot have tuple variants''))
      | (Adjacent tag _, None) \<Rightarrow> Inr (Alt_Tag_Only tag wire)
      | (Adjacent tag content, Some p) \<Rightarrow> Inr (Alt_Adjacent tag wire content p)
      | (Untagged, None) \<Rightarrow> Inr Alt_Null
      | (Untagged, Some p) \<Rightarrow> Inr (Alt_Plain p))"

fun alternatives_loop ::
  "(string \<Rightarrow> bool) \<Rightarrow> serde_attrs \<Rightarrow> tagging \<Rightarrow> (variant \<times> serde_attrs) list \<Rightarrow>
     alternative list macro_result" where
  "alternatives_loop up container tagging [] = Inr []"
| "alternatives_loop up container tagging ((v, serde) # vs) =
     bind_result (wire_name up (va_attrs v) (va_ident v) (sa_rename_all container) Pascal)
       (\<lambda>wire.
          let rename_all = (case sa_rename_all serde of None \<Rightarrow> sa_rename_all_fields container | r \<Rightarrow> r);
              own_tagging = (if sa_untagged serde then Untagged else tagging)
          in bind_result (payload_of up rename_all (sa_default serde) (va_fields v))
               (\<lambda>payload. bind_result
                  (alternative_of up rename_all (sa_default serde) own_tagging wire (va_fields v) payload)
                  (\<lambda>a. bind_result (alternatives_loop up container tagging vs) (\<lambda>rest. Inr (a # rest)))))"

fun wire_names ::
  "(string \<Rightarrow> bool) \<Rightarrow> string option \<Rightarrow> (variant \<times> serde_attrs) list \<Rightarrow> string list macro_result" where
  "wire_names up rename_all [] = Inr []"
| "wire_names up rename_all ((v, serde) # vs) =
     bind_result (wire_name up (va_attrs v) (va_ident v) rename_all Pascal)
       (\<lambda>wire. bind_result (wire_names up rename_all vs) (\<lambda>rest. Inr (wire # rest)))"

definition derive_enum ::
  "(string \<Rightarrow> bool) \<Rightarrow> string \<Rightarrow> variant list \<Rightarrow> serde_attrs \<Rightarrow> string option \<Rightarrow> derived macro_result" where
  "derive_enum up component vs container description =
     (let tagging = tagging_of container in
      bind_result (parse_variants vs)
        (\<lambda>parsed.
           let kept = filter (\<lambda>(v, serde). \<not> serde_skipped serde) parsed in
           if list_ex (\<lambda>(v, serde). list_ex (is_ident ''api_schema'') (va_attrs v)) kept
           then Inl (Macro_Error ''api_schema attributes are not supported on enum variants'')
           else if tagging = External \<and> list_all (\<lambda>(v, serde). va_fields v = Unit_Fields) kept
           then bind_result (wire_names up (sa_rename_all container) kept)
                  (\<lambda>names. Inr (Derived_Enum component (String_Enum description names)))
           else bind_result (alternatives_loop up container tagging kept)
                  (\<lambda>alternatives. Inr (Derived_Enum component
                     (if tagging = Untagged \<or> list_ex (\<lambda>(v, serde). sa_untagged serde) kept
                      then Any_Of description alternatives else One_Of description alternatives)))))"

section \<open>The macro\<close>

definition expand :: "(string \<Rightarrow> bool) \<Rightarrow> derive_input \<Rightarrow> derived macro_result" where
  "expand up input =
     (if di_generics input \<noteq> 0
      then Inl (Macro_Error ''ApiSchema does not support generic types; implement `ApiSchema` by hand'')
      else bind_result (schema_name (di_attrs input) (di_ident input))
        (\<lambda>component. bind_result (serde_parse (di_attrs input))
           (\<lambda>serde.
              let description = doc_comment (di_attrs input) in
              case di_data input of
                Data_Enum vs \<Rightarrow> derive_enum up component vs serde description
              | Data_Struct (Named_Fields fs) \<Rightarrow> derive_struct up component fs serde description
              | Data_Struct _ \<Rightarrow> Inl (Macro_Error ''ApiSchema requires named struct fields'')
              | Data_Union \<Rightarrow> Inl (Macro_Error ''ApiSchema can only derive for structs and enums''))))"

end
