(* ===== verification/Derived_Schema.thy ===== *)
theory Derived_Schema
  imports Derive_Macro
begin

text \<open>
  What the code the derive macro generates does when it runs: the schema of the type, in a response
  and in a request (\<open>schema_impl\<close>, \<open>schema_call\<close>, \<open>object_schema\<close>, \<open>derive_enum\<close> and \<open>FieldDoc::decorate\<close>
  of \<open>oas-rs-macros/src/\<close>). The types it names are looked up in an environment of implementations.
\<close>

section \<open>Schema calls\<close>

type_synonym impls = "string \<Rightarrow> api_impl"

definition resolved_type :: "impls \<Rightarrow> rust_type \<Rightarrow> api_impl api_type" where
  "resolved_type env ty = map_api_type env (ty_meaning ty)"

definition schema_call :: "impls \<Rightarrow> bool \<Rightarrow> rust_type \<Rightarrow> builder" where
  "schema_call env request ty =
     (if request then api_request_schema_with (resolved_type env ty) else api_schema_with (resolved_type env ty))"

text \<open>A flattened type is built on a registry of its own, which is then dropped.\<close>

definition flat_call :: "impls \<Rightarrow> bool \<Rightarrow> rust_type \<Rightarrow> json" where
  "flat_call env request ty =
     (if request then fst (api_request_schema_with (resolved_type env ty) registry_inline)
      else api_schema (resolved_type env ty))"

fun schema_calls :: "impls \<Rightarrow> bool \<Rightarrow> rust_type list \<Rightarrow> registry \<Rightarrow> json list \<times> registry" where
  "schema_calls env request [] r = ([], r)"
| "schema_calls env request (ty # tys) r =
     (let (s, r) = schema_call env request ty r; (rest, r) = schema_calls env request tys r in (s # rest, r))"

section \<open>Objects\<close>

definition insert_opt :: "string \<Rightarrow> string option \<Rightarrow> (string \<times> json) list \<Rightarrow> (string \<times> json) list" where
  "insert_opt key v m = (case v of None \<Rightarrow> m | Some t \<Rightarrow> obj_insert key (JStr t) m)"

definition map_object :: "((string \<times> json) list \<Rightarrow> (string \<times> json) list) \<Rightarrow> json \<Rightarrow> json" where
  "map_object f j = (case j of JObj m \<Rightarrow> JObj (f m) | _ \<Rightarrow> j)"

definition decorate_property :: "field_doc \<Rightarrow> json \<Rightarrow> json" where
  "decorate_property doc =
     map_object (\<lambda>m.
       fold (\<lambda>(keyword, v) m. obj_insert keyword v m) (fd_entries doc)
         (let m = insert_opt ''description'' (fd_description doc) m
          in if fd_deprecated doc then obj_insert ''deprecated'' (JBool True) m else m))"

definition direct_property :: "direction \<Rightarrow> json \<Rightarrow> json" where
  "direct_property d =
     map_object (\<lambda>m. case d of
        Both_Ways \<Rightarrow> m
      | Write_Only \<Rightarrow> obj_insert ''writeOnly'' (JBool True) m
      | Read_Only \<Rightarrow> obj_insert ''readOnly'' (JBool True) m)"

definition requires :: "bool \<Rightarrow> requirement \<Rightarrow> bool" where
  "requires request q \<longleftrightarrow>
     (case q of Not_Required \<Rightarrow> False | Required_In_Requests \<Rightarrow> request | Always_Required \<Rightarrow> True)"

definition tag_schema :: "string \<Rightarrow> json" where
  "tag_schema v = JObj (obj_of [(''type'', JStr ''string''), (''enum'', JArr [JStr v])])"

record object_state =
  os_properties :: "(string \<times> json) list"
  os_required :: "string list"
  os_all_of :: "json list"
  os_schema :: "(string \<times> json) list"

definition object_start :: object_state where
  "object_start = \<lparr>os_properties = [], os_required = [], os_all_of = [], os_schema = []\<rparr>"

definition put_property :: "string \<Rightarrow> json \<Rightarrow> bool \<Rightarrow> object_state \<Rightarrow> object_state" where
  "put_property key j required s =
     s\<lparr>os_properties := obj_insert key j (os_properties s),
       os_required := os_required s @ (if required then [key] else [])\<rparr>"

fun run_statement :: "impls \<Rightarrow> bool \<Rightarrow> statement \<Rightarrow> object_state \<times> registry \<Rightarrow> object_state \<times> registry" where
  "run_statement env request (Tag_Property key v) (s, r) = (put_property key (tag_schema v) True s, r)"
| "run_statement env request (Flatten_Into ty opt) (s, r) =
     (let (schema, all_of) = flatten_schema (os_schema s) (os_all_of s) (flat_call env request ty) opt
      in (s\<lparr>os_schema := schema, os_all_of := all_of\<rparr>, r))"
| "run_statement env request (Add_Property p) (s, r) =
     (let (j, r) = schema_call env request (pr_type p) r
      in (put_property (pr_wire p) (direct_property (pr_direction p) (decorate_property (pr_doc p) j))
            (requires request (pr_require p)) s, r))"

definition finish_object :: "string option \<Rightarrow> bool \<Rightarrow> object_state \<Rightarrow> json" where
  "finish_object description strict s =
     (let m = obj_insert ''type'' (JStr ''object'') (os_schema s);
          m = insert_opt ''description'' description m;
          m = obj_insert ''properties'' (JObj (os_properties s)) m;
          m = (if os_required s \<noteq> [] then obj_insert ''required'' (JArr (map JStr (os_required s))) m else m);
          m = (if os_all_of s \<noteq> [] then obj_insert ''allOf'' (JArr (os_all_of s)) m else m);
          m = (if strict then obj_insert ''additionalProperties'' (JBool False) m else m)
      in JObj m)"

definition run_object :: "impls \<Rightarrow> bool \<Rightarrow> statement list \<Rightarrow> string option \<Rightarrow> bool \<Rightarrow> builder" where
  "run_object env request sts description strict r =
     (let (s, r) = fold (run_statement env request) sts (object_start, r)
      in (finish_object description strict s, r))"

definition tuple_schema :: "json list \<Rightarrow> json" where
  "tuple_schema items =
     JObj (obj_of [(''type'', JStr ''array''), (''prefixItems'', JArr items),
       (''minItems'', JInt (int (length items))), (''maxItems'', JInt (int (length items)))])"

fun run_expr :: "impls \<Rightarrow> bool \<Rightarrow> schema_expr \<Rightarrow> builder" where
  "run_expr env request (Object_Expr sts description strict) r = run_object env request sts description strict r"
| "run_expr env request (Type_Expr ty) r = schema_call env request ty r"
| "run_expr env request (Tuple_Expr tys) r =
     (let (items, r) = schema_calls env request tys r in (tuple_schema items, r))"

section \<open>Enums\<close>

definition keyed_schema :: "(string \<times> json) list \<Rightarrow> string list \<Rightarrow> json" where
  "keyed_schema properties required =
     JObj (obj_of [(''type'', JStr ''object''), (''properties'', JObj (obj_of properties)),
       (''required'', JArr (map JStr required))])"

definition internal_newtype_schema :: "string \<Rightarrow> string \<Rightarrow> json \<Rightarrow> json" where
  "internal_newtype_schema tag wire flattened =
     (let m = obj_of [(''type'', JStr ''object''), (''properties'', JObj (obj_of [(tag, tag_schema wire)])),
                (''required'', JArr [JStr tag])];
          (m, all_of) = flatten_schema m [] flattened False
      in JObj (if all_of \<noteq> [] then obj_insert ''allOf'' (JArr all_of) m else m))"

fun run_alternative :: "impls \<Rightarrow> bool \<Rightarrow> alternative \<Rightarrow> builder" where
  "run_alternative env request (Alt_External_Unit wire) r = (tag_schema wire, r)"
| "run_alternative env request (Alt_External wire e) r =
     (let (p, r) = run_expr env request e r in (keyed_schema [(wire, p)] [wire], r))"
| "run_alternative env request (Alt_Tag_Only tag wire) r = (keyed_schema [(tag, tag_schema wire)] [tag], r)"
| "run_alternative env request (Alt_Internal_Newtype tag wire ty) r =
     (let (p, r) = schema_call env request ty r in (internal_newtype_schema tag wire p, r))"
| "run_alternative env request (Alt_Adjacent tag wire content e) r =
     (let (p, r) = run_expr env request e r
      in (keyed_schema [(tag, tag_schema wire), (content, p)] [tag, content], r))"
| "run_alternative env request Alt_Null r = (JObj [(''type'', JStr ''null'')], r)"
| "run_alternative env request (Alt_Plain e) r = run_expr env request e r"

fun run_alternatives :: "impls \<Rightarrow> bool \<Rightarrow> alternative list \<Rightarrow> registry \<Rightarrow> json list \<times> registry" where
  "run_alternatives env request [] r = ([], r)"
| "run_alternatives env request (a # as) r =
     (let (s, r) = run_alternative env request a r; (rest, r) = run_alternatives env request as r
      in (s # rest, r))"

definition string_enum_schema :: "string option \<Rightarrow> string list \<Rightarrow> json" where
  "string_enum_schema description wires =
     JObj (insert_opt ''description'' description
       (obj_of [(''type'', JStr ''string''), (''enum'', JArr (map JStr wires))]))"

definition combine :: "string \<Rightarrow> string option \<Rightarrow> json list \<Rightarrow> json" where
  "combine combinator description ss = JObj (obj_insert combinator (JArr ss) (insert_opt ''description'' description []))"

text \<open>\<open>__oas_schema_body\<close>.\<close>

fun run_body :: "impls \<Rightarrow> bool \<Rightarrow> schema_body \<Rightarrow> builder" where
  "run_body env request (Struct_Body e) r = run_expr env request e r"
| "run_body env request (String_Enum description wires) r = (string_enum_schema description wires, r)"
| "run_body env request (Any_Of description alternatives) r =
     (let (ss, r) = run_alternatives env request alternatives r in (combine ''anyOf'' description ss, r))"
| "run_body env request (One_Of description alternatives) r =
     (let (ss, r) = run_alternatives env request alternatives r in (combine ''oneOf'' description ss, r))"

section \<open>The implementation of \<open>ApiSchema\<close>\<close>

definition schema_impl :: "impls \<Rightarrow> string \<Rightarrow> string \<Rightarrow> schema_body \<Rightarrow> api_impl" where
  "schema_impl env owner component body =
     \<lparr>ai_schema = fst (schema_define owner component (run_body env False body) registry_inline),
      ai_schema_with = schema_define owner component (run_body env False body),
      ai_request_schema_with =
        schema_define_input owner component (run_body env False body) (run_body env True body)\<rparr>"

definition transparent_impl :: "impls \<Rightarrow> rust_type \<Rightarrow> api_impl" where
  "transparent_impl env ty =
     \<lparr>ai_schema = api_schema (resolved_type env ty), ai_schema_with = api_schema_with (resolved_type env ty),
      ai_request_schema_with = api_request_schema_with (resolved_type env ty)\<rparr>"

fun derived_impl :: "impls \<Rightarrow> string \<Rightarrow> derived \<Rightarrow> api_impl" where
  "derived_impl env owner (Derived_Struct component body ps q) = schema_impl env owner component body"
| "derived_impl env owner (Derived_Enum component body) = schema_impl env owner component body"
| "derived_impl env owner (Derived_Transparent ty) = transparent_impl env ty"

end
