(* ===== verification/Derived_Wire.thy ===== *)
theory Derived_Wire
  imports Derived_Schema
begin

text \<open>
  The schema of a derived struct and the JSON serde reads and writes for it. The two directions are
  the ones the derive distinguishes: a request is validated by the request form of the schema and
  decoded, a response is encoded and described by the response form. What serde does with the
  attributes is stated from its documentation, on the attributes themselves and not on the derived
  code.
\<close>

section \<open>What serde reads and writes\<close>

definition attrs_of :: "field \<Rightarrow> serde_attrs" where
  "attrs_of f = projr (serde_parse (fl_attrs f))"

definition wire_of :: "(string \<Rightarrow> bool) \<Rightarrow> serde_attrs \<Rightarrow> field \<Rightarrow> string" where
  "wire_of up container f = projr (wire_name up (fl_attrs f) (fl_ident f) (sa_rename_all container) Snake)"

definition is_option :: "field \<Rightarrow> bool" where
  "is_option f \<longleftrightarrow> (case ty_meaning (fl_type f) of T_Option t \<Rightarrow> True | _ \<Rightarrow> False)"

text \<open>Reading a struct: a value given for a field must decode, a missing one needs a default or an
  \<open>Option\<close>, and an unknown name is an error only under \<open>deny_unknown_fields\<close>.\<close>

definition serde_reads :: "(string \<Rightarrow> bool) \<Rightarrow> serde_attrs \<Rightarrow> field list \<Rightarrow> (string \<times> json) list \<Rightarrow> bool" where
  "serde_reads up container fs kvs \<longleftrightarrow>
     list_all (\<lambda>f. sa_skip_deserializing (attrs_of f) \<or>
       (case map_of kvs (wire_of up container f) of
          Some v \<Rightarrow> encodes (ty_meaning (fl_type f)) v
        | None \<Rightarrow> sa_default (attrs_of f) \<or> sa_default container \<or> is_option f)) fs \<and>
     (sa_deny_unknown_fields container \<longrightarrow>
        (\<forall>k \<in> set (map fst kvs). list_ex (\<lambda>f. \<not> sa_skip_deserializing (attrs_of f) \<and> wire_of up container f = k) fs))"

text \<open>Writing one: every field that is not skipped is there, unless its \<open>skip_serializing_if\<close> left it out.\<close>

definition serde_writes :: "(string \<Rightarrow> bool) \<Rightarrow> serde_attrs \<Rightarrow> field list \<Rightarrow> (string \<times> json) list \<Rightarrow> bool" where
  "serde_writes up container fs kvs \<longleftrightarrow>
     list_all (\<lambda>f. sa_skip_serializing (attrs_of f) \<or>
       (case map_of kvs (wire_of up container f) of
          Some v \<Rightarrow> encodes (ty_meaning (fl_type f)) v
        | None \<Rightarrow> sa_skip_serializing_if (attrs_of f))) fs \<and>
     (\<forall>k \<in> set (map fst kvs). list_ex (\<lambda>f. \<not> sa_skip_serializing (attrs_of f) \<and> wire_of up container f = k) fs)"

text \<open>
  The structs the theorem is about: fields of standard types, no flattening, no hand-written decoding
  and no schema keywords added by hand; every wire name once.
\<close>

definition plain_field :: "field \<Rightarrow> bool" where
  "plain_field f \<longleftrightarrow>
     \<not> sa_flatten (attrs_of f) \<and> \<not> sa_custom_decode (attrs_of f) \<and>
     std_type (ty_meaning (fl_type f)) \<and> exact_type (ty_meaning (fl_type f)) \<and>
     (snd (option_inner (fl_type f)) \<longleftrightarrow> is_option f) \<and>
     (case field_doc_of (fl_attrs f) of Inr doc \<Rightarrow> fd_entries doc = [] | Inl e \<Rightarrow> True)"

definition kept :: "field list \<Rightarrow> field list" where
  "kept fs = filter (\<lambda>f. \<not> serde_skipped (attrs_of f)) fs"

section \<open>The schema that is built\<close>

lemma map_api_type_std [simp]:
  "std_type (map_api_type e t) = std_type t" "levels (map_api_type e t) = levels t"
  "exact_type (map_api_type e t) = exact_type t" "std_type t \<Longrightarrow> encodes (map_api_type e t) j = encodes t j"
proof -
  show "std_type (map_api_type e t) = std_type t" "levels (map_api_type e t) = levels t"
    "exact_type (map_api_type e t) = exact_type t"
    by (induction t) auto
  show "std_type t \<Longrightarrow> encodes (map_api_type e t) j = encodes t j"
    by (induction t arbitrary: j) (auto simp: list_all_iff split: json.splits)
qed

lemma schema_call_std:
  "std_type (ty_meaning ty) \<Longrightarrow> schema_call env q ty r = (api_schema (resolved_type env ty), r)"
  using std_type_inlined[of "resolved_type env ty"] by (cases q) (simp_all add: schema_call_def resolved_type_def)

definition property_json :: "impls \<Rightarrow> property \<Rightarrow> json" where
  "property_json env p =
     direct_property (pr_direction p) (decorate_property (pr_doc p) (api_schema (resolved_type env (pr_type p))))"

lemma run_properties:
  assumes "\<forall>p \<in> set ps. std_type (ty_meaning (pr_type p))"
  shows "fold (run_statement env q) (map Add_Property ps) (s, r) =
    (s\<lparr>os_properties := fold (\<lambda>(k, v) m. obj_insert k v m) (map (\<lambda>p. (pr_wire p, property_json env p)) ps) (os_properties s),
       os_required := os_required s @ map pr_wire (filter (\<lambda>p. requires q (pr_require p)) ps)\<rparr>, r)"
  using assms
  by (induction ps arbitrary: s)
     (simp_all add: schema_call_std put_property_def property_json_def)

definition struct_json :: "impls \<Rightarrow> bool \<Rightarrow> property list \<Rightarrow> string option \<Rightarrow> bool \<Rightarrow> json" where
  "struct_json env q ps description strict =
     finish_object description strict
       (object_start\<lparr>os_properties := obj_of (map (\<lambda>p. (pr_wire p, property_json env p)) ps),
          os_required := map pr_wire (filter (\<lambda>p. requires q (pr_require p)) ps)\<rparr>)"

lemma run_struct:
  assumes "\<forall>p \<in> set ps. std_type (ty_meaning (pr_type p))"
  shows "run_expr env q (Object_Expr (map Add_Property ps) description strict) r =
    (struct_json env q ps description strict, r)"
  using run_properties[OF assms, of env q object_start r]
  by (simp add: run_object_def struct_json_def obj_of_def object_start_def)

lemma struct_json_members:
  assumes "struct_json env q ps description strict = JObj m"
  shows "map_of m ''type'' = Some (JStr ''object'')" "map_of m ''minimum'' = None" "map_of m ''maximum'' = None"
    "map_of m ''enum'' = None" "map_of m ''items'' = None" "map_of m ''allOf'' = None" "map_of m ''anyOf'' = None"
    "map_of m ''oneOf'' = None"
    "map_of m ''properties'' = Some (JObj (obj_of (map (\<lambda>p. (pr_wire p, property_json env p)) ps)))"
    "map_of m ''required'' =
       (let ks = map pr_wire (filter (\<lambda>p. requires q (pr_require p)) ps)
        in if ks = [] then None else Some (JArr (map JStr ks)))"
    "map_of m ''additionalProperties'' = (if strict then Some (JBool False) else None)"
  using assms
  by (auto simp: struct_json_def finish_object_def object_start_def insert_opt_def Let_def split: if_splits option.splits)

lemma struct_json_object: "\<exists>m. struct_json env q ps description strict = JObj m"
  by (simp add: struct_json_def finish_object_def Let_def)

lemma map_of_props:
  assumes "distinct (map pr_wire ps)"
  shows "map_of (obj_of (map (\<lambda>p. (pr_wire p, g p)) ps)) k = Some s \<longleftrightarrow> (\<exists>p \<in> set ps. pr_wire p = k \<and> s = g p)"
proof -
  have "distinct (map fst (rev (map (\<lambda>p. (pr_wire p, g p)) ps)))"
    using assms by (simp add: rev_map[symmetric] comp_def)
  then show ?thesis
    by (auto simp: map_of_obj_of map_of_eq_Some_iff)
qed

lemma set_obj_insert: "k \<notin> fst ` set m \<Longrightarrow> set (obj_insert k v m) = insert (k, v) (set m)"
  by (induction k v m rule: obj_insert.induct) auto

lemma set_obj_of:
  assumes "distinct (map fst kvs)"
  shows "set (obj_of kvs) = set kvs"
proof -
  have "set (fold (\<lambda>(k, v) m. obj_insert k v m) kvs m) = set m \<union> set kvs"
    if "distinct (map fst kvs)" "fst ` set m \<inter> fst ` set kvs = {}" for m :: "(string \<times> 'a) list"
    using that
  proof (induction kvs arbitrary: m)
    case (Cons kv kvs)
    obtain k v where kv: "kv = (k, v)" by (cases kv)
    have "k \<notin> fst ` set m" using Cons.prems kv by auto
    then have s: "set (obj_insert k v m) = insert (k, v) (set m)" by (rule set_obj_insert)
    then have "set (fold (\<lambda>(k, v) m. obj_insert k v m) kvs (obj_insert k v m)) = set (obj_insert k v m) \<union> set kvs"
      using Cons.IH[of "obj_insert k v m"] Cons.prems kv by auto
    then show ?case by (simp add: kv s)
  qed simp
  from this[of "[]"] show ?thesis using assms by (simp add: obj_of_def)
qed

lemma accepts_struct:
  assumes "distinct (map pr_wire ps)"
  shows "accepts (Suc n) (struct_json env q ps description strict) (JObj kvs) \<longleftrightarrow>
    (\<forall>p \<in> set ps. case map_of kvs (pr_wire p) of
        Some v \<Rightarrow> accepts n (property_json env p) v | None \<Rightarrow> \<not> requires q (pr_require p)) \<and>
    (strict \<longrightarrow> fst ` set kvs \<subseteq> pr_wire ` set ps)"
proof -
  let ?props = "obj_of (map (\<lambda>p. (pr_wire p, property_json env p)) ps)"
  obtain m where m: "struct_json env q ps description strict = JObj m"
    using struct_json_object by blast
  note look = struct_json_members[OF m]
  have props: "set ?props = (\<lambda>p. (pr_wire p, property_json env p)) ` set ps"
    using set_obj_of[of "map (\<lambda>p. (pr_wire p, property_json env p)) ps"] assms by (simp add: comp_def)
  have req: "(case map_of m ''required'' of
       Some (JArr ks) \<Rightarrow> list_all (\<lambda>k. case k of JStr k \<Rightarrow> map_of kvs k \<noteq> None | _ \<Rightarrow> True) ks | _ \<Rightarrow> True) \<longleftrightarrow>
      (\<forall>p \<in> set ps. requires q (pr_require p) \<longrightarrow> map_of kvs (pr_wire p) \<noteq> None)"
    by (auto simp: look Let_def list_all_iff filter_empty_conv)
  have no: "accepts n (JBool False) v = False" for v
    by (cases n) (simp_all add: accepts.simps)
  have add: "(case map_of m ''additionalProperties'' of
       Some s \<Rightarrow> list_all (\<lambda>(k, v). k \<in> set (member_names (map_of m ''properties'')) \<or> accepts n s v) kvs
     | None \<Rightarrow> True) \<longleftrightarrow> (strict \<longrightarrow> fst ` set kvs \<subseteq> pr_wire ` set ps)"
  proof -
    have "set (member_names (map_of m ''properties'')) = pr_wire ` set ps"
      by (simp add: look member_names_def props image_image)
    then show ?thesis
      unfolding look by (cases strict) (auto simp: list_all_iff no)
  qed
  have props_ok: "list_all (\<lambda>(k, s). case map_of kvs k of None \<Rightarrow> True | Some v \<Rightarrow> accepts n s v) ?props \<longleftrightarrow>
      (\<forall>p \<in> set ps. case map_of kvs (pr_wire p) of None \<Rightarrow> True | Some v \<Rightarrow> accepts n (property_json env p) v)"
    by (auto simp: list_all_iff props)
  have "accepts (Suc n) (JObj m) (JObj kvs) \<longleftrightarrow>
      (\<forall>p \<in> set ps. case map_of kvs (pr_wire p) of None \<Rightarrow> True | Some v \<Rightarrow> accepts n (property_json env p) v) \<and>
      (\<forall>p \<in> set ps. requires q (pr_require p) \<longrightarrow> map_of kvs (pr_wire p) \<noteq> None) \<and>
      (strict \<longrightarrow> fst ` set kvs \<subseteq> pr_wire ` set ps)"
    unfolding req[symmetric] add[symmetric] props_ok[symmetric]
    unfolding accepts.simps as_object.simps option.case json.case members_of.simps type_accepts_def look(1-9)
    by simp
  also have "\<dots> \<longleftrightarrow> (\<forall>p \<in> set ps. case map_of kvs (pr_wire p) of
        Some v \<Rightarrow> accepts n (property_json env p) v | None \<Rightarrow> \<not> requires q (pr_require p)) \<and>
      (strict \<longrightarrow> fst ` set kvs \<subseteq> pr_wire ` set ps)"
  proof -
    have "(case map_of kvs (pr_wire p) of None \<Rightarrow> True | Some v \<Rightarrow> accepts n (property_json env p) v) \<and>
        (requires q (pr_require p) \<longrightarrow> map_of kvs (pr_wire p) \<noteq> None) \<longleftrightarrow>
        (case map_of kvs (pr_wire p) of
          Some v \<Rightarrow> accepts n (property_json env p) v | None \<Rightarrow> \<not> requires q (pr_require p))" for p
      by (cases "map_of kvs (pr_wire p)") simp_all
    then show ?thesis by blast
  qed
  finally show ?thesis unfolding m .
qed

definition schema_keywords :: "string set" where
  "schema_keywords = {''type'', ''minimum'', ''maximum'', ''enum'', ''items'', ''properties'', ''required'',
     ''additionalProperties'', ''allOf'', ''anyOf'', ''oneOf''}"

lemma accepts_annotation:
  assumes "k \<notin> schema_keywords"
  shows "accepts n (JObj (obj_insert k x m)) v = accepts n (JObj m) v"
proof (cases n)
  case (Suc i)
  have look: "map_of (obj_insert k x m) key = map_of m key" if "key \<in> schema_keywords" for key
    using assms that by auto
  have keys: "''type'' \<in> schema_keywords" "''minimum'' \<in> schema_keywords" "''maximum'' \<in> schema_keywords"
    "''enum'' \<in> schema_keywords" "''items'' \<in> schema_keywords" "''properties'' \<in> schema_keywords"
    "''required'' \<in> schema_keywords" "''additionalProperties'' \<in> schema_keywords" "''allOf'' \<in> schema_keywords"
    "''anyOf'' \<in> schema_keywords" "''oneOf'' \<in> schema_keywords"
    by (simp_all only: schema_keywords_def insert_iff simp_thms)
  show ?thesis
    unfolding Suc accepts.simps as_object.simps option.case keys[THEN look] ..
qed (simp add: accepts.simps)

lemma property_json_accepts:
  assumes "fd_entries (pr_doc p) = []"
  shows "accepts n (property_json env p) v = accepts n (api_schema (resolved_type env (pr_type p))) v"
proof (cases "api_schema (resolved_type env (pr_type p))")
  case (JObj m)
  have "k \<notin> schema_keywords" if "k \<in> {''description'', ''deprecated'', ''writeOnly'', ''readOnly''}" for k
    using that by (auto simp: schema_keywords_def)
  then show ?thesis
    using assms JObj
    by (simp add: property_json_def direct_property_def decorate_property_def map_object_def insert_opt_def Let_def
        accepts_annotation split: direction.splits option.splits)
qed (simp_all add: property_json_def direct_property_def decorate_property_def map_object_def)

section \<open>From the attributes to the properties\<close>

definition property_of :: "(string \<Rightarrow> bool) \<Rightarrow> serde_attrs \<Rightarrow> field \<Rightarrow> property" where
  "property_of up container f =
     projr (field_property up (sa_rename_all container) (sa_default container) f (attrs_of f))"

lemma object_statements_plain:
  assumes "object_statements up (sa_rename_all container) (sa_default container) fs = Inr sts"
    and "list_all plain_field fs"
  shows "sts = map Add_Property (map (property_of up container) (kept fs)) \<and>
    (\<forall>f \<in> set fs. serde_parse (fl_attrs f) = Inr (attrs_of f)) \<and>
    (\<forall>f \<in> set (kept fs). field_property up (sa_rename_all container) (sa_default container) f (attrs_of f) =
       Inr (property_of up container f))"
  using assms
proof (induction fs arbitrary: sts)
  case (Cons f fs)
  obtain a where a: "serde_parse (fl_attrs f) = Inr a"
    using Cons.prems(1) by (auto simp: outcome_simps)
  then have attrs: "attrs_of f = a" by (simp add: attrs_of_def)
  show ?case
  proof (cases "serde_skipped a")
    case True
    then show ?thesis
      using Cons a attrs by (auto simp: kept_def)
  next
    case False
    have "\<not> sa_flatten a" using Cons.prems(2) attrs by (simp add: plain_field_def)
    then obtain p rest where p: "field_property up (sa_rename_all container) (sa_default container) f a = Inr p"
        "object_statements up (sa_rename_all container) (sa_default container) fs = Inr rest"
        "sts = Add_Property p # rest"
      using Cons.prems(1) a False by (auto simp: outcome_simps)
    then show ?thesis
      using Cons.IH[OF p(2)] Cons.prems(2) a attrs False by (auto simp: kept_def property_of_def)
  qed
qed (simp add: kept_def)

lemma property_of_parts:
  assumes "field_property up (sa_rename_all container) (sa_default container) f (attrs_of f) = Inr p"
    and "plain_field f"
  shows "pr_wire p = wire_of up container f" "pr_type p = fl_type f" "fd_entries (pr_doc p) = []"
    "requires q (pr_require p) \<longleftrightarrow>
       \<not> (is_option f \<or> sa_default (attrs_of f) \<or> sa_default container \<or> sa_skip_deserializing (attrs_of f)) \<and>
       (sa_skip_serializing_if (attrs_of f) \<longrightarrow> q)"
proof -
  obtain w doc where w: "wire_name up (fl_attrs f) (fl_ident f) (sa_rename_all container) Snake = Inr w"
      "field_doc_of (fl_attrs f) = Inr doc"
    using assms(1) by (auto simp: field_property_def outcome_simps)
  have "snd (option_inner (fl_type f)) = is_option f" "fd_entries doc = []"
    using assms(2) w(2) by (simp_all add: plain_field_def)
  then show "pr_wire p = wire_of up container f" "pr_type p = fl_type f" "fd_entries (pr_doc p) = []"
    "requires q (pr_require p) \<longleftrightarrow>
       \<not> (is_option f \<or> sa_default (attrs_of f) \<or> sa_default container \<or> sa_skip_deserializing (attrs_of f)) \<and>
       (sa_skip_serializing_if (attrs_of f) \<longrightarrow> q)"
    using assms(1) w by (auto simp: field_property_def wire_of_def requires_def split: if_splits)
qed

lemma plain_value:
  assumes "plain_field f" "levels (ty_meaning (fl_type f)) \<le> n"
  shows "accepts n (api_schema (resolved_type env (fl_type f))) v \<longleftrightarrow> encodes (ty_meaning (fl_type f)) v"
proof -
  let ?t = "resolved_type env (fl_type f)"
  have "std_type ?t" "exact_type ?t" "levels ?t \<le> n" "encodes ?t v = encodes (ty_meaning (fl_type f)) v"
    using assms by (simp_all add: plain_field_def resolved_type_def)
  then show ?thesis
    using encodes_accepted[of ?t v n] accepted_encodes[of ?t n v] by blast
qed

lemma struct_expr:
  assumes "derive_struct up component fs container description = Inr (Derived_Struct c (Struct_Body e) params parser)"
    and "list_all plain_field fs"
  shows "e = Object_Expr (map Add_Property (map (property_of up container) (kept fs))) description (sa_deny_unknown_fields container)"
    and "f \<in> set (kept fs) \<Longrightarrow> field_property up (sa_rename_all container) (sa_default container) f (attrs_of f) =
       Inr (property_of up container f)"
proof -
  have "derive_transparent fs \<noteq> Inr (Derived_Struct c (Struct_Body e) params parser)"
  proof
    assume d: "derive_transparent fs = Inr (Derived_Struct c (Struct_Body e) params parser)"
    then obtain k where k: "kept_fields fs = Inr k"
      by (auto simp: derive_transparent_def outcome_simps)
    show False
    proof (cases k)
      case (Cons g gs)
      then show False using d k by (cases gs) (simp_all add: derive_transparent_def)
    qed (use d k in \<open>simp add: derive_transparent_def\<close>)
  qed
  then obtain sts where sts: "object_statements up (sa_rename_all container) (sa_default container) fs = Inr sts"
      "e = Object_Expr sts description (sa_deny_unknown_fields container \<and> \<not> list_ex is_flatten sts)"
    using assms(1) by (auto simp: derive_struct_def object_schema_def outcome_simps split: if_splits)
  note plain = object_statements_plain[OF sts(1) assms(2)]
  have "\<not> list_ex is_flatten sts"
    using plain by (auto simp: list_ex_iff)
  then show "e = Object_Expr (map Add_Property (map (property_of up container) (kept fs))) description (sa_deny_unknown_fields container)"
    using sts(2) plain by simp
  show "f \<in> set (kept fs) \<Longrightarrow> field_property up (sa_rename_all container) (sa_default container) f (attrs_of f) =
       Inr (property_of up container f)"
    using plain by blast
qed

lemma struct_accepts:
  assumes "derive_struct up component fs container description = Inr (Derived_Struct c (Struct_Body e) params parser)"
    and "list_all plain_field fs" "distinct (map (wire_of up container) (kept fs))"
    and "\<forall>f \<in> set fs. levels (ty_meaning (fl_type f)) \<le> n"
  shows "accepts (Suc n) (fst (run_expr env q e r)) (JObj kvs) \<longleftrightarrow>
    (\<forall>f \<in> set (kept fs). case map_of kvs (wire_of up container f) of
        Some v \<Rightarrow> encodes (ty_meaning (fl_type f)) v
      | None \<Rightarrow> is_option f \<or> sa_default (attrs_of f) \<or> sa_default container \<or> sa_skip_deserializing (attrs_of f) \<or>
          (sa_skip_serializing_if (attrs_of f) \<and> \<not> q)) \<and>
    (sa_deny_unknown_fields container \<longrightarrow> fst ` set kvs \<subseteq> wire_of up container ` set (kept fs))"
proof -
  note e = struct_expr[OF assms(1,2)]
  have plain: "plain_field f" "levels (ty_meaning (fl_type f)) \<le> n" if "f \<in> set (kept fs)" for f
    using that assms(2,4) by (auto simp: kept_def list_all_iff)
  note parts = property_of_parts[OF e(2) plain(1)]
  have wires: "map pr_wire (map (property_of up container) (kept fs)) = map (wire_of up container) (kept fs)"
    using parts(1) by simp
  have std: "\<forall>p \<in> set (map (property_of up container) (kept fs)). std_type (ty_meaning (pr_type p))"
    using parts(2) plain(1) by (auto simp: plain_field_def)
  have one: "(case map_of kvs (pr_wire (property_of up container f)) of
        Some v \<Rightarrow> accepts n (property_json env (property_of up container f)) v
      | None \<Rightarrow> \<not> requires q (pr_require (property_of up container f))) \<longleftrightarrow>
      (case map_of kvs (wire_of up container f) of
        Some v \<Rightarrow> encodes (ty_meaning (fl_type f)) v
      | None \<Rightarrow> is_option f \<or> sa_default (attrs_of f) \<or> sa_default container \<or> sa_skip_deserializing (attrs_of f) \<or>
          (sa_skip_serializing_if (attrs_of f) \<and> \<not> q))" if f: "f \<in> set (kept fs)" for f
    using parts[OF f f] plain[OF f] property_json_accepts[OF parts(3)[OF f f]] plain_value[OF plain(1,2)[OF f]]
    by (auto split: option.splits)
  have "accepts (Suc n) (fst (run_expr env q e r)) (JObj kvs) \<longleftrightarrow>
    (\<forall>p \<in> set (map (property_of up container) (kept fs)). case map_of kvs (pr_wire p) of
        Some v \<Rightarrow> accepts n (property_json env p) v | None \<Rightarrow> \<not> requires q (pr_require p)) \<and>
    (sa_deny_unknown_fields container \<longrightarrow> fst ` set kvs \<subseteq> pr_wire ` set (map (property_of up container) (kept fs)))"
    unfolding e(1) run_struct[OF std] fst_conv by (rule accepts_struct) (simp only: wires assms(3))
  moreover have "pr_wire ` set (map (property_of up container) (kept fs)) = wire_of up container ` set (kept fs)"
    using wires by (metis list.set_map)
  ultimately show ?thesis
    using one by simp
qed

text \<open>What serde reads, over the fields that are kept: each field by itself, and the keys that are known.\<close>

lemma reads_each:
  assumes ro: "\<forall>f \<in> set (kept fs). sa_skip_deserializing (attrs_of f) \<longrightarrow> wire_of up container f \<notin> fst ` set kvs"
  shows "(\<forall>f \<in> set (kept fs). case map_of kvs (wire_of up container f) of
        Some v \<Rightarrow> encodes (ty_meaning (fl_type f)) v
      | None \<Rightarrow> is_option f \<or> sa_default (attrs_of f) \<or> sa_default container \<or> sa_skip_deserializing (attrs_of f)) \<longleftrightarrow>
      list_all (\<lambda>f. sa_skip_deserializing (attrs_of f) \<or>
       (case map_of kvs (wire_of up container f) of
          Some v \<Rightarrow> encodes (ty_meaning (fl_type f)) v
        | None \<Rightarrow> sa_default (attrs_of f) \<or> sa_default container \<or> is_option f)) fs"
proof -
  have "f \<in> set (kept fs) \<Longrightarrow> sa_skip_deserializing (attrs_of f) \<Longrightarrow> map_of kvs (wire_of up container f) = None" for f
    using ro by (simp add: map_of_eq_None_iff)
  then have "(\<forall>f \<in> set (kept fs). case map_of kvs (wire_of up container f) of
      Some v \<Rightarrow> encodes (ty_meaning (fl_type f)) v
    | None \<Rightarrow> is_option f \<or> sa_default (attrs_of f) \<or> sa_default container \<or> sa_skip_deserializing (attrs_of f)) \<longleftrightarrow>
    (\<forall>f \<in> set (kept fs). sa_skip_deserializing (attrs_of f) \<or>
     (case map_of kvs (wire_of up container f) of
        Some v \<Rightarrow> encodes (ty_meaning (fl_type f)) v
      | None \<Rightarrow> sa_default (attrs_of f) \<or> sa_default container \<or> is_option f))"
    by (intro ball_cong refl) (auto split: option.splits)
  also have "\<dots> \<longleftrightarrow> list_all (\<lambda>f. sa_skip_deserializing (attrs_of f) \<or>
     (case map_of kvs (wire_of up container f) of
        Some v \<Rightarrow> encodes (ty_meaning (fl_type f)) v
      | None \<Rightarrow> sa_default (attrs_of f) \<or> sa_default container \<or> is_option f)) fs"
    by (auto simp: kept_def list_all_iff serde_skipped_def)
  finally show ?thesis .
qed

lemma reads_known_keys:
  assumes ro: "\<forall>f \<in> set (kept fs). sa_skip_deserializing (attrs_of f) \<longrightarrow> wire_of up container f \<notin> fst ` set kvs"
  shows "fst ` set kvs \<subseteq> wire_of up container ` set (kept fs) \<longleftrightarrow>
      (\<forall>k \<in> set (map fst kvs). list_ex (\<lambda>f. \<not> sa_skip_deserializing (attrs_of f) \<and> wire_of up container f = k) fs)"
proof
  assume sub: "fst ` set kvs \<subseteq> wire_of up container ` set (kept fs)"
  show "\<forall>k \<in> set (map fst kvs). list_ex (\<lambda>f. \<not> sa_skip_deserializing (attrs_of f) \<and> wire_of up container f = k) fs"
  proof
    fix k assume k: "k \<in> set (map fst kvs)"
    then obtain f where f: "f \<in> set (kept fs)" "wire_of up container f = k"
      using sub by auto
    then have "\<not> sa_skip_deserializing (attrs_of f)" "f \<in> set fs"
      using ro k by (auto simp: kept_def)
    then show "list_ex (\<lambda>f. \<not> sa_skip_deserializing (attrs_of f) \<and> wire_of up container f = k) fs"
      using f(2) by (auto simp: list_ex_iff)
  qed
next
  assume k: "\<forall>k \<in> set (map fst kvs). list_ex (\<lambda>f. \<not> sa_skip_deserializing (attrs_of f) \<and> wire_of up container f = k) fs"
  show "fst ` set kvs \<subseteq> wire_of up container ` set (kept fs)"
  proof
    fix x assume "x \<in> fst ` set kvs"
    then obtain f where "f \<in> set fs" "\<not> sa_skip_deserializing (attrs_of f)" "wire_of up container f = x"
      using k by (auto simp: list_ex_iff)
    then show "x \<in> wire_of up container ` set (kept fs)"
      by (auto simp: kept_def serde_skipped_def)
  qed
qed


definition user_id_field :: field where
  "user_id_field = \<lparr>fl_ident = ''user_id'', fl_attrs = [], fl_type = Path_Type ''u32'' None (T_Int False 32)\<rparr>"

definition tags_field :: field where
  "tags_field =
     \<lparr>fl_ident = ''tags'', fl_attrs = [Meta ''serde'' (Paren [Meta ''skip_serializing_if'' (Eq_Expr (Lit_Str ''Vec::is_empty''))])],
      fl_type = Path_Type ''Vec'' None (T_Vec T_String)\<rparr>"

definition demo_struct :: "field list" where
  "demo_struct = [user_id_field, tags_field]"


end
