(* ===== verification/Derived_Tags.thy ===== *)
theory Derived_Tags
  imports Derived_Schema
begin

text \<open>
  The alternatives of a derived enum. A \<open>oneOf\<close> demands exactly one match; the source says the tagged
  forms are disjoint by construction, and this theory proves it: whatever the payloads are, the tag
  tells the alternatives apart.
\<close>

section \<open>What an alternative demands of a value\<close>

text \<open>The mark of a variant on a JSON value, in each of serde's tagged forms.\<close>

definition marked :: "tagging \<Rightarrow> string \<Rightarrow> json \<Rightarrow> bool" where
  "marked t w j \<longleftrightarrow>
     (case t of
        External \<Rightarrow> j = JStr w \<or> (\<exists>kvs. j = JObj kvs \<and> map_of kvs w \<noteq> None)
      | Internal tag \<Rightarrow> (\<exists>kvs. j = JObj kvs \<and> map_of kvs tag = Some (JStr w))
      | Adjacent tag content \<Rightarrow> (\<exists>kvs. j = JObj kvs \<and> map_of kvs tag = Some (JStr w))
      | Untagged \<Rightarrow> True)"

text \<open>Serde refuses a field named like the tag, and a tag named like the content.\<close>

fun clash_free :: "tagging \<Rightarrow> alternative \<Rightarrow> bool" where
  "clash_free (Internal tag) (Alt_Plain (Object_Expr sts d s)) =
     list_all (\<lambda>st. case st of Add_Property p \<Rightarrow> pr_wire p \<noteq> tag | Tag_Property k v \<Rightarrow> k \<noteq> tag | _ \<Rightarrow> True) (tl sts)"
| "clash_free (Adjacent tag content) a = (tag \<noteq> content)"
| "clash_free _ _ = True"

fun form_of :: "tagging \<Rightarrow> string \<Rightarrow> alternative \<Rightarrow> bool" where
  "form_of External w (Alt_External_Unit w') \<longleftrightarrow> w' = w"
| "form_of External w (Alt_External w' e) \<longleftrightarrow> w' = w"
| "form_of (Internal tag) w (Alt_Tag_Only tag' w') \<longleftrightarrow> tag' = tag \<and> w' = w"
| "form_of (Internal tag) w (Alt_Plain (Object_Expr sts d s)) \<longleftrightarrow> (\<exists>rest. sts = Tag_Property tag w # rest)"
| "form_of (Internal tag) w (Alt_Internal_Newtype tag' w' ty) \<longleftrightarrow> tag' = tag \<and> w' = w"
| "form_of (Adjacent tag content) w (Alt_Tag_Only tag' w') \<longleftrightarrow> tag' = tag \<and> w' = w"
| "form_of (Adjacent tag content) w (Alt_Adjacent tag' w' content' e) \<longleftrightarrow> tag' = tag \<and> w' = w \<and> content' = content"
| "form_of _ _ _ \<longleftrightarrow> False"

lemma accepts_tag: "accepts n (tag_schema w) v \<Longrightarrow> v = JStr w"
  by (cases n) (auto simp: tag_schema_def accepts.simps map_of_obj_of)

lemma accepts_required_property:
  assumes "accepts n (JObj m) j" "map_of m ''type'' = Some (JStr ''object'')"
    and "map_of m ''properties'' = Some (JObj ps)" "map_of m ''required'' = Some (JArr ks)" "JStr k \<in> set ks"
  shows "\<exists>kvs v. j = JObj kvs \<and> map_of kvs k = Some v \<and>
    (map_of ps k = Some (tag_schema w) \<longrightarrow> v = JStr w)"
proof -
  obtain i where n: "n = Suc i" using assms(1) by (cases n) (auto simp: accepts.simps)
  note acc = assms(1)[unfolded n accepts.simps as_object.simps option.case assms(2-4) json.case]
  have "type_accepts ''object'' j" using acc by blast
  then obtain kvs where j: "j = JObj kvs" by (cases j) (auto simp: type_accepts_def)
  have "list_all (\<lambda>k. case k of JStr k \<Rightarrow> map_of kvs k \<noteq> None | _ \<Rightarrow> True) ks"
    using acc unfolding j json.case by blast
  then have "case JStr k of JStr k \<Rightarrow> map_of kvs k \<noteq> None | _ \<Rightarrow> True"
    using assms(5) unfolding list_all_iff by (rule bspec)
  then obtain v where v: "map_of kvs k = Some v"
    by auto
  have "v = JStr w" if p: "map_of ps k = Some (tag_schema w)"
  proof -
    have "list_all (\<lambda>(k, s). case map_of (members_of j) k of None \<Rightarrow> True | Some v \<Rightarrow> accepts i s v) ps"
      using acc by blast
    then have "accepts i (tag_schema w) v"
      using map_of_SomeD[OF p] j v by (fastforce simp: list_all_iff)
    then show ?thesis by (rule accepts_tag)
  qed
  then show ?thesis using j v by blast
qed

lemma keyed_schema_members:
  "\<exists>m. keyed_schema ps ks = JObj m \<and> map_of m ''type'' = Some (JStr ''object'') \<and>
     map_of m ''properties'' = Some (JObj (obj_of ps)) \<and> map_of m ''required'' = Some (JArr (map JStr ks))"
  by (simp add: keyed_schema_def map_of_obj_of)

lemma internal_newtype_members:
  "\<exists>m. internal_newtype_schema tag w j = JObj m \<and> map_of m ''type'' = Some (JStr ''object'') \<and>
     map_of m ''properties'' = Some (JObj [(tag, tag_schema w)]) \<and> map_of m ''required'' = Some (JArr [JStr tag])"
proof -
  obtain m all_of where f: "flatten_schema (obj_of [(''type'', JStr ''object''), (''properties'', JObj (obj_of [(tag, tag_schema w)])),
      (''required'', JArr [JStr tag])]) [] j False = (m, all_of)"
    by fastforce
  then have "map_of m k = map_of (obj_of [(''type'', JStr ''object''), (''properties'', JObj (obj_of [(tag, tag_schema w)])),
      (''required'', JArr [JStr tag])]) k" if "k \<noteq> ''additionalProperties''" for k
    using that by (auto simp: flatten_schema_def split: if_splits option.splits)
  then show ?thesis
    using f by (simp add: internal_newtype_schema_def Let_def map_of_obj_of) (simp add: obj_of_def)
qed

text \<open>The statements of a tagged object keep the tag among its properties and required names.\<close>

lemma tag_kept:
  assumes "map_of (os_properties s) tag = Some t" "tag \<in> set (os_required s)"
    and "list_all (\<lambda>st. case st of Add_Property p \<Rightarrow> pr_wire p \<noteq> tag | Tag_Property k v \<Rightarrow> k \<noteq> tag | _ \<Rightarrow> True) sts"
  shows "map_of (os_properties (fst (fold (run_statement env q) sts (s, r)))) tag = Some t \<and>
    tag \<in> set (os_required (fst (fold (run_statement env q) sts (s, r))))"
  using assms
proof (induction sts arbitrary: s r)
  case (Cons st sts)
  obtain s' r' where st: "run_statement env q st (s, r) = (s', r')" by fastforce
  have "map_of (os_properties s') tag = Some t \<and> tag \<in> set (os_required s')"
    using st Cons.prems by (cases st) (auto simp: put_property_def split: prod.splits)
  then show ?case using Cons.IH[of s' r'] Cons.prems(3) st by simp
qed simp

lemma finish_object_members:
  assumes "tag \<in> set (os_required s)"
  shows "\<exists>m. finish_object d strict s = JObj m \<and> map_of m ''type'' = Some (JStr ''object'') \<and>
     map_of m ''properties'' = Some (JObj (os_properties s)) \<and>
     map_of m ''required'' = Some (JArr (map JStr (os_required s)))"
  using assms by (cases d) (auto simp: finish_object_def insert_opt_def Let_def)

lemma alternative_marks:
  assumes "form_of t w a" "clash_free t a" "accepts n (fst (run_alternative env q a r)) j"
  shows "marked t w j"
proof (cases a)
  case (Alt_External_Unit w')
  then show ?thesis
    using assms accepts_tag[of n w j] by (cases t) (auto simp: marked_def)
next
  case (Alt_External w' e)
  then have t: "t = External" "w' = w" using assms(1) by (cases t; simp)+
  obtain p r' where "run_expr env q e r = (p, r')" by fastforce
  then have acc: "accepts n (keyed_schema [(w, p)] [w]) j"
    using assms(3) t Alt_External by simp
  obtain m where "keyed_schema [(w, p)] [w] = JObj m" "map_of m ''type'' = Some (JStr ''object'')"
      "map_of m ''properties'' = Some (JObj (obj_of [(w, p)]))" "map_of m ''required'' = Some (JArr [JStr w])"
    using keyed_schema_members[of "[(w, p)]" "[w]"] by auto
  then obtain kvs v where "j = JObj kvs" "map_of kvs w = Some v"
    using accepts_required_property[of n m j _ "[JStr w]" w] acc by fastforce
  then show ?thesis by (simp add: marked_def t)
next
  case (Alt_Tag_Only tag w')
  then have t: "(\<exists>content. t = Adjacent tag content) \<or> t = Internal tag" "w' = w" using assms(1) by (cases t; simp)+
  obtain m where "keyed_schema [(tag, tag_schema w)] [tag] = JObj m" "map_of m ''type'' = Some (JStr ''object'')"
      "map_of m ''properties'' = Some (JObj (obj_of [(tag, tag_schema w)]))" "map_of m ''required'' = Some (JArr [JStr tag])"
    using keyed_schema_members[of "[(tag, tag_schema w)]" "[tag]"] by auto
  then obtain kvs where "j = JObj kvs" "map_of kvs tag = Some (JStr w)"
    using accepts_required_property[of n m j "obj_of [(tag, tag_schema w)]" "[JStr tag]" tag w] assms(3) Alt_Tag_Only t(2)
    by (auto simp: map_of_obj_of)
  then show ?thesis using t(1) by (auto simp: marked_def)
next
  case (Alt_Internal_Newtype tag w' ty)
  then have t: "t = Internal tag" "w' = w" using assms(1) by (cases t; simp)+
  obtain p r' where "schema_call env q ty r = (p, r')" by fastforce
  then have acc: "accepts n (internal_newtype_schema tag w p) j"
    using assms(3) t Alt_Internal_Newtype by simp
  obtain m where "internal_newtype_schema tag w p = JObj m" "map_of m ''type'' = Some (JStr ''object'')"
      "map_of m ''properties'' = Some (JObj [(tag, tag_schema w)])" "map_of m ''required'' = Some (JArr [JStr tag])"
    using internal_newtype_members by blast
  then obtain kvs where "j = JObj kvs" "map_of kvs tag = Some (JStr w)"
    using accepts_required_property[of n m j "[(tag, tag_schema w)]" "[JStr tag]" tag w] acc by auto
  then show ?thesis by (simp add: marked_def t)
next
  case (Alt_Adjacent tag w' content e)
  then have t: "t = Adjacent tag content" "w' = w" "tag \<noteq> content" using assms(1,2) by (cases t; simp)+
  obtain p r' where "run_expr env q e r = (p, r')" by fastforce
  then have acc: "accepts n (keyed_schema [(tag, tag_schema w), (content, p)] [tag, content]) j"
    using assms(3) t Alt_Adjacent by simp
  obtain m where "keyed_schema [(tag, tag_schema w), (content, p)] [tag, content] = JObj m" "map_of m ''type'' = Some (JStr ''object'')"
      "map_of m ''properties'' = Some (JObj (obj_of [(tag, tag_schema w), (content, p)]))"
      "map_of m ''required'' = Some (JArr [JStr tag, JStr content])"
    using keyed_schema_members[of "[(tag, tag_schema w), (content, p)]" "[tag, content]"] by auto
  then obtain kvs where "j = JObj kvs" "map_of kvs tag = Some (JStr w)"
    using accepts_required_property[of n m j "obj_of [(tag, tag_schema w), (content, p)]" "[JStr tag, JStr content]" tag w] acc t(3)
    by (auto simp: map_of_obj_of)
  then show ?thesis by (simp add: marked_def t)
next
  case Alt_Null
  then show ?thesis using assms(1) by (cases t) simp_all
next
  case (Alt_Plain e)
  then obtain tag sts d st rest where t: "t = Internal tag" "e = Object_Expr sts d st" "sts = Tag_Property tag w # rest"
    using assms(1) by (cases t; cases e) auto
  let ?s = "fst (fold (run_statement env q) sts (object_start, r))"
  have kept: "map_of (os_properties ?s) tag = Some (tag_schema w) \<and> tag \<in> set (os_required ?s)"
    using tag_kept[of "put_property tag (tag_schema w) True object_start" tag "tag_schema w" rest env q r] assms(2) t Alt_Plain
    by (simp add: put_property_def)
  then obtain m where m: "finish_object d st ?s = JObj m" "map_of m ''type'' = Some (JStr ''object'')"
      "map_of m ''properties'' = Some (JObj (os_properties ?s))"
      "map_of m ''required'' = Some (JArr (map JStr (os_required ?s)))"
    using finish_object_members by blast
  have "accepts n (JObj m) j"
    using assms(3) m(1) unfolding Alt_Plain t(2) by (simp add: run_object_def case_prod_beta)
  then obtain kvs where "j = JObj kvs" "map_of kvs tag = Some (JStr w)"
    using accepts_required_property[of n m j "os_properties ?s" "map JStr (os_required ?s)" tag w] m kept by auto
  then show ?thesis by (simp add: marked_def t(1))
qed

section \<open>The alternatives of an enum\<close>

lemma object_statements_no_tag:
  "object_statements up ra cd fs = Inr sts \<Longrightarrow> Tag_Property k v \<notin> set sts"
  by (induction fs arbitrary: sts) (auto simp: outcome_simps split: if_splits prod.splits)

lemma alternative_of_form:
  assumes "alternative_of up ra cd t w fs payload = Inr a" "t \<noteq> Untagged"
    and "payload_of up ra cd fs = Inr payload"
  shows "form_of t w a"
proof (cases t)
  case External
  then show ?thesis using assms by (cases payload) (auto simp: alternative_of_def)
next
  case (Internal tag)
  show ?thesis
  proof (cases payload)
    case None
    then show ?thesis using assms Internal by (auto simp: alternative_of_def)
  next
    case (Some p)
    then show ?thesis
    proof (cases fs)
      case (Named_Fields l)
      then show ?thesis
        using assms(1) Internal Some by (auto simp: alternative_of_def object_schema_def outcome_simps)
    next
      case (Unnamed_Fields l)
      then show ?thesis
        using assms(1) Internal Some by (cases l rule: remdups_adj.cases) (auto simp: alternative_of_def)
    next
      case Unit_Fields
      then show ?thesis using assms(3) Some by (simp add: payload_of_def)
    qed
  qed
next
  case (Adjacent tag content)
  then show ?thesis using assms by (cases payload) (auto simp: alternative_of_def)
qed (use assms(2) in simp)

lemma alternatives_forms:
  assumes "alternatives_loop up container t vs = Inr as" "t \<noteq> Untagged"
    and "\<not> list_ex (\<lambda>(v, serde). sa_untagged serde) vs"
  shows "\<exists>ws. wire_names up (sa_rename_all container) vs = Inr ws \<and> list_all2 (form_of t) ws as"
  using assms
proof (induction vs arbitrary: as)
  case (Cons vs_head vs)
  obtain v serde where vs: "vs_head = (v, serde)" by (cases vs_head)
  have tagged: "\<not> sa_untagged serde" "\<not> list_ex (\<lambda>(v, serde). sa_untagged serde) vs"
    using Cons.prems(3) vs by auto
  let ?ra = "case sa_rename_all serde of None \<Rightarrow> sa_rename_all_fields container | r \<Rightarrow> r"
  obtain w payload a rest where *: "wire_name up (va_attrs v) (va_ident v) (sa_rename_all container) Pascal = Inr w"
      "payload_of up ?ra (sa_default serde) (va_fields v) = Inr payload"
      "alternative_of up ?ra (sa_default serde) t w (va_fields v) payload = Inr a"
      "alternatives_loop up container t vs = Inr rest" "as = a # rest"
    using Cons.prems(1) tagged vs by (auto simp: outcome_simps Let_def)
  obtain ws where "wire_names up (sa_rename_all container) vs = Inr ws" "list_all2 (form_of t) ws rest"
    using Cons.IH[OF *(4) Cons.prems(2) tagged(2)] by blast
  then show ?case
    using * vs alternative_of_form[OF *(3) Cons.prems(2) *(2)] by simp
qed simp

lemma marked_unique:
  assumes "marked t w j" "marked t w' j" "t \<noteq> Untagged"
    and "t = External \<longrightarrow> (case j of JObj kvs \<Rightarrow> length kvs \<le> 1 | _ \<Rightarrow> True)"
  shows "w = w'"
proof (cases t)
  case External
  show ?thesis
  proof (cases j)
    case (JObj kvs)
    then have "length kvs \<le> 1" using assms(4) External by simp
    then show ?thesis
      using assms(1,2) External JObj by (cases kvs) (auto simp: marked_def split: if_splits)
  qed (use assms(1,2) External in \<open>auto simp: marked_def\<close>)
qed (use assms in \<open>auto simp: marked_def\<close>)

lemma run_alternatives_marks:
  assumes "list_all2 (form_of t) ws as" "list_all (clash_free t) as"
    and "i < length as" "accepts n (fst (run_alternatives env q as r) ! i) j"
  shows "marked t (ws ! i) j"
  using assms
proof (induction arbitrary: i r rule: list_all2_induct)
  case (Cons w ws a as)
  obtain s r' where s: "run_alternative env q a r = (s, r')" by fastforce
  obtain rest r'' where rest: "run_alternatives env q as r' = (rest, r'')" by fastforce
  show ?case
  proof (cases i)
    case 0
    then show ?thesis
      using alternative_marks[OF Cons.hyps(1), of n env q r j] Cons.prems s rest by simp
  next
    case (Suc k)
    then show ?thesis
      using Cons.IH[of k r'] Cons.prems s rest by simp
  qed
qed simp

lemma run_alternatives_length: "length (fst (run_alternatives env q as r)) = length as"
  by (induction as arbitrary: r) (simp_all add: case_prod_beta)

lemma at_most_one:
  assumes "\<And>i k. i < length xs \<Longrightarrow> k < length xs \<Longrightarrow> P (xs ! i) \<Longrightarrow> P (xs ! k) \<Longrightarrow> i = k"
  shows "length (filter P xs) \<le> 1"
proof -
  have "length (filter P xs) = card {i. i < length xs \<and> P (xs ! i)}"
    by (rule length_filter_conv_card)
  also have "\<dots> \<le> 1"
    using assms by (intro card_le_Suc0_iff_eq[THEN iffD2, unfolded One_nat_def[symmetric]]) auto
  finally show ?thesis .
qed

text \<open>C33: The tagged forms of an enum are disjoint, as the derive's choice of \<open>oneOf\<close> needs: when no two
  variants have the same wire name, at most one alternative of the schema accepts a JSON value, for an
  internal or adjacent tag any value whatever, for an external one any value that is no object of
  several members, which serde never writes. The payloads, references and flattened parts included,
  do not matter.\<close>

theorem tagged_alternatives_disjoint:
  assumes "derive_enum up component vs container description = Inr (Derived_Enum c (One_Of d as))"
    and "wire_names up (sa_rename_all container) (filter (\<lambda>(v, serde). \<not> serde_skipped serde) (projr (parse_variants vs))) = Inr ws"
    and "distinct ws" "list_all (clash_free (tagging_of container)) as"
    and "tagging_of container = External \<longrightarrow> (case j of JObj kvs \<Rightarrow> length kvs \<le> 1 | _ \<Rightarrow> True)"
  shows "length (filter (\<lambda>s. accepts n s j) (fst (run_alternatives env request as r))) \<le> 1"
proof -
  let ?t = "tagging_of container"
  obtain parsed where parsed: "parse_variants vs = Inr parsed"
    using assms(1) by (auto simp: derive_enum_def Let_def outcome_simps)
  let ?kept = "filter (\<lambda>(v, serde). \<not> serde_skipped serde) parsed"
  have "alternatives_loop up container ?t ?kept = Inr as \<and> ?t \<noteq> Untagged \<and>
      \<not> list_ex (\<lambda>(v, serde). sa_untagged serde) ?kept"
    using assms(1) parsed by (auto simp: derive_enum_def Let_def outcome_simps split: if_splits)
  then have forms: "list_all2 (form_of ?t) ws as" and tagged: "?t \<noteq> Untagged"
    using alternatives_forms[of up container ?t ?kept as] assms(2) parsed by auto
  show ?thesis
  proof (rule at_most_one)
    fix i k
    assume ik: "i < length (fst (run_alternatives env request as r))" "k < length (fst (run_alternatives env request as r))"
      "accepts n (fst (run_alternatives env request as r) ! i) j" "accepts n (fst (run_alternatives env request as r) ! k) j"
    have "ws ! i = ws ! k"
      using marked_unique[OF run_alternatives_marks[OF forms assms(4) _ ik(3)] run_alternatives_marks[OF forms assms(4) _ ik(4)] tagged]
        ik(1,2) assms(5) by (simp add: run_alternatives_length)
    then show "i = k"
      using assms(3) ik(1,2) list_all2_lengthD[OF forms] by (simp add: run_alternatives_length nth_eq_iff_index_eq)
  qed
qed

definition shape_variants :: "variant list" where
  "shape_variants =
     [\<lparr>va_ident = ''Circle'', va_attrs = [],
       va_fields = Named_Fields [\<lparr>fl_ident = ''radius'', fl_attrs = [], fl_type = Path_Type ''f64'' None T_F64\<rparr>]\<rparr>,
      \<lparr>va_ident = ''Empty'', va_attrs = [], va_fields = Unit_Fields\<rparr>]"

theorem tagged_alternatives_disjoint_witness:
  "\<exists>d as. derive_enum (\<lambda>_. False) ''Shape'' shape_variants (serde_default\<lparr>sa_tag := Some ''type''\<rparr>) None =
       Inr (Derived_Enum ''Shape'' (One_Of d as)) \<and> length as = 2 \<and>
     length (filter (\<lambda>s. accepts 9 s (JObj [(''type'', JStr ''Empty'')]))
       (fst (run_alternatives (\<lambda>_. undefined) False as registry_inline))) \<le> 1"
proof -
  let ?up = "\<lambda>_::string. False"
  let ?c = "serde_default\<lparr>sa_tag := Some ''type''\<rparr>"
  have "trim [] = []" by code_simp
  then have doc: "field_doc_of [] = Inr \<lparr>fd_description = None, fd_entries = [], fd_deprecated = False\<rparr>"
    by (simp add: field_doc_of_def doc_comment_def)
  have attrs: "serde_parse [] = Inr serde_default"
    by (simp add: serde_parse_def)
  have wires: "wire_name ?up [] ''radius'' None Snake = Inr ''radius''" "wire_name ?up [] ''Circle'' None Pascal = Inr ''Circle''"
    "wire_name ?up [] ''Empty'' None Pascal = Inr ''Empty''"
    by (simp_all add: wire_name_def attrs serde_default_def unraw_def strip_prefix_def starts_with_def)
  have sel: "sa_rename_all serde_default = None" "sa_rename_all_fields serde_default = None" "sa_default serde_default = False"
    "sa_untagged serde_default = False" "sa_flatten serde_default = False" "serde_skipped serde_default = False"
    "sa_content serde_default = None"
    by (simp_all add: serde_default_def serde_skipped_def)
  have tag: "tagging_of ?c = Internal ''type''"
    by (simp add: tagging_of_def sel)
  let ?p = "field_property ?up None False \<lparr>fl_ident = ''radius'', fl_attrs = [], fl_type = Path_Type ''f64'' None T_F64\<rparr> serde_default"
  obtain p where p: "?p = Inr p" "pr_wire p = ''radius''"
    by (simp add: field_property_def wires doc)
  let ?as = "[Alt_Plain (Object_Expr [Tag_Property ''type'' ''Circle'', Add_Property p] None False), Alt_Tag_Only ''type'' ''Empty'']"
  have parsed: "parse_variants shape_variants = Inr (map (\<lambda>v. (v, serde_default)) shape_variants)"
    by (simp add: shape_variants_def attrs)
  have d: "derive_enum ?up ''Shape'' shape_variants ?c None = Inr (Derived_Enum ''Shape'' (One_Of None ?as))"
    unfolding derive_enum_def tag parsed
    by (simp add: shape_variants_def sel wires payload_of_def object_schema_def attrs p alternative_of_def)
  have ws: "wire_names ?up (sa_rename_all ?c) (filter (\<lambda>(v, serde). \<not> serde_skipped serde) (projr (parse_variants shape_variants))) =
      Inr [''Circle'', ''Empty'']"
    unfolding parsed by (simp add: shape_variants_def sel wires)
  have "length (filter (\<lambda>s. accepts 9 s (JObj [(''type'', JStr ''Empty'')]))
       (fst (run_alternatives (\<lambda>_. undefined) False ?as registry_inline))) \<le> 1"
    by (rule tagged_alternatives_disjoint[OF d ws]) (simp_all add: tag p(2))
  then show ?thesis using d by auto
qed

end
