(* ===== verification/Derived_Query.thy ===== *)
theory Derived_Query
  imports Derived_Schema Codec
begin

text \<open>
  What the derive macro generates for \<open>OpenApiQuery\<close>: the documented query parameters of a struct and
  the parser of its query string (\<open>derive_struct\<close> of \<open>oas-rs-macros/src/lib.rs\<close>, \<open>OpenApiQuery\<close> and
  \<open>QueryValue\<close> of \<open>src/schema.rs\<close>). \<open>from_str\<close> is \<open>FromStr\<close> of the field types, with the text of its
  error on the left.
\<close>

section \<open>Parameters\<close>

fun run_parameter :: "impls \<Rightarrow> parameter_code \<Rightarrow> json list" where
  "run_parameter env (Push_Parameter wire required ty) =
     [query_parameter wire required (api_schema (resolved_type env ty))]"
| "run_parameter env (Extend_Parameters ty opt) =
     query_parameters_from_schema (api_schema (resolved_type env ty)) opt"

fun derived_parameters :: "impls \<Rightarrow> derived \<Rightarrow> json list option" where
  "derived_parameters env (Derived_Struct component body ps q) =
     Some (dedup_parameters (concat (map (run_parameter env) ps)))"
| "derived_parameters env (Derived_Enum component body) = None"
| "derived_parameters env (Derived_Transparent ty) = Some []"

section \<open>The direct parser\<close>

type_synonym 'v from_str = "rust_type \<Rightarrow> string \<Rightarrow> string + 'v"

definition parse_query_value :: "'v from_str \<Rightarrow> rust_type \<Rightarrow> string \<Rightarrow> api_error + 'v" where
  "parse_query_value from_str ty v =
     (case from_str ty v of Inl m \<Rightarrow> Inl (bad_request m) | Inr x \<Rightarrow> Inr x)"

datatype 'v field_value = Required_Value 'v | Optional_Value "'v option"

text \<open>One arm of the \<open>match\<close>: the first field of the name gets the value.\<close>

definition store_value ::
  "'v from_str \<Rightarrow> query_field list \<Rightarrow> nat \<Rightarrow> string \<Rightarrow> 'v option list \<Rightarrow> api_error + 'v option list" where
  "store_value from_str fds i v vars =
     bind_result (parse_query_value from_str (qf_type (fds ! i)) v) (\<lambda>x. Inr (vars[i := Some x]))"

fun direct_pair ::
  "'v from_str \<Rightarrow> query_field list \<Rightarrow> string \<times> string \<Rightarrow> 'v option list \<Rightarrow> api_error + 'v option list" where
  "direct_pair from_str fds (key, raw) vars =
     (case position (\<lambda>f. qf_wire f = key) fds of
        Some i \<Rightarrow>
          bind_result (decode_query_component raw) (\<lambda>v. store_value from_str fds i v vars)
      | None \<Rightarrow>
          bind_result (decode_query_component key)
            (\<lambda>key. bind_result (decode_query_component raw)
               (\<lambda>v. case position (\<lambda>f. qf_wire f = key) fds of
                      Some i \<Rightarrow> store_value from_str fds i v vars
                    | None \<Rightarrow> Inr vars)))"

fun direct_loop ::
  "'v from_str \<Rightarrow> query_field list \<Rightarrow> (string \<times> string) list \<Rightarrow> 'v option list \<Rightarrow>
     api_error + 'v option list" where
  "direct_loop from_str fds [] vars = Inr vars"
| "direct_loop from_str fds (p # ps) vars =
     bind_result (direct_pair from_str fds p vars) (direct_loop from_str fds ps)"

fun build_fields :: "query_field list \<Rightarrow> 'v option list \<Rightarrow> api_error + (string \<times> 'v field_value) list" where
  "build_fields (f # fs) (x # xs) =
     bind_result
       (if qf_optional f then Inr (Optional_Value x)
        else (case x of
                Some v \<Rightarrow> Inr (Required_Value v)
              | None \<Rightarrow> Inl (bad_request (''missing query parameter '' @ qf_wire f))))
       (\<lambda>v. bind_result (build_fields fs xs) (\<lambda>rest. Inr ((qf_ident f, v) # rest)))"
| "build_fields _ _ = Inr []"

definition direct_parse ::
  "'v from_str \<Rightarrow> query_field list \<Rightarrow> string \<Rightarrow> api_error + (string \<times> 'v field_value) list" where
  "direct_parse from_str fds query =
     bind_result (direct_loop from_str fds (query_pairs query) (map (\<lambda>_. None) fds))
       (build_fields fds)"

text \<open>The parser of a derived struct; \<open>from_value\<close> and \<open>from_urlencoded\<close> are serde's decoding of it.\<close>

fun derived_parse ::
  "'v from_str \<Rightarrow> (string \<Rightarrow> f64 option) \<Rightarrow> (json \<Rightarrow> string + 's) \<Rightarrow> (string \<Rightarrow> string + 's) \<Rightarrow>
     ((string \<times> 'v field_value) list \<Rightarrow> 's) \<Rightarrow> impls \<Rightarrow> derived \<Rightarrow> string \<Rightarrow> (api_error + 's) option" where
  "derived_parse from_str parse_f64 from_value from_urlencoded build env
     (Derived_Struct component body ps parser) query =
     (let parameters = dedup_parameters (concat (map (run_parameter env) ps)) in
      Some (case parser of
        Direct_Parser fds \<Rightarrow> bind_result (direct_parse from_str fds query) (\<lambda>vs. Inr (build vs))
      | Guided_Parser \<Rightarrow> parse_query_guided parse_f64 from_value query parameters
      | Default_Parser \<Rightarrow> parse_query parse_f64 from_value from_urlencoded query parameters))"
| "derived_parse from_str parse_f64 from_value from_urlencoded build env (Derived_Enum component body) query = None"
| "derived_parse from_str parse_f64 from_value from_urlencoded build env (Derived_Transparent ty) query =
     Some (parse_query parse_f64 from_value from_urlencoded query [])"

section \<open>The parser and the decoded pairs\<close>

text \<open>The reference: decode every pair, give a field the last value of its name.\<close>

definition last_value :: "(string \<times> string) list \<Rightarrow> string \<Rightarrow> string option" where
  "last_value kvs key = (if values_of kvs key = [] then None else Some (last (values_of kvs key)))"

definition reads_as ::
  "'v from_str \<Rightarrow> (string \<times> string) list \<Rightarrow> query_field \<Rightarrow> 'v field_value \<Rightarrow> bool" where
  "reads_as from_str kvs f v \<longleftrightarrow>
     (case last_value kvs (qf_wire f) of
        None \<Rightarrow> qf_optional f \<and> v = Optional_Value None
      | Some t \<Rightarrow> (\<exists>x. from_str (qf_type f) t = Inr x \<and>
                    v = (if qf_optional f then Optional_Value (Some x) else Required_Value x)))"

definition all_parse :: "'v from_str \<Rightarrow> query_field list \<Rightarrow> (string \<times> string) list \<Rightarrow> bool" where
  "all_parse from_str fds kvs \<longleftrightarrow>
     (\<forall>(k, v) \<in> set kvs. \<forall>f \<in> set fds. qf_wire f = k \<longrightarrow> (\<exists>x. from_str (qf_type f) v = Inr x))"

lemma utf8_valid_pieces:
  "utf8_valid s \<Longrightarrow> byte c < 128 \<Longrightarrow> p \<in> set (str_split c s) \<Longrightarrow> utf8_valid p"
proof (induction "length s" arbitrary: s p rule: less_induct)
  case less
  show ?case
  proof (cases "c \<in> set s")
    case False
    then have "str_split c s = [s]" by (induction s) auto
    then show ?thesis using less.prems by simp
  next
    case True
    then obtain xs ys where s: "s = xs @ c # ys" "c \<notin> set xs"
      by (meson split_list_first)
    have "str_split c (xs @ c # ys) = xs # str_split c ys"
      using s(2) by (induction xs) auto
    moreover have "utf8_valid xs" "utf8_valid ys"
      using utf8_valid_split_ascii[of xs c ys] less.prems s by auto
    ultimately show ?thesis
      using less.hyps[of ys] less.prems s by auto
  qed
qed

lemma query_pairs_valid:
  assumes "utf8_valid query" "(k, v) \<in> set (query_pairs query)"
  shows "utf8_valid k \<and> utf8_valid v"
proof -
  obtain p where p: "p \<in> set (str_split (CHR ''&'') query)"
      "(k, v) = (case split_once (CHR ''='') p of Some kv \<Rightarrow> kv | None \<Rightarrow> (p, []))"
    using assms(2) by (auto simp: query_pairs_def)
  have "utf8_valid p"
    using utf8_valid_pieces[OF assms(1) _ p(1)] by simp
  then show ?thesis
    using p(2) utf8_valid_split_ascii[of k "CHR ''=''" v]
    by (auto simp: split_once_Some split: option.splits)
qed

definition slot :: "'v from_str \<Rightarrow> (string \<times> string) list \<Rightarrow> query_field \<Rightarrow> 'v option" where
  "slot from_str kvs f =
     (case last_value kvs (qf_wire f) of None \<Rightarrow> None | Some t \<Rightarrow> Some (projr (from_str (qf_type f) t)))"

lemma last_value_snoc:
  "last_value (kvs @ [(k, v)]) key = (if k = key then Some v else last_value kvs key)"
  by (simp add: last_value_def values_of_def)

lemma last_value_mem: "last_value kvs k = Some v \<Longrightarrow> (k, v) \<in> set kvs"
proof -
  assume "last_value kvs k = Some v"
  then have "v \<in> set (values_of kvs k)"
    by (auto simp: last_value_def split: if_splits)
  then show ?thesis by (auto simp: values_of_def)
qed

lemma direct_pair_eq:
  assumes "utf8_valid k" "utf8_valid raw" "\<forall>f \<in> set fds. percent \<notin> set (qf_wire f)"
  shows "direct_pair from_str fds (k, raw) vars =
    bind_result (percent_decode k)
      (\<lambda>key. bind_result (percent_decode raw)
         (\<lambda>v. case position (\<lambda>f. qf_wire f = key) fds of
                Some i \<Rightarrow> store_value from_str fds i v vars
              | None \<Rightarrow> Inr vars))"
proof (cases "position (\<lambda>f. qf_wire f = k) fds")
  case None
  then show ?thesis
    by (simp add: decode_query_component_eq assms)
next
  case (Some i)
  then have "percent \<notin> set k"
    using assms(3) position_Some[OF Some] by auto
  then show ?thesis
    using Some by (simp add: decode_query_component_eq percent_decode_literal assms)
qed

lemma store_slot:
  assumes "distinct (map qf_wire fds)" "position (\<lambda>f. qf_wire f = key) fds = Some i"
    and "from_str (qf_type (fds ! i)) v = Inr x"
  shows "store_value from_str fds i v (map (slot from_str kvs) fds) =
    Inr (map (slot from_str (kvs @ [(key, v)])) fds)"
proof -
  have i: "i < length fds" "qf_wire (fds ! i) = key"
    using position_Some[OF assms(2)] by auto
  have "(map (slot from_str kvs) fds)[i := Some x] = map (slot from_str (kvs @ [(key, v)])) fds"
  proof (rule nth_equalityI)
    fix j
    assume j: "j < length ((map (slot from_str kvs) fds)[i := Some x])"
    then have "qf_wire (fds ! j) = key \<longleftrightarrow> j = i"
      using assms(1) i by (auto simp: distinct_conv_nth)
    then show "(map (slot from_str kvs) fds)[i := Some x] ! j = map (slot from_str (kvs @ [(key, v)])) fds ! j"
      using j i assms(3) by (auto simp: slot_def last_value_snoc nth_list_update)
  qed simp
  then show ?thesis
    by (simp add: store_value_def parse_query_value_def assms(3))
qed

lemma direct_loop_slots:
  assumes "distinct (map qf_wire fds)" "\<forall>f \<in> set fds. percent \<notin> set (qf_wire f)"
    and "\<forall>(k, v) \<in> set ps. utf8_valid k \<and> utf8_valid v"
  shows "direct_loop from_str fds ps (map (slot from_str kvs0) fds) = Inr vars \<longleftrightarrow>
    (\<exists>kvs. decode_pairs ps = Some kvs \<and> all_parse from_str fds kvs \<and>
       vars = map (slot from_str (kvs0 @ kvs)) fds)"
  using assms(3)
proof (induction ps arbitrary: kvs0)
  case Nil
  then show ?case by (auto simp: all_parse_def)
next
  case (Cons p ps)
  obtain k raw where p: "p = (k, raw)" by (cases p)
  note pair = direct_pair_eq[of k raw fds from_str, OF _ _ assms(2)]
  show ?case
  proof (cases "\<exists>key v. percent_decode k = Inr key \<and> percent_decode raw = Inr v")
    case False
    have "direct_pair from_str fds (k, raw) w \<noteq> Inr vars" for w vars
      using False Cons.prems by (auto simp: p pair outcome_simps simp del: direct_pair.simps)
    moreover have "decode_pairs (p # ps) = None"
      using False by (auto simp: p split: sum.splits)
    ultimately show ?thesis
      by (auto simp: p outcome_simps simp del: direct_pair.simps)
  next
    case True
    then obtain key v where d: "percent_decode k = Inr key" "percent_decode raw = Inr v" by blast
    show ?thesis
    proof (cases "position (\<lambda>f. qf_wire f = key) fds")
      case None
      have "slot from_str (kvs0 @ (key, v) # kvs) f = slot from_str (kvs0 @ kvs) f" if "f \<in> set fds" for kvs f
        using that position_None[OF None] by (auto simp: slot_def last_value_def values_of_def)
      then have "map (slot from_str (kvs0 @ (key, v) # kvs)) fds = map (slot from_str (kvs0 @ kvs)) fds" for kvs
        by simp
      moreover have "all_parse from_str fds ((key, v) # kvs) = all_parse from_str fds kvs" for kvs
        using position_None[OF None] by (auto simp: all_parse_def)
      ultimately show ?thesis
        using Cons None d by (auto simp: p pair simp del: direct_pair.simps split: option.splits)
    next
      case (Some i)
      have i: "i < length fds" "qf_wire (fds ! i) = key"
        using position_Some[OF Some] by auto
      have parses: "all_parse from_str fds ((key, v) # kvs) \<longleftrightarrow>
          (\<exists>x. from_str (qf_type (fds ! i)) v = Inr x) \<and> all_parse from_str fds kvs" for kvs
      proof -
        have "f = fds ! i" if "f \<in> set fds" "qf_wire f = key" for f
          using that i assms(1) by (auto simp: in_set_conv_nth distinct_conv_nth)
        then show ?thesis
          using i by (auto simp: all_parse_def)
      qed
      show ?thesis
      proof (cases "from_str (qf_type (fds ! i)) v")
        case (Inl m)
        then show ?thesis
          using Cons.prems Some d parses
          by (auto simp: p pair store_value_def parse_query_value_def simp del: direct_pair.simps split: option.splits)
      next
        case (Inr x)
        then show ?thesis
          using Cons.prems Cons.IH[of "kvs0 @ [(key, v)]"] Some d parses store_slot[where fds = fds and from_str = from_str and key = key and i = i and v = v and x = x and kvs = kvs0, OF assms(1) Some Inr]
          by (auto simp: p pair simp del: direct_pair.simps split: option.splits)
      qed
    qed
  qed
qed

lemma build_fields_slots:
  assumes "all_parse from_str fds kvs"
  shows "build_fields fds (map (slot from_str kvs) fds) = Inr out \<longleftrightarrow>
    map fst out = map qf_ident fds \<and> list_all2 (reads_as from_str kvs) fds (map snd out)"
  using assms
proof (induction fds arbitrary: out)
  case (Cons f fds)
  have rest: "all_parse from_str fds kvs"
    using Cons.prems by (auto simp: all_parse_def)
  have reads: "reads_as from_str kvs f v \<longleftrightarrow>
      (if qf_optional f then v = Optional_Value (slot from_str kvs f)
       else (\<exists>x. slot from_str kvs f = Some x \<and> v = Required_Value x))" for v
  proof (cases "last_value kvs (qf_wire f)")
    case (Some t)
    then obtain x where "from_str (qf_type f) t = Inr x"
      using Cons.prems last_value_mem[OF Some] by (fastforce simp: all_parse_def)
    then show ?thesis using Some by (simp add: reads_as_def slot_def)
  qed (simp add: reads_as_def slot_def)
  have head: "(if qf_optional f then Inr (Optional_Value x)
        else (case x of Some v \<Rightarrow> Inr (Required_Value v)
              | None \<Rightarrow> Inl (bad_request (''missing query parameter '' @ qf_wire f)))) = Inr v \<longleftrightarrow>
      (if qf_optional f then v = Optional_Value x else (\<exists>y. x = Some y \<and> v = Required_Value y))" for x v
    by (cases x) auto
  have "build_fields (f # fds) (map (slot from_str kvs) (f # fds)) = Inr out \<longleftrightarrow>
      (\<exists>v rest. reads_as from_str kvs f v \<and> build_fields fds (map (slot from_str kvs) fds) = Inr rest \<and>
        out = (qf_ident f, v) # rest)"
    unfolding reads head[symmetric] by (simp only: build_fields.simps list.map outcome_simps) auto
  also have "\<dots> \<longleftrightarrow> (\<exists>v rest. reads_as from_str kvs f v \<and> map fst rest = map qf_ident fds \<and>
        list_all2 (reads_as from_str kvs) fds (map snd rest) \<and> out = (qf_ident f, v) # rest)"
    unfolding Cons.IH[OF rest] by simp
  also have "\<dots> \<longleftrightarrow> map fst out = map qf_ident (f # fds) \<and>
        list_all2 (reads_as from_str kvs) (f # fds) (map snd out)"
    by (cases out) auto
  finally show ?case .
qed auto

section \<open>Properties\<close>


definition demo_from_str :: "int from_str" where
  "demo_from_str ty s = (case parse_integer s of None \<Rightarrow> Inl ''invalid digit'' | Some i \<Rightarrow> Inr i)"

definition demo_fields :: "query_field list" where
  "demo_fields =
     [\<lparr>qf_ident = ''page'', qf_wire = ''page'', qf_type = Other_Type T_Usize, qf_optional = False\<rparr>,
      \<lparr>qf_ident = ''r#in'', qf_wire = ''in'', qf_type = Other_Type T_Usize, qf_optional = True\<rparr>]"


definition documented_field :: "query_field \<Rightarrow> parameter_code" where
  "documented_field f = Push_Parameter (qf_wire f) (\<not> qf_optional f) (qf_type f)"

lemma query_loop_direct:
  assumes "query_loop up container fs q = Inr q'" "sq_direct q'"
  shows "sq_direct q \<and> (\<exists>new. sq_fields q' = sq_fields q @ new \<and> map qf_ident new = map fl_ident fs \<and>
    map (\<lambda>f. (qf_type f, qf_optional f)) new = map (\<lambda>f. option_inner (fl_type f)) fs \<and>
    list_all (\<lambda>f. supports_query_value (qf_type f)) new \<and>
    sq_parameters q' = sq_parameters q @ map documented_field new)"
  using assms
proof (induction fs arbitrary: q)
  case (Cons f fs)
  obtain serde where serde: "serde_parse (fl_attrs f) = Inr serde"
    using Cons.prems(1) by (auto simp: outcome_simps)
  have kept: "\<not> (serde_skipped serde \<or> sa_flatten serde \<or> sa_skip_deserializing serde)"
  proof
    assume "serde_skipped serde \<or> sa_flatten serde \<or> sa_skip_deserializing serde"
    then have "\<exists>q0. query_loop up container fs (q0\<lparr>sq_direct := False\<rparr>) = Inr q'"
      using Cons.prems(1) serde by (auto simp: Let_def)
    then show False using Cons.IH Cons.prems(2) by fastforce
  qed
  obtain t opt where inner: "option_inner (fl_type f) = (t, opt)" by fastforce
  obtain wire where wire: "wire_name up (fl_attrs f) (fl_ident f) (sa_rename_all container) Snake = Inr wire"
    using Cons.prems(1) serde kept by (auto simp: outcome_simps Let_def)
  let ?f = "\<lparr>qf_ident = fl_ident f, qf_wire = wire, qf_type = t, qf_optional = opt\<rparr>"
  have "\<exists>q0. query_loop up container fs q0 = Inr q' \<and> sq_fields q0 = sq_fields q @ [?f] \<and>
      (sq_direct q0 \<longrightarrow> sq_direct q \<and> supports_query_value t \<and> sq_parameters q0 = sq_parameters q @ [documented_field ?f])"
    using Cons.prems(1) serde kept inner wire by (auto simp: Let_def documented_field_def)
  then obtain q0 where q0: "query_loop up container fs q0 = Inr q'" "sq_fields q0 = sq_fields q @ [?f]"
      "sq_direct q0 \<longrightarrow> sq_direct q \<and> supports_query_value t \<and> sq_parameters q0 = sq_parameters q @ [documented_field ?f]"
    by blast
  obtain new where "sq_direct q0" "sq_fields q' = sq_fields q0 @ new" "map qf_ident new = map fl_ident fs"
      "map (\<lambda>f. (qf_type f, qf_optional f)) new = map (\<lambda>f. option_inner (fl_type f)) fs"
      "list_all (\<lambda>f. supports_query_value (qf_type f)) new"
      "sq_parameters q' = sq_parameters q0 @ map documented_field new"
    using Cons.IH[OF q0(1) Cons.prems(2)] by blast
  then show ?case
    using q0(2,3) inner by (intro conjI exI[of _ "?f # new"]) auto
qed auto

lemma derive_transparent_form: "derive_transparent fs = Inr d \<Longrightarrow> \<exists>ty. d = Derived_Transparent ty"
proof -
  assume d: "derive_transparent fs = Inr d"
  then obtain kept where kept: "kept_fields fs = Inr kept"
    by (auto simp: derive_transparent_def outcome_simps)
  show ?thesis
  proof (cases kept)
    case (Cons f rest)
    then show ?thesis using d kept by (cases rest) (auto simp: derive_transparent_def)
  qed (use d kept in \<open>simp add: derive_transparent_def\<close>)
qed

text \<open>Where the macro generates its own parser, the parser and the documentation agree with the
  struct: every field of the struct is initialised, in order, from a value of its type or of the
  content of its \<open>Option\<close>, which is one \<open>FromStr\<close> covers; and the documented parameters are these
  fields, each once, required exactly when the parser answers 400 without it.\<close>

theorem direct_parser_documented:
  assumes "derive_struct up component fs container description =
    Inr (Derived_Struct component body ps (Direct_Parser qs))"
  shows "map qf_ident qs = map fl_ident fs \<and>
    map (\<lambda>f. (qf_type f, qf_optional f)) qs = map (\<lambda>f. option_inner (fl_type f)) fs \<and>
    list_all (\<lambda>f. supports_query_value (qf_type f)) qs \<and>
    map (\<lambda>p. case p of Push_Parameter wire required ty \<Rightarrow> Some (wire, required, ty) | _ \<Rightarrow> None) ps =
      map (\<lambda>f. Some (qf_wire f, \<not> qf_optional f, qf_type f)) qs"
proof -
  let ?q = "\<lparr>sq_parameters = [], sq_fields = [], sq_direct = \<not> sa_deny_unknown_fields container, sq_flatten = False\<rparr>"
  have "\<not> sa_transparent container"
    using assms derive_transparent_form[of fs] by (auto simp: derive_struct_def)
  then obtain q where q: "query_loop up container fs ?q = Inr q" "sq_direct q" "qs = sq_fields q" "ps = sq_parameters q"
    using assms by (auto simp: derive_struct_def outcome_simps split: if_splits)
  from query_loop_direct[OF q(1,2)] show ?thesis
    using q(3,4) by (auto simp: documented_field_def)
qed

definition demo_query_struct :: "field list" where
  "demo_query_struct =
     [\<lparr>fl_ident = ''per_page'', fl_attrs = [], fl_type = Path_Type ''u32'' None (T_Int False 32)\<rparr>,
      \<lparr>fl_ident = ''q'', fl_attrs = [],
       fl_type = Path_Type ''Option'' (Some (Path_Type ''String'' None T_String)) (T_Option T_String)\<rparr>]"

theorem direct_parser_documented_witness:
  "\<exists>body ps qs. derive_struct (\<lambda>_. False) ''Page'' demo_query_struct (serde_default\<lparr>sa_rename_all := Some ''camelCase''\<rparr>) None =
     Inr (Derived_Struct ''Page'' body ps (Direct_Parser qs)) \<and>
   map qf_wire qs = [''perPage'', ''q''] \<and> map qf_ident qs = [''per_page'', ''q''] \<and>
   map qf_optional qs = [False, True]"
proof -
  let ?c = "serde_default\<lparr>sa_rename_all := Some ''camelCase''\<rparr>"
  have camel: "apply_rename_all (\<lambda>_. False) ''camelCase'' ''per_page'' Snake = Some ''perPage''"
    "apply_rename_all (\<lambda>_. False) ''camelCase'' ''q'' Snake = Some ''q''"
    by code_simp+
  obtain body ps qs where d: "derive_struct (\<lambda>_. False) ''Page'' demo_query_struct ?c None =
      Inr (Derived_Struct ''Page'' body ps (Direct_Parser qs))" "map qf_wire qs = [''perPage'', ''q'']"
    by (simp add: derive_struct_def demo_query_struct_def object_schema_def serde_default_def serde_parse_def
        wire_name_def unraw_def strip_prefix_def starts_with_def camel field_property_def field_doc_of_def
        serde_skipped_def query_types_def)
  show ?thesis
    using direct_parser_documented[OF d(1)] d by (auto simp: demo_query_struct_def)
qed

end
