(* ===== verification/Derived_Program.thy ===== *)
theory Derived_Program
  imports Derived_Query
begin

text \<open>
  Types that name each other. A program gives for every type what the derive macro made of it, and
  the implementations call each other: \<open>impls_of base prog n\<close> are the implementations whose calls nest
  at most \<open>n\<close> deep, where \<open>base\<close> stands for a deeper call. A result that does not depend on \<open>base\<close> is the
  result of a terminating run; when every \<open>n\<close> leaves it dependent on \<open>base\<close>, the recursion never ends
  (in the program, the stack overflows).
\<close>

section \<open>Programs\<close>

type_synonym program = "string \<Rightarrow> derived option"

fun impls_of :: "impls \<Rightarrow> program \<Rightarrow> nat \<Rightarrow> impls" where
  "impls_of base prog 0 owner = base owner"
| "impls_of base prog (Suc n) owner =
     (case prog owner of None \<Rightarrow> base owner | Some d \<Rightarrow> derived_impl (impls_of base prog n) owner d)"

text \<open>The types named where a schema is built on the caller's registry, and the flattened ones.\<close>

definition type_names :: "rust_type \<Rightarrow> string set" where
  "type_names ty = set_api_type (ty_meaning ty)"

fun statement_calls :: "statement \<Rightarrow> string set" where
  "statement_calls (Add_Property p) = type_names (pr_type p)"
| "statement_calls _ = {}"

fun statement_flats :: "statement \<Rightarrow> string set" where
  "statement_flats (Flatten_Into ty opt) = type_names ty"
| "statement_flats _ = {}"

fun expr_calls :: "schema_expr \<Rightarrow> string set" where
  "expr_calls (Object_Expr sts d s) = \<Union> (statement_calls ` set sts)"
| "expr_calls (Type_Expr ty) = type_names ty"
| "expr_calls (Tuple_Expr tys) = \<Union> (type_names ` set tys)"

fun expr_flats :: "schema_expr \<Rightarrow> string set" where
  "expr_flats (Object_Expr sts d s) = \<Union> (statement_flats ` set sts)"
| "expr_flats _ = {}"

fun alternative_calls :: "alternative \<Rightarrow> string set" where
  "alternative_calls (Alt_External w e) = expr_calls e"
| "alternative_calls (Alt_Internal_Newtype t w ty) = type_names ty"
| "alternative_calls (Alt_Adjacent t w c e) = expr_calls e"
| "alternative_calls (Alt_Plain e) = expr_calls e"
| "alternative_calls _ = {}"

fun alternative_flats :: "alternative \<Rightarrow> string set" where
  "alternative_flats (Alt_External w e) = expr_flats e"
| "alternative_flats (Alt_Adjacent t w c e) = expr_flats e"
| "alternative_flats (Alt_Plain e) = expr_flats e"
| "alternative_flats _ = {}"

fun body_calls :: "schema_body \<Rightarrow> string set" where
  "body_calls (Struct_Body e) = expr_calls e"
| "body_calls (String_Enum d ws) = {}"
| "body_calls (Any_Of d as) = \<Union> (alternative_calls ` set as)"
| "body_calls (One_Of d as) = \<Union> (alternative_calls ` set as)"

fun body_flats :: "schema_body \<Rightarrow> string set" where
  "body_flats (Struct_Body e) = expr_flats e"
| "body_flats (String_Enum d ws) = {}"
| "body_flats (Any_Of d as) = \<Union> (alternative_flats ` set as)"
| "body_flats (One_Of d as) = \<Union> (alternative_flats ` set as)"

section \<open>Builders that agree\<close>

definition same_on :: "(registry \<Rightarrow> bool) \<Rightarrow> builder \<Rightarrow> builder \<Rightarrow> bool" where
  "same_on P a b \<longleftrightarrow> (\<forall>r. P r \<longrightarrow> a r = b r \<and> P (snd (a r)))"

lemma same_on_map_built: "same_on P a b \<Longrightarrow> same_on P (map_built f a) (map_built f b)"
  by (simp add: same_on_def map_built_def split: prod.splits) (metis snd_conv)

lemma same_onD: "same_on P a b \<Longrightarrow> P r \<Longrightarrow> \<exists>s r'. a r = (s, r') \<and> b r = (s, r') \<and> P r'"
  unfolding same_on_def by (metis surj_pair snd_conv)

lemma same_onI: "(\<And>r. P r \<Longrightarrow> \<exists>s r'. a r = (s, r') \<and> b r = (s, r') \<and> P r') \<Longrightarrow> same_on P a b"
  unfolding same_on_def by fastforce

definition trait_method :: "bool \<Rightarrow> api_impl \<Rightarrow> builder" where
  "trait_method request i = (if request then ai_request_schema_with i else ai_schema_with i)"

lemma same_types:
  assumes "\<And>x. x \<in> set_api_type t \<Longrightarrow> same_on P (trait_method request (e x)) (trait_method request (e' x))"
  shows "same_on P
     ((if request then api_request_schema_with else api_schema_with) (map_api_type e t))
     ((if request then api_request_schema_with else api_schema_with) (map_api_type e' t))"
  using assms
  by (induction t) (cases request; auto intro: same_on_map_built simp: trait_method_def; simp add: same_on_def)+

lemma same_schemas:
  assumes "\<And>x. x \<in> set_api_type t \<Longrightarrow> ai_schema (e x) = ai_schema (e' x)"
  shows "api_schema (map_api_type e t) = api_schema (map_api_type e' t)"
  using assms by (induction t) auto

text \<open>What two environments must agree on for the code of a body to agree.\<close>

definition fresh :: "registry \<Rightarrow> bool" where
  "fresh r \<longleftrightarrow> sr_inline r \<and> sr_stack r = []"

definition agree_calls :: "(registry \<Rightarrow> bool) \<Rightarrow> bool \<Rightarrow> impls \<Rightarrow> impls \<Rightarrow> string set \<Rightarrow> bool" where
  "agree_calls P request e e' X \<longleftrightarrow> (\<forall>x \<in> X. same_on P (trait_method request (e x)) (trait_method request (e' x)))"

definition agree_flats :: "bool \<Rightarrow> impls \<Rightarrow> impls \<Rightarrow> string set \<Rightarrow> bool" where
  "agree_flats request e e' X \<longleftrightarrow>
     (\<forall>x \<in> X. if request then same_on fresh (ai_request_schema_with (e x)) (ai_request_schema_with (e' x))
               else ai_schema (e x) = ai_schema (e' x))"

lemma agree_Un [simp]:
  "agree_calls P q e e' (X \<union> Y) \<longleftrightarrow> agree_calls P q e e' X \<and> agree_calls P q e e' Y"
  "agree_flats q e e' (X \<union> Y) \<longleftrightarrow> agree_flats q e e' X \<and> agree_flats q e e' Y"
  by (auto simp: agree_calls_def agree_flats_def)

lemma fresh_inline: "fresh registry_inline"
  by (simp add: fresh_def registry_inline_def registry_document_def)

lemma schema_call_same:
  "agree_calls P q e e' (type_names ty) \<Longrightarrow> same_on P (schema_call e q ty) (schema_call e' q ty)"
  using same_types[of "ty_meaning ty" P q e e']
  by (cases q) (simp_all add: agree_calls_def type_names_def schema_call_def resolved_type_def)

lemma flat_call_same:
  assumes "agree_flats q e e' (type_names ty)"
  shows "flat_call e q ty = flat_call e' q ty"
proof (cases q)
  case True
  then have "same_on fresh (api_request_schema_with (map_api_type e (ty_meaning ty)))
      (api_request_schema_with (map_api_type e' (ty_meaning ty)))"
    using assms same_types[of "ty_meaning ty" fresh True e e']
    by (simp add: agree_flats_def type_names_def trait_method_def)
  then show ?thesis
    using True fresh_inline by (simp add: flat_call_def resolved_type_def same_on_def)
next
  case False
  then show ?thesis
    using assms same_schemas[of "ty_meaning ty" e e']
    by (simp add: agree_flats_def type_names_def flat_call_def resolved_type_def)
qed

lemma schema_calls_same:
  assumes "agree_calls P q e e' (\<Union> (type_names ` set tys))" "P r"
  shows "schema_calls e q tys r = schema_calls e' q tys r \<and> P (snd (schema_calls e q tys r))"
  using assms
proof (induction tys arbitrary: r)
  case (Cons ty tys)
  obtain s r' where "schema_call e q ty r = (s, r')" "schema_call e' q ty r = (s, r')" "P r'"
    using same_onD[OF schema_call_same] Cons.prems by (metis agree_Un(1) UN_insert list.simps(15))
  then show ?case
    using Cons.IH[of r'] Cons.prems by (simp split: prod.splits) (metis snd_conv)
qed simp

lemma run_statements_same:
  assumes "agree_calls P q e e' (\<Union> (statement_calls ` set sts))" "P r"
    and "agree_flats q e e' (\<Union> (statement_flats ` set sts))"
  shows "fold (run_statement e q) sts (s, r) = fold (run_statement e' q) sts (s, r) \<and>
    P (snd (fold (run_statement e q) sts (s, r)))"
  using assms
proof (induction sts arbitrary: s r)
  case (Cons st sts)
  have "\<exists>s' r'. run_statement e q st (s, r) = (s', r') \<and> run_statement e' q st (s, r) = (s', r') \<and> P r'"
  proof (cases st)
    case (Flatten_Into ty opt)
    then show ?thesis
      using Cons.prems flat_call_same[of q e e' ty] by (auto split: prod.splits)
  next
    case (Add_Property p)
    then obtain j r' where "schema_call e q (pr_type p) r = (j, r')" "schema_call e' q (pr_type p) r = (j, r')" "P r'"
      using same_onD[OF schema_call_same, of P q e e' "pr_type p" r] Cons.prems by auto
    then show ?thesis using Add_Property by simp
  qed (use Cons.prems in simp)
  then obtain s' r' where st: "run_statement e q st (s, r) = (s', r')" "run_statement e' q st (s, r) = (s', r')" "P r'"
    by blast
  have "fold (run_statement e q) sts (s', r') = fold (run_statement e' q) sts (s', r') \<and>
      P (snd (fold (run_statement e q) sts (s', r')))"
    using Cons.IH[of r' s'] Cons.prems st(3) unfolding list.set image_insert Union_insert agree_Un by blast
  then show ?case unfolding fold_simps(2) st(1,2) .
qed simp

lemma run_expr_same:
  assumes "agree_calls P q e e' (expr_calls x)" "agree_flats q e e' (expr_flats x)"
  shows "same_on P (run_expr e q x) (run_expr e' q x)"
proof (rule same_onI)
  fix r assume r: "P r"
  show "\<exists>s r'. run_expr e q x r = (s, r') \<and> run_expr e' q x r = (s, r') \<and> P r'"
  proof (cases x)
    case (Object_Expr sts d st)
    then show ?thesis
      using run_statements_same[of P q e e' sts r object_start] assms r
      by (auto simp: run_object_def split: prod.splits)
  next
    case (Type_Expr ty)
    then show ?thesis
      using same_onD[OF schema_call_same, of P q e e' ty r] assms r by simp
  next
    case (Tuple_Expr tys)
    then show ?thesis
      using schema_calls_same[of P q e e' tys r] assms r by (auto split: prod.splits)
  qed
qed

lemma run_alternative_same:
  assumes "agree_calls P q e e' (alternative_calls a)" "agree_flats q e e' (alternative_flats a)"
  shows "same_on P (run_alternative e q a) (run_alternative e' q a)"
proof (rule same_onI)
  fix r assume r: "P r"
  have ex: "\<exists>s r'. run_expr e q x r = (s, r') \<and> run_expr e' q x r = (s, r') \<and> P r'"
    if "agree_calls P q e e' (expr_calls x)" "agree_flats q e e' (expr_flats x)" for x
    using same_onD[OF run_expr_same[OF that] r] .
  have ty: "\<exists>s r'. schema_call e q t r = (s, r') \<and> schema_call e' q t r = (s, r') \<and> P r'"
    if "agree_calls P q e e' (type_names t)" for t
    using same_onD[OF schema_call_same[OF that] r] .
  show "\<exists>s r'. run_alternative e q a r = (s, r') \<and> run_alternative e' q a r = (s, r') \<and> P r'"
    using assms r by (cases a) (auto dest!: ex ty)
qed

lemma run_alternatives_same:
  assumes "agree_calls P q e e' (\<Union> (alternative_calls ` set as))" "P r"
    and "agree_flats q e e' (\<Union> (alternative_flats ` set as))"
  shows "run_alternatives e q as r = run_alternatives e' q as r \<and> P (snd (run_alternatives e q as r))"
  using assms
proof (induction as arbitrary: r)
  case (Cons a as)
  obtain s r' where "run_alternative e q a r = (s, r')" "run_alternative e' q a r = (s, r')" "P r'"
    using same_onD[OF run_alternative_same, of P q e e' a r] Cons.prems by auto
  then show ?case
    using Cons.IH[of r'] Cons.prems by (simp split: prod.splits) (metis snd_conv)
qed simp

lemma run_body_same:
  assumes "agree_calls P q e e' (body_calls b)" "agree_flats q e e' (body_flats b)"
  shows "same_on P (run_body e q b) (run_body e' q b)"
proof (rule same_onI)
  fix r assume r: "P r"
  show "\<exists>s r'. run_body e q b r = (s, r') \<and> run_body e' q b r = (s, r') \<and> P r'"
  proof (cases b)
    case (Struct_Body x)
    then show ?thesis using same_onD[OF run_expr_same, of P q e e' x r] assms r by simp
  next
    case (Any_Of d as)
    then show ?thesis
      using run_alternatives_same[of P q e e' as r] assms r by (auto split: prod.splits)
  next
    case (One_Of d as)
    then show ?thesis
      using run_alternatives_same[of P q e e' as r] assms r by (auto split: prod.splits)
  qed (use r in simp)
qed

section \<open>The invariants of the registry\<close>

text \<open>An inline registry keeps the stack of the types being built.\<close>

definition inline_at :: "string list \<Rightarrow> registry \<Rightarrow> bool" where
  "inline_at S r \<longleftrightarrow> sr_inline r \<and> sr_stack r = S"

text \<open>While a response schema is built, names are only added.\<close>

definition responding :: "(string \<Rightarrow> input_state option) \<Rightarrow> (string \<times> string option) list \<Rightarrow> string set \<Rightarrow> registry \<Rightarrow> bool" where
  "responding I C D r \<longleftrightarrow> \<not> sr_inline r \<and> sr_inputs r = I \<and> sr_completed r = C \<and> D \<subseteq> dom (sr_owners r)"

text \<open>While a request schema is built, what is being built stays marked, and only what is complete is
  ever forgotten.\<close>

definition requesting :: "string set \<Rightarrow> registry \<Rightarrow> bool" where
  "requesting B r \<longleftrightarrow> \<not> sr_inline r \<and> (\<forall>x \<in> B. sr_inputs r x = Some Building) \<and>
     distinct (map fst (sr_completed r)) \<and>
     (\<forall>x \<in> fst ` set (sr_completed r). \<exists>j. sr_inputs r x = Some (Done j))"

lemma inline_define_same:
  assumes "owner \<in> set S \<or> same_on (inline_at (S @ [owner])) a b"
  shows "same_on (inline_at S) (schema_define owner name a) (schema_define owner name b)"
proof (rule same_onI)
  fix r assume r: "inline_at S r"
  show "\<exists>s r'. schema_define owner name a r = (s, r') \<and> schema_define owner name b r = (s, r') \<and> inline_at S r'"
  proof (cases "owner \<in> set S")
    case True
    then show ?thesis using r by (simp add: schema_define_def define_inline_def inline_at_def)
  next
    case False
    let ?r = "r\<lparr>sr_stack := S @ [owner]\<rparr>"
    obtain s r' where "a ?r = (s, r')" "b ?r = (s, r')" "inline_at (S @ [owner]) r'"
      using same_onD[of "inline_at (S @ [owner])" a b ?r] assms False r by (auto simp: inline_at_def)
    then show ?thesis
      using r False by (auto simp: schema_define_def define_inline_def inline_at_def)
  qed
qed

lemma inline_define_input_same:
  assumes "owner \<in> set S \<or> same_on (inline_at (S @ [owner])) a b"
  shows "same_on (inline_at S) (schema_define_input owner name o1 a) (schema_define_input owner name o2 b)"
proof -
  have eqs: "schema_define_input owner name o1 a r = schema_define owner name a r"
    "schema_define_input owner name o2 b r = schema_define owner name b r" if "inline_at S r" for r
    using that by (simp_all add: schema_define_input_def inline_at_def)
  show ?thesis
  proof (rule same_onI)
    fix r assume r: "inline_at S r"
    show "\<exists>s r'. schema_define_input owner name o1 a r = (s, r') \<and> schema_define_input owner name o2 b r = (s, r') \<and>
        inline_at S r'"
      unfolding eqs[OF r] using same_onD[OF inline_define_same[OF assms] r] .
  qed
qed

lemma response_define_same:
  assumes "name \<in> D \<or> same_on (responding I C (insert name D)) a b"
  shows "same_on (responding I C D) (schema_define owner name a) (schema_define owner name b)"
proof (rule same_onI)
  fix r assume r: "responding I C D r"
  show "\<exists>s r'. schema_define owner name a r = (s, r') \<and> schema_define owner name b r = (s, r') \<and> responding I C D r'"
  proof (cases "sr_owners r name")
    case (Some existing)
    then show ?thesis
      using r by (simp add: schema_define_def responding_def add_conflict_def)
  next
    case None
    let ?r = "put_definition name JNull (r\<lparr>sr_owners := (sr_owners r)(name \<mapsto> owner)\<rparr>)"
    have "responding I C (insert name D) ?r"
      using r by (auto simp: responding_def put_definition_def)
    moreover have "name \<notin> D"
      using r None by (auto simp: responding_def)
    ultimately obtain s r' where "a ?r = (s, r')" "b ?r = (s, r')" "responding I C (insert name D) r'"
      using same_onD[of "responding I C (insert name D)" a b ?r] assms by auto
    then show ?thesis
      using r None by (auto simp: schema_define_def responding_def put_definition_def Let_def)
  qed
qed

lemma forget_frame:
  "sr_inline (forget xs r) = sr_inline r \<and> sr_completed (forget xs r) = sr_completed r \<and>
   sr_inputs (forget xs r) x = (if x \<in> fst ` set xs then None else sr_inputs r x)"
  by (induction xs r rule: forget.induct) (auto simp: Let_def split: option.splits)

lemma requesting_forget:
  assumes "requesting B r"
  shows "requesting B (forget (drop n (sr_completed r)) (r\<lparr>sr_completed := take n (sr_completed r)\<rparr>))"
proof -
  have d: "fst ` set (take n (sr_completed r)) \<inter> fst ` set (drop n (sr_completed r)) = {}"
  proof -
    have "distinct (map fst (take n (sr_completed r)) @ map fst (drop n (sr_completed r)))"
      using assms unfolding requesting_def map_append[symmetric] append_take_drop_id by blast
    then show ?thesis by auto
  qed
  have "x \<notin> fst ` set (drop n (sr_completed r))" if "x \<in> B" for x
    using assms that set_drop_subset[of n "sr_completed r"] unfolding requesting_def
    by (metis image_mono input_state.distinct(1) option.inject subsetD)
  moreover have "\<exists>j. sr_inputs r x = Some (Done j)" if "x \<in> fst ` set (take n (sr_completed r))" for x
    using assms that set_take_subset[of n "sr_completed r"] unfolding requesting_def by (meson image_mono subsetD)
  ultimately show ?thesis
    using assms d by (auto simp: requesting_def forget_frame take_map[symmetric] intro!: distinct_take)
qed

lemma requesting_frame:
  assumes "requesting B r" "sr_inline r' = sr_inline r" "sr_inputs r' = sr_inputs r" "sr_completed r' = sr_completed r"
  shows "requesting B r'"
  using assms by (simp add: requesting_def)

lemma requesting_building:
  assumes "requesting B r" "sr_inputs r owner = None"
  shows "requesting (insert owner B) (r\<lparr>sr_inputs := (sr_inputs r)(owner \<mapsto> Building)\<rparr>)"
  using assms by (auto simp: requesting_def)

lemma requesting_done:
  assumes "requesting (insert owner B) r" "owner \<notin> B"
  shows "requesting B (r\<lparr>sr_inputs := (sr_inputs r)(owner \<mapsto> Done j),
    sr_completed := sr_completed r @ [(owner, c)]\<rparr>)"
proof -
  have "owner \<notin> fst ` set (sr_completed r)"
    using assms(1) by (fastforce simp: requesting_def)
  then show ?thesis
    using assms by (auto simp: requesting_def)
qed

text \<open>Naming the request form, the step of \<open>define_input\<close> after the schema is built.\<close>

definition name_input :: "string \<Rightarrow> string \<Rightarrow> json \<Rightarrow> registry \<Rightarrow> registry" where
  "name_input owner input_name built r =
     (case sr_owners r input_name of
        Some existing \<Rightarrow>
          if existing \<noteq> owner then add_conflict input_name r
          else put_definition input_name built (r\<lparr>sr_owners := (sr_owners r)(input_name \<mapsto> owner)\<rparr>)
      | None \<Rightarrow> put_definition input_name built (r\<lparr>sr_owners := (sr_owners r)(input_name \<mapsto> owner)\<rparr>))"

lemma name_input_frame [simp]:
  "sr_inline (name_input o' n b r) = sr_inline r" "sr_inputs (name_input o' n b r) = sr_inputs r"
  "sr_completed (name_input o' n b r) = sr_completed r"
  by (auto simp: name_input_def add_conflict_def put_definition_def split: option.splits)

lemma request_define_same:
  assumes out: "\<And>I C. same_on (responding I C {}) (schema_define owner name o1) (schema_define owner name o2)"
    and inn: "owner \<in> B \<or> same_on (requesting (insert owner B)) i1 i2"
  shows "same_on (requesting B) (schema_define_input owner name o1 i1) (schema_define_input owner name o2 i2)"
proof (rule same_onI)
  fix r assume r: "requesting B r"
  let ?goal = "\<exists>s r'. schema_define_input owner name o1 i1 r = (s, r') \<and>
    schema_define_input owner name o2 i2 r = (s, r') \<and> requesting B r'"
  have doc: "\<not> sr_inline r" using r by (simp add: requesting_def)
  show ?goal
  proof (cases "sr_inputs r owner")
    case (Some st)
    then show ?goal
      using doc r by (cases st) (auto simp: schema_define_input_def requesting_def)
  next
    case None
    have owner: "owner \<notin> B"
      using r None by (auto simp: requesting_def)
    then have inn: "same_on (requesting (insert owner B)) i1 i2"
      using inn by blast
    define r0 where "r0 = r\<lparr>sr_inputs := (sr_inputs r)(owner \<mapsto> Building)\<rparr>"
    have r0: "requesting (insert owner B) r0"
      using requesting_building[OF r None] by (simp add: r0_def)
    obtain s1 r1 where r1: "schema_define owner name o1 r0 = (s1, r1)" "schema_define owner name o2 r0 = (s1, r1)"
        "responding (sr_inputs r0) (sr_completed r0) {} r1"
      using same_onD[OF out, of "sr_inputs r0" "sr_completed r0" r0] doc by (auto simp: responding_def r0_def)
    have "requesting (insert owner B) r1"
      using r0 r1(3) by (auto simp: requesting_def responding_def)
    then obtain built r2 where r2: "i1 r1 = (built, r2)" "i2 r1 = (built, r2)" "requesting (insert owner B) r2"
      using same_onD[OF inn] by blast
    have start: "sr_completed r = sr_completed r0" by (simp add: r0_def)
    define k where "k = length (sr_completed r)"
    show ?goal
    proof (cases "map_of (sr_definitions r2) name = Some built")
      case True
      then show ?goal
        using doc None r1 r2 requesting_done[OF r2(3) owner]
        by (simp add: schema_define_input_def Let_def r0_def[symmetric])
    next
      case differs: False
      define r3 where "r3 = r2\<lparr>sr_input_differs := insert owner (sr_input_differs r2)\<rparr>"
      have r3: "requesting (insert owner B) r3"
        using requesting_frame[OF r2(3), of r3] by (simp add: r3_def)
      define r4 where "r4 = r3\<lparr>sr_assumed_same := sr_assumed_same r3 - {owner}\<rparr>"
      define r5 where "r5 = forget (drop k (sr_completed r4)) (r4\<lparr>sr_completed := take k (sr_completed r4)\<rparr>)"
      have "requesting (insert owner B) r4"
        using requesting_frame[OF r3, of r4] by (simp add: r4_def)
      then have "requesting (insert owner B) r5"
        using requesting_forget[of "insert owner B" r4 k] by (simp add: r5_def)
      then obtain built' r6 where r6: "i1 r5 = (built', r6)" "i2 r5 = (built', r6)" "requesting (insert owner B) r6"
        using same_onD[OF inn] by blast
      define final where "final = (if owner \<in> sr_assumed_same r3 then (built', r6) else (built, r3))"
      have final: "requesting (insert owner B) (snd final)"
        using r3 r6(3) by (simp add: final_def)
      let ?r7 = "name_input owner (name @ ''Input'') (fst final) (snd final)"
      have "requesting B (?r7\<lparr>sr_inputs := (sr_inputs ?r7)(owner \<mapsto> Done (schema_ref (name @ ''Input''))),
          sr_completed := sr_completed ?r7 @ [(owner, Some (name @ ''Input''))]\<rparr>)"
        by (rule requesting_done[OF requesting_frame[OF final] owner]) simp_all
      moreover have "schema_define_input owner name ob ib r =
          (schema_ref (name @ ''Input''),
           ?r7\<lparr>sr_inputs := (sr_inputs ?r7)(owner \<mapsto> Done (schema_ref (name @ ''Input''))),
               sr_completed := sr_completed ?r7 @ [(owner, Some (name @ ''Input''))]\<rparr>)"
        if i: "schema_define owner name ob r0 = (s1, r1)" "ib r1 = (built, r2)" "ib r5 = (built', r6)" for ob ib
      proof -
        have again: "ib (forget (drop (length (sr_completed r)) (sr_completed r2))
            (r2\<lparr>sr_input_differs := insert owner (sr_input_differs r2),
                sr_assumed_same := sr_assumed_same r2 - {owner},
                sr_completed := take (length (sr_completed r)) (sr_completed r2)\<rparr>)) = (built', r6)"
          using i(3) by (simp add: r5_def r4_def r3_def k_def)
        have "final = (if owner \<in> sr_assumed_same r2 then (built', r6)
            else (built, r2\<lparr>sr_input_differs := insert owner (sr_input_differs r2)\<rparr>))"
          by (simp add: final_def r3_def)
        then show ?thesis
          using doc None i(1,2) differs again
          by (cases "owner \<in> sr_assumed_same r2")
             (simp_all add: schema_define_input_def name_input_def r0_def Let_def)
      qed
      ultimately show ?goal
        using r1 r2 r6 by blast
    qed
  qed
qed

section \<open>Termination\<close>

fun derived_calls :: "derived \<Rightarrow> string set" where
  "derived_calls (Derived_Struct c b ps q) = body_calls b"
| "derived_calls (Derived_Enum c b) = body_calls b"
| "derived_calls (Derived_Transparent ty) = type_names ty"

fun derived_flats :: "derived \<Rightarrow> string set" where
  "derived_flats (Derived_Struct c b ps q) = body_flats b"
| "derived_flats (Derived_Enum c b) = body_flats b"
| "derived_flats (Derived_Transparent ty) = {}"

fun component_names :: "derived \<Rightarrow> string set" where
  "component_names (Derived_Struct c b ps q) = {c}"
| "component_names (Derived_Enum c b) = {c}"
| "component_names (Derived_Transparent ty) = {}"

text \<open>
  The types \<open>N\<close> name only each other, no type is reached again through a flattened field (\<open>rank\<close>
  decreases there and never grows), and no transparent type through transparent types alone (\<open>trank\<close>
  decreases). Any other recursion is allowed.
\<close>

definition well_ranked ::
  "program \<Rightarrow> string set \<Rightarrow> (string \<Rightarrow> nat) \<Rightarrow> (string \<Rightarrow> nat) \<Rightarrow> nat \<Rightarrow> nat \<Rightarrow> bool" where
  "well_ranked prog N rank trank K T \<longleftrightarrow>
     finite N \<and>
     (\<forall>x \<in> N. rank x \<le> K \<and> trank x \<le> T \<and>
        (case prog x of
           None \<Rightarrow> False
         | Some d \<Rightarrow>
             derived_calls d \<union> derived_flats d \<subseteq> N \<and>
             (\<forall>y \<in> derived_calls d. rank y \<le> rank x) \<and>
             (\<forall>y \<in> derived_flats d. rank y < rank x) \<and>
             (case d of Derived_Transparent ty \<Rightarrow> (\<forall>y \<in> type_names ty. trank y < trank x) | _ \<Rightarrow> True)))"

definition call_layer :: "string set \<Rightarrow> nat \<Rightarrow> nat" where
  "call_layer N T = (card N + 1) * (T + 1)"

definition depth :: "nat \<Rightarrow> nat \<Rightarrow> nat \<Rightarrow> nat \<Rightarrow> nat" where
  "depth T b s t = b + s * (T + 1) + t + 1"

lemma depth_inner: "s' < s \<Longrightarrow> t' \<le> T \<Longrightarrow> b' \<le> b \<Longrightarrow> depth T b' s' t' < depth T b s t"
proof -
  assume a: "s' < s" "t' \<le> T" "b' \<le> b"
  have "Suc s' * (T + 1) \<le> s * (T + 1)"
    using a(1) by (intro mult_le_mono1) simp
  then show ?thesis using a by (simp add: depth_def)
qed

lemma depth_mono: "t' < t \<Longrightarrow> b' \<le> b \<Longrightarrow> depth T b' s t' < depth T b s t"
  by (simp add: depth_def)

lemma depth_top: "s \<le> card N \<Longrightarrow> t \<le> T \<Longrightarrow> depth T b s t \<le> b + call_layer N T"
proof -
  assume a: "s \<le> card N" "t \<le> T"
  have "s * (T + 1) \<le> card N * (T + 1)"
    using a(1) by (rule mult_le_mono1)
  then show ?thesis using a(2) by (simp add: depth_def call_layer_def)
qed

lemma depth_pos: "depth T b s t \<le> n \<Longrightarrow> \<exists>n'. n = Suc n'"
  by (cases n) (simp_all add: depth_def)

lemma rank_call_layer: "k' < k \<Longrightarrow> k' * w + w \<le> k * (w::nat)"
proof -
  assume "k' < k"
  then have "Suc k' * w \<le> k * w" by (intro mult_le_mono1) simp
  then show ?thesis by simp
qed

lemma fresh_eq: "fresh = inline_at []"
  by (simp add: fresh_def inline_at_def fun_eq_iff)

lemma method_schema_impl:
  "trait_method q (schema_impl env owner c b) =
     (if q then schema_define_input owner c (run_body env False b) (run_body env True b)
      else schema_define owner c (run_body env False b))"
  by (simp add: trait_method_def schema_impl_def)

lemma method_transparent:
  "trait_method q (transparent_impl env ty) =
     (if q then api_request_schema_with else api_schema_with) (map_api_type env (ty_meaning ty))"
  by (simp add: trait_method_def transparent_impl_def resolved_type_def)

lemma well_rankedD:
  assumes "well_ranked prog N rank trank K T" "x \<in> N"
  obtains d where "prog x = Some d" "derived_calls d \<union> derived_flats d \<subseteq> N"
    "\<And>y. y \<in> derived_calls d \<Longrightarrow> rank y \<le> rank x" "\<And>y. y \<in> derived_flats d \<Longrightarrow> rank y < rank x"
    "\<And>ty y. d = Derived_Transparent ty \<Longrightarrow> y \<in> type_names ty \<Longrightarrow> trank y < trank x"
  using assms by (fastforce simp: well_ranked_def split: option.splits)

lemma ranked_bounds:
  assumes "well_ranked prog N rank trank K T"
  shows "finite N" "x \<in> N \<Longrightarrow> rank x \<le> K" "x \<in> N \<Longrightarrow> trank x \<le> T"
  using assms by (auto simp: well_ranked_def)

text \<open>A derived type is an \<open>ApiSchema\<close> around a body, or transparent.\<close>

lemma derived_cases:
  obtains (body) c b where "\<And>env. derived_impl env owner d = schema_impl env owner c b"
      "derived_calls d = body_calls b" "derived_flats d = body_flats b" "component_names d = {c}"
  | (transparent) ty where "d = Derived_Transparent ty"
  by (cases d) auto

lemma impls_of_Suc: "prog owner = Some d \<Longrightarrow> impls_of base prog (Suc n) owner = derived_impl (impls_of base prog n) owner d"
  by simp

lemma inline_terminates:
  assumes ranked: "well_ranked prog N rank trank K T"
  shows "owner \<in> N \<Longrightarrow> depth T (rank owner * call_layer N T) (card (N - set S)) (trank owner) \<le> n \<Longrightarrow>
    depth T (rank owner * call_layer N T) (card (N - set S)) (trank owner) \<le> m \<Longrightarrow>
    same_on (inline_at S) (trait_method q (impls_of base1 prog n owner)) (trait_method q (impls_of base2 prog m owner)) \<and>
    (S = [] \<longrightarrow> ai_schema (impls_of base1 prog n owner) = ai_schema (impls_of base2 prog m owner))"
proof (induction n arbitrary: m owner S q)
  case 0
  then show ?case using depth_pos by blast
next
  case (Suc n)
  let ?w = "call_layer N T"
  obtain m' where m: "m = Suc m'" using Suc.prems(3) depth_pos by blast
  let ?e1 = "impls_of base1 prog n" and ?e2 = "impls_of base2 prog m'"
  obtain d where d: "prog owner = Some d" "derived_calls d \<union> derived_flats d \<subseteq> N"
      "\<And>y. y \<in> derived_calls d \<Longrightarrow> rank y \<le> rank owner" "\<And>y. y \<in> derived_flats d \<Longrightarrow> rank y < rank owner"
      "\<And>ty y. d = Derived_Transparent ty \<Longrightarrow> y \<in> type_names ty \<Longrightarrow> trank y < trank owner"
    using well_rankedD[OF ranked Suc.prems(1)] by blast
  note bounds = ranked_bounds[OF ranked]
  have IH: "same_on (inline_at S') (trait_method q' (?e1 y)) (trait_method q' (?e2 y)) \<and>
      (S' = [] \<longrightarrow> ai_schema (?e1 y) = ai_schema (?e2 y))"
    if y: "y \<in> N" "depth T (rank y * ?w) (card (N - set S')) (trank y) <
        depth T (rank owner * ?w) (card (N - set S)) (trank owner)" for y S' q'
    using Suc.IH[of y S' m' q'] y Suc.prems(2,3) m by simp
  have flat: "agree_flats q' ?e1 ?e2 (derived_flats d)" for q'
  proof -
    have "same_on (inline_at []) (trait_method q'' (?e1 y)) (trait_method q'' (?e2 y)) \<and> ai_schema (?e1 y) = ai_schema (?e2 y)"
      if y: "y \<in> derived_flats d" for y q''
    proof -
      have N: "y \<in> N" using y d(2) by blast
      have "depth T (rank y * ?w) (card (N - set [])) (trank y) \<le> rank y * ?w + ?w"
        by (rule depth_top) (use N bounds in simp_all)
      also have "\<dots> < depth T (rank owner * ?w) (card (N - set S)) (trank owner)"
        using rank_call_layer[OF d(4)[OF y], of ?w] by (simp add: depth_def)
      finally show ?thesis using IH[OF N, of "[]"] by blast
    qed
    then show ?thesis by (simp add: agree_flats_def fresh_eq trait_method_def) (metis (full_types))
  qed
  show ?case
  proof (cases d rule: derived_cases[where owner = owner])
    case (transparent ty)
    have inner: "same_on (inline_at S) (trait_method q (?e1 y)) (trait_method q (?e2 y)) \<and>
        (S = [] \<longrightarrow> ai_schema (?e1 y) = ai_schema (?e2 y))" if y: "y \<in> type_names ty" for y
    proof (rule IH)
      show "y \<in> N" using y d(2) transparent by auto
      have "rank y * ?w \<le> rank owner * ?w"
        using d(3)[of y] y transparent by (intro mult_le_mono1) simp
      then show "depth T (rank y * ?w) (card (N - set S)) (trank y) <
          depth T (rank owner * ?w) (card (N - set S)) (trank owner)"
        using d(5)[OF transparent y] by (intro depth_mono)
    qed
    show ?thesis
      using same_types[of "ty_meaning ty" "inline_at S" q ?e1 ?e2] same_schemas[of "ty_meaning ty" ?e1 ?e2] inner
      unfolding m impls_of_Suc[of prog owner d, OF d(1)] transparent derived_impl.simps method_transparent type_names_def
      by (auto simp: transparent_impl_def resolved_type_def)
  next
    case (body c b)
    have calls: "agree_calls (inline_at (S @ [owner])) q' ?e1 ?e2 (body_calls b)" if S: "owner \<notin> set S" for q'
      unfolding agree_calls_def
    proof
      fix y assume y: "y \<in> body_calls b"
      have N: "y \<in> N" using y d(2) body by auto
      have "N - set (S @ [owner]) \<subset> N - set S" using Suc.prems(1) S by auto
      then have "card (N - set (S @ [owner])) < card (N - set S)"
        using bounds(1) by (intro psubset_card_mono) auto
      moreover have "rank y * ?w \<le> rank owner * ?w"
        using d(3)[of y] y body by (intro mult_le_mono1) simp
      ultimately show "same_on (inline_at (S @ [owner])) (trait_method q' (?e1 y)) (trait_method q' (?e2 y))"
        using IH[OF N depth_inner] bounds(3)[OF N] by blast
    qed
    have bodies: "owner \<in> set S \<or> same_on (inline_at (S @ [owner])) (run_body ?e1 q' b) (run_body ?e2 q' b)" for q'
      using run_body_same[OF calls] flat[of q'] body(3) by auto
    have "same_on (inline_at S) (trait_method q' (schema_impl ?e1 owner c b)) (trait_method q' (schema_impl ?e2 owner c b))" for q'
      using inline_define_same[OF bodies[of False], of c] inline_define_input_same[OF bodies[of True], of c]
      by (simp add: method_schema_impl)
    note main = this[of q] this[of False]
    have "ai_schema (schema_impl ?e1 owner c b) = ai_schema (schema_impl ?e2 owner c b)" if S: "S = []"
    proof -
      have "trait_method False (schema_impl ?e1 owner c b) registry_inline = trait_method False (schema_impl ?e2 owner c b) registry_inline"
        using main(2) fresh_inline S unfolding same_on_def fresh_eq by blast
      then show ?thesis
        by (simp only: method_schema_impl if_False) (simp add: schema_impl_def)
    qed
    then show ?thesis
      using main(1) unfolding m impls_of_Suc[of prog owner d, OF d(1)] body(1) by blast
  qed
qed


lemma flats_terminate:
  assumes ranked: "well_ranked prog N rank trank K T" and X: "X \<subseteq> N"
    and n: "(K + 1) * call_layer N T \<le> n" "(K + 1) * call_layer N T \<le> m"
  shows "agree_flats q (impls_of base1 prog n) (impls_of base2 prog m) X"
proof -
  have "same_on (inline_at []) (trait_method q' (impls_of base1 prog n y)) (trait_method q' (impls_of base2 prog m y)) \<and>
      ai_schema (impls_of base1 prog n y) = ai_schema (impls_of base2 prog m y)" if y: "y \<in> X" for y q'
  proof -
    have N: "y \<in> N" using y X by blast
    note bounds = ranked_bounds[OF ranked]
    have "depth T (rank y * call_layer N T) (card (N - set [])) (trank y) \<le> rank y * call_layer N T + call_layer N T"
      by (rule depth_top) (use N bounds in simp_all)
    also have "\<dots> \<le> (K + 1) * call_layer N T"
      using bounds(2)[OF N] by simp
    finally show ?thesis
      using inline_terminates[OF ranked N, of "[]" n m q' base1 base2] n by simp
  qed
  then show ?thesis by (simp add: agree_flats_def fresh_eq trait_method_def) (metis (full_types))
qed

definition components :: "program \<Rightarrow> string set \<Rightarrow> string set" where
  "components prog N = (\<Union>x \<in> N. case prog x of None \<Rightarrow> {} | Some d \<Rightarrow> component_names d)"

lemma components_card: "finite N \<Longrightarrow> finite (components prog N) \<and> card (components prog N) \<le> card N"
proof (induction N rule: finite_induct)
  case (insert x N)
  have "components prog (insert x N) = (case prog x of None \<Rightarrow> {} | Some d \<Rightarrow> component_names d) \<union> components prog N"
    by (simp add: components_def)
  moreover have "card (component_names d \<union> C) \<le> Suc (card C)" if "finite C" for d C
    using that by (cases d) (simp_all add: card_insert_if)
  moreover have "finite (component_names d)" for d
    by (cases d) simp_all
  ultimately show ?case
    using insert by (cases "prog x") (auto intro: le_trans)
qed (simp add: components_def)

lemma response_terminates:
  assumes ranked: "well_ranked prog N rank trank K T"
  shows "owner \<in> N \<Longrightarrow> depth T ((K + 1) * call_layer N T) (card (components prog N - D)) (trank owner) \<le> n \<Longrightarrow>
    depth T ((K + 1) * call_layer N T) (card (components prog N - D)) (trank owner) \<le> m \<Longrightarrow>
    same_on (responding I C D) (ai_schema_with (impls_of base1 prog n owner)) (ai_schema_with (impls_of base2 prog m owner))"
proof (induction n arbitrary: m owner D)
  case 0
  then show ?case using depth_pos by blast
next
  case (Suc n)
  let ?b = "(K + 1) * call_layer N T"
  obtain m' where m: "m = Suc m'" using Suc.prems(3) depth_pos by blast
  let ?e1 = "impls_of base1 prog n" and ?e2 = "impls_of base2 prog m'"
  obtain d where d: "prog owner = Some d" "derived_calls d \<union> derived_flats d \<subseteq> N"
      "\<And>ty y. d = Derived_Transparent ty \<Longrightarrow> y \<in> type_names ty \<Longrightarrow> trank y < trank owner"
    using well_rankedD[OF ranked Suc.prems(1)] by metis
  note bounds = ranked_bounds[OF ranked]
  have IH: "same_on (responding I C D') (trait_method False (?e1 y)) (trait_method False (?e2 y))"
    if y: "y \<in> N" "depth T ?b (card (components prog N - D')) (trank y) <
        depth T ?b (card (components prog N - D)) (trank owner)" for y D'
    using Suc.IH[of y D' m'] y Suc.prems(2,3) m by (simp add: trait_method_def)
  have base: "?b \<le> n" "?b \<le> m'"
    using Suc.prems(2,3) m by (simp_all add: depth_def)
  show ?case
  proof (cases d rule: derived_cases[where owner = owner])
    case (transparent ty)
    have "same_on (responding I C D) (trait_method False (?e1 y)) (trait_method False (?e2 y))" if y: "y \<in> type_names ty" for y
    proof (rule IH)
      show "y \<in> N" using y d(2) transparent by auto
    qed (rule depth_mono[OF d(3)[OF transparent y] order_refl])
    then have "same_on (responding I C D) (schema_call ?e1 False ty) (schema_call ?e2 False ty)"
      by (intro schema_call_same) (simp add: agree_calls_def)
    then show ?thesis
      unfolding m impls_of_Suc[of prog owner d, OF d(1)] transparent derived_impl.simps
      by (simp add: transparent_impl_def schema_call_def)
  next
    case (body c b)
    have name: "c \<in> components prog N"
      unfolding components_def using Suc.prems(1) d(1) body(4) by (intro UN_I[of owner]) simp_all
    have "c \<in> D \<or> same_on (responding I C (insert c D)) (run_body ?e1 False b) (run_body ?e2 False b)"
    proof (cases "c \<in> D")
      case False
      have "components prog N - insert c D \<subset> components prog N - D" using name False by auto
      then have less: "card (components prog N - insert c D) < card (components prog N - D)"
        using components_card[OF bounds(1)] by (intro psubset_card_mono) auto
      have "agree_calls (responding I C (insert c D)) False ?e1 ?e2 (body_calls b)"
        unfolding agree_calls_def
      proof
        fix y assume "y \<in> body_calls b"
        then have N: "y \<in> N" using d(2) body(2) by blast
        show "same_on (responding I C (insert c D)) (trait_method False (?e1 y)) (trait_method False (?e2 y))"
          by (rule IH[OF N depth_inner[OF less bounds(3)[OF N] order_refl]])
      qed
      then show ?thesis
        using run_body_same[OF _ flats_terminate[OF ranked _ base]] d(2) body(3) by auto
    qed simp
    then show ?thesis
      unfolding m impls_of_Suc[of prog owner d, OF d(1)] body(1)
      using response_define_same[of c D I C _ _ owner] by (simp add: schema_impl_def)
  qed
qed

lemma request_terminates:
  assumes ranked: "well_ranked prog N rank trank K T"
  shows "owner \<in> N \<Longrightarrow> depth T ((K + 2) * call_layer N T) (card (N - B)) (trank owner) \<le> n \<Longrightarrow>
    depth T ((K + 2) * call_layer N T) (card (N - B)) (trank owner) \<le> m \<Longrightarrow>
    same_on (requesting B) (ai_request_schema_with (impls_of base1 prog n owner))
      (ai_request_schema_with (impls_of base2 prog m owner))"
proof (induction n arbitrary: m owner B)
  case 0
  then show ?case using depth_pos by blast
next
  case (Suc n)
  let ?b = "(K + 2) * call_layer N T"
  obtain m' where m: "m = Suc m'" using Suc.prems(3) depth_pos by blast
  let ?e1 = "impls_of base1 prog n" and ?e2 = "impls_of base2 prog m'"
  obtain d where d: "prog owner = Some d" "derived_calls d \<union> derived_flats d \<subseteq> N"
      "\<And>ty y. d = Derived_Transparent ty \<Longrightarrow> y \<in> type_names ty \<Longrightarrow> trank y < trank owner"
    using well_rankedD[OF ranked Suc.prems(1)] by metis
  note bounds = ranked_bounds[OF ranked]
  have IH: "same_on (requesting B') (trait_method True (?e1 y)) (trait_method True (?e2 y))"
    if y: "y \<in> N" "depth T ?b (card (N - B')) (trank y) < depth T ?b (card (N - B)) (trank owner)" for y B'
    using Suc.IH[of y B' m'] y Suc.prems(2,3) m by (simp add: trait_method_def)
  have base: "?b \<le> n" "?b \<le> m'"
    using Suc.prems(2,3) m by (simp_all add: depth_def)
  have low: "(K + 1) * call_layer N T \<le> n" "(K + 1) * call_layer N T \<le> m'"
    using base by simp_all
  show ?case
  proof (cases d rule: derived_cases[where owner = owner])
    case (transparent ty)
    have "same_on (requesting B) (trait_method True (?e1 y)) (trait_method True (?e2 y))" if y: "y \<in> type_names ty" for y
    proof (rule IH)
      show "y \<in> N" using y d(2) transparent by auto
    qed (rule depth_mono[OF d(3)[OF transparent y] order_refl])
    then have "same_on (requesting B) (schema_call ?e1 True ty) (schema_call ?e2 True ty)"
      by (intro schema_call_same) (simp add: agree_calls_def)
    then show ?thesis
      unfolding m impls_of_Suc[of prog owner d, OF d(1)] transparent derived_impl.simps
      by (simp add: transparent_impl_def schema_call_def)
  next
    case (body c b)
    have "depth T ((K + 1) * call_layer N T) (card (components prog N - {})) (trank owner) \<le> (K + 1) * call_layer N T + call_layer N T"
      by (rule depth_top) (use components_card[OF bounds(1)] bounds(3)[OF Suc.prems(1)] in simp_all)
    then have out: "same_on (responding I C {}) (schema_define owner c (run_body ?e1 False b))
        (schema_define owner c (run_body ?e2 False b))" for I C
      using response_terminates[OF ranked Suc.prems(1), of "{}" "Suc n" m I C base1 base2] base m
      by (simp add: d(1) body(1) schema_impl_def)
    have "owner \<in> B \<or> same_on (requesting (insert owner B)) (run_body ?e1 True b) (run_body ?e2 True b)"
    proof (cases "owner \<in> B")
      case False
      have "N - insert owner B \<subset> N - B" using Suc.prems(1) False by auto
      then have less: "card (N - insert owner B) < card (N - B)"
        using bounds(1) by (intro psubset_card_mono) auto
      have "agree_calls (requesting (insert owner B)) True ?e1 ?e2 (body_calls b)"
        unfolding agree_calls_def
      proof
        fix y assume "y \<in> body_calls b"
        then have N: "y \<in> N" using d(2) body(2) by blast
        show "same_on (requesting (insert owner B)) (trait_method True (?e1 y)) (trait_method True (?e2 y))"
          by (rule IH[OF N depth_inner[OF less bounds(3)[OF N] order_refl]])
      qed
      then show ?thesis
        using run_body_same[OF _ flats_terminate[OF ranked _ low]] d(2) body(3) by auto
    qed simp
    then show ?thesis
      unfolding m impls_of_Suc[of prog owner d, OF d(1)] body(1)
      using request_define_same[OF out] by (simp add: schema_impl_def)
  qed
qed

section \<open>Properties\<close>

text \<open>C31: Schema generation terminates on recursive types: types may name each other in any way except
  that a flattened field may not lead back to the type it is flattened into, and transparent types
  may not form a cycle by themselves. A nesting of calls linear in the number of types for every level
  of flattening is then enough, inline, for a response and for a request alike: no deeper call is
  reached, and the results depend on nothing beyond.\<close>

theorem schema_generation_terminates:
  assumes "well_ranked prog N rank trank K T" "owner \<in> N"
    and "(K + 3) * ((card N + 1) * (T + 1)) \<le> n" "(K + 3) * ((card N + 1) * (T + 1)) \<le> m"
  shows "ai_schema (impls_of base1 prog n owner) = ai_schema (impls_of base2 prog m owner) \<and>
    (\<forall>r. \<not> sr_inline r \<longrightarrow>
       ai_schema_with (impls_of base1 prog n owner) r = ai_schema_with (impls_of base2 prog m owner) r) \<and>
    (\<forall>r. requesting {} r \<longrightarrow>
       ai_request_schema_with (impls_of base1 prog n owner) r = ai_request_schema_with (impls_of base2 prog m owner) r \<and>
       requesting {} (snd (ai_request_schema_with (impls_of base1 prog n owner) r)))"
proof -
  let ?w = "call_layer N T"
  note bounds = ranked_bounds[OF assms(1)]
  have fuel: "(K + 3) * ?w \<le> n" "(K + 3) * ?w \<le> m"
    using assms(3,4) by (simp_all add: call_layer_def)
  have top: "depth T b s (trank owner) \<le> b + ?w" if "s \<le> card N" for b s
    using depth_top[OF that] bounds(3)[OF assms(2)] by blast
  have comps: "card (components prog N) \<le> card N"
    using components_card[OF bounds(1)] by blast
  have "rank owner * ?w \<le> K * ?w"
    using bounds(2)[OF assms(2)] by (rule mult_le_mono1)
  then have "rank owner * ?w + ?w \<le> (K + 3) * ?w"
    unfolding add_mult_distrib by linarith
  then have inl: "depth T (rank owner * ?w) (card (N - set [])) (trank owner) \<le> (K + 3) * ?w"
    using top[of "card (N - set [])" "rank owner * ?w"] by simp
  have resp: "depth T ((K + 1) * ?w) (card (components prog N - {})) (trank owner) \<le> (K + 3) * ?w"
    using top[of "card (components prog N - {})" "(K + 1) * ?w"] comps by (simp add: add_mult_distrib)
  have req: "depth T ((K + 2) * ?w) (card (N - {})) (trank owner) \<le> (K + 3) * ?w"
    using top[of "card (N - {})" "(K + 2) * ?w"] by (simp add: add_mult_distrib)
  have "ai_schema (impls_of base1 prog n owner) = ai_schema (impls_of base2 prog m owner)"
    using inline_terminates[OF assms(1,2), of "[]" n m False base1 base2] inl fuel by simp
  moreover have "ai_schema_with (impls_of base1 prog n owner) r = ai_schema_with (impls_of base2 prog m owner) r"
    if r: "\<not> sr_inline r" for r
    using response_terminates[OF assms(1,2), of "{}" n m "sr_inputs r" "sr_completed r" base1 base2] resp fuel r
    by (simp add: same_on_def responding_def)
  moreover have "ai_request_schema_with (impls_of base1 prog n owner) r = ai_request_schema_with (impls_of base2 prog m owner) r \<and>
       requesting {} (snd (ai_request_schema_with (impls_of base1 prog n owner) r))"
    if r: "requesting {} r" for r
    using same_onD[OF request_terminates[OF assms(1,2) le_trans[OF req fuel(1)] le_trans[OF req fuel(2)]] r, of base1 base2]
    by auto
  ultimately show ?thesis by blast
qed

text \<open>A comment with replies, each a comment.\<close>

definition comment_input :: derive_input where
  "comment_input =
     \<lparr>di_ident = ''Comment'', di_attrs = [], di_generics = 0,
      di_data = Data_Struct (Named_Fields
        [\<lparr>fl_ident = ''replies'', fl_attrs = [], fl_type = Path_Type ''Vec'' None (T_Vec (T_Named ''Comment''))\<rparr>])\<rparr>"

lemma expand_plain:
  assumes "component_char c" "list_all component_char cs"
  shows "expand up \<lparr>di_ident = c # cs, di_attrs = [], di_generics = 0, di_data = Data_Struct (Named_Fields fs)\<rparr> =
    derive_struct up (c # cs) fs serde_default None"
proof -
  have "trim [] = []" by code_simp
  then show ?thesis
    using assms by (simp add: expand_def schema_name_def serde_parse_def doc_comment_def)
qed

lemma comment_expanded:
  "\<exists>p ps q. expand up comment_input = Inr (Derived_Struct ''Comment'' (Struct_Body (Object_Expr [Add_Property p] None False)) ps q) \<and>
     pr_type p = Path_Type ''Vec'' None (T_Vec (T_Named ''Comment''))"
  by (simp add: comment_input_def expand_plain component_char_def is_ascii_alphanumeric_def is_ascii_alphabetic_def
      derive_struct_def object_schema_def serde_default_def serde_parse_def serde_skipped_def
      field_property_def wire_name_def unraw_def strip_prefix_def starts_with_def field_doc_of_def)

theorem schema_generation_terminates_witness:
  "\<exists>d. expand (\<lambda>_. False) comment_input = Inr d \<and>
     (\<forall>base1 base2. ai_schema (impls_of base1 [''Comment'' \<mapsto> d] 6 ''Comment'') = ai_schema (impls_of base2 [''Comment'' \<mapsto> d] 100 ''Comment''))"
proof -
  obtain p ps q where d: "expand (\<lambda>_. False) comment_input =
      Inr (Derived_Struct ''Comment'' (Struct_Body (Object_Expr [Add_Property p] None False)) ps q)"
      "pr_type p = Path_Type ''Vec'' None (T_Vec (T_Named ''Comment''))"
    using comment_expanded by blast
  let ?d = "Derived_Struct ''Comment'' (Struct_Body (Object_Expr [Add_Property p] None False)) ps q"
  have "well_ranked [''Comment'' \<mapsto> ?d] {''Comment''} (\<lambda>_. 0) (\<lambda>_. 0) 0 0"
    using d(2) by (simp add: well_ranked_def type_names_def)
  from schema_generation_terminates[OF this, of "''Comment''" 6 100] d(1) show ?thesis by auto
qed

section \<open>Recursion the generator does not end\<close>

text \<open>A page with a flattened body, and a body with pages inside.\<close>

definition flatten_attr :: attribute where
  "flatten_attr = Meta ''serde'' (Paren [Meta ''flatten'' Bare])"

definition page_input :: derive_input where
  "page_input =
     \<lparr>di_ident = ''Page'', di_attrs = [], di_generics = 0,
      di_data = Data_Struct (Named_Fields
        [\<lparr>fl_ident = ''body'', fl_attrs = [flatten_attr], fl_type = Path_Type ''Body'' None (T_Named ''Body'')\<rparr>])\<rparr>"

definition body_input :: derive_input where
  "body_input =
     \<lparr>di_ident = ''Body'', di_attrs = [], di_generics = 0,
      di_data = Data_Struct (Named_Fields
        [\<lparr>fl_ident = ''pages'', fl_attrs = [], fl_type = Path_Type ''Vec'' None (T_Vec (T_Named ''Page''))\<rparr>])\<rparr>"

text \<open>A transparent tree: a list of trees.\<close>

definition tree_input :: derive_input where
  "tree_input =
     \<lparr>di_ident = ''Tree'', di_attrs = [Meta ''serde'' (Paren [Meta ''transparent'' Bare])], di_generics = 0,
      di_data = Data_Struct (Named_Fields
        [\<lparr>fl_ident = ''children'', fl_attrs = [], fl_type = Path_Type ''Vec'' None (T_Vec (T_Named ''Tree''))\<rparr>])\<rparr>"

definition constant_impls :: "json \<Rightarrow> impls" where
  "constant_impls c owner = \<lparr>ai_schema = c, ai_schema_with = (\<lambda>r. (c, r)), ai_request_schema_with = (\<lambda>r. (c, r))\<rparr>"

definition pages_property :: property where
  "pages_property =
     \<lparr>pr_wire = ''pages'', pr_type = Path_Type ''Vec'' None (T_Vec (T_Named ''Page'')),
      pr_doc = \<lparr>fd_description = None, fd_entries = [], fd_deprecated = False\<rparr>, pr_direction = Both_Ways,
      pr_require = Always_Required\<rparr>"

definition page_body :: schema_body where
  "page_body = Struct_Body (Object_Expr [Flatten_Into (Path_Type ''Body'' None (T_Named ''Body'')) False] None False)"

definition body_body :: schema_body where
  "body_body = Struct_Body (Object_Expr [Add_Property pages_property] None False)"

lemma attr_free:
  "doc_comment [] = None" "field_doc_of [] = Inr \<lparr>fd_description = None, fd_entries = [], fd_deprecated = False\<rparr>"
  "serde_parse [] = Inr serde_default"
proof -
  have "trim [] = []" by code_simp
  then show d: "doc_comment [] = None" by (simp add: doc_comment_def)
  then show "field_doc_of [] = Inr \<lparr>fd_description = None, fd_entries = [], fd_deprecated = False\<rparr>"
    by (simp add: field_doc_of_def)
qed (simp add: serde_parse_def)

lemma flatten_attr_parsed: "serde_parse [flatten_attr] = Inr (serde_default\<lparr>sa_flatten := True\<rparr>)"
  by (simp add: serde_parse_def flatten_attr_def is_ident_def)

lemma page_expanded: "\<exists>ps q. expand up page_input = Inr (Derived_Struct ''Page'' page_body ps q)"
  by (simp add: page_input_def expand_plain component_char_def is_ascii_alphanumeric_def is_ascii_alphabetic_def
      derive_struct_def object_schema_def serde_skipped_def flatten_attr_parsed page_body_def, simp add: serde_default_def)

lemma body_expanded: "\<exists>ps q. expand up body_input = Inr (Derived_Struct ''Body'' body_body ps q)"
  by (simp add: body_input_def expand_plain component_char_def is_ascii_alphanumeric_def is_ascii_alphabetic_def
      derive_struct_def object_schema_def serde_skipped_def attr_free body_body_def pages_property_def
      field_property_def wire_name_def, simp add: serde_default_def unraw_def strip_prefix_def starts_with_def)

lemma tree_expanded: "expand up tree_input = Inr (Derived_Transparent (Path_Type ''Vec'' None (T_Vec (T_Named ''Tree''))))"
proof -
  have "trim [] = []" by code_simp
  then show ?thesis
    by (simp add: tree_input_def expand_def schema_name_def component_char_def is_ascii_alphanumeric_def
        is_ascii_alphabetic_def is_ident_def serde_parse_def doc_comment_def derive_struct_def
        derive_transparent_def serde_skipped_def, simp add: serde_default_def)
qed

definition page_json :: "json \<Rightarrow> json" where
  "page_json j = JObj (obj_of [(''type'', JStr ''object''), (''properties'', JObj []), (''allOf'', JArr [j])])"

definition body_json :: "json \<Rightarrow> json" where
  "body_json j = JObj (obj_of [(''type'', JStr ''object''), (''properties'', JObj [(''pages'', array_schema j)]),
     (''required'', JArr [JStr ''pages''])])"

fun nested_json :: "nat \<Rightarrow> json \<Rightarrow> json" where
  "nested_json 0 c = c"
| "nested_json (Suc 0) c = body_json c"
| "nested_json (Suc (Suc n)) c = body_json (page_json (nested_json n c))"

definition page_program :: "parameter_code list \<Rightarrow> query_parser \<Rightarrow> parameter_code list \<Rightarrow> query_parser \<Rightarrow> program" where
  "page_program ps q ps' q' =
     [''Page'' \<mapsto> Derived_Struct ''Page'' page_body ps q, ''Body'' \<mapsto> Derived_Struct ''Body'' body_body ps' q']"

lemma array_schema_inj: "array_schema i = array_schema j \<longleftrightarrow> i = j"
  by (auto simp: array_schema_def obj_of_def)

lemma json_inj: "page_json i = page_json j \<longleftrightarrow> i = j" "body_json i = body_json j \<longleftrightarrow> i = j"
  by (auto simp: page_json_def body_json_def obj_of_def array_schema_inj)

lemma nested_json_inj: "nested_json n i = nested_json n j \<longleftrightarrow> i = j"
  by (induction n i rule: nested_json.induct) (auto simp: json_inj)

lemma nested_json_plain:
  assumes "c = JNull \<or> (\<exists>b. c = JBool b)"
  shows "flatten_schema [] [] (nested_json n c) False = ([], [nested_json n c])"
  using assms
  by (induction n c rule: nested_json.induct)
     (auto simp: flatten_schema_def pure_map_def body_json_def obj_of_def obj_has_def)

lemma run_page_body:
  assumes "ai_schema (env ''Body'') = nested_json n c" "c = JNull \<or> (\<exists>b. c = JBool b)"
  shows "run_body env False page_body r = (page_json (nested_json n c), r)"
  using assms nested_json_plain[OF assms(2), of n]
  by (simp add: page_body_def run_object_def object_start_def flat_call_def resolved_type_def finish_object_def
      insert_opt_def page_json_def obj_of_def)

lemma run_body_body:
  assumes "ai_schema_with (env ''Page'') r = (j, r')"
  shows "run_body env False body_body r = (body_json j, r')"
  using assms
  by (simp add: body_body_def run_object_def object_start_def finish_object_def insert_opt_def pages_property_def
      schema_call_def resolved_type_def map_built_def put_property_def direct_property_def decorate_property_def map_object_def
      requires_def array_schema_def obj_of_def body_json_def)

lemma page_program_step:
  "impls_of base (page_program ps q ps' q') (Suc n) ''Page'' =
     schema_impl (impls_of base (page_program ps q ps' q') n) ''Page'' ''Page'' page_body"
  "impls_of base (page_program ps q ps' q') (Suc n) ''Body'' =
     schema_impl (impls_of base (page_program ps q ps' q') n) ''Body'' ''Body'' body_body"
  by (simp_all add: page_program_def)

lemma schema_define_fresh:
  assumes "sr_inline r" "owner \<notin> set (sr_stack r)"
    and "build (r\<lparr>sr_stack := sr_stack r @ [owner]\<rparr>) = (j, r\<lparr>sr_stack := sr_stack r @ [owner]\<rparr>)"
  shows "schema_define owner name build r = (j, r)"
  using assms by (simp add: schema_define_def define_inline_def)

lemma page_nested:
  assumes c: "c = JNull \<or> (\<exists>b. c = JBool b)"
  shows "ai_schema (impls_of (constant_impls c) (page_program ps q ps' q') n ''Body'') = nested_json n c"
proof (induction n rule: induct_nat_012)
  case 0
  then show ?case by (simp add: constant_impls_def)
next
  case 1
  let ?e = "impls_of (constant_impls c) (page_program ps q ps' q') 0"
  have "schema_define ''Body'' ''Body'' (run_body ?e False body_body) registry_inline = (body_json c, registry_inline)"
    by (rule schema_define_fresh)
       (simp_all add: registry_inline_def registry_document_def run_body_body constant_impls_def)
  then show ?case by (simp only: page_program_step schema_impl_def api_impl.simps One_nat_def nested_json.simps fst_conv)
next
  case (ge2 n)
  let ?i = "impls_of (constant_impls c) (page_program ps q ps' q')"
  let ?r = "registry_inline\<lparr>sr_stack := [''Body'']\<rparr>"
  have "schema_define ''Page'' ''Page'' (run_body (?i n) False page_body) ?r = (page_json (nested_json n c), ?r)"
    by (rule schema_define_fresh)
       (simp_all add: registry_inline_def registry_document_def run_page_body[of "?i n", OF ge2(1) c])
  then have page: "ai_schema_with (?i (Suc n) ''Page'') ?r = (page_json (nested_json n c), ?r)"
    by (simp only: page_program_step schema_impl_def api_impl.simps)
  have "schema_define ''Body'' ''Body'' (run_body (?i (Suc n)) False body_body) registry_inline =
      (body_json (page_json (nested_json n c)), registry_inline)"
    using run_body_body[of "?i (Suc n)", OF page]
    by (intro schema_define_fresh) (simp_all add: registry_inline_def registry_document_def del: impls_of.simps)
  then show ?case by (simp only: page_program_step schema_impl_def api_impl.simps nested_json.simps fst_conv)
qed

text \<open>C32: Two recursions serde accepts make the generated code call itself for ever: a field of a
  flattened struct that names the struct it is flattened into (a page whose flattened body holds
  pages), and a transparent struct that names itself. However deep the calls may nest, the schema
  still depends on what one more call would give.\<close>

theorem recursion_without_end:
  "(\<exists>page body. expand up page_input = Inr page \<and> expand up body_input = Inr body \<and>
     (\<forall>n. ai_schema_with (impls_of (constant_impls JNull) [''Page'' \<mapsto> page, ''Body'' \<mapsto> body] n ''Page'') registry_document
        \<noteq> ai_schema_with (impls_of (constant_impls (JBool True)) [''Page'' \<mapsto> page, ''Body'' \<mapsto> body] n ''Page'') registry_document)) \<and>
   (\<exists>tree. expand up tree_input = Inr tree \<and>
     (\<forall>n. ai_schema_with (impls_of (constant_impls JNull) [''Tree'' \<mapsto> tree] n ''Tree'') registry_document
        \<noteq> ai_schema_with (impls_of (constant_impls (JBool True)) [''Tree'' \<mapsto> tree] n ''Tree'') registry_document))"
proof (rule conjI)
  obtain ps q ps' q' where e: "expand up page_input = Inr (Derived_Struct ''Page'' page_body ps q)"
      "expand up body_input = Inr (Derived_Struct ''Body'' body_body ps' q')"
    using page_expanded body_expanded by metis
  let ?i = "\<lambda>c. impls_of (constant_impls c) (page_program ps q ps' q')"
  have "ai_schema_with (?i JNull n ''Page'') registry_document \<noteq> ai_schema_with (?i (JBool True) n ''Page'') registry_document" for n
  proof (cases n)
    case (Suc m)
    have "map_of (sr_definitions (snd (ai_schema_with (?i c n ''Page'') registry_document))) ''Page'' =
        Some (page_json (nested_json m c))" if c: "c = JNull \<or> (\<exists>b. c = JBool b)" for c
      unfolding Suc page_program_step schema_impl_def
      by (simp add: run_page_body[of "?i c m", OF page_nested[OF c] c] schema_define_def registry_document_def
          put_definition_def Let_def del: impls_of.simps)
    from this[of JNull] this[of "JBool True"] show ?thesis
      by (metis disjI1 disjI2 json.distinct(1) json_inj(1) nested_json_inj option.inject)
  qed (simp add: constant_impls_def)
  then show "\<exists>page body. expand up page_input = Inr page \<and> expand up body_input = Inr body \<and>
     (\<forall>n. ai_schema_with (impls_of (constant_impls JNull) [''Page'' \<mapsto> page, ''Body'' \<mapsto> body] n ''Page'') registry_document
        \<noteq> ai_schema_with (impls_of (constant_impls (JBool True)) [''Page'' \<mapsto> page, ''Body'' \<mapsto> body] n ''Page'') registry_document)"
    using e unfolding page_program_def by blast
next
  let ?d = "Derived_Transparent (Path_Type ''Vec'' None (T_Vec (T_Named ''Tree'')))"
  have step: "ai_schema_with (impls_of (constant_impls c) [''Tree'' \<mapsto> ?d] (Suc n) ''Tree'') =
      map_built array_schema (ai_schema_with (impls_of (constant_impls c) [''Tree'' \<mapsto> ?d] n ''Tree''))" for c n
    by (simp add: transparent_impl_def resolved_type_def)
  have lists: "fst (map_built array_schema a r) = array_schema (fst (a r))" for a r
    by (simp add: map_built_def case_prod_beta)
  have "fst (ai_schema_with (impls_of (constant_impls JNull) [''Tree'' \<mapsto> ?d] n ''Tree'') r) \<noteq>
      fst (ai_schema_with (impls_of (constant_impls (JBool True)) [''Tree'' \<mapsto> ?d] n ''Tree'') r)" for n r
  proof (induction n)
    case (Suc n)
    then show ?case by (simp only: step lists array_schema_inj not_False_eq_True)
  qed (simp add: constant_impls_def)
  then show "\<exists>tree. expand up tree_input = Inr tree \<and>
     (\<forall>n. ai_schema_with (impls_of (constant_impls JNull) [''Tree'' \<mapsto> tree] n ''Tree'') registry_document
        \<noteq> ai_schema_with (impls_of (constant_impls (JBool True)) [''Tree'' \<mapsto> tree] n ''Tree'') registry_document)"
    using tree_expanded by metis
qed

end
