(* ===== verification/Debug_Views.thy ===== *)
theory Debug_Views
  imports Web Middleware
begin

text \<open>
  Model of \<open>src/debug_impls.rs\<close> and of the \<open>Debug\<close> implementations of \<open>Headers\<close> (\<open>extract/mod.rs\<close>),
  \<open>Cookies\<close> and \<open>SetCookie\<close> (\<open>web.rs\<close>): what a logged request or response shows. The printing of a
  string (\<open>quote\<close>), of a header value and of a duration, and the order in which \<open>http::HeaderMap\<close> lists
  its names, are parameters; the layout is the one of \<open>{:?}\<close>.
\<close>

section \<open>What may be shown\<close>

definition safe_headers :: "string list" where
  "safe_headers =
     [''accept'', ''accept-charset'', ''accept-encoding'', ''accept-language'',
      ''access-control-request-headers'', ''access-control-request-method'', ''cache-control'', ''connection'',
      ''content-encoding'', ''content-language'', ''content-length'', ''content-type'', ''date'', ''dnt'',
      ''expect'', ''host'', ''if-match'', ''if-modified-since'', ''if-none-match'', ''if-range'',
      ''if-unmodified-since'', ''max-forwards'', ''origin'', ''pragma'', ''range'', ''sec-ch-ua'',
      ''sec-ch-ua-mobile'', ''sec-ch-ua-platform'', ''sec-websocket-version'', ''te'', ''traceparent'',
      ''tracestate'', ''transfer-encoding'', ''upgrade'', ''upgrade-insecure-requests'', ''user-agent'']"

definition id_headers :: "string list" where
  "id_headers = [''x-request-id'', ''x-correlation-id'']"

definition is_safe_header :: "string \<Rightarrow> bool" where
  "is_safe_header name \<longleftrightarrow> List.member safe_headers name \<or> List.member id_headers name"

definition redacted :: string where
  "redacted = ''<redacted>''"

section \<open>The printers\<close>

definition debug_map :: "(string \<times> string) list \<Rightarrow> string" where
  "debug_map entries = ''{'' @ str_join '', '' (map (\<lambda>(k, v). k @ '': '' @ v) entries) @ ''}''"

definition debug_struct :: "string \<Rightarrow> (string \<times> string) list \<Rightarrow> string" where
  "debug_struct name entries =
     name @ '' { '' @ str_join '', '' (map (\<lambda>(k, v). k @ '': '' @ v) entries) @ '' }''"

text \<open>\<open>opaque!\<close>: \<open>debug_struct(..).finish_non_exhaustive()\<close> with no field.\<close>

definition opaque_debug :: "string \<Rightarrow> string" where
  "opaque_debug type_text = type_text @ '' { .. }''"

text \<open>The types printed that way, as \<open>stringify!\<close> gives them, all features on.\<close>

definition opaque_types :: "string list" where
  "opaque_types =
     [''App<S>'', ''Group<'a, S>'', ''AppRuntime<S>'', ''BearerAuth'', ''CatchPanic'', ''Cors'', ''ErrorFormat'',
      ''HandlerFuture'', ''RateLimit'', ''RequestId'', ''SchemaRegistry'', ''Trace'', ''StreamResponse<S>'',
      ''Sse<S>'', ''Headered<T>'', ''OpenApiOptions<'a, S>'', ''SwaggerOptions<'a, S>'', ''TestResponse'',
      ''Compress'', ''Multipart'', ''Field'', ''ServeDir'', ''WebSocket'', ''WebSocketResponse'',
      ''WebSocketUpgrade'']"

definition debug_option :: "('a \<Rightarrow> string) \<Rightarrow> 'a option \<Rightarrow> string" where
  "debug_option show_it x = (case x of None \<Rightarrow> ''None'' | Some y \<Rightarrow> ''Some('' @ show_it y @ '')'')"

definition debug_bool :: "bool \<Rightarrow> string" where
  "debug_bool b = (if b then ''true'' else ''false'')"

definition debug_same_site :: "same_site \<Rightarrow> string" where
  "debug_same_site s = (case s of SameSite_Strict \<Rightarrow> ''Strict'' | SameSite_Lax \<Rightarrow> ''Lax'' | SameSite_None \<Rightarrow> ''None'')"

text \<open>\<open>names\<close>: the names of the map in the order it lists them, each with all its values.\<close>

definition headers_debug :: "(string \<Rightarrow> string) \<Rightarrow> (header_value \<Rightarrow> string) \<Rightarrow> string list \<Rightarrow> headers \<Rightarrow> string" where
  "headers_debug quote show_value names h =
     debug_map (concat (map (\<lambda>name. map (\<lambda>v.
       (quote name, if \<not> is_safe_header name then redacted else show_value v)) (h name)) names))"

definition cookies_debug :: "(string \<Rightarrow> string) \<Rightarrow> (string \<times> string) list \<Rightarrow> string" where
  "cookies_debug quote cookies = debug_map (map (\<lambda>(name, _). (quote name, redacted)) cookies)"

definition set_cookie_debug :: "(string \<Rightarrow> string) \<Rightarrow> (u64 \<times> nat \<Rightarrow> string) \<Rightarrow> set_cookie \<Rightarrow> string" where
  "set_cookie_debug quote show_duration c =
     debug_struct ''SetCookie''
       [(''name'', quote (sc_name c)), (''value'', redacted), (''path'', debug_option quote (sc_path c)),
        (''domain'', debug_option quote (sc_domain c)), (''max_age'', debug_option show_duration (sc_max_age c)),
        (''http_only'', debug_bool (sc_http_only c)), (''secure'', debug_bool (sc_secure c)),
        (''same_site'', debug_option debug_same_site (sc_same_site c))]"

definition body_debug :: "response_body \<Rightarrow> string" where
  "body_debug body =
     (case body of
        Full (Some bytes) \<Rightarrow> ''ResponseBody::Full('' @ dec (length bytes) @ '' bytes)''
      | Full None \<Rightarrow> ''ResponseBody::Full(consumed)''
      | Stream _ \<Rightarrow> ''ResponseBody::Stream(..)'')"

text \<open>\<open>RequestBody\<close> shows which kind it is, \<open>Next\<close> how many layers are left; neither shows a byte of the
  request. A string is quoted.\<close>

definition request_body_debug :: "(string \<Rightarrow> string) \<Rightarrow> 'i request_body \<Rightarrow> string" where
  "request_body_debug quote body =
     debug_struct ''RequestBody''
       [(''kind'', quote (case body of Incoming _ \<Rightarrow> ''incoming'' | FullBody _ \<Rightarrow> ''full''))]"

text \<open>The index of a \<open>Next\<close> is at most the number of layers, so the difference does not wrap.\<close>

definition next_debug :: "nat \<Rightarrow> nat \<Rightarrow> string" where
  "next_debug layers i = debug_struct ''Next'' [(''remaining_layers'', dec (layers - i))]"

section \<open>No secret is printed\<close>

lemma redacted_entries:
  "length vs = length ws \<Longrightarrow> map (\<lambda>v. (k, redacted)) vs = map (\<lambda>v. (k, redacted)) ws"
  by (simp add: map_replicate_const)

lemma headers_debug_only_safe:
  assumes "\<And>name. is_safe_header name \<Longrightarrow> h name = h' name" "\<And>name. length (h name) = length (h' name)"
  shows "headers_debug quote show_value names h = headers_debug quote show_value names h'"
proof -
  have "map (\<lambda>v. (quote name, if \<not> is_safe_header name then redacted else show_value v)) (h name) =
    map (\<lambda>v. (quote name, if \<not> is_safe_header name then redacted else show_value v)) (h' name)" for name
    using assms redacted_entries[of "h name" "h' name"] by (cases "is_safe_header name") simp_all
  then show ?thesis
    by (simp add: headers_debug_def)
qed

lemma cookies_debug_only_names:
  "map fst cs = map fst cs' \<Longrightarrow> cookies_debug quote cs = cookies_debug quote cs'"
proof -
  have "cookies_debug quote cs = debug_map (map (\<lambda>n. (quote n, redacted)) (map fst cs))" for cs :: "(string \<times> string) list"
    unfolding cookies_debug_def map_map by (intro arg_cong[where f = debug_map] map_cong refl) (simp add: case_prod_beta)
  then show "map fst cs = map fst cs' \<Longrightarrow> cookies_debug quote cs = cookies_debug quote cs'"
    by (simp del: map_map)
qed

definition credential_headers :: "string list" where
  "credential_headers =
     [''authorization'', ''proxy-authorization'', ''cookie'', ''set-cookie'', ''x-api-key'', ''x-credential'',
      ''x-auth-token'', ''x-csrf-token'', ''referer'', ''sec-websocket-protocol'', ''sec-websocket-key'',
      ''x-forwarded-for'', ''x-real-ip'', ''forwarded'']"

text \<open>C37: Printing a request or a cookie for a log tells nothing about its secrets. Two header maps
  that agree in the headers known to be harmless, and in how many values each name has, print as the
  same text, whatever the others hold; credentials, \<open>Referer\<close>, the WebSocket protocol and the
  addresses of clients are among the others; two lists of cookies with the same names print as the
  same text; the value of a \<open>SetCookie\<close> does not appear; and of a response body only the length does.\<close>

theorem secrets_not_printed:
  assumes "\<forall>name. is_safe_header name \<longrightarrow> h name = h' name" "\<forall>name. length (h name) = length (h' name)"
    and "map fst cookies = map fst cookies'" and "length body = length body'"
  shows "headers_debug quote show_value names h = headers_debug quote show_value names h' \<and>
    list_all (\<lambda>name. \<not> is_safe_header name) credential_headers \<and>
    cookies_debug quote cookies = cookies_debug quote cookies' \<and>
    set_cookie_debug quote show_duration c = set_cookie_debug quote show_duration (c\<lparr>sc_value := v\<rparr>) \<and>
    body_debug (Full (Some body)) = body_debug (Full (Some body'))"
proof (intro conjI)
  show "headers_debug quote show_value names h = headers_debug quote show_value names h'"
    using assms(1,2) by (intro headers_debug_only_safe) auto
  show "list_all (\<lambda>name. \<not> is_safe_header name) credential_headers"
    by code_simp
  show "cookies_debug quote cookies = cookies_debug quote cookies'"
    using assms(3) by (rule cookies_debug_only_names)
qed (simp_all add: set_cookie_debug_def body_debug_def assms(4))

theorem secrets_not_printed_witness:
  "headers_debug (\<lambda>s. s) hv_bytes [''host'', ''authorization'']
     (no_headers(''host'' := [text_value ''a''], ''authorization'' := [text_value ''Bearer t''])) =
   headers_debug (\<lambda>s. s) hv_bytes [''host'', ''authorization'']
     (no_headers(''host'' := [text_value ''a''], ''authorization'' := [text_value ''Basic''])) \<and>
   headers_debug (\<lambda>s. s) hv_bytes [''host'', ''authorization'']
     (no_headers(''host'' := [text_value ''a''], ''authorization'' := [text_value ''Bearer t''])) =
   ''{host: a, authorization: <redacted>}''"
proof -
  let ?h = "\<lambda>t. no_headers(''host'' := [text_value ''a''], ''authorization'' := [text_value t])"
  have "\<not> is_safe_header ''authorization''"
    by code_simp
  then have "\<forall>name. is_safe_header name \<longrightarrow> ?h ''Bearer t'' name = ?h ''Basic'' name"
    by auto
  moreover have "\<forall>name. length (?h ''Bearer t'' name) = length (?h ''Basic'' name)"
    by simp
  ultimately have "headers_debug (\<lambda>s. s) hv_bytes [''host'', ''authorization''] (?h ''Bearer t'') =
      headers_debug (\<lambda>s. s) hv_bytes [''host'', ''authorization''] (?h ''Basic'')"
    using secrets_not_printed[of "?h ''Bearer t''" "?h ''Basic''" "[(''sid'', ''1'')]" "[(''sid'', ''2'')]" "''x''" "''y''"
        "\<lambda>s. s" hv_bytes "[''host'', ''authorization'']" "\<lambda>_. []" "\<lparr>sc_name = ''sid'', sc_value = ''1'', sc_path = None, sc_domain = None, sc_max_age = None,
           sc_http_only = True, sc_secure = True, sc_same_site = None\<rparr>" "''c''"]
    by simp
  moreover have "headers_debug (\<lambda>s. s) hv_bytes [''host'', ''authorization''] (?h ''Bearer t'') =
      ''{host: a, authorization: <redacted>}''"
    by code_simp
  ultimately show ?thesis
    by simp
qed

end
