(* ===== verification/Inline_Future.thy ===== *)
theory Inline_Future
  imports Dispatch
begin

text \<open>
  Model of \<open>InlineFuture\<close> and \<open>HandlerFuture\<close> (\<open>src/handler.rs\<close>) and of \<open>PreparedDispatch\<close>
  (\<open>src/runtime.rs\<close>): how the future of a handler is stored, in place when it is small and in a box
  otherwise, and what polling it does. In the other theories an asynchronous function is a function of
  the world that runs to its end; here it is polled, with the world changed by others in between, and
  the two views are shown to agree. The bytes of the storage are not modelled: the stored future is a
  value of its type.
\<close>

section \<open>Futures\<close>

datatype 'r polled = Not_Done | Completed 'r

text \<open>A type of futures: its layout, what a poll answers (a panic, or a poll's value, with the future
  and the world changed), and \<open>IntoResponse\<close> of its output.\<close>

record ('f, 'r, 'w) future_type =
  ft_size :: nat
  ft_align :: nat
  ft_poll :: "'f \<Rightarrow> 'w \<Rightarrow> 'r polled outcome \<times> 'f \<times> 'w"
  ft_response :: "'r \<Rightarrow> response outcome"

definition inline_future_size :: nat where
  "inline_future_size = 64"

text \<open>\<open>align_of::<FutureStorage>()\<close>.\<close>

definition storage_align :: nat where
  "storage_align = 16"

text \<open>The box holds an \<open>async\<close> block that awaits the future and drops it when it is done.\<close>

datatype 'f async_block = Running 'f | Returned_Block | Poisoned

datatype 'f handler_future = Inline 'f | Boxed_Future "'f async_block"

definition inline_future_new :: "('f, 'r, 'w) future_type \<Rightarrow> 'f \<Rightarrow> 'f handler_future outcome" where
  "inline_future_new ft f =
     bind_outcome (assert_that (ft_size ft \<le> inline_future_size) ''assertion failed: size_of::<F>() <= INLINE_FUTURE_SIZE'') (\<lambda>_.
     bind_outcome (assert_that (ft_align ft \<le> storage_align) ''assertion failed: align_of::<F>() <= align_of::<FutureStorage>()'') (\<lambda>_. Ret (Inline f)))"

definition from_response_future :: "('f, 'r, 'w) future_type \<Rightarrow> 'f \<Rightarrow> 'f handler_future outcome" where
  "from_response_future ft f =
     (if ft_size ft \<le> inline_future_size \<and> ft_align ft \<le> storage_align then inline_future_new ft f
      else Ret (Boxed_Future (Running f)))"

definition completed_with :: "('r \<Rightarrow> 'q outcome) \<Rightarrow> 'r polled outcome \<Rightarrow> 'q polled outcome" where
  "completed_with g p =
     bind_outcome p (\<lambda>p. case p of Not_Done \<Rightarrow> Ret Not_Done | Completed r \<Rightarrow> map_outcome Completed (g r))"

definition poll_response ::
  "('f, 'r, 'w) future_type \<Rightarrow> 'f \<Rightarrow> 'w \<Rightarrow> response polled outcome \<times> 'f \<times> 'w" where
  "poll_response ft f w = (case ft_poll ft f w of (p, f, w) \<Rightarrow> (completed_with (ft_response ft) p, f, w))"

text \<open>Polling an \<open>async\<close> block that is over is a panic of the language.\<close>

definition poll_block ::
  "('f, 'r, 'w) future_type \<Rightarrow> 'f async_block \<Rightarrow> 'w \<Rightarrow> response polled outcome \<times> 'f async_block \<times> 'w" where
  "poll_block ft b w =
     (case b of
        Running f \<Rightarrow>
          (case poll_response ft f w of
             (p, f, w) \<Rightarrow>
               (p, (case p of
                      Panic _ \<Rightarrow> Poisoned
                    | Ret Not_Done \<Rightarrow> Running f
                    | Ret (Completed _) \<Rightarrow> Returned_Block), w))
      | Returned_Block \<Rightarrow> (Panic ''`async fn` resumed after completion'', b, w)
      | Poisoned \<Rightarrow> (Panic ''`async fn` resumed after panicking'', b, w))"

definition poll_handler ::
  "('f, 'r, 'w) future_type \<Rightarrow> 'f handler_future \<Rightarrow> 'w \<Rightarrow> response polled outcome \<times> 'f handler_future \<times> 'w" where
  "poll_handler ft h w =
     (case h of
        Inline f \<Rightarrow> (case poll_response ft f w of (p, f, w) \<Rightarrow> (p, Inline f, w))
      | Boxed_Future b \<Rightarrow> (case poll_block ft b w of (p, b, w) \<Rightarrow> (p, Boxed_Future b, w)))"

section \<open>Prepared dispatch\<close>

text \<open>\<open>'b\<close> is the boxed future of a request whose body is collected first.\<close>

datatype ('f, 'b) prepared_dispatch =
    Dispatch_Ready "response option"
  | Dispatch_Handler bool "'f handler_future"
  | Dispatch_Buffered 'b

definition poll_dispatch ::
  "('f, 'r, 'w) future_type \<Rightarrow> ('b \<Rightarrow> 'w \<Rightarrow> response polled outcome \<times> 'b \<times> 'w)
     \<Rightarrow> ('f, 'b) prepared_dispatch \<Rightarrow> 'w \<Rightarrow> response polled outcome \<times> ('f, 'b) prepared_dispatch \<times> 'w" where
  "poll_dispatch ft poll_boxed d w =
     (case d of
        Dispatch_Ready response \<Rightarrow>
          (map_outcome Completed (expect response ''prepared response polled twice''), Dispatch_Ready None, w)
      | Dispatch_Handler is_head future \<Rightarrow>
          (case poll_handler ft future w of
             (p, future, w) \<Rightarrow>
               (completed_with (\<lambda>response. Ret (maybe_head_flag is_head response)) p,
                Dispatch_Handler is_head future, w))
      | Dispatch_Buffered b \<Rightarrow>
          (case poll_boxed b w of (p, b, w) \<Rightarrow> (p, Dispatch_Buffered b, w)))"

section \<open>Awaiting\<close>

text \<open>An executor polls once per element of the list, each time after others have changed the world
  as the element says, and stops when the future is done. \<open>None\<close>: it is not done yet.\<close>

fun await ::
  "('x \<Rightarrow> 'w \<Rightarrow> 'r polled outcome \<times> 'x \<times> 'w) \<Rightarrow> ('w \<Rightarrow> 'w) list \<Rightarrow> 'x \<Rightarrow> 'w \<Rightarrow> ('r outcome \<times> 'w) option" where
  "await poll_it [] x w = None"
| "await poll_it (d # ds) x w =
     (case poll_it x (d w) of
        (Panic e, x, w) \<Rightarrow> Some (Panic e, w)
      | (Ret Not_Done, x, w) \<Rightarrow> await poll_it ds x w
      | (Ret (Completed r), x, w) \<Rightarrow> Some (Ret r, w))"

text \<open>A future is a function of the world when polling it alone often enough gives the function's
  result: what the handlers of the other theories are.\<close>

definition runs_as :: "('x \<Rightarrow> 'w \<Rightarrow> 'r polled outcome \<times> 'x \<times> 'w) \<Rightarrow> 'x \<Rightarrow> ('w \<Rightarrow> 'r outcome \<times> 'w) \<Rightarrow> bool" where
  "runs_as poll_it x s \<longleftrightarrow> (\<forall>w. \<exists>n. await poll_it (replicate n id) x w = Some (s w))"

definition then_with :: "('r \<Rightarrow> 'q outcome) \<Rightarrow> 'r outcome \<times> 'w \<Rightarrow> 'q outcome \<times> 'w" where
  "then_with g r = (bind_outcome (fst r) g, snd r)"

text \<open>The last poll of a future, with what it comes to.\<close>

definition last_poll :: "'x \<Rightarrow> 'r outcome \<times> 'w \<Rightarrow> 'r polled outcome \<times> 'x \<times> 'w" where
  "last_poll x r = (map_outcome Completed (fst r), x, snd r)"

text \<open>A future that is polled by polling another: it waits while the other waits, and ends when the other
  ends, with what \<open>result\<close> makes of that end.\<close>

locale polls_through =
  fixes poll_outer :: "'x \<Rightarrow> 'w \<Rightarrow> 'q polled outcome \<times> 'x \<times> 'w"
    and poll_inner :: "'y \<Rightarrow> 'w \<Rightarrow> 'r polled outcome \<times> 'y \<times> 'w"
    and holds :: "'x \<Rightarrow> 'y \<Rightarrow> bool"
    and result :: "'r outcome \<times> 'w \<Rightarrow> 'q outcome \<times> 'w"
  assumes waits: "holds x y \<Longrightarrow> poll_inner y w = (Ret Not_Done, y', w') \<Longrightarrow>
      \<exists>x'. poll_outer x w = (Ret Not_Done, x', w') \<and> holds x' y'"
    and completes: "holds x y \<Longrightarrow> poll_inner y w = (Ret (Completed r), y', w') \<Longrightarrow>
      \<exists>x'. poll_outer x w = last_poll x' (result (Ret r, w'))"
    and panics: "holds x y \<Longrightarrow> poll_inner y w = (Panic e, y', w') \<Longrightarrow>
      \<exists>x'. poll_outer x w = last_poll x' (result (Panic e, w'))"
begin

lemma last_poll_ends:
  "(case last_poll x' r of
      (Panic e, x, w) \<Rightarrow> Some (Panic e, w)
    | (Ret Not_Done, x, w) \<Rightarrow> await poll_outer ds x w
    | (Ret (Completed r), x, w) \<Rightarrow> Some (Ret r, w)) = Some r"
  by (cases r; cases "fst r") (simp_all add: last_poll_def)

lemma await_through: "holds x y \<Longrightarrow> await poll_outer ds x w = map_option result (await poll_inner ds y w)"
proof (induction ds arbitrary: x y w)
  case (Cons d ds)
  obtain p y' w' where p: "poll_inner y (d w) = (p, y', w')"
    by (cases "poll_inner y (d w)") auto
  show ?case
  proof (cases p)
    case (Panic e)
    then show ?thesis using panics[OF Cons.prems, of "d w"] p by (auto simp: last_poll_ends)
  next
    case (Ret q)
    then show ?thesis
      using waits[OF Cons.prems, of "d w"] completes[OF Cons.prems, of "d w"] p Cons.IH
      by (cases q) (auto simp: last_poll_ends)
  qed
qed simp

end

lemma from_response_future_cases:
  "from_response_future ft f =
     Ret (if ft_size ft \<le> inline_future_size \<and> ft_align ft \<le> storage_align then Inline f else Boxed_Future (Running f))"
  by (simp add: from_response_future_def inline_future_new_def assert_that_def)

text \<open>The future in either place.\<close>

definition stored :: "'f handler_future \<Rightarrow> 'f \<Rightarrow> bool" where
  "stored h f \<longleftrightarrow> h = Inline f \<or> h = Boxed_Future (Running f)"

interpretation handler_future: polls_through "poll_handler ft" "ft_poll ft" stored "then_with (ft_response ft)"
  for ft :: "('f, 'r, 'w) future_type"
proof (unfold_locales, goal_cases)
  case (1 h f w f' w')
  then show ?case
    by (auto simp: stored_def poll_handler_def poll_response_def poll_block_def completed_with_def)
next
  case (2 h f w r f' w')
  then show ?case
    by (cases "ft_response ft r")
       (auto simp: stored_def poll_handler_def poll_response_def poll_block_def completed_with_def last_poll_def then_with_def)
next
  case (3 h f w e f' w')
  then show ?case
    by (auto simp: stored_def poll_handler_def poll_response_def poll_block_def completed_with_def last_poll_def then_with_def)
qed

interpretation prepared_handler: polls_through "poll_dispatch ft poll_boxed" "poll_handler ft"
    "\<lambda>d h. d = Dispatch_Handler is_head h" "then_with (\<lambda>r. Ret (maybe_head_flag is_head r))"
  for ft :: "('f, 'r, 'w) future_type" and poll_boxed and is_head
  by unfold_locales (auto simp: poll_dispatch_def completed_with_def last_poll_def then_with_def)

lemma then_with_head:
  "then_with (\<lambda>r. Ret (f r)) (then_with g x) = then_with (\<lambda>y. map_outcome f (g y)) x"
proof (cases "fst x")
  case (Ret y)
  then show ?thesis by (cases "g y") (simp_all add: then_with_def)
qed (simp add: then_with_def)

text \<open>C40: Where a handler's future is stored makes no difference, and the dispatch by polls is the
  dispatch of the other theories. Storing never panics, whatever the layout of the future; the
  response comes at the poll at which the future itself is done, with the world as it is then, however
  others change the world between the polls; it is the future's value made into a response, or its
  panic; and where the future computes a function of the world, polling the prepared dispatch computes
  that function's prepared service.\<close>

theorem storage_is_invisible:
  "\<exists>h. from_response_future ft f = Ret h \<and>
    (\<forall>is_head ds w. await (poll_dispatch ft poll_boxed) ds (Dispatch_Handler is_head h) w =
       map_option (then_with (\<lambda>r. map_outcome (maybe_head_flag is_head) (ft_response ft r)))
         (await (ft_poll ft) ds f w)) \<and>
    (\<forall>is_head s. runs_as (ft_poll ft) f s \<longrightarrow>
       runs_as (poll_dispatch ft poll_boxed) (Dispatch_Handler is_head h)
         (poll_prepared (Handler_Future is_head (\<lambda>w. then_with (ft_response ft) (s w)))))"
proof -
  obtain h where h: "from_response_future ft f = Ret h" "stored h f"
    unfolding from_response_future_cases stored_def by auto
  have eq: "await (poll_dispatch ft poll_boxed) ds (Dispatch_Handler is_head h) w =
       map_option (then_with (\<lambda>r. map_outcome (maybe_head_flag is_head) (ft_response ft r)))
         (await (ft_poll ft) ds f w)" for is_head ds w
    unfolding prepared_handler.await_through[OF refl] handler_future.await_through[OF h(2)] option.map_comp comp_def then_with_head
    by (rule refl)
  have "runs_as (poll_dispatch ft poll_boxed) (Dispatch_Handler is_head h)
         (poll_prepared (Handler_Future is_head (\<lambda>w. then_with (ft_response ft) (s w))))"
    if run: "runs_as (ft_poll ft) f s" for is_head s
    unfolding runs_as_def eq
  proof
    fix w
    obtain n where "await (ft_poll ft) (replicate n id) f w = Some (s w)"
      using run unfolding runs_as_def by blast
    then show "\<exists>n. map_option (then_with (\<lambda>r. map_outcome (maybe_head_flag is_head) (ft_response ft r)))
        (await (ft_poll ft) (replicate n id) f w) =
      Some (poll_prepared (Handler_Future is_head (\<lambda>w. then_with (ft_response ft) (s w))) w)"
      by (intro exI[of _ n]) (cases "bind_outcome (fst (s w)) (ft_response ft)";
        simp add: map_response_def then_with_head[symmetric], simp_all add: then_with_def)
  qed
  then show ?thesis
    using h(1) eq by blast
qed

text \<open>A future that waits once, in a box: its value comes at the second poll, with what others did
  to the world by then.\<close>

definition demo_future :: "(bool, string, nat) future_type" where
  "demo_future =
     \<lparr>ft_size = 200, ft_align = 8,
      ft_poll = (\<lambda>ready w. if ready then (Ret (Completed (dec w)), ready, w) else (Ret Not_Done, True, w + 1)),
      ft_response = (\<lambda>s. Ret (response_text 200 s))\<rparr>"

theorem storage_is_invisible_witness:
  "from_response_future demo_future False = Ret (Boxed_Future (Running False)) \<and>
   await (poll_dispatch demo_future (\<lambda>b w. (Ret Not_Done, b, w))) [id, (\<lambda>w. w + 5)]
     (Dispatch_Handler False (Boxed_Future (Running False))) 1 = Some (Ret (response_text 200 ''7''), 7) \<and>
   runs_as (poll_dispatch demo_future (\<lambda>b w. (Ret Not_Done, b, w))) (Dispatch_Handler False (Boxed_Future (Running False)))
     (poll_prepared (Handler_Future False (\<lambda>w. then_with (ft_response demo_future) (Ret (dec (w + 1)), w + 1))))"
proof -
  have h: "from_response_future demo_future False = Ret (Boxed_Future (Running False))"
    by (simp add: from_response_future_cases demo_future_def inline_future_size_def)
  have run: "runs_as (ft_poll demo_future) False (\<lambda>w. (Ret (dec (w + 1)), w + 1))"
    unfolding runs_as_def
  proof
    fix w show "\<exists>n. await (ft_poll demo_future) (replicate n id) False w = Some (Ret (dec (w + 1)), w + 1)"
      by (intro exI[of _ 2]) (simp add: demo_future_def numeral_2_eq_2)
  qed
  let ?d = "Dispatch_Handler False (Boxed_Future (Running False))"
  from storage_is_invisible[of demo_future False "\<lambda>b w. (Ret Not_Done, b, w)"] h
  have eq: "await (poll_dispatch demo_future (\<lambda>b w. (Ret Not_Done, b, w))) ds ?d w =
        map_option (then_with (\<lambda>r. map_outcome (maybe_head_flag False) (ft_response demo_future r)))
          (await (ft_poll demo_future) ds False w)"
    and ref: "runs_as (poll_dispatch demo_future (\<lambda>b w. (Ret Not_Done, b, w))) ?d
          (poll_prepared (Handler_Future False (\<lambda>w. then_with (ft_response demo_future) (Ret (dec (w + 1)), w + 1))))"
    for ds w
    using run by auto
  have seven: "dec 7 = ''7''"
    by code_simp
  have "await (poll_dispatch demo_future (\<lambda>b w. (Ret Not_Done, b, w))) [id, (\<lambda>w. w + 5)] ?d 1 =
      Some (Ret (response_text 200 ''7''), 7)"
    unfolding eq by (simp add: demo_future_def then_with_def maybe_head_flag_def seven)
  then show ?thesis
    using h ref by blast
qed

end
