(* ===== verification/Catch_Polls.thy ===== *)
theory Catch_Polls
  imports Inline_Future Layers
begin

text \<open>
  \<open>CatchPanic\<close> poll by poll (\<open>src/catch_panic.rs\<close>): \<open>Layers\<close> gives the layer as a function of what the
  rest of the chain comes to; the code builds the rest of the chain and polls it under \<open>catch_unwind\<close>,
  one poll at a time, and drops it under another one. Both come to the same, which is shown here. The
  rest of the chain is made by \<open>create\<close>, polled by \<open>poll_it\<close> and dropped by \<open>drop_it\<close>; each of them may
  panic, and a panic unwinds through the future and drops it.
\<close>

section \<open>\<open>Guarded\<close>\<close>

definition poll_guarded ::
  "('x \<Rightarrow> 'w \<Rightarrow> response polled outcome \<times> 'x \<times> 'w) \<Rightarrow> ('x \<Rightarrow> 'w \<Rightarrow> unit outcome \<times> 'w) \<Rightarrow> 'x option \<Rightarrow> 'w
     \<Rightarrow> (string + response) polled outcome \<times> 'x option \<times> 'w" where
  "poll_guarded poll_it drop_it g w =
     (case g of
        None \<Rightarrow> (Panic ''polled after completion'', None, w)
      | Some x \<Rightarrow>
          (case poll_it x w of
             (Ret (Completed response), x, w) \<Rightarrow> (Ret (Completed (Inr response)), Some x, w)
           | (Ret Not_Done, x, w) \<Rightarrow> (Ret Not_Done, Some x, w)
           | (Panic payload, x, w) \<Rightarrow> (Ret (Completed (Inl payload)), None, snd (drop_it x w))))"

section \<open>The layer\<close>

text \<open>Its \<open>async\<close> block before its first poll and while it awaits \<open>Guarded\<close>.\<close>

datatype 'x catching = Not_Started | Awaiting_Guarded "'x option"

text \<open>What the block does with the result: the end of \<open>handle\<close>.\<close>

definition caught ::
  "(json \<Rightarrow> string option) \<Rightarrow> (string \<Rightarrow> payload) \<Rightarrow> 'w panic_hook option \<Rightarrow> string + response \<Rightarrow> 'w
     \<Rightarrow> response outcome \<times> 'w" where
  "caught to_vec payload_of hook result w =
     (case result of
        Inr response \<Rightarrow> (Ret response, w)
      | Inl m \<Rightarrow>
          (case hook of
             None \<Rightarrow> (Ret (internal_error to_vec), w)
           | Some hook \<Rightarrow>
               (case hook (panic_message (payload_of m)) w of
                  (Ret _, w) \<Rightarrow> (Ret (internal_error to_vec), w)
                | (Panic m, w) \<Rightarrow> (Panic m, w))))"

definition poll_catching ::
  "(json \<Rightarrow> string option) \<Rightarrow> (string \<Rightarrow> payload) \<Rightarrow> 'w panic_hook option \<Rightarrow> ('w \<Rightarrow> 'x outcome \<times> 'w)
     \<Rightarrow> ('x \<Rightarrow> 'w \<Rightarrow> response polled outcome \<times> 'x \<times> 'w) \<Rightarrow> ('x \<Rightarrow> 'w \<Rightarrow> unit outcome \<times> 'w)
     \<Rightarrow> 'x catching \<Rightarrow> 'w \<Rightarrow> response polled outcome \<times> 'x catching \<times> 'w" where
  "poll_catching to_vec payload_of hook create poll_it drop_it c w =
     (let await_guarded = (\<lambda>g w.
            case poll_guarded poll_it drop_it g w of
              (Ret Not_Done, g, w) \<Rightarrow> (Ret Not_Done, Awaiting_Guarded g, w)
            | (Ret (Completed result), g, w) \<Rightarrow> last_poll (Awaiting_Guarded g) (caught to_vec payload_of hook result w)
            | (Panic m, g, w) \<Rightarrow> (Panic m, Awaiting_Guarded g, w))
      in case c of
           Not_Started \<Rightarrow>
             (case create w of
                (Ret x, w) \<Rightarrow> await_guarded (Some x) w
              | (Panic m, w) \<Rightarrow> last_poll Not_Started (caught to_vec payload_of hook (Inl m) w))
         | Awaiting_Guarded g \<Rightarrow> await_guarded g w)"

section \<open>Catching each poll is catching the whole\<close>

text \<open>The rest of the chain without the layer: its panics end the poll, with the future dropped.\<close>

definition poll_chain ::
  "('w \<Rightarrow> 'x outcome \<times> 'w) \<Rightarrow> ('x \<Rightarrow> 'w \<Rightarrow> response polled outcome \<times> 'x \<times> 'w) \<Rightarrow> ('x \<Rightarrow> 'w \<Rightarrow> unit outcome \<times> 'w)
     \<Rightarrow> 'x option \<Rightarrow> 'w \<Rightarrow> response polled outcome \<times> 'x option \<times> 'w" where
  "poll_chain create poll_it drop_it c w =
     (let go = (\<lambda>x w. case poll_it x w of
                  (Panic m, x, w) \<Rightarrow> (Panic m, None, snd (drop_it x w))
                | (Ret p, x, w) \<Rightarrow> (Ret p, Some x, w))
      in case c of
           Some x \<Rightarrow> go x w
         | None \<Rightarrow> (case create w of (Ret x, w) \<Rightarrow> go x w | (Panic m, w) \<Rightarrow> (Panic m, None, w)))"

lemma caught_is_handle:
  "caught to_vec payload_of hook (Inr r) w = catch_panic_handle to_vec payload_of hook request (\<lambda>_ _. (Ret r, w)) w0"
  "caught to_vec payload_of hook (Inl m) w = catch_panic_handle to_vec payload_of hook request (\<lambda>_ _. (Panic m, w)) w0"
  by (simp_all add: caught_def catch_panic_handle_def)

definition follows_chain :: "'x catching \<Rightarrow> 'x option \<Rightarrow> bool" where
  "follows_chain c y \<longleftrightarrow> (c = Not_Started \<and> y = None) \<or> (\<exists>x. c = Awaiting_Guarded (Some x) \<and> y = Some x)"

text \<open>The two side by side, poll by poll.\<close>

lemma polls_running:
  assumes "poll_it x w = (p, x1, w1)"
  shows "poll_chain create poll_it drop_it (Some x) w =
      (case p of
         Panic m \<Rightarrow> (Panic m, None, snd (drop_it x1 w1))
       | Ret q \<Rightarrow> (Ret q, Some x1, w1))"
    "poll_catching to_vec payload_of hook create poll_it drop_it (Awaiting_Guarded (Some x)) w =
      (case p of
         Panic m \<Rightarrow> last_poll (Awaiting_Guarded None) (caught to_vec payload_of hook (Inl m) (snd (drop_it x1 w1)))
       | Ret Not_Done \<Rightarrow> (Ret Not_Done, Awaiting_Guarded (Some x1), w1)
       | Ret (Completed r) \<Rightarrow> last_poll (Awaiting_Guarded (Some x1)) (caught to_vec payload_of hook (Inr r) w1))"
  using assms
  by (simp_all add: poll_chain_def poll_catching_def poll_guarded_def Let_def split: outcome.split polled.split)

lemma polls_starting:
  "create w = (Ret x, w1) \<Longrightarrow> poll_chain create poll_it drop_it None w = poll_chain create poll_it drop_it (Some x) w1"
  "create w = (Ret x, w1) \<Longrightarrow> poll_catching to_vec payload_of hook create poll_it drop_it Not_Started w =
      poll_catching to_vec payload_of hook create poll_it drop_it (Awaiting_Guarded (Some x)) w1"
  "create w = (Panic m, w1) \<Longrightarrow> poll_chain create poll_it drop_it None w = (Panic m, None, w1)"
  "create w = (Panic m, w1) \<Longrightarrow> poll_catching to_vec payload_of hook create poll_it drop_it Not_Started w =
      last_poll Not_Started (caught to_vec payload_of hook (Inl m) w1)"
  by (simp_all add: poll_chain_def poll_catching_def Let_def)

definition keeps_step :: "(string + response \<Rightarrow> 'w \<Rightarrow> response outcome \<times> 'w)
    \<Rightarrow> response polled outcome \<times> 'x option \<times> 'w \<Rightarrow> response polled outcome \<times> 'x catching \<times> 'w \<Rightarrow> bool" where
  "keeps_step f b a \<longleftrightarrow>
     (case b of
        (Ret Not_Done, y', w') \<Rightarrow> \<exists>c'. a = (Ret Not_Done, c', w') \<and> follows_chain c' y'
      | (Ret (Completed r), y', w') \<Rightarrow> \<exists>c'. a = last_poll c' (f (Inr r) w')
      | (Panic e, y', w') \<Rightarrow> \<exists>c'. a = last_poll c' (f (Inl e) w'))"

lemma running_step:
  "keeps_step (caught to_vec payload_of hook) (poll_chain create poll_it drop_it (Some x) w)
     (poll_catching to_vec payload_of hook create poll_it drop_it (Awaiting_Guarded (Some x)) w)"
proof -
  obtain p x1 w1 where p: "poll_it x w = (p, x1, w1)"
    by (cases "poll_it x w") auto
  show ?thesis
    unfolding keeps_step_def polls_running[where poll_it = poll_it, OF p]
    by (auto simp: follows_chain_def split: outcome.split polled.split)
qed

lemma starting_step:
  "keeps_step (caught to_vec payload_of hook) (poll_chain create poll_it drop_it None w)
     (poll_catching to_vec payload_of hook create poll_it drop_it Not_Started w)"
proof -
  obtain o1 w1 where c: "create w = (o1, w1)"
    by (cases "create w") auto
  show ?thesis
  proof (cases o1)
    case (Ret x)
    then have c: "create w = (Ret x, w1)" using c by simp
    show ?thesis
      unfolding polls_starting(1,2)[where create = create, OF c] by (rule running_step)
  next
    case (Panic m)
    then have c: "create w = (Panic m, w1)" using c by simp
    show ?thesis
      unfolding polls_starting(3,4)[where create = create, OF c] keeps_step_def by auto
  qed
qed

lemma catching_step:
  "follows_chain c y \<Longrightarrow> keeps_step (caught to_vec payload_of hook) (poll_chain create poll_it drop_it y w)
     (poll_catching to_vec payload_of hook create poll_it drop_it c w)"
  using running_step starting_step by (auto simp: follows_chain_def)

interpretation catching: polls_through "poll_catching to_vec payload_of hook create poll_it drop_it"
    "poll_chain create poll_it drop_it" follows_chain
    "\<lambda>r. catch_panic_handle to_vec payload_of hook request (\<lambda>_ _. r) w0"
  for to_vec payload_of hook create poll_it drop_it request w0
proof (unfold_locales, goal_cases)
  case (1 c y w y' w')
  then show ?case
    using catching_step[OF 1(1), of to_vec payload_of hook create poll_it drop_it w] by (simp add: keeps_step_def)
next
  case (2 c y w r y' w')
  then show ?case
    using catching_step[OF 2(1), of to_vec payload_of hook create poll_it drop_it w]
    by (simp add: keeps_step_def caught_is_handle[symmetric])
next
  case (3 c y w e y' w')
  then show ?case
    using catching_step[OF 3(1), of to_vec payload_of hook create poll_it drop_it w]
    by (simp add: keeps_step_def caught_is_handle[symmetric])
qed

text \<open>However the world changes between the polls: awaiting the layer gives what the layer as a function
  makes of awaiting the rest of the chain, and a panic never leaves it except from the hook.\<close>

theorem catching_is_layer:
  "await (poll_catching to_vec payload_of hook create poll_it drop_it) ds Not_Started w =
     map_option (\<lambda>r. catch_panic_handle to_vec payload_of hook request (\<lambda>_ _. r) w)
       (await (poll_chain create poll_it drop_it) ds None w)"
  by (rule catching.await_through) (simp add: follows_chain_def)

end
