(* ===== verification/Serving.thy ===== *)
theory Serving
  imports Server Dispatch
begin

text \<open>
  Model of how a connection is put together in \<open>src/runtime.rs\<close> and \<open>src/tls.rs\<close>: the builders of hyper's
  connections, the settings of a runtime that only serving reads, \<open>ConnectionRuntime\<close>, and what
  \<open>serve_runtime\<close> and \<open>serve_tls\<close> make of the settings for each connection they accept, up to the answer
  to a request on it. All cargo features are on.
\<close>

section \<open>Connection builders\<close>

text \<open>What is set on hyper's builders. Hyper's timeouts need a timer.\<close>

record h1_builder =
  hb_timer :: bool
  hb_header_read_timeout :: "nat option"

definition http1_builder :: "nat option \<Rightarrow> h1_builder" where
  "http1_builder timeout = \<lparr>hb_timer = (timeout \<noteq> None), hb_header_read_timeout = timeout\<rparr>"

record h2_builder =
  hx_timer :: bool
  hx_keep_alive_interval :: nat
  hx_keep_alive_timeout :: nat
  hx_max_streams :: "nat option"

definition h2_keep_alive_interval :: nat where
  "h2_keep_alive_interval = 30000"

definition h2_keep_alive_timeout :: nat where
  "h2_keep_alive_timeout = 20000"

text \<open>\<open>hx_max_streams = None\<close>: hyper's own limit.\<close>

definition http2_builder :: "nat option \<Rightarrow> h2_builder" where
  "http2_builder max_streams =
     \<lparr>hx_timer = True, hx_keep_alive_interval = h2_keep_alive_interval,
      hx_keep_alive_timeout = h2_keep_alive_timeout, hx_max_streams = max_streams\<rparr>"

section \<open>Settings of TLS and HTTP/2\<close>

definition set_handshake_timeout :: "nat \<Rightarrow> ('s, 'i, 'w) app_runtime \<Rightarrow> ('s, 'i, 'w) app_runtime" where
  "set_handshake_timeout t r = r\<lparr>rt_handshake_timeout := t\<rparr>"

definition set_http2_max_concurrent_streams ::
  "nat option \<Rightarrow> ('s, 'i, 'w) app_runtime \<Rightarrow> ('s, 'i, 'w) app_runtime outcome" where
  "set_http2_max_concurrent_streams limit r =
     bind_outcome (assert_that (limit \<noteq> Some 0) ''http2_max_concurrent_streams must be at least 1'')
       (\<lambda>_. Ret (r\<lparr>rt_h2_max_streams := limit\<rparr>))"

section \<open>One connection\<close>

text \<open>The peer of an accepted socket: Unix sockets have none.\<close>

datatype accepted_io = Tcp socket_addr | Unix_Socket

definition accepted_peer :: "accepted_io \<Rightarrow> socket_addr option" where
  "accepted_peer io = (case io of Tcp addr \<Rightarrow> Some addr | Unix_Socket \<Rightarrow> None)"

record ('s, 'i, 'w) connection_runtime =
  cr_inner :: "('s, 'i, 'w) runtime_inner"
  cr_peer :: "socket_addr option"
  cr_permit :: "nat option"

definition connection_runtime_new ::
  "('s, 'i, 'w) runtime_inner \<Rightarrow> socket_addr option \<Rightarrow> ('s, 'i, 'w) connection_runtime" where
  "connection_runtime_new inner peer = \<lparr>cr_inner = inner, cr_peer = peer, cr_permit = None\<rparr>"

definition with_permit ::
  "nat option \<Rightarrow> ('s, 'i, 'w) connection_runtime \<Rightarrow> ('s, 'i, 'w) connection_runtime" where
  "with_permit slot c = c\<lparr>cr_permit := slot\<rparr>"

text \<open>\<open>Drive_H2\<close> carries the idle and stall limits of \<open>drive_h2\<close>; HTTP/1.1 can be upgraded.\<close>

datatype driver = Drive_H1 h1_builder | Drive_H2 h2_builder "nat option" "nat option"

text \<open>\<open>sc_tracks\<close>: the service starts a guard per request; \<open>sc_seen\<close>: bytes read while the protocol was
  told, replayed to hyper.\<close>

record ('s, 'i, 'w) served_connection =
  sc_runtime :: "('s, 'i, 'w) connection_runtime"
  sc_nodelay :: bool
  sc_tracks :: bool
  sc_io :: tracked
  sc_seen :: string
  sc_driver :: driver

definition accepted_runtime ::
  "('s, 'i, 'w) app_runtime \<Rightarrow> accepted_io \<Rightarrow> nat option \<Rightarrow> ('s, 'i, 'w) connection_runtime" where
  "accepted_runtime rt io slot =
     with_permit slot (connection_runtime_new (rt_inner rt)
       (if rt_connect_info rt then accepted_peer io else None))"

definition sets_nodelay :: "('s, 'i, 'w) app_runtime \<Rightarrow> accepted_io \<Rightarrow> bool" where
  "sets_nodelay rt io \<longleftrightarrow> rt_tcp_nodelay rt \<and> (case io of Tcp _ \<Rightarrow> True | Unix_Socket \<Rightarrow> False)"

text \<open>A connection of \<open>serve_runtime\<close> after its first bytes (\<open>seen\<close>, none unless h2c is on).\<close>

definition serve_connection ::
  "('s, 'i, 'w) app_runtime \<Rightarrow> accepted_io \<Rightarrow> nat option \<Rightarrow> bool \<Rightarrow> string \<Rightarrow> ('s, 'i, 'w) served_connection" where
  "serve_connection rt io slot is_h2 seen =
     (if rt_h2c rt then
        \<lparr>sc_runtime = accepted_runtime rt io slot, sc_nodelay = sets_nodelay rt io, sc_tracks = True,
         sc_io = tracked_new is_h2 (rt_send_timeout rt), sc_seen = seen,
         sc_driver = (if is_h2
                      then Drive_H2 (http2_builder (rt_h2_max_streams rt)) (rt_header_read_timeout rt) (rt_send_timeout rt)
                      else Drive_H1 (http1_builder (rt_header_read_timeout rt)))\<rparr>
      else
        \<lparr>sc_runtime = accepted_runtime rt io slot, sc_nodelay = sets_nodelay rt io, sc_tracks = False,
         sc_io = tracked_new False (rt_send_timeout rt), sc_seen = [],
         sc_driver = Drive_H1 (http1_builder (rt_header_read_timeout rt))\<rparr>)"

text \<open>A connection of \<open>serve_tls\<close> after its handshake.\<close>

definition serve_tls_connection ::
  "('s, 'i, 'w) app_runtime \<Rightarrow> socket_addr \<Rightarrow> nat option \<Rightarrow> string option \<Rightarrow> ('s, 'i, 'w) served_connection" where
  "serve_tls_connection rt addr slot alpn =
     (let negotiated_h2 = (alpn = Some ''h2'') in
        \<lparr>sc_runtime = accepted_runtime rt (Tcp addr) slot, sc_nodelay = sets_nodelay rt (Tcp addr),
         sc_tracks = negotiated_h2, sc_io = tracked_new negotiated_h2 (rt_send_timeout rt), sc_seen = [],
         sc_driver = (if negotiated_h2
                      then Drive_H2 (http2_builder (rt_h2_max_streams rt)) (rt_header_read_timeout rt) (rt_send_timeout rt)
                      else Drive_H1 (http1_builder (rt_header_read_timeout rt)))\<rparr>)"

text \<open>The whole task, with what is known when it ends early: \<open>Closed\<close> as in \<open>h2c_plan\<close>.\<close>

definition serve_task ::
  "'e \<Rightarrow> ('s, 'i, 'w) app_runtime \<Rightarrow> accepted_io \<Rightarrow> nat option \<Rightarrow> nat option \<Rightarrow> (nat \<times> ('e + bool)) option \<Rightarrow> string
     \<Rightarrow> ('e option + ('s, 'i, 'w) served_connection) option" where
  "serve_task timed_out rt io slot stop detection seen =
     map_option (\<lambda>plan.
       case plan of
         Closed e \<Rightarrow> Inl e
       | Serve_H1 \<Rightarrow> Inr (serve_connection rt io slot False seen)
       | Serve_H2 \<Rightarrow> Inr (serve_connection rt io slot True seen))
     (serve_task_plan timed_out (rt_h2c rt) (rt_header_read_timeout rt) stop detection)"

text \<open>\<open>handshake\<close> gives the protocol of ALPN; the plan and the connection follow from it.\<close>

definition serve_tls_task ::
  "'e \<Rightarrow> ('s, 'i, 'w) app_runtime \<Rightarrow> socket_addr \<Rightarrow> nat option \<Rightarrow> nat option \<Rightarrow> (nat \<times> ('e + string option)) option
     \<Rightarrow> 'e option + ('s, 'i, 'w) served_connection" where
  "serve_tls_task timed_out rt addr slot stop handshake =
     (case tls_task_plan timed_out (rt_handshake_timeout rt) stop handshake of
        Closed e \<Rightarrow> Inl e
      | Serve_H1 \<Rightarrow> Inr (serve_tls_connection rt addr slot None)
      | Serve_H2 \<Rightarrow> Inr (serve_tls_connection rt addr slot (Some ''h2'')))"

text \<open>\<open>report_connection_error\<close>: whether the observer is called.\<close>

definition reported :: "('s, 'i, 'w) app_runtime \<Rightarrow> 'e option \<Rightarrow> 'e option" where
  "reported rt error = (if rt_has_error_observer rt then error else None)"

section \<open>Answering on a connection\<close>

text \<open>The service given to hyper: the response, made to hold the request in flight where the
  connection tracks its requests.\<close>

definition served_request ::
  "'i env \<Rightarrow> ('s, 'i, 'w) served_connection \<Rightarrow> 'i incoming_request \<Rightarrow> 'w service" where
  "served_request env c request =
     map_response (\<lambda>response. fst (finish_with (sc_tracks c) response))
       (conn_service env (cr_inner (sc_runtime c)) (cr_peer (sc_runtime c)) request)"

section \<open>The accept loop\<close>

text \<open>What each \<open>accept_next\<close> gave: the connections that got a task, and how serving ends. At shutdown the
  signal is sent and the tasks are drained; an error of the listener is returned at once, and the set of
  tasks is dropped with what still runs in it.\<close>

datatype serve_end = Drained | Listener_Failed error_kind "int option"

fun serve_loop :: "'p accept_outcome list \<Rightarrow> 'p list \<times> serve_end option" where
  "serve_loop [] = ([], None)"
| "serve_loop (Connection p # rest) = (case serve_loop rest of (ps, e) \<Rightarrow> (p # ps, e))"
| "serve_loop (Stopped # rest) = ([], Some Drained)"
| "serve_loop (Broken_Listener kind os # rest) = ([], Some (Listener_Failed kind os))"

text \<open>\<open>listen\<close>: \<open>bound\<close> is what binding the address gave, \<open>serve\<close> is \<open>serve_listener\<close> given the shutdown, which
  never comes here.\<close>

definition listen :: "'e + 'l \<Rightarrow> ('l \<Rightarrow> nat option \<Rightarrow> 'e + unit) \<Rightarrow> 'e + unit" where
  "listen bound serve = bind_result bound (\<lambda>listener. serve listener None)"

section \<open>Errors of the TLS configuration\<close>

text \<open>What \<open>tls_from_pem\<close> answers as a pair of context and detail is a \<open>TlsError\<close>, with the cause it
  keeps when there is one.\<close>

record 'e tls_error =
  te_message :: string
  te_source :: "'e option"

definition tls_error_new :: "string \<Rightarrow> string \<Rightarrow> 'e tls_error" where
  "tls_error_new ctx detail = \<lparr>te_message = ctx @ '': '' @ detail, te_source = None\<rparr>"

definition tls_error_with_source :: "('e \<Rightarrow> string) \<Rightarrow> string \<Rightarrow> 'e \<Rightarrow> 'e tls_error" where
  "tls_error_with_source to_text ctx source = \<lparr>te_message = ctx @ '': '' @ to_text source, te_source = Some source\<rparr>"

section \<open>Properties of a connection\<close>

text \<open>An HTTP/2 connection is watched in full: its requests are counted, its socket is scanned, and idle
  and stall limits are those set. A timeout that is set has the timer it needs, and no connection shows
  a peer that was not asked for.\<close>

definition soundly_served :: "('s, 'i, 'w) app_runtime \<Rightarrow> ('s, 'i, 'w) served_connection \<Rightarrow> bool" where
  "soundly_served rt c \<longleftrightarrow>
     (case sc_driver c of
        Drive_H2 b idle stall \<Rightarrow>
          sc_tracks c \<and> tk_watched (sc_io c) \<and> hx_timer b \<and> hx_max_streams b = rt_h2_max_streams rt \<and>
          idle = rt_header_read_timeout rt \<and> stall = rt_send_timeout rt
      | Drive_H1 b \<Rightarrow>
          \<not> tk_watched (sc_io c) \<and> hb_header_read_timeout b = rt_header_read_timeout rt \<and>
          (hb_header_read_timeout b \<noteq> None \<longrightarrow> hb_timer b)) \<and>
     tk_send_timeout (sc_io c) = rt_send_timeout rt \<and> tk_stall (sc_io c) = None \<and>
     cr_inner (sc_runtime c) = rt_inner rt \<and> (cr_peer (sc_runtime c) \<noteq> None \<longrightarrow> rt_connect_info rt)"

lemmas serving_defs = soundly_served_def accepted_runtime_def with_permit_def connection_runtime_new_def
  http1_builder_def http2_builder_def tracked_new_def

lemma serve_connection_sound [simp]: "soundly_served rt (serve_connection rt io slot is_h2 seen)"
  by (simp add: serving_defs serve_connection_def)

lemma serve_tls_connection_sound [simp]: "soundly_served rt (serve_tls_connection rt addr slot alpn)"
  by (simp add: serving_defs serve_tls_connection_def Let_def)

lemma serve_task_sound:
  "serve_task timed_out rt io slot stop detection seen = Some (Inr c) \<Longrightarrow> soundly_served rt c"
  unfolding serve_task_def by (elim map_option_eq_Some[THEN iffD1, elim_format] exE conjE) (auto split: task_plan.splits)

lemma serve_tls_task_sound:
  "serve_tls_task timed_out rt addr slot stop handshake = Inr c \<Longrightarrow> soundly_served rt c"
  by (auto simp: serve_tls_task_def split: task_plan.splits)

text \<open>With h2c on, HTTP/1.1 connections count their requests too, although nothing watches them.\<close>

lemma h1_tracked_under_h2c:
  "rt_h2c rt \<Longrightarrow> sc_tracks (serve_connection rt io slot False seen) \<and>
     \<not> tk_watched (sc_io (serve_connection rt io slot False seen))"
  by (simp add: serve_connection_def tracked_new_def)

text \<open>What a client sees of two responses that differ only in how they are handed over.\<close>

definition same_answer :: "response \<Rightarrow> response \<Rightarrow> bool" where
  "same_answer r r' \<longleftrightarrow>
     resp_status r' = resp_status r \<and> resp_error r' = resp_error r \<and>
     body_bytes (resp_body r') = body_bytes (resp_body r) \<and>
     (\<forall>k. k \<noteq> ''content-length'' \<longrightarrow> hm_get (resp_headers r') k = hm_get (resp_headers r) k) \<and>
     (well_framed r \<longleftrightarrow> well_framed r')"

lemma same_answer_equiv:
  "same_answer r r" "same_answer r r' \<Longrightarrow> same_answer r' r" "same_answer r r' \<Longrightarrow> same_answer r' r'' \<Longrightarrow> same_answer r r''"
  by (auto simp: same_answer_def)

lemma finish_with_same_answer: "same_answer r (fst (finish_with guarded r))"
  by (auto simp: same_answer_def finish_with_def chunked_concat hm_contains_get well_framed_def states_length_def
      header_text_def split: response_body.splits option.splits if_splits)

definition agree_outcomes :: "response outcome \<times> 'w \<Rightarrow> response outcome \<times> 'w \<Rightarrow> bool" where
  "agree_outcomes a b \<longleftrightarrow>
     snd a = snd b \<and>
     (case (fst a, fst b) of (Ret r, Ret r') \<Rightarrow> same_answer r r' | (Panic e, Panic e') \<Rightarrow> e = e' | _ \<Rightarrow> False)"

lemma served_request_eq:
  "soundly_served rt c \<Longrightarrow> served_request env c request =
     map_response (\<lambda>r. fst (finish_with (sc_tracks c) r)) (conn_service env (rt_inner rt) (cr_peer (sc_runtime c)) request)"
  by (simp add: served_request_def soundly_served_def)

definition is_served :: "('s, 'i, 'w) app_runtime \<Rightarrow> ('s, 'i, 'w) served_connection \<Rightarrow> bool" where
  "is_served rt c \<longleftrightarrow>
     (\<exists>timed_out :: string. \<exists>io slot stop detection seen. serve_task timed_out rt io slot stop detection seen = Some (Inr c)) \<or>
     (\<exists>timed_out :: string. \<exists>addr slot stop handshake. serve_tls_task timed_out rt addr slot stop handshake = Inr c)"

lemma is_served_sound: "is_served rt c \<Longrightarrow> soundly_served rt c"
  unfolding is_served_def by (elim disjE exE; (rule serve_task_sound serve_tls_task_sound, assumption))

text \<open>C39: A client gets the same answer whichever way it connects: over TCP or a Unix socket, in the
  clear or over TLS, with HTTP/1.1 or HTTP/2, and whatever the settings of the server. Two connections
  served by one runtime that show their handlers the same peer answer every request with the same
  status, error information, headers other than \<open>content-length\<close> and bytes of the body, with a stated
  length that is right on one if it is right on the other, and with the same effects; or both panic. An
  HTTP/2 connection is always watched, with the idle and stall limits that were set, and a peer is shown
  only where \<open>connect_info\<close> asks for it.\<close>

theorem transports_agree:
  assumes "is_served rt c" "is_served rt c'" "cr_peer (sc_runtime c) = cr_peer (sc_runtime c')"
  shows "agree_outcomes (served_request env c request w) (served_request env c' request w) \<and> soundly_served rt c"
proof -
  let ?s = "conn_service env (rt_inner rt) (cr_peer (sc_runtime c')) request"
  have agree: "same_answer (fst (finish_with g r)) (fst (finish_with g' r))" for g g' r
    using finish_with_same_answer same_answer_equiv(2,3) by blast
  obtain o1 w1 where "?s w = (o1, w1)"
    by (cases "?s w")
  then have "agree_outcomes (served_request env c request w) (served_request env c' request w)"
    using is_served_sound[OF assms(1)] is_served_sound[OF assms(2)] assms(3) agree
    by (cases o1) (simp_all add: served_request_eq agree_outcomes_def map_response_def)
  then show ?thesis
    using is_served_sound[OF assms(1)] by blast
qed

text \<open>A runtime without routes and h2c on: an HTTP/1.1 client in the clear and an HTTP/2 client over TLS.\<close>

definition demo_served :: "(unit, unit, unit) app_runtime" where
  "demo_served =
     \<lparr>rt_inner = \<lparr>ri_body_read_timeout = None, ri_state = (), ri_plans = [], ri_capture_names = [], ri_static = Map.empty,
        ri_dynamic = empty_trie, ri_middleware = []\<rparr>, rt_shutdown_timeout = 30000, rt_tcp_nodelay = True,
      rt_header_read_timeout = Some 30000, rt_send_timeout = Some 60000, rt_max_connections = None, rt_connect_info = False,
      rt_has_error_observer = False, rt_h2_max_streams = None, rt_h2c = True, rt_handshake_timeout = 10000\<rparr>"

theorem transports_agree_witness:
  "let c = serve_connection demo_served (Tcp \<lparr>sa_ip = V4 1, sa_port = 80\<rparr>) None False ''GET'';
       c' = serve_tls_connection demo_served \<lparr>sa_ip = V4 2, sa_port = 443\<rparr> None (Some ''h2'')
   in (\<forall>env request w. agree_outcomes (served_request env c request w) (served_request env c' request w)) \<and>
      sc_driver c' = Drive_H2 (http2_builder None) (Some 30000) (Some 60000) \<and> sc_driver c = Drive_H1 (http1_builder (Some 30000))"
proof -
  let ?c = "serve_connection demo_served (Tcp \<lparr>sa_ip = V4 1, sa_port = 80\<rparr>) None False ''GET''"
  let ?c' = "serve_tls_connection demo_served \<lparr>sa_ip = V4 2, sa_port = 443\<rparr> None (Some ''h2'')"
  have "serve_task ''late'' demo_served (Tcp \<lparr>sa_ip = V4 1, sa_port = 80\<rparr>) None None (Some (5, Inr False)) ''GET'' = Some (Inr ?c)"
    by (simp add: serve_task_def serve_task_plan_def h2c_plan_def first_bytes_def demo_served_def)
  then have c: "is_served demo_served ?c"
    unfolding is_served_def by blast
  have "serve_tls_task ''late'' demo_served \<lparr>sa_ip = V4 2, sa_port = 443\<rparr> None None (Some (5, Inr (Some ''h2''))) = Inr ?c'"
    by (simp add: serve_tls_task_def tls_task_plan_def demo_served_def)
  then have c': "is_served demo_served ?c'"
    unfolding is_served_def by blast
  have peers: "cr_peer (sc_runtime ?c) = cr_peer (sc_runtime ?c')"
    by (simp add: serve_connection_def serve_tls_connection_def serving_defs demo_served_def Let_def)
  show ?thesis
    using transports_agree[OF c c' peers]
    by (simp add: Let_def serve_connection_def serve_tls_connection_def demo_served_def)
qed

end
