(* ===== verification/Document_Cache.thy ===== *)
theory Document_Cache
  imports Dispatch_Laws
begin

text \<open>
  \<open>App::oneshot\<close> (\<open>src/app.rs\<close>, for tests) and the generated document: \<open>oneshot\<close> writes the OpenAPI
  document and the Swagger page into caches of the application, which may be changed afterwards, tried
  again and built at last. Every method that changes what the document says has to drop the cached
  copy. Parameters are those of \<open>App_Build\<close>.
\<close>

section \<open>One request in memory\<close>

definition prepare_documents ::
  "(nat \<Rightarrow> string option) \<Rightarrow> (json \<Rightarrow> string) \<Rightarrow> (string \<Rightarrow> string) \<Rightarrow> ('s, 'i, 'w) app \<Rightarrow> ('s, 'i, 'w) app" where
  "prepare_documents reason to_text quote a = prepare_swagger quote (prepare_openapi reason to_text a)"

text \<open>What the document paths answer, to any method; \<open>None\<close>: the request goes to the router.\<close>

definition document_answer :: "('s, 'i, 'w) app \<Rightarrow> string \<Rightarrow> response option" where
  "document_answer a path =
     (if (case app_openapi a of None \<Rightarrow> False | Some c \<Rightarrow> oc_path c = path)
      then map_option (response_json_bytes 200) (app_openapi_bytes a)
      else if app_swagger a = Some path then map_option (response_text 200) (app_swagger_bytes a)
      else None)"

definition app_oneshot ::
  "'i env \<Rightarrow> (nat \<Rightarrow> string option) \<Rightarrow> (json \<Rightarrow> string) \<Rightarrow> (string \<Rightarrow> string) \<Rightarrow> ('s, 'i, 'w) app
     \<Rightarrow> bytes_request \<Rightarrow> 'w service \<times> ('s, 'i, 'w) app" where
  "app_oneshot env reason to_text quote a request =
     (let a = prepare_documents reason to_text quote a
      in ((case document_answer a (normalize_request_path (rq_path request)) of
             Some response \<Rightarrow> respond response
           | None \<Rightarrow> app_handle env a request), a))"

text \<open>No layer sees a request of \<open>App::oneshot\<close>.\<close>

lemma layers_fields:
  fixes ri :: "('s, 'i, 'w) runtime_inner"
  shows "ri_state (ri\<lparr>ri_middleware := ls\<rparr>) = ri_state ri" "ri_plans (ri\<lparr>ri_middleware := ls\<rparr>) = ri_plans ri"
    "ri_capture_names (ri\<lparr>ri_middleware := ls\<rparr>) = ri_capture_names ri"
    "ri_static (ri\<lparr>ri_middleware := ls\<rparr>) = ri_static ri" "ri_dynamic (ri\<lparr>ri_middleware := ls\<rparr>) = ri_dynamic ri"
  by simp_all

lemma app_oneshot_without_layers:
  fixes a :: "('s, 'i, 'w) app"
  shows "fst (app_oneshot env reason to_text quote (a\<lparr>app_middleware := layers\<rparr>) request) =
     fst (app_oneshot env reason to_text quote a request)"
proof -
  let ?p = "prepare_documents reason to_text quote"
  have doc: "openapi_document reason (a\<lparr>app_middleware := layers\<rparr>) = openapi_document reason a"
    by (simp add: openapi_document_def documents_errors_def is_default_secured_def route_modes_def)
  have p: "?p (a\<lparr>app_middleware := layers\<rparr>) = (?p a)\<lparr>app_middleware := layers\<rparr>"
    by (simp add: prepare_documents_def prepare_openapi_def prepare_swagger_def doc)
  have "inner_of_app (b\<lparr>app_middleware := layers\<rparr>) = (inner_of_app b)\<lparr>ri_middleware := layers\<rparr>" for b :: "('s, 'i, 'w) app"
    by (simp add: inner_of_app_def)
  then have "ri_handle env (inner_of_app (b\<lparr>app_middleware := layers\<rparr>)) request = ri_handle env (inner_of_app b) request"
    for b :: "('s, 'i, 'w) app"
    by (simp only: ri_handle_def handle_matched_def layers_fields)
  then have handled: "app_handle env (b\<lparr>app_middleware := layers\<rparr>) request = app_handle env b request"
    for b :: "('s, 'i, 'w) app"
    by (simp add: app_handle_inner)
  have answered: "document_answer (b\<lparr>app_middleware := layers\<rparr>) path = document_answer b path"
    for b :: "('s, 'i, 'w) app" and path
    by (simp add: document_answer_def)
  show ?thesis
    unfolding app_oneshot_def Let_def fst_conv p answered handled by (rule refl)
qed

section \<open>Applications that were tried\<close>

text \<open>An application as it is used: the methods of the builder, with \<open>oneshot\<close> at any time.\<close>

inductive used_app ::
  "(nat \<Rightarrow> string option) \<Rightarrow> (json \<Rightarrow> string) \<Rightarrow> (string \<Rightarrow> string) \<Rightarrow> ('s, 'i, 'w) app \<Rightarrow> bool"
  for reason to_text quote where
  used_new: "app_new = Ret a0 \<Longrightarrow> app_with_state s a0 = Ret a \<Longrightarrow> used_app reason to_text quote a"
| used_step: "used_app reason to_text quote a \<Longrightarrow> app_step a a' \<Longrightarrow> used_app reason to_text quote a'"
| used_oneshot: "used_app reason to_text quote a \<Longrightarrow>
    used_app reason to_text quote (snd (app_oneshot env reason to_text quote a request))"

text \<open>What the document is made of.\<close>

definition document_inputs where
  "document_inputs a = (app_metadata a, map rp_body_mode (app_plans a), app_openapi a, app_schemas a)"

lemma openapi_document_inputs:
  "document_inputs a = document_inputs a' \<Longrightarrow> openapi_document reason a = openapi_document reason a'"
  by (simp add: document_inputs_def openapi_document_def documents_errors_def is_default_secured_def route_modes_def)

definition fresh_caches ::
  "(nat \<Rightarrow> string option) \<Rightarrow> (json \<Rightarrow> string) \<Rightarrow> (string \<Rightarrow> string) \<Rightarrow> ('s, 'i, 'w) app \<Rightarrow> bool" where
  "fresh_caches reason to_text quote a \<longleftrightarrow>
     (\<forall>b. app_openapi_bytes a = Some b \<longrightarrow> app_openapi a \<noteq> None \<and> b = to_text (openapi_document reason a)) \<and>
     (\<forall>b. app_swagger_bytes a = Some b \<longrightarrow>
        app_swagger a \<noteq> None \<and> b = swagger_html quote (map_option oc_path (app_openapi a)))"

text \<open>A method keeps the caches right if it drops the document or leaves its inputs alone, and drops
  the page or leaves the two paths alone.\<close>

lemma fresh_caches_kept:
  assumes "fresh_caches reason to_text quote a"
    and "app_openapi_bytes a' = None \<or> app_openapi_bytes a' = app_openapi_bytes a \<and> document_inputs a' = document_inputs a"
    and "app_swagger_bytes a' = None \<or>
      app_swagger_bytes a' = app_swagger_bytes a \<and> app_swagger a' = app_swagger a \<and> app_openapi a' = app_openapi a"
  shows "fresh_caches reason to_text quote a'"
proof -
  have "app_openapi a' = app_openapi a" if "document_inputs a' = document_inputs a"
    using that by (simp add: document_inputs_def)
  then show ?thesis
    using assms openapi_document_inputs[of a' a reason] unfolding fresh_caches_def by (metis option.distinct(1))
qed

lemma fresh_caches_prepared:
  assumes "fresh_caches reason to_text quote a"
  shows "fresh_caches reason to_text quote (prepare_documents reason to_text quote a)"
proof -
  have doc: "openapi_document reason (prepare_documents reason to_text quote a) = openapi_document reason a"
    by (rule openapi_document_inputs)
       (simp add: document_inputs_def prepare_documents_def prepare_swagger_def prepare_openapi_def)
  show ?thesis
    using assms unfolding fresh_caches_def doc
    by (auto simp: prepare_documents_def prepare_swagger_def prepare_openapi_def split: if_splits)
qed

text \<open>The registrations that give up on too many captures change neither; the others drop the document.\<close>

lemma insert_route_rest:
  "insert_route template segs m i a = Ret a' \<Longrightarrow>
     app_openapi_bytes a' = app_openapi_bytes a \<and> app_swagger_bytes a' = app_swagger_bytes a \<and>
     app_swagger a' = app_swagger a \<and> app_openapi a' = app_openapi a"
  by (auto simp: insert_route_def insert_static_def outcome_simps split: if_splits)

lemmas kept_defs = document_inputs_def finish_route_def push_route_def invalidate_openapi_cache_def

lemma add_route_fresh:
  assumes "fresh_caches reason to_text quote a" "add_route m path h a = Ret a'"
  shows "fresh_caches reason to_text quote a'"
  using assms(2)
  by (intro fresh_caches_kept[OF assms(1)])
     (auto simp: add_route_def Let_def outcome_simps record_capture_limit_error_def kept_defs
       case_prod_beta dest!: insert_route_rest split: if_splits)

lemma add_raw_route_fresh:
  assumes "fresh_caches reason to_text quote a" "add_raw_route m path h a = Ret a'"
  shows "fresh_caches reason to_text quote a'"
  using assms(2)
  by (intro fresh_caches_kept[OF assms(1)])
     (auto simp: add_raw_route_def Let_def outcome_simps record_capture_limit_error_def kept_defs
       case_prod_beta dest!: insert_route_rest split: if_splits)

lemma add_static_route_fresh:
  assumes "fresh_caches reason to_text quote a" "add_static_route path response a = Ret a'"
  shows "fresh_caches reason to_text quote a'"
  using assms(2)
  by (intro fresh_caches_kept[OF assms(1)])
     (auto simp: add_static_route_def insert_static_def Let_def outcome_simps kept_defs)

lemma app_step_fresh:
  "app_step a a' \<Longrightarrow> fresh_caches reason to_text quote a \<Longrightarrow> fresh_caches reason to_text quote a'"
proof (induction rule: app_step.induct)
  case (step_max_body n a a')
  then show ?case
    by (elim fresh_caches_kept) (auto simp: app_max_body_size_def outcome_simps document_inputs_def)
next
  case (step_body_limit n a a')
  then show ?case
    by (elim fresh_caches_kept)
       (auto simp: app_body_limit_def outcome_simps document_inputs_def get_at_def map_update list_update_same_conv
         split: option.splits if_splits)
next
  case (step_operation f a a')
  then show ?case
    by (elim fresh_caches_kept) (auto simp: update_last_def outcome_simps kept_defs split: option.splits)
next
  case (step_config g a a')
  then show ?case
    by (elim fresh_caches_kept) (auto simp: update_config_def outcome_simps kept_defs)
next
  case (step_layer a l)
  then show ?case by (elim fresh_caches_kept) (auto simp: app_layer_def document_inputs_def)
next
  case (step_route_layer l a a')
  then show ?case
    by (elim fresh_caches_kept) (auto simp: app_route_layer_def outcome_simps document_inputs_def split: option.splits)
next
  case (step_layer_for pfx l a a')
  then show ?case
    by (elim fresh_caches_kept) (auto simp: app_layer_for_def outcome_simps document_inputs_def)
next
  case (step_openapi a)
  then show ?case by (elim fresh_caches_kept) (auto simp: app_openapi_options_def kept_defs)
next
  case (step_swagger a)
  then show ?case by (elim fresh_caches_kept) (auto simp: app_swagger_options_def document_inputs_def)
next
  case (step_swagger_path p a)
  then show ?case by (elim fresh_caches_kept) (auto simp: swagger_path_def document_inputs_def)
qed (auto intro: add_route_fresh add_raw_route_fresh add_static_route_fresh)

lemma used_fresh: "used_app reason to_text quote a \<Longrightarrow> fresh_caches reason to_text quote a"
proof (induction rule: used_app.induct)
  case (used_new a0 s a)
  then show ?case
    by (auto simp: app_new_def app_with_state_def outcome_simps fresh_caches_def)
next
  case (used_step a a')
  then show ?case using app_step_fresh by blast
next
  case (used_oneshot a env request)
  then show ?case by (simp add: app_oneshot_def Let_def fresh_caches_prepared)
qed

lemma used_wf: "used_app reason to_text quote a \<Longrightarrow> wf_app a"
proof (induction rule: used_app.induct)
  case (used_new a0 s a)
  then show ?case by (intro reachable_wf fresh)
next
  case (used_step a a')
  then show ?case using app_step_wf by blast
next
  case (used_oneshot a env request)
  then show ?case by (simp add: app_oneshot_def Let_def prepare_documents_def)
qed

section \<open>The generated routes\<close>

text \<open>A literal route with a static response answers its path.\<close>

lemma static_plan_served:
  fixes request :: bytes_request
  assumes wf: "wf_app a" and i: "i < length (app_plans a)"
    and md: "md_static (app_metadata a ! i)" "rm_method (app_metadata a ! i) = GET" "rm_template (app_metadata a ! i) = p"
    and plan: "rp_handler (app_plans a ! i) = Static_Kind response" "rp_body_mode (app_plans a ! i) = Body_None"
    and rq: "rq_method request = GET" "normalize_request_path (rq_path request) = p" "length (rq_path request) \<le> u32_max"
  shows "ri_handle env (inner_of_app a) request = respond (static_to_response response)"
    "utf8_valid (rq_path request) \<Longrightarrow>
       prepare_direct env (inner_of_app a) (with_body request body) = Ret (Ready (static_to_response response))"
proof -
  have len: "i < length (app_metadata a)"
    using i wf_app_lengths[OF wf] by simp
  have id: "route_id_index (word_of_nat i) = i"
    using i wf by (intro route_id_index_of_nat) (simp add: wf_app_def)
  have "serves (app_metadata a ! i) (normalize_request_path (rq_path request))"
    using md rq by (simp add: serves_def)
  then obtain caps where r: "route_request (inner_of_app a) GET (rq_path request) = Ret (Routed (word_of_nat i) caps)"
    using route_request_complete[OF wf rq(3) len] md(1,2) by (auto simp: outranks_def)
  have at: "index (app_plans a) i = Ret (app_plans a ! i)"
    using i by (simp add: index_def)
  show "ri_handle env (inner_of_app a) request = respond (static_to_response response)"
    unfolding ri_handle_route rq(1) r handle_matched_def
    by (simp add: run_or_panic_def id at plan maybe_head_flag_def)
  show "prepare_direct env (inner_of_app a) (with_body request body) = Ret (Ready (static_to_response response))"
    if "utf8_valid (rq_path request)"
    using that r rq(1) by (simp add: prepare_direct_route prepare_matched_def id at plan maybe_head_flag_def)
qed

text \<open>Where a generated route ends up.\<close>

lemma add_generated_route:
  assumes "add_generated_static_route path response a = Ret (Inr a')" "length (app_metadata a) = length (app_plans a)"
  shows "\<exists>plan md. app_plans a' = app_plans a @ [plan] \<and> app_metadata a' = app_metadata a @ [md] \<and>
    rp_handler plan = Static_Kind response \<and> rp_body_mode plan = Body_None \<and>
    md_static md \<and> rm_method md = GET \<and> rm_template md = path \<and> app_openapi a' = app_openapi a \<and>
    app_swagger a' = app_swagger a \<and> app_swagger_bytes a' = app_swagger_bytes a"
  using assms
  by (auto simp: add_generated_static_route_def insert_static_def Let_def outcome_simps push_route_def md_static_def
      split: if_splits)

lemma build_document_route:
  assumes build: "app_build reason to_text quote a = Ret (Inr rt)" and wf: "wf_app a"
    and small: "length (app_plans a) + 2 \<le> u32_max"
    and fresh: "fresh_caches reason to_text quote a" and c: "app_openapi a = Some c"
  obtains a' i where "rt_inner rt = inner_of_app a'" "wf_app a'" "i < length (app_plans a')"
    "md_static (app_metadata a' ! i)" "rm_method (app_metadata a' ! i) = GET" "rm_template (app_metadata a' ! i) = oc_path c"
    "rp_handler (app_plans a' ! i) = Static_Kind (static_json (to_text (openapi_document reason a)))"
    "rp_body_mode (app_plans a' ! i) = Body_None"
proof -
  let ?p = "prepare_swagger quote (prepare_openapi reason to_text a)"
  obtain a' where a': "install_generated_routes ?p = Ret (Inr a')" "rt_inner rt = inner_of_app a'"
    using build by (auto simp: app_build_def outcome_simps split: option.splits sum.splits)
      (auto simp: map_sum_def split: sum.splits)
  have wf': "wf_app a'"
    by (rule install_generated_wf[OF _ _ a'(1)]) (use wf small in simp_all)
  have "app_openapi_bytes ?p = Some (to_text (openapi_document reason a))" "app_openapi ?p = Some c"
    using fresh c by (auto simp: prepare_swagger_def prepare_openapi_def fresh_caches_def)
  then obtain x where x: "add_generated_static_route (oc_path c) (static_json (to_text (openapi_document reason a))) ?p = Ret x"
      "(case x of Inl e \<Rightarrow> Ret (Inl e) | Inr a1 \<Rightarrow>
         (case (app_swagger a1, app_swagger_bytes a1) of
            (Some path, Some body) \<Rightarrow> add_generated_static_route path (static_text body) a1
          | _ \<Rightarrow> Ret (Inr a1))) = Ret (Inr a')"
    using a'(1) by (auto simp: install_generated_routes_def outcome_simps)
  then obtain a1 where a1: "add_generated_static_route (oc_path c) (static_json (to_text (openapi_document reason a))) ?p
        = Ret (Inr a1)"
      "(case (app_swagger a1, app_swagger_bytes a1) of
          (Some path, Some body) \<Rightarrow> add_generated_static_route path (static_text body) a1
        | _ \<Rightarrow> Ret (Inr a1)) = Ret (Inr a')"
    by (cases x) auto
  have lens: "length (app_metadata ?p) = length (app_plans ?p)"
    by (rule wf_app_lengths) (simp add: wf)
  obtain plan md where 1: "app_plans a1 = app_plans ?p @ [plan]" "app_metadata a1 = app_metadata ?p @ [md]"
      "rp_handler plan = Static_Kind (static_json (to_text (openapi_document reason a)))" "rp_body_mode plan = Body_None"
      "md_static md" "rm_method md = GET" "rm_template md = oc_path c"
    using add_generated_route[OF a1(1) lens] by blast
  have "\<exists>ps mds. app_plans a' = app_plans a1 @ ps \<and> app_metadata a' = app_metadata a1 @ mds"
  proof (cases "\<exists>path body. app_swagger a1 = Some path \<and> app_swagger_bytes a1 = Some body")
    case True
    then show ?thesis
      using a1(2) add_generated_route[of _ _ a1 a'] 1(1,2) lens by fastforce
  next
    case False
    then show ?thesis using a1(2) by (auto split: option.splits)
  qed
  then obtain ps mds where "app_plans a' = app_plans ?p @ plan # ps" "app_metadata a' = app_metadata ?p @ md # mds"
    using 1(1,2) by auto
  then show thesis
    using 1 lens a'(2) wf' by (intro that[of a' "length (app_plans ?p)"]) (simp_all add: nth_append)
qed


lemma document_only_builds:
  assumes "app_openapi a = Some c" "oc_path c = ''/openapi.json''" "oc_default_security c = []"
    and "app_plans a = []" "app_route_error a = None" "app_swagger a = None" "app_schemas a = registry_document"
    and "app_static a = Map.empty" "app_metadata a = []"
  shows "\<exists>rt. app_build reason to_text quote a = Ret (Inr rt)"
proof -
  let ?b = "prepare_swagger quote (prepare_openapi reason to_text a)"
  have template: "parse_template ''/openapi.json'' = Ret [Static ''openapi.json'']"
    by code_simp
  obtain rs where rs: "route_set_insert GET 0 empty_route_set = Ret rs"
    using route_set_insert_table[OF wf_empty_route_set, of 0 GET 1] by (auto simp: method_slot_def)
  obtain body where b: "app_openapi ?b = Some c" "app_openapi_bytes ?b = Some body"
    "app_swagger ?b = None" "app_static ?b = Map.empty" "app_plans ?b = []"
    using assms by (cases "app_openapi_bytes a") (simp_all add: prepare_openapi_def prepare_swagger_def)
  obtain b1 where b1: "add_generated_static_route ''/openapi.json'' (static_json body) ?b = Ret (Inr b1)"
      "app_swagger b1 = None"
    using b by (simp add: add_generated_static_route_def template insert_static_def static_entry_def rs Let_def push_route_def)
  have inst: "install_generated_routes ?b = Ret (Inr b1)"
    unfolding install_generated_routes_def b option.case prod.case assms(2) b1(1) bind_outcome_Ret sum.case by (simp add: b1(2))
  have checks: "validate_schemas a = Inr ()" "validate_security a = Inr ()"
    using assms by (simp_all add: validate_schemas_def validate_security_def registry_document_def map_filter_simps)
  show ?thesis
    unfolding app_build_def assms(5) option.case checks bind_result.simps sum.case inst by simp
qed


end
