(* ===== verification/Spec2Isabelle.thy ===== *)
theory Spec2Isabelle
  imports Dispatch_Properties Connection Static_Files Rate_Limit Cors Compress Multipart Bearer Layers Sse Api_Schema Group Web_Socket Derived_Wire Derived_Tags Derived_Program Response_Docs Debug_Views Catch_Polls Serving Document_Cache
begin

text \<open>
  A verification library for \<open>oas-rs\<close>, an HTTP framework that routes requests to typed handlers and
  documents them as OpenAPI 3.1. It is a model of the crate \<open>src/src\<close> and of its derive macro
  \<open>src/oas-rs-macros/src\<close>, with all cargo features on, and the theorems that make the parts correct.
  Paths below are under \<open>src/src\<close> unless they say otherwise.

  \<^bold>\<open>How the program works.\<close> An \<open>App\<close> collects routes, layers and settings of the document; \<open>build\<close> checks
  them and freezes them into an \<open>AppRuntime\<close>, whose tables no longer change. \<open>serve_*\<close> accepts connections
  and gives each a task: the protocol is told, the socket is wrapped so that stalled writes and sent data
  are seen, and hyper is given a service. The service runs a request through the layers whose scope covers
  it and then through the router, a map of literal paths and a trie of patterns; the route's plan says
  whether the body is collected first and how the captures reach the handler's extractors. What the handler
  returns becomes a response, which on a tracked connection holds its request in flight until it has
  been sent.

  \<^bold>\<open>Conventions.\<close> Text and bytes are HOL strings, one character per byte; UTF-8 validity is \<open>utf8_valid\<close>.
  A panic is the value \<open>Panic\<close> of the type \<open>outcome\<close>, a Rust \<open>Result\<close> is a sum, a hash map is a map, a
  struct is a record and an enum a datatype. Words have their width (\<open>u8\<close>, \<open>u32\<close>, \<open>u64\<close>); lengths and times
  are natural numbers, times in milliseconds. An asynchronous function is a function of the outside world
  \<open>'w\<close> that ends with a value or a panic and the changed world; \<open>Inline_Future\<close> and \<open>Catch_Polls\<close> give the
  polls and show that the two views agree. Code outside the repository is a parameter: hyper's bodies
  and connections, tokio's timers and semaphore (their results), serde and \<open>serde_json\<close>, multer's and
  tungstenite's parsers, rustls, brotli and gzip, the file system, clocks, hashers, \<open>FromStr\<close> of number types and
  of header values.

  \<^bold>\<open>Theories and code.\<close>

  \<^item> Foundations: \<open>Rust_Prelude\<close> (panics, results, indexing, the collection \<open>model_defs\<close>), \<open>Rust_Str\<close> (the
    operations of \<open>str\<close> the code uses, UTF-8), \<open>F64\<close> (binary64 as rationals rounded to nearest, ties to even).
  \<^item> Paths and parameters: \<open>Path_Parts\<close> (\<open>path.rs\<close>), \<open>Codec\<close> (\<open>codec.rs\<close>: percent and query decoding),
    \<open>Captures\<close> (\<open>params.rs\<close>, the packed ranges of \<open>router/mod.rs\<close>).
  \<^item> Routing: \<open>Route_Set\<close> (methods of one path), \<open>Route_Trie\<close>, \<open>Trie_Insert\<close>, \<open>Trie_Search\<close> (the trie, insertion,
    the backtracking search), all of \<open>router/mod.rs\<close>; \<open>Route_Store\<close> states a table of routes as a locale that the
    trie and the map of literal paths both interpret.
  \<^item> Messages: \<open>Http_Types\<close> (\<open>response.rs\<close>, JSON, header maps), \<open>Requests\<close>, \<open>Web\<close> (\<open>web.rs\<close>), \<open>Sse\<close> (\<open>sse.rs\<close>),
    \<open>Web_Socket\<close> (\<open>websocket.rs\<close>), \<open>Multipart\<close> (\<open>multipart.rs\<close>), \<open>Debug_Views\<close> (\<open>debug_impls.rs\<close> and the other
    hand-written \<open>Debug\<close>).
  \<^item> Application: \<open>Handlers\<close> (\<open>handler.rs\<close>, \<open>extract/mod.rs\<close>), \<open>Middleware\<close> (\<open>middleware.rs\<close>), \<open>OpenApi_Config\<close>
    (\<open>openapi/\<close>), \<open>App_Builder\<close> and \<open>App_Build\<close> (\<open>app.rs\<close>), \<open>Group\<close> (\<open>group.rs\<close>); \<open>App_Invariant\<close>, \<open>App_Steps\<close> and
    \<open>App_Registration\<close> hold the invariant \<open>wf_app\<close>, the step relation over all methods and when a
    registration is accepted; \<open>Document_Cache\<close> has \<open>App::oneshot\<close> and the cached documents.
  \<^item> Dispatch: \<open>Dispatch\<close> (\<open>runtime.rs\<close>: \<open>prepare\<close>, \<open>prepare_direct\<close>, \<open>prepare_matched\<close>, \<open>handle\<close>,
    \<open>handle_matched\<close>, and the copies in \<open>app.rs\<close>), \<open>Dispatch_Laws\<close>, \<open>Dispatch_Properties\<close>; \<open>Inline_Future\<close>
    (\<open>handler.rs\<close>, \<open>PreparedDispatch\<close>).
  \<^item> Connections, all of \<open>runtime.rs\<close> and \<open>tls.rs\<close>: \<open>Frame_Scanner\<close> and \<open>Tracked_Io\<close> (what was sent, the send
    timeout), \<open>Protocol_Detection\<close> (h2c), \<open>Connection\<close> (accepting, \<open>Activity\<close>, \<open>drive\<close>, \<open>drive_h2\<close>), \<open>Server\<close> (slots,
    connection tasks, shutdown), \<open>Serving\<close> (what the settings make of a connection, and the answer on it).
  \<^item> Layers: \<open>Rate_Limit\<close>, \<open>Cors\<close>, \<open>Compress\<close>, \<open>Bearer\<close>, \<open>Static_Files\<close>, \<open>Layers\<close> (\<open>catch_panic.rs\<close>,
    \<open>error_format.rs\<close>, \<open>request_id.rs\<close>, \<open>trace.rs\<close>), \<open>Catch_Polls\<close>.
  \<^item> Documents: \<open>Schema\<close> (\<open>schema.rs\<close>: registry, references, query parameters), \<open>Api_Schema\<close> (standard
    types), \<open>Response_Docs\<close> (\<open>ResponseMetadata\<close> against \<open>IntoResponse\<close>); the derive macro in \<open>Serde_Attrs\<close>,
    \<open>Derive_Macro\<close> (the expansion, to a syntax tree of the generated code), \<open>Derived_Schema\<close> and
    \<open>Derived_Query\<close> (what that code does), \<open>Derived_Program\<close> (types that refer to each other), \<open>Derived_Wire\<close> and
    \<open>Derived_Tags\<close> (the schemas against serde).

  \<^bold>\<open>What is shown.\<close> Routing: a request reaches a route exactly when one serves its path and method, the
  one that ranks first, with the captures of its path; the trie search is the best match of an abstract
  specification and insertion is an update of a table. Dispatch: no request makes it panic, the connection and
  the in-memory path agree, layers see every route under their prefix, body limits hold on both
  paths. The application: every reachable one is well formed, and the generated document is always the
  current one, however often it was cached before. Connections: the scanner sees a response exactly where a frame
  carries one, detection loses no byte, a stalled client is cut at its time and a busy connection never is,
  an idle one is closed, slots are neither lost nor made up, and a client gets the same answer over every
  transport. Layers: files are only served from below the directory, clients are held to their rate within the
  rounding of binary64, cross-origin grants go to allowed origins, compression is undone by decompression,
  tokens are needed, panics are contained. Formats: events, cookies and renamed names survive a round trip;
  printing for a log reveals no credential. Documents: schemas accept what serde writes and describe what it
  reads, alternatives exclude each other, generation ends, and responses are as documented.

  \<^bold>\<open>Bounds and fuel.\<close> Captures are packed in 64 bits with 32-bit ends, so paths are assumed shorter than \<open>2 ^ 32\<close>;
  route numbers are 32 bits with one value reserved, so an application has room for two generated routes
  below \<open>u32_max\<close>. The loop of the scanner, \<open>feed_loop\<close>, is a partial function, since nothing in its form says that it
  ends; the theorem on it says that it does. The semantics of derived types, \<open>impls_of\<close>, takes fuel because
  generated code calls itself through the types it names; \<open>schema_generation_terminates\<close> gives an amount,
  \<open>(K + 3) * ((card N + 1) * (T + 1))\<close> for \<open>card N\<close> named types, \<open>K\<close> levels of flattening and \<open>T\<close> levels of
  transparent types, from which more fuel changes nothing; it asks that flattened fields and transparent types
  do not lead back to themselves, and \<open>recursion_without_end\<close> shows two programs outside that class for which no
  fuel is enough. \<open>accepts\<close>, the meaning of a schema, takes fuel for the depth of the schema; the theorems hold from
  the nesting depth of the type on. \<open>Max-Age\<close> and the counter of request ids wrap
  as \<open>u64\<close>.

  \<^bold>\<open>Not modelled.\<close> The bytes of an inline future, its pinning and the drop of its value are unsafe code about
  memory, which values do not have; what is modelled of it is the choice of the storage, the assertions and
  the polls. hyper's, tokio's, rustls', multer's and tungstenite's insides and \<open>syn\<close>'s token parser are other
  crates: only what the code hands them and does with their results is here. Threads interleave at the
  granularity of the operations of the step relations (atomics and locked sections), not of instructions.
  Forwarding implementations without behaviour of their own (\<open>Deref\<close>, \<open>From\<close>, \<open>Default\<close>, pass-through
  methods of I/O objects, \<open>Middleware\<close> for functions, constructors that only store a callback) are left to the
  types they forward to. The crate root has re-exports, feature gates and tests; tests, benchmarks,
  examples and scripts are not part of the program.
\<close>

end
